(* ===== verification/Prelude.thy ===== *)
theory Prelude
  imports Complex_Main "HOL-Library.Product_Lexorder" "HOL-Library.List_Lexorder"
    "HOL-Library.Char_ord" "HOL-Library.Sublist" "HOL-Library.Word"
begin

text \<open>
  What every component of the price monitor shares:
  \<^item> Go values: byte strings with the \<open>strings\<close> and \<open>strconv\<close> functions the sources call,
    \<open>int64\<close> arithmetic, \<open>float64\<close> values with Go's comparisons, \<open>time.Time\<close>;
  \<^item> SQL tables as lists of rows with the statements the stores run on them;
  \<^item> the error values of the two stores and the record of the third-party functions
    (UUID parsing, column codecs of the PostgreSQL driver) that are parameters of the model.

  A Go \<open>string\<close> is the list of its bytes, Isabelle's \<open>string\<close>. UUID values are the
  canonical text PostgreSQL and \<open>google/uuid\<close> print. Times are nanoseconds since Go's
  zero \<open>time.Time\<close>, so \<open>t.IsZero()\<close> is \<open>t = 0\<close>; durations are nanoseconds.
\<close>

section \<open>Collections of facts\<close>

named_theorems table_simps \<open>rewriting of the SQL statements on row lists\<close>
named_theorems go_simps \<open>unfolding of the Go standard library functions\<close>

section \<open>Types shared by the model\<close>

type_synonym uuid = string
type_synonym time = int
type_synonym duration = int

text \<open>The statements of one store call that the driver fails, by their number in the call.\<close>

type_synonym faults = "nat \<Rightarrow> bool"

abbreviation no_faults :: faults where
  "no_faults \<equiv> (\<lambda>_. False)"

text \<open>
  The errors a store method returns: the sentinels \<open>ErrNotFound\<close>, \<open>ErrInvalidResult\<close>
  and \<open>ErrInvalidRequest\<close> (possibly wrapped: callers only use \<open>errors.Is\<close>), and
  every other error of the driver or of the server.
\<close>

datatype store_error = ErrNotFound | ErrInvalidResult | ErrInvalidRequest | ErrDB

section \<open>Durations\<close>

definition second :: duration where "second = 1000000000"
definition millisecond :: duration where "millisecond = 1000000"
definition minute :: duration where "minute = 60 * second"
definition hour :: duration where "hour = 60 * minute"

lemmas duration_defs = hour_def minute_def second_def millisecond_def

section \<open>64-bit signed integers\<close>

definition wrap64 :: "int \<Rightarrow> int" where
  "wrap64 i = (i + 2 ^ 63) mod 2 ^ 64 - 2 ^ 63"

definition int64 :: "int \<Rightarrow> bool" where
  "int64 i \<longleftrightarrow> - (2 ^ 63) \<le> i \<and> i < 2 ^ 63"

lemma wrap64_id: "int64 i \<Longrightarrow> wrap64 i = i"
  by (simp add: wrap64_def int64_def)

lemma int64_wrap64: "int64 (wrap64 i)"
proof -
  have "0 \<le> (i + 2 ^ 63) mod 2 ^ 64" and "(i + 2 ^ 63) mod 2 ^ 64 < 2 ^ 64" by simp_all
  then show ?thesis by (simp add: wrap64_def int64_def)
qed

definition incr64 :: "int \<Rightarrow> int" where
  "incr64 v = wrap64 (v + 1)"

lemma incr64_less: "0 \<le> v \<Longrightarrow> v < 2 ^ 63 - 1 \<Longrightarrow> incr64 v = v + 1"
  by (simp add: incr64_def wrap64_id int64_def)

section \<open>Floating point values\<close>

text \<open>
  A finite \<open>float64\<close> is given by its shortest decimal, the number that is printed and
  stored for it; that choice preserves the order, so comparisons are exact. The model has
  more finite values than the format, which only makes the theorems stronger. The two zeros
  are one value. Comparisons with \<open>NaN\<close> are false, as in Go.
\<close>

datatype float64 = Fin rat | PosInf | NegInf | NaN

fun f_lt :: "float64 \<Rightarrow> float64 \<Rightarrow> bool" where
  "f_lt (Fin a) (Fin b) = (a < b)"
| "f_lt (Fin _) PosInf = True"
| "f_lt NegInf (Fin _) = True"
| "f_lt NegInf PosInf = True"
| "f_lt _ _ = False"

fun f_eq :: "float64 \<Rightarrow> float64 \<Rightarrow> bool" where
  "f_eq (Fin a) (Fin b) = (a = b)"
| "f_eq PosInf PosInf = True"
| "f_eq NegInf NegInf = True"
| "f_eq _ _ = False"

definition f_le :: "float64 \<Rightarrow> float64 \<Rightarrow> bool" where
  "f_le a b \<longleftrightarrow> f_lt a b \<or> f_eq a b"

abbreviation f_zero :: float64 where "f_zero \<equiv> Fin 0"

fun f_finite :: "float64 \<Rightarrow> bool" where
  "f_finite (Fin _) = True"
| "f_finite _ = False"

fun f_isNaN :: "float64 \<Rightarrow> bool" where
  "f_isNaN NaN = True"
| "f_isNaN _ = False"

fun f_isInf :: "float64 \<Rightarrow> bool" where
  "f_isInf PosInf = True"
| "f_isInf NegInf = True"
| "f_isInf _ = False"

lemma f_le_Fin [simp]: "f_le (Fin a) (Fin b) \<longleftrightarrow> a \<le> b"
  by (auto simp: f_le_def)

lemma f_eq_finite: "f_finite a \<or> f_finite b \<Longrightarrow> f_eq a b \<longleftrightarrow> a = b"
  by (cases a; cases b) auto

lemma f_eq_imp_eq: "f_eq a b \<Longrightarrow> a = b"
  by (cases a; cases b) auto

lemma f_lt_irrefl [simp]: "\<not> f_lt a a"
  by (cases a) auto

lemma f_lt_trans: "f_lt a b \<Longrightarrow> f_lt b c \<Longrightarrow> f_lt a c"
  by (cases a; cases b; cases c) auto

section \<open>Tables\<close>

text \<open>
  A table is the list of its rows in insertion order. The statements of the sources are
  compositions of: \<open>find\<close> (one row), \<open>filter\<close> (many rows), append (INSERT),
  \<open>update_where\<close>, \<open>delete_where\<close> and \<open>count_where\<close>.
\<close>

definition update_where :: "('r \<Rightarrow> bool) \<Rightarrow> ('r \<Rightarrow> 'r) \<Rightarrow> 'r list \<Rightarrow> 'r list" where
  "update_where P f t = map (\<lambda>r. if P r then f r else r) t"

definition delete_where :: "('r \<Rightarrow> bool) \<Rightarrow> 'r list \<Rightarrow> 'r list" where
  "delete_where P t = filter (\<lambda>r. \<not> P r) t"

definition count_where :: "('r \<Rightarrow> bool) \<Rightarrow> 'r list \<Rightarrow> nat" where
  "count_where P t = length (filter P t)"

definition exists_where :: "('r \<Rightarrow> bool) \<Rightarrow> 'r list \<Rightarrow> bool" where
  "exists_where P t = list_ex P t"

lemma exists_where_iff [table_simps]: "exists_where P t \<longleftrightarrow> (\<exists>r \<in> set t. P r)"
  by (simp add: exists_where_def list_ex_iff)

lemma set_update_where [table_simps]:
  "set (update_where P f t) = (\<lambda>r. if P r then f r else r) ` set t"
  by (simp add: update_where_def)

lemma ball_update_where:
  assumes "\<forall>r \<in> set t. Q r" and "\<And>r. r \<in> set t \<Longrightarrow> P r \<Longrightarrow> Q r \<Longrightarrow> Q (f r)"
  shows "\<forall>r \<in> set (update_where P f t). Q r"
  using assms by (auto simp: update_where_def)

lemma length_update_where [simp]: "length (update_where P f t) = length t"
  by (simp add: update_where_def)

lemma set_delete_where [table_simps]: "set (delete_where P t) = {r \<in> set t. \<not> P r}"
  by (simp add: delete_where_def)

lemma map_update_where:
  assumes "\<And>r. r \<in> set t \<Longrightarrow> P r \<Longrightarrow> k (f r) = k r"
  shows "map k (update_where P f t) = map k t"
  using assms by (simp add: update_where_def)

lemma update_where_none: "(\<And>r. r \<in> set t \<Longrightarrow> \<not> P r) \<Longrightarrow> update_where P f t = t"
  by (simp add: update_where_def map_idI)

lemma filter_update_where:
  "(\<And>r. P r \<Longrightarrow> \<not> Q r \<and> \<not> Q (f r)) \<Longrightarrow> filter Q (update_where P f t) = filter Q t"
  by (induction t) (auto simp: update_where_def)

lemma count_where_0: "count_where P t = 0 \<longleftrightarrow> (\<forall>r \<in> set t. \<not> P r)"
  by (simp add: count_where_def filter_empty_conv)

lemma count_where_pos: "0 < count_where P t \<longleftrightarrow> (\<exists>r \<in> set t. P r)"
  using count_where_0 [of P t] by auto

lemma find_SomeD: "find P t = Some r \<Longrightarrow> r \<in> set t \<and> P r"
  by (induction t) (auto split: if_splits)

lemma find_NoneD: "find P t = None \<Longrightarrow> r \<in> set t \<Longrightarrow> \<not> P r"
  by (induction t) (auto split: if_splits)

lemma find_append: "find P (xs @ ys) = (case find P xs of None \<Rightarrow> find P ys | Some r \<Rightarrow> Some r)"
  by (induction xs) auto

lemma distinct_key_eq:
  "distinct (map k t) \<Longrightarrow> r \<in> set t \<Longrightarrow> r' \<in> set t \<Longrightarrow> k r = k r' \<Longrightarrow> r = r'"
  by (meson distinct_map inj_on_eq_iff)

lemma find_key:
  assumes "distinct (map k t)" and "r \<in> set t"
  shows "find (\<lambda>x. k x = k r) t = Some r"
proof (cases "find (\<lambda>x. k x = k r) t")
  case None
  with assms(2) show ?thesis using find_NoneD by fastforce
next
  case (Some x)
  then have "x \<in> set t" "k x = k r" using find_SomeD by fastforce+
  with assms Some show ?thesis using distinct_key_eq by fastforce
qed

lemma find_key_iff:
  "distinct (map k t) \<Longrightarrow> find (\<lambda>x. k x = a) t = Some r \<longleftrightarrow> r \<in> set t \<and> k r = a"
  using find_key find_SomeD by fastforce

lemma find_update_where:
  assumes "\<And>r. r \<in> set t \<Longrightarrow> P r \<Longrightarrow> Q (f r) = Q r"
  shows "find Q (update_where P f t) = map_option (\<lambda>r. if P r then f r else r) (find Q t)"
  using assms by (induction t) (auto simp: update_where_def)

lemma filter_key_single:
  assumes "distinct (map k t)" and "r \<in> set t"
  shows "filter (\<lambda>x. k x = k r) t = [r]"
  using assms
proof (induction t)
  case (Cons a t)
  then show ?case
    by (cases "a = r") (auto simp: filter_empty_conv, metis image_eqI)
qed simp

end
