(* ===== verification/GoStrings.thy ===== *)
theory GoStrings
  imports Prelude
begin

text \<open>
  The functions of Go's \<open>strings\<close>, \<open>strconv\<close>, \<open>fmt\<close> and \<open>regexp\<close> packages that the
  sources call, on byte strings: prefix and substring search, \<open>ReplaceAll\<close>, decimal
  formatting and parsing of \<open>int64\<close> (\<open>FormatInt\<close>, \<open>ParseInt\<close>, the \<open>%d\<close> verb), the
  \<open>%.0f\<close> verb, and the ASCII part of \<open>ToLower\<close>. The lemmas are the round trip of
  decimal numbers and the injectivity of the keys built from them.
\<close>

section \<open>Searching\<close>

definition has_prefix :: "string \<Rightarrow> string \<Rightarrow> bool" where
  "has_prefix s p \<longleftrightarrow> take (length p) s = p"

definition trim_prefix :: "string \<Rightarrow> string \<Rightarrow> string" where
  "trim_prefix s p = (if has_prefix s p then drop (length p) s else s)"

text \<open>\<open>strings.Index\<close>: the first position where the substring occurs.\<close>

fun str_index :: "string \<Rightarrow> string \<Rightarrow> nat option" where
  "str_index [] sub = (if sub = [] then Some 0 else None)"
| "str_index (c # cs) sub =
     (if has_prefix (c # cs) sub then Some 0 else map_option Suc (str_index cs sub))"

definition contains :: "string \<Rightarrow> string \<Rightarrow> bool" where
  "contains s sub \<longleftrightarrow> str_index s sub \<noteq> None"

lemma has_prefix_prefix: "has_prefix s p \<longleftrightarrow> prefix p s"
  by (metis append_eq_conv_conj append_take_drop_id has_prefix_def prefix_def)

lemma has_prefix_append [simp]: "has_prefix (p @ s) p"
  by (simp add: has_prefix_def)

lemma trim_prefix_append [simp]: "trim_prefix (p @ s) p = s"
  by (simp add: trim_prefix_def)

lemma str_index_SomeD: "str_index s sub = Some i \<Longrightarrow> s = take i s @ sub @ drop (i + length sub) s"
proof (induction s sub arbitrary: i rule: str_index.induct)
  case (1 sub)
  then show ?case by (auto split: if_splits)
next
  case (2 c cs sub)
  show ?case
  proof (cases "has_prefix (c # cs) sub")
    case True
    with "2.prems" show ?thesis by (simp add: has_prefix_def) (metis append_take_drop_id)
  next
    case False
    with "2.prems" obtain j where "str_index cs sub = Some j" "i = Suc j" by auto
    with "2.IH" [OF False] show ?thesis by simp
  qed
qed

lemma contains_iff: "contains s sub \<longleftrightarrow> (\<exists>a b. s = a @ sub @ b)"
proof
  assume "contains s sub"
  then show "\<exists>a b. s = a @ sub @ b"
    by (auto simp: contains_def dest!: str_index_SomeD)
next
  assume "\<exists>a b. s = a @ sub @ b"
  then obtain a b where "s = a @ sub @ b" by blast
  then show "contains s sub"
  proof (induction a arbitrary: s)
    case Nil
    then have "has_prefix s sub" by simp
    then show ?case by (cases s) (auto simp: contains_def has_prefix_def)
  next
    case (Cons x a)
    then show ?case by (auto simp: contains_def)
  qed
qed

text \<open>\<open>strings.ReplaceAll\<close> with a nonempty old string: left to right, no overlaps.\<close>

function replace_all :: "string \<Rightarrow> string \<Rightarrow> string \<Rightarrow> string" where
  "replace_all s old new =
     (if old = [] \<or> s = [] then s
      else if has_prefix s old then new @ replace_all (drop (length old) s) old new
      else hd s # replace_all (tl s) old new)"
  by pat_completeness auto
termination
  by (relation "measure (\<lambda>(s, _, _). length s)") auto

declare replace_all.simps [simp del]

section \<open>Decimal integers\<close>

definition digit :: "nat \<Rightarrow> char" where
  "digit d = char_of (48 + d)"

definition is_digit :: "char \<Rightarrow> bool" where
  "is_digit c \<longleftrightarrow> 48 \<le> (of_char c :: nat) \<and> (of_char c :: nat) \<le> 57"

definition digit_val :: "char \<Rightarrow> nat" where
  "digit_val c = of_char c - 48"

lemma digit_val_digit: "d < 10 \<Longrightarrow> digit_val (digit d) = d"
  by (simp add: digit_val_def digit_def)

lemma is_digit_digit: "d < 10 \<Longrightarrow> is_digit (digit d)"
  by (simp add: is_digit_def digit_def)

lemma digit_val_less: "is_digit c \<Longrightarrow> digit_val c < 10"
  unfolding is_digit_def digit_val_def by arith

fun show_nat :: "nat \<Rightarrow> string" where
  "show_nat n = (if n < 10 then [digit n] else show_nat (n div 10) @ [digit (n mod 10)])"

declare show_nat.simps [simp del]

text \<open>\<open>strconv.FormatInt(i, 10)\<close> and the \<open>%d\<close> verb.\<close>

definition show_int :: "int \<Rightarrow> string" where
  "show_int i = (if i < 0 then CHR ''-'' # show_nat (nat (- i)) else show_nat (nat i))"

definition digits_val :: "string \<Rightarrow> nat" where
  "digits_val cs = foldl (\<lambda>n c. 10 * n + digit_val c) 0 cs"

text \<open>\<open>strconv.ParseInt(s, 10, 64)\<close>: \<open>None\<close> for a syntax or range error.\<close>

definition parse_int64 :: "string \<Rightarrow> int option" where
  "parse_int64 s =
     (let neg = (s \<noteq> [] \<and> hd s = CHR ''-'');
          ds = (if s \<noteq> [] \<and> (hd s = CHR ''-'' \<or> hd s = CHR ''+'') then tl s else s);
          v = (if neg then - int (digits_val ds) else int (digits_val ds))
      in if ds = [] \<or> \<not> list_all is_digit ds \<or> \<not> int64 v then None else Some v)"

lemma show_nat_digits: "list_all is_digit (show_nat n)"
proof (induction n rule: show_nat.induct)
  case (1 n)
  then show ?case by (subst show_nat.simps) (auto simp: is_digit_digit)
qed

lemma show_nat_nonempty: "show_nat n \<noteq> []"
  by (subst show_nat.simps) simp

lemma digits_val_show_nat: "digits_val (show_nat n) = n"
proof (induction n rule: show_nat.induct)
  case (1 n)
  show ?case
  proof (cases "n < 10")
    case True
    then show ?thesis by (subst show_nat.simps) (simp add: digits_val_def digit_val_digit)
  next
    case False
    with 1 have "digits_val (show_nat (n div 10)) = n div 10" by simp
    with False show ?thesis
      by (subst show_nat.simps) (simp add: digits_val_def digit_val_digit)
  qed
qed

lemma show_nat_inj: "show_nat m = show_nat n \<Longrightarrow> m = n"
  by (metis digits_val_show_nat)

lemma is_digit_minus [simp]: "\<not> is_digit (CHR ''-'')" "\<not> is_digit (CHR ''+'')" "\<not> is_digit (CHR '':'')"
  by (simp_all add: is_digit_def)

lemma hd_show_nat: "is_digit (hd (show_nat n))"
  using show_nat_digits [of n] show_nat_nonempty [of n] by (cases "show_nat n") auto

theorem parse_show_int: "int64 i \<Longrightarrow> parse_int64 (show_int i) = Some i"
proof (cases "i < 0")
  case True
  assume "int64 i"
  with True show ?thesis
    using show_nat_nonempty [of "nat (- i)"] show_nat_digits [of "nat (- i)"]
    by (simp add: parse_int64_def show_int_def Let_def digits_val_show_nat)
next
  case False
  assume "int64 i"
  moreover have "hd (show_nat (nat i)) \<noteq> CHR ''-''" "hd (show_nat (nat i)) \<noteq> CHR ''+''"
    using hd_show_nat [of "nat i"] by auto
  ultimately show ?thesis using False
    using show_nat_nonempty [of "nat i"] show_nat_digits [of "nat i"]
    by (simp add: parse_int64_def show_int_def Let_def digits_val_show_nat)
qed

lemma show_int_negative: "hd (show_int i) = CHR ''-'' \<longleftrightarrow> i < 0"
proof (cases "i < 0")
  case False
  moreover have "hd (show_nat (nat i)) \<noteq> CHR ''-''" using hd_show_nat [of "nat i"] by auto
  ultimately show ?thesis by (simp add: show_int_def)
qed (simp add: show_int_def)

lemma show_int_inj:
  assumes "show_int i = show_int j"
  shows "i = j"
proof -
  from assms have "i < 0 \<longleftrightarrow> j < 0" by (metis show_int_negative)
  with assms show ?thesis by (cases "i < 0") (auto simp: show_int_def dest!: show_nat_inj)
qed

lemma show_int_no_colon: "CHR '':'' \<notin> set (show_int i)"
proof -
  have "CHR '':'' \<notin> set (show_nat n)" for n
    using show_nat_digits [of n] by (auto simp: list_all_iff)
  then show ?thesis by (simp add: show_int_def)
qed

section \<open>The verb \<open>%.0f\<close>\<close>

text \<open>Round half to even, as \<open>strconv.FormatFloat(f, 'f', 0, 64)\<close> does on the exact value.\<close>

definition round_half_even :: "rat \<Rightarrow> int" where
  "round_half_even q =
     (let f = floor q; d = q - of_int f
      in if d < 1 / 2 then f else if d > 1 / 2 then f + 1 else if even f then f else f + 1)"

fun fmt_f0 :: "float64 \<Rightarrow> string" where
  "fmt_f0 (Fin q) =
     (if q < 0 then CHR ''-'' # show_int (round_half_even (- q)) else show_int (round_half_even q))"
| "fmt_f0 PosInf = ''+Inf''"
| "fmt_f0 NegInf = ''-Inf''"
| "fmt_f0 NaN = ''NaN''"

section \<open>The verb \<open>%q\<close>\<close>

text \<open>
  \<open>strconv.Quote\<close>, the verb \<open>%q\<close>: exact on ASCII; what it makes of the other bytes
  (which runes are printable) is the parameter \<open>uni\<close>, byte by byte.
\<close>

definition hex_digit :: "nat \<Rightarrow> char" where
  "hex_digit d = (if d < 10 then char_of (48 + d) else char_of (87 + d))"

definition quote_char :: "(char \<Rightarrow> string) \<Rightarrow> char \<Rightarrow> string" where
  "quote_char uni c =
     (let b = of_char c :: nat
      in if b = 34 then [CHR 0x5C, CHR 0x22]
         else if b = 92 then [CHR 0x5C, CHR 0x5C]
         else if b = 7 then [CHR 0x5C, CHR ''a''] else if b = 8 then [CHR 0x5C, CHR ''b'']
         else if b = 12 then [CHR 0x5C, CHR ''f''] else if b = 10 then [CHR 0x5C, CHR ''n'']
         else if b = 13 then [CHR 0x5C, CHR ''r''] else if b = 9 then [CHR 0x5C, CHR ''t'']
         else if b = 11 then [CHR 0x5C, CHR ''v'']
         else if b < 32 \<or> b = 127 then [CHR 0x5C, CHR ''x'', hex_digit (b div 16), hex_digit (b mod 16)]
         else if b < 127 then [c] else uni c)"

definition go_quote :: "(char \<Rightarrow> string) \<Rightarrow> string \<Rightarrow> string" where
  "go_quote uni s = [CHR 0x22] @ concat (map (quote_char uni) s) @ [CHR 0x22]"

text \<open>Text literals of the sources that are not ASCII are written as their UTF-8 bytes.\<close>

definition utf8 :: "nat list \<Rightarrow> string" where
  "utf8 bs = map char_of bs"


section \<open>TrimSpace\<close>

text \<open>\<open>strings.TrimSpace\<close>: the UTF-8 encodings of the white space characters of Unicode.\<close>

definition spaces :: "string list" where
  "spaces = map utf8 ([[9], [10], [11], [12], [13], [32], [194, 133], [194, 160], [225, 154, 128]] @
     map (\<lambda>b. [226, 128, b]) [128, 129, 130, 131, 132, 133, 134, 135, 136, 137, 138, 168, 169, 175] @
     [[226, 129, 159], [227, 128, 128]])"

definition first_space :: "string \<Rightarrow> string option" where
  "first_space s = find (has_prefix s) spaces"

lemma first_space_SomeD: "first_space s = Some w \<Longrightarrow> has_prefix s w \<and> w \<noteq> []"
  unfolding first_space_def by (drule find_SomeD) (auto simp: spaces_def utf8_def)

function trim_left :: "string \<Rightarrow> string" where
  "trim_left s = (case first_space s of None \<Rightarrow> s | Some w \<Rightarrow> trim_left (drop (length w) s))"
  by pat_completeness auto
termination
proof (relation "measure length")
  fix s w assume "first_space s = Some w"
  then have "has_prefix s w" "w \<noteq> []" using first_space_SomeD by blast+
  then show "(drop (length w) s, s) \<in> measure length" by (cases s) (auto simp: has_prefix_def)
qed simp

definition last_space :: "string \<Rightarrow> string option" where
  "last_space s = find (\<lambda>w. has_prefix (rev s) (rev w)) spaces"

lemma last_space_SomeD: "last_space s = Some w \<Longrightarrow> has_prefix (rev s) (rev w) \<and> w \<noteq> []"
  unfolding last_space_def by (drule find_SomeD) (auto simp: spaces_def utf8_def)

function trim_right :: "string \<Rightarrow> string" where
  "trim_right s = (case last_space s of None \<Rightarrow> s | Some w \<Rightarrow> trim_right (take (length s - length w) s))"
  by pat_completeness auto
termination
proof (relation "measure length")
  fix s w assume "last_space s = Some w"
  then have "has_prefix (rev s) (rev w)" "w \<noteq> []" using last_space_SomeD by blast+
  then show "(take (length s - length w) s, s) \<in> measure length" by (cases s) (auto simp: has_prefix_def)
qed simp

declare trim_left.simps [simp del] trim_right.simps [simp del]

definition TrimSpace :: "string \<Rightarrow> string" where
  "TrimSpace s = trim_right (trim_left s)"

end
