(* ===== verification/Contracts.thy ===== *)
theory Contracts
  imports GoStrings
begin

text \<open>
  The messages of \<open>shared/pkg/contracts/messages.go\<close> as records (one per struct, fields in
  the source's order), the queue names of \<open>shared/pkg/broker/rabbitmq.go\<close>, the JSON values
  that travel through the outboxes and the broker, and what a consumer does with a delivery.
  A JSON body is the value it decodes to; a body that does not decode is \<open>JInvalid\<close> of its
  bytes, which is what \<open>json.Unmarshal\<close> and \<open>json.Valid\<close> are used to find out.
\<close>

section \<open>Messages\<close>

record LookupTask =
  lt_TaskID :: string
  lt_LookupID :: string
  lt_URL :: string
  lt_Platform :: string

record ScraperTask =
  st_TaskID :: string
  st_ProductID :: string
  st_URL :: string
  st_Platform :: string
  st_ScheduledAt :: time
  st_Force :: bool
  st_ChatID :: int

record PriceResult =
  pr_TaskID :: string
  pr_LookupID :: string
  pr_ProductID :: string
  pr_URL :: string
  pr_Name :: string
  pr_Price :: float64
  pr_Currency :: string
  pr_ScrapedAt :: time
  pr_Success :: bool
  pr_Error :: string
  pr_Force :: bool
  pr_ChatID :: int

record TrackRequest =
  tr_TaskID :: string
  tr_Action :: string
  tr_Version :: int
  tr_Active :: bool
  tr_ProductID :: string
  tr_URL :: string
  tr_Platform :: string
  tr_IntervalHours :: int
  tr_ChatID :: int

record NotifyTask =
  nt_TaskID :: string
  nt_Channel :: string
  nt_Target :: string
  nt_Text :: string
  nt_Direction :: string
  nt_NotBefore :: time

section \<open>Queues\<close>

definition QueueLookupTasks :: string where "QueueLookupTasks = ''lookup.tasks''"
definition QueueScraperTasks :: string where "QueueScraperTasks = ''scraper.tasks''"
definition QueuePriceResults :: string where "QueuePriceResults = ''price.results''"
definition QueueTrackRequests :: string where "QueueTrackRequests = ''track.requests''"
definition QueueNotifyTasks :: string where "QueueNotifyTasks = ''notify.tasks''"
definition QueueNotifyRetry :: string where "QueueNotifyRetry = ''notify.retry''"
definition QueueNotifyDead :: string where "QueueNotifyDead = ''notify.dead''"
definition NotifyRetryDelay :: duration where "NotifyRetryDelay = 30 * second"

lemmas queue_defs = QueueLookupTasks_def QueueScraperTasks_def QueuePriceResults_def
  QueueTrackRequests_def QueueNotifyTasks_def QueueNotifyRetry_def QueueNotifyDead_def

section \<open>JSON bodies\<close>

datatype json =
    JLookup LookupTask
  | JScraper ScraperTask
  | JResult PriceResult
  | JTrack TrackRequest
  | JNotify NotifyTask
  | JDead NotifyTask string        \<comment> \<open>the notifier's \<open>deadEnvelope\<close>\<close>
  | JMalformed string string       \<comment> \<open>the notifier's \<open>malformedEnvelope\<close>\<close>
  | JInvalid string

text \<open>\<open>json.Valid\<close>.\<close>

fun json_Valid :: "json \<Rightarrow> bool" where
  "json_Valid (JInvalid _) = False"
| "json_Valid _ = True"

text \<open>
  \<open>json.Marshal\<close> fails on a \<open>float64\<close> that is not finite; \<open>PriceResult\<close> is the only
  message with one.
\<close>

fun json_Marshal_ok :: "json \<Rightarrow> bool" where
  "json_Marshal_ok (JResult r) = f_finite (pr_Price r)"
| "json_Marshal_ok (JInvalid _) = False"
| "json_Marshal_ok _ = True"

text \<open>
  What a consumer does with one delivery: \<open>Ack(false)\<close>, \<open>Nack(false, false)\<close> (drop),
  \<open>Nack(false, true)\<close> (requeue), or nothing (the broker redelivers it when the channel
  closes).
\<close>

datatype settle = Ack | NackDrop | NackRequeue | Unsettled

section \<open>Third-party functions\<close>

text \<open>
  The functions of code outside the repository that the stores depend on:
  \<open>uuid_parse\<close> is \<open>google/uuid\<close>'s \<open>Parse\<close> followed by \<open>String\<close>; \<open>pg_uuid\<close> is the
  driver's conversion of a Go string to a \<open>UUID\<close> parameter; \<open>numcol\<close> is what a
  \<open>float64\<close> is read back as after it was stored in a \<open>NUMERIC(12,2)\<close> column (\<open>None\<close>:
  the server rejects it); \<open>tscol\<close> the same for a \<open>time.Time\<close> in a \<open>TIMESTAMPTZ\<close> column.
\<close>

record services =
  uuid_parse :: "string \<Rightarrow> uuid option"
  pg_uuid :: "string \<Rightarrow> uuid option"
  numcol :: "float64 \<Rightarrow> float64 option"
  tscol :: "time \<Rightarrow> time"

text \<open>
  An instance for evaluating the model: every nonempty text is its own UUID, a column of
  scale 2 rounds half away from zero and rejects ten integer digits, times keep microseconds.
\<close>

definition demo_uuid :: "string \<Rightarrow> uuid option" where
  "demo_uuid s = (if s = [] then None else Some s)"

fun demo_numcol :: "float64 \<Rightarrow> float64 option" where
  "demo_numcol (Fin q) =
     (let c = (if q < 0 then - floor (- q * 100 + 1 / 2) else floor (q * 100 + 1 / 2))
      in if \<bar>c\<bar> < 10 ^ 12 then Some (Fin (of_int c / 100)) else None)"
| "demo_numcol NaN = Some NaN"
| "demo_numcol _ = None"

definition demo :: services where
  "demo = \<lparr>uuid_parse = demo_uuid, pg_uuid = demo_uuid, numcol = demo_numcol,
     tscol = (\<lambda>t. t - t mod 1000)\<rparr>"

lemma demo_simps [simp]:
  "uuid_parse demo = demo_uuid" "pg_uuid demo = demo_uuid" "numcol demo = demo_numcol"
  "tscol demo = (\<lambda>t. t - t mod 1000)"
  by (simp_all add: demo_def)

end
