(* ===== verification/Broker.thy ===== *)
theory Broker
  imports Contracts
begin

text \<open>
  The connection of \<open>shared/pkg/broker/rabbitmq.go\<close>. The \<open>Publish\<close> calls of the service's goroutines
  are processes that share the publisher's fields under the mutex, take turns at the publish gate and
  interleave with each other, with the server, with the end of their contexts and with \<open>Close\<close>.
  Every rule is one critical section or one blocking operation of the code. What bounds the time of a
  dial, a handshake or a write are the deadlines the code sets; here each of them ends, with or
  without an error. The second part holds the setup of connections and queues.
\<close>

section \<open>State\<close>

text \<open>
  A message on the wire is the call that published it and whether it is its second attempt; the code
  does not see either. What the server has done with a message it has not confirmed yet is its fate.
\<close>

type_synonym message = "nat \<times> bool"

datatype fate = Sent | Taken | Bounced | Refused

text \<open>
  One publisher: its AMQP connection and channel, what is on the wire, and the two Go channels of
  \<open>NotifyReturn\<close> and \<open>NotifyPublish\<close>, which the library closes with the AMQP channel.
\<close>

record publisher =
  pb_conn :: bool
  pb_chan :: bool
  pb_sent :: "(message \<times> fate) list"
  pb_returns :: "message list"
  pb_confirms :: "(message \<times> bool) list"

definition fresh_publisher :: publisher where
  "fresh_publisher = \<lparr>pb_conn = True, pb_chan = True, pb_sent = [], pb_returns = [], pb_confirms = []\<rparr>"

datatype publish_error =
  MarshalError | Unavailable | DeadlineError | WriteError | ConfirmsClosed | Unroutable | Nacked
| CtxError | RedialError | ConnectionClosed

text \<open>
  Where a \<open>Publish\<close> call stands; the \<open>bool\<close> tells the second \<open>publishOn\<close> from the first, the number
  is the publisher it read, \<open>Awaiting\<close> has the local \<open>returned\<close> and whether \<open>returns\<close> is not nil.
\<close>

datatype pc =
  Idle
| Gate bool
| Entered bool
| Ready bool nat
| Bound bool nat "nat option"
| Writing bool nat "nat option"
| Awaiting bool nat "nat option" "message option" bool
| Confirmed bool nat "publish_error option"
| Retiring bool nat "publish_error option"
| Failed publish_error
| RedialGate
| Redialing
| Dialing
| SocketSet nat
| Opened nat
| Returned "publish_error option"

text \<open>
  \<open>Connection\<close>: \<open>pubConn\<close> and \<open>publishCh\<close> are always set and reset together, and so are \<open>confirms\<close> and
  \<open>returns\<close> (\<open>bc_streams\<close>). The publishers opened so far are numbered. \<open>bc_queue\<close> is what the
  server has taken into its queues, in order.
\<close>

record Connection =
  bc_closed :: bool
  bc_publishCh :: "nat option"
  bc_streams :: "nat option"
  bc_pubNetConn :: "nat option"
  bc_gate :: "nat option"
  bc_next :: nat
  bc_pubs :: "nat \<Rightarrow> publisher"
  bc_call :: "nat \<Rightarrow> pc"
  bc_done :: "nat \<Rightarrow> bool"
  bc_queue :: "message list"

definition goto :: "nat \<Rightarrow> pc \<Rightarrow> Connection \<Rightarrow> Connection" where
  "goto i p s = s\<lparr>bc_call := (bc_call s)(i := p)\<rparr>"

definition on_pub :: "nat \<Rightarrow> (publisher \<Rightarrow> publisher) \<Rightarrow> Connection \<Rightarrow> Connection" where
  "on_pub k f s = s\<lparr>bc_pubs := (bc_pubs s)(k := f (bc_pubs s k))\<rparr>"

definition release :: "Connection \<Rightarrow> Connection" where
  "release s = s\<lparr>bc_gate := None\<rparr>"

text \<open>Closing the socket, or the AMQP connection with \<open>CloseDeadline\<close>.\<close>

definition shut :: "nat option \<Rightarrow> Connection \<Rightarrow> Connection" where
  "shut k s = (case k of None \<Rightarrow> s | Some k \<Rightarrow> on_pub k (\<lambda>p. p\<lparr>pb_conn := False, pb_chan := False\<rparr>) s)"

definition forget_publisher :: "Connection \<Rightarrow> Connection" where
  "forget_publisher s = s\<lparr>bc_publishCh := None, bc_streams := None, bc_pubNetConn := None\<rparr>"

text \<open>A connection as \<open>NewConnection\<close> returns it.\<close>

definition new_connection :: Connection where
  "new_connection = \<lparr>bc_closed = False, bc_publishCh = Some 0, bc_streams = Some 0, bc_pubNetConn = Some 0,
     bc_gate = None, bc_next = 1, bc_pubs = (\<lambda>_. fresh_publisher), bc_call = (\<lambda>_. Idle), bc_done = (\<lambda>_. False),
     bc_queue = []\<rparr>"

section \<open>Publishing\<close>

definition retirePublisher :: "nat \<Rightarrow> Connection \<Rightarrow> Connection" where
  "retirePublisher c s =
     (if bc_publishCh s = Some c then shut (bc_pubNetConn s) (shut (Some c) (forget_publisher s)) else s)"

definition isDead :: "Connection \<Rightarrow> bool" where
  "isDead s \<longleftrightarrow> bc_closed s \<or>
     (case bc_publishCh s of None \<Rightarrow> True | Some c \<Rightarrow> \<not> pb_conn (bc_pubs s c) \<or> \<not> pb_chan (bc_pubs s c))"

definition Close :: "Connection \<Rightarrow> Connection" where
  "Close s =
     (if bc_closed s then s
      else shut (bc_pubNetConn s) (shut (bc_publishCh s) ((forget_publisher s)\<lparr>bc_closed := True\<rparr>)))"

text \<open>How \<open>publishOn\<close> returns: the first attempt's error goes back to \<open>Publish\<close>.\<close>

definition finish_attempt :: "bool \<Rightarrow> publish_error option \<Rightarrow> pc" where
  "finish_attempt again e =
     (case e of None \<Rightarrow> Returned None | Some e \<Rightarrow> if again then Returned (Some e) else Failed e)"

text \<open>
  \<open>awaitConfirm\<close>: a rule per case of its \<open>select\<close>; the inner non-blocking receive belongs to the case
  of the confirmation. A nil Go channel never is ready.
\<close>

definition verdict :: "message option \<Rightarrow> bool \<Rightarrow> publish_error option" where
  "verdict returned ack = (if returned \<noteq> None then Some Unroutable else if \<not> ack then Some Nacked else None)"

inductive awaitConfirm_step :: "nat \<Rightarrow> Connection \<Rightarrow> Connection \<Rightarrow> bool" for i where
  aw_returned: "bc_call s i = Awaiting b c (Some k) ret True \<Longrightarrow> pb_returns (bc_pubs s k) = m # ms \<Longrightarrow>
    awaitConfirm_step i s (goto i (Awaiting b c (Some k) (Some m) False) (on_pub k (\<lambda>p. p\<lparr>pb_returns := ms\<rparr>) s))"
| aw_returns_closed: "bc_call s i = Awaiting b c (Some k) ret True \<Longrightarrow> pb_returns (bc_pubs s k) = [] \<Longrightarrow>
    \<not> pb_chan (bc_pubs s k) \<Longrightarrow> awaitConfirm_step i s (goto i (Awaiting b c (Some k) ret False) s)"
| aw_confirm: "bc_call s i = Awaiting b c (Some k) None True \<Longrightarrow> pb_confirms (bc_pubs s k) = (m, ack) # cs \<Longrightarrow>
    pb_returns (bc_pubs s k) = [] \<Longrightarrow>
    awaitConfirm_step i s (goto i (Confirmed b c (verdict None ack)) (on_pub k (\<lambda>p. p\<lparr>pb_confirms := cs\<rparr>) s))"
| aw_confirm_returned: "bc_call s i = Awaiting b c (Some k) None True \<Longrightarrow>
    pb_confirms (bc_pubs s k) = (m, ack) # cs \<Longrightarrow> pb_returns (bc_pubs s k) = r # rs \<Longrightarrow>
    awaitConfirm_step i s (goto i (Confirmed b c (verdict (Some r) ack))
      (on_pub k (\<lambda>p. p\<lparr>pb_confirms := cs, pb_returns := rs\<rparr>) s))"
| aw_confirm_deaf: "bc_call s i = Awaiting b c (Some k) ret False \<Longrightarrow> pb_confirms (bc_pubs s k) = (m, ack) # cs \<Longrightarrow>
    awaitConfirm_step i s (goto i (Confirmed b c (verdict ret ack)) (on_pub k (\<lambda>p. p\<lparr>pb_confirms := cs\<rparr>) s))"
| aw_confirms_closed: "bc_call s i = Awaiting b c (Some k) ret l \<Longrightarrow> pb_confirms (bc_pubs s k) = [] \<Longrightarrow>
    \<not> pb_chan (bc_pubs s k) \<Longrightarrow> awaitConfirm_step i s (goto i (Confirmed b c (Some ConfirmsClosed)) s)"
| aw_ctx: "bc_call s i = Awaiting b c st ret l \<Longrightarrow> bc_done s i \<Longrightarrow>
    awaitConfirm_step i s (goto i (Confirmed b c (Some CtxError)) s)"

text \<open>
  \<open>publishOn\<close>, which holds the gate from \<open>Entered\<close> to its return. A write that reports an error
  may have sent the message.
\<close>

definition send_on :: "nat \<Rightarrow> message \<Rightarrow> Connection \<Rightarrow> Connection" where
  "send_on c m = on_pub c (\<lambda>p. p\<lparr>pb_sent := pb_sent p @ [(m, Sent)]\<rparr>)"

inductive publishOn_step :: "nat \<Rightarrow> Connection \<Rightarrow> Connection \<Rightarrow> bool" for i where
  po_gate: "bc_call s i = Gate b \<Longrightarrow> bc_gate s = None \<Longrightarrow> publishOn_step i s (goto i (Entered b) (s\<lparr>bc_gate := Some i\<rparr>))"
| po_gate_ctx: "bc_call s i = Gate b \<Longrightarrow> bc_done s i \<Longrightarrow> publishOn_step i s (goto i (finish_attempt b (Some CtxError)) s)"
| po_unavailable: "bc_call s i = Entered b \<Longrightarrow>
    bc_closed s \<or> bc_publishCh s = None \<or> (\<exists>c. bc_publishCh s = Some c \<and> \<not> pb_chan (bc_pubs s c)) \<Longrightarrow>
    publishOn_step i s (goto i (finish_attempt b (Some Unavailable)) (release s))"
| po_channel: "bc_call s i = Entered b \<Longrightarrow> \<not> bc_closed s \<Longrightarrow> bc_publishCh s = Some c \<Longrightarrow> pb_chan (bc_pubs s c) \<Longrightarrow>
    publishOn_step i s (goto i (Ready b c) s)"
| po_streams: "bc_call s i = Ready b c \<Longrightarrow> publishOn_step i s (goto i (Bound b c (bc_streams s)) s)"
| po_deadline: "bc_call s i = Bound b c st \<Longrightarrow> bc_pubNetConn s \<noteq> None \<Longrightarrow> publishOn_step i s (goto i (Writing b c st) s)"
| po_deadline_error: "bc_call s i = Bound b c st \<Longrightarrow> publishOn_step i s (goto i (Retiring b c (Some DeadlineError)) s)"
| po_write: "bc_call s i = Writing b c st \<Longrightarrow> pb_chan (bc_pubs s c) \<Longrightarrow>
    publishOn_step i s (goto i (Awaiting b c st None (st \<noteq> None)) (send_on c (i, b) s))"
| po_write_error: "bc_call s i = Writing b c st \<Longrightarrow> publishOn_step i s (goto i (Retiring b c (Some WriteError)) s)"
| po_write_lost: "bc_call s i = Writing b c st \<Longrightarrow> pb_chan (bc_pubs s c) \<Longrightarrow>
    publishOn_step i s (goto i (Retiring b c (Some WriteError)) (send_on c (i, b) s))"
| po_await: "awaitConfirm_step i s s' \<Longrightarrow> publishOn_step i s s'"
| po_confirmed: "bc_call s i = Confirmed b c e \<Longrightarrow> \<not> bc_done s i \<Longrightarrow>
    publishOn_step i s (goto i (finish_attempt b e) (release s))"
| po_cancelled: "bc_call s i = Confirmed b c e \<Longrightarrow> bc_done s i \<Longrightarrow> publishOn_step i s (goto i (Retiring b c e) s)"
| po_retire: "bc_call s i = Retiring b c e \<Longrightarrow>
    publishOn_step i s (goto i (finish_attempt b e) (release (retirePublisher c s)))"

text \<open>
  \<open>openPublisher\<close>: the dial, the fields it sets, and the handshakes between them, any of which may
  fail; a failure after the dial closes the socket but leaves \<open>pubNetConn\<close> set.
\<close>

inductive openPublisher_step :: "nat \<Rightarrow> Connection \<Rightarrow> Connection \<Rightarrow> bool" for i where
  op_dial_error: "bc_call s i = Dialing \<Longrightarrow> openPublisher_step i s (goto i (Returned (Some RedialError)) (release s))"
| op_socket: "bc_call s i = Dialing \<Longrightarrow> k = bc_next s \<Longrightarrow>
    openPublisher_step i s (goto i (SocketSet k)
      (on_pub k (\<lambda>_. fresh_publisher) (s\<lparr>bc_next := Suc k, bc_pubNetConn := Some k\<rparr>)))"
| op_setup_error: "bc_call s i = SocketSet k \<Longrightarrow>
    openPublisher_step i s (goto i (Returned (Some RedialError)) (release (shut (Some k) s)))"
| op_setup: "bc_call s i = SocketSet k \<Longrightarrow> openPublisher_step i s (goto i (Opened k) (s\<lparr>bc_streams := Some k\<rparr>))"

inductive redial_step :: "nat \<Rightarrow> Connection \<Rightarrow> Connection \<Rightarrow> bool" for i where
  rd_gate: "bc_call s i = RedialGate \<Longrightarrow> bc_gate s = None \<Longrightarrow> redial_step i s (goto i Redialing (s\<lparr>bc_gate := Some i\<rparr>))"
| rd_gate_ctx: "bc_call s i = RedialGate \<Longrightarrow> bc_done s i \<Longrightarrow> redial_step i s (goto i (Returned (Some CtxError)) s)"
| rd_closed: "bc_call s i = Redialing \<Longrightarrow> bc_closed s \<Longrightarrow>
    redial_step i s (goto i (Returned (Some ConnectionClosed)) (release s))"
| rd_alive: "bc_call s i = Redialing \<Longrightarrow> \<not> bc_closed s \<Longrightarrow> \<not> isDead s \<Longrightarrow> redial_step i s (goto i (Gate True) (release s))"
| rd_reset: "bc_call s i = Redialing \<Longrightarrow> \<not> bc_closed s \<Longrightarrow> isDead s \<Longrightarrow>
    redial_step i s (goto i Dialing (shut (bc_pubNetConn s) (shut (bc_publishCh s) (forget_publisher s))))"
| rd_ctx: "bc_call s i = Dialing \<Longrightarrow> bc_done s i \<Longrightarrow> redial_step i s (goto i (Returned (Some CtxError)) (release s))"
| rd_open: "openPublisher_step i s s' \<Longrightarrow> redial_step i s s'"
| rd_opened_closed: "bc_call s i = Opened k \<Longrightarrow> bc_closed s \<Longrightarrow>
    redial_step i s (goto i (Returned (Some ConnectionClosed)) (release (shut (bc_pubNetConn s) (shut (Some k) s))))"
| rd_install: "bc_call s i = Opened k \<Longrightarrow> \<not> bc_closed s \<Longrightarrow>
    redial_step i s (goto i (Gate True) (release (s\<lparr>bc_publishCh := Some k\<rparr>)))"

inductive Publish_step :: "nat \<Rightarrow> Connection \<Rightarrow> Connection \<Rightarrow> bool" for i where
  pu_marshal_error: "bc_call s i = Idle \<Longrightarrow> Publish_step i s (goto i (Returned (Some MarshalError)) s)"
| pu_start: "bc_call s i = Idle \<Longrightarrow> Publish_step i s (goto i (Gate False) s)"
| pu_attempt: "publishOn_step i s s' \<Longrightarrow> Publish_step i s s'"
| pu_give_up: "bc_call s i = Failed e \<Longrightarrow> bc_done s i \<or> \<not> isDead s \<Longrightarrow> Publish_step i s (goto i (Returned (Some e)) s)"
| pu_redial: "bc_call s i = Failed e \<Longrightarrow> \<not> bc_done s i \<Longrightarrow> isDead s \<Longrightarrow> Publish_step i s (goto i RedialGate s)"
| pu_redialing: "redial_step i s s' \<Longrightarrow> Publish_step i s s'"

text \<open>
  The server and the library, as AMQP documents them: messages are handled in order, each is taken,
  refused, or returned because no queue has its name; it is confirmed after that, and a returned
  message is acknowledged too. A channel or a connection may break at any time, and what was on the
  wire may still arrive.
\<close>

inductive server_step :: "Connection \<Rightarrow> Connection \<Rightarrow> bool" where
  sv_take: "pb_sent (bc_pubs s k) = (m, Sent) # ms \<Longrightarrow>
    server_step s ((on_pub k (\<lambda>p. p\<lparr>pb_sent := (m, Taken) # ms\<rparr>) s)\<lparr>bc_queue := bc_queue s @ [m]\<rparr>)"
| sv_bounce: "pb_sent (bc_pubs s k) = (m, Sent) # ms \<Longrightarrow> pb_chan (bc_pubs s k) \<Longrightarrow>
    server_step s (on_pub k (\<lambda>p. p\<lparr>pb_sent := (m, Bounced) # ms, pb_returns := pb_returns p @ [m]\<rparr>) s)"
| sv_refuse: "pb_sent (bc_pubs s k) = (m, Sent) # ms \<Longrightarrow>
    server_step s (on_pub k (\<lambda>p. p\<lparr>pb_sent := (m, Refused) # ms\<rparr>) s)"
| sv_confirm: "pb_sent (bc_pubs s k) = (m, f) # ms \<Longrightarrow> f \<noteq> Sent \<Longrightarrow> pb_chan (bc_pubs s k) \<Longrightarrow>
    server_step s (on_pub k (\<lambda>p. p\<lparr>pb_sent := ms, pb_confirms := pb_confirms p @ [(m, f \<noteq> Refused)]\<rparr>) s)"
| sv_break_chan: "server_step s (on_pub k (\<lambda>p. p\<lparr>pb_chan := False\<rparr>) s)"
| sv_break_conn: "server_step s (on_pub k (\<lambda>p. p\<lparr>pb_conn := False\<rparr>) s)"

text \<open>A step of call \<open>i\<close> (\<open>Some i\<close>), or of the server, \<open>Close\<close> or the end of a context (\<open>None\<close>).\<close>

inductive conn_step :: "nat option \<Rightarrow> Connection \<Rightarrow> Connection \<Rightarrow> bool" where
  cs_call: "Publish_step i s s' \<Longrightarrow> conn_step (Some i) s s'"
| cs_server: "server_step s s' \<Longrightarrow> conn_step None s s'"
| cs_close: "conn_step None s (Close s)"
| cs_cancel: "conn_step None s (s\<lparr>bc_done := (bc_done s)(i := True)\<rparr>)"

text \<open>The runs of a new connection, with who made each step.\<close>

inductive conn_run :: "nat option list \<Rightarrow> Connection \<Rightarrow> bool" where
  cr_new: "conn_run [] new_connection"
| cr_step: "conn_run tr s \<Longrightarrow> conn_step a s s' \<Longrightarrow> conn_run (tr @ [a]) s'"

section \<open>Connecting\<close>

text \<open>
  \<open>dial\<close>: the calls of the library, by number, that fail; what is left open and the error. The last
  branch is for a connection that \<open>Close\<close> reached first; it leaves the publisher's AMQP connection
  open.
\<close>

datatype resource = ConsumerConnection | ConsumerChannel | PublisherConnection

datatype dial_error = DialError | OpenChannelError | QosError | PublisherError | ClosedError

definition dial :: "faults \<Rightarrow> bool \<Rightarrow> resource list \<times> dial_error option" where
  "dial flt is_closed =
     (if flt 0 then ([], Some DialError)
      else if flt 1 then ([], Some OpenChannelError)
      else if flt 2 then ([], Some QosError)
      else if flt 3 then ([], Some PublisherError)
      else if is_closed then ([PublisherConnection], Some ClosedError)
      else ([ConsumerConnection, ConsumerChannel, PublisherConnection], None))"

text \<open>
  \<open>ConnectWithRetry\<close>: the outcomes of \<open>NewConnection\<close> by attempt; the pauses, and the attempt that
  connected.
\<close>

function connect_loop :: "(nat \<Rightarrow> bool) \<Rightarrow> nat \<Rightarrow> nat \<Rightarrow> duration list \<times> nat option" where
  "connect_loop ok i maxAttempts =
     (if maxAttempts < i then ([], None)
      else if ok i then ([], Some i)
      else case connect_loop ok (Suc i) maxAttempts of (ps, r) \<Rightarrow> (int (i * 2) * second # ps, r))"
  by pat_completeness auto

termination
  by (relation "measure (\<lambda>(ok, i, n). Suc n - i)") auto

declare connect_loop.simps [simp del]

definition ConnectWithRetry :: "(nat \<Rightarrow> bool) \<Rightarrow> nat \<Rightarrow> duration list \<times> nat option" where
  "ConnectWithRetry ok maxAttempts = connect_loop ok 1 maxAttempts"

text \<open>The deadline of a publisher's handshakes and writes.\<close>

definition dialTimeout :: duration where "dialTimeout = 5 * second"

definition publish_deadline :: "time \<Rightarrow> time option \<Rightarrow> time" where
  "publish_deadline now ctx_deadline =
     (let deadline = now + dialTimeout
      in case ctx_deadline of Some d \<Rightarrow> if d < deadline then d else deadline | None \<Rightarrow> deadline)"

section \<open>Queues and consumers\<close>

text \<open>
  The requests on a channel of the consumer's connection. A queue is declared durable, not exclusive
  and not deleted when unused; its arguments are the time after which a message expires and the queue
  it then goes to, through the default exchange.
\<close>

record queue_args =
  qa_message_ttl :: int
  qa_dead_letter_exchange :: string
  qa_dead_letter_routing_key :: string

datatype channel_op =
  OpenChannel
| Qos int
| QueueDeclare string "queue_args option"
| ConsumeFrom string string
| CloseChannel

text \<open>The requests in order; a failed one is the last, but for closing the channel.\<close>

fun requests :: "faults \<Rightarrow> nat \<Rightarrow> channel_op list \<Rightarrow> channel_op list \<times> bool" where
  "requests flt n [] = ([], True)"
| "requests flt n (x # xs) =
     (if flt n then ([x], False) else case requests flt (Suc n) xs of (ys, ok) \<Rightarrow> (x # ys, ok))"

definition DeclareQueue :: "faults \<Rightarrow> bool \<Rightarrow> string \<Rightarrow> channel_op list \<times> bool" where
  "DeclareQueue flt open_ch name = (if \<not> open_ch then ([], False) else requests flt 0 [QueueDeclare name None])"

text \<open>\<open>int32(retryDelay / time.Millisecond)\<close>: truncated division, then wrap-around.\<close>

definition ttl_of :: "duration \<Rightarrow> int" where
  "ttl_of d = sint (word_of_int (sgn d * (\<bar>d\<bar> div millisecond)) :: 32 word)"

definition DeclareNotifyQueues ::
  "faults \<Rightarrow> bool \<Rightarrow> bool \<Rightarrow> string \<Rightarrow> string \<Rightarrow> string \<Rightarrow> duration \<Rightarrow> channel_op list \<times> bool" where
  "DeclareNotifyQueues flt is_closed has_conn taskQueue retryQueue deadQueue retryDelay =
     (if is_closed \<or> \<not> has_conn then ([], False)
      else if flt 0 then ([OpenChannel], False)
      else case requests flt 1
          [QueueDeclare taskQueue None,
           QueueDeclare retryQueue (Some \<lparr>qa_message_ttl = ttl_of retryDelay, qa_dead_letter_exchange = [],
             qa_dead_letter_routing_key = taskQueue\<rparr>),
           QueueDeclare deadQueue None] of
        (ops, ok) \<Rightarrow> (OpenChannel # ops @ [CloseChannel], ok))"

definition ConsumeWithPrefetch ::
  "faults \<Rightarrow> bool \<Rightarrow> bool \<Rightarrow> string \<Rightarrow> string \<Rightarrow> int \<Rightarrow> channel_op list \<times> bool" where
  "ConsumeWithPrefetch flt is_closed has_conn queue consumer prefetch =
     (if is_closed \<or> \<not> has_conn then ([], False)
      else if flt 0 then ([OpenChannel], False)
      else case requests flt 1 [Qos prefetch, QueueDeclare queue None, ConsumeFrom queue consumer] of
        (ops, ok) \<Rightarrow> (OpenChannel # ops @ (if ok then [] else [CloseChannel]), ok))"

definition Consume :: "faults \<Rightarrow> bool \<Rightarrow> string \<Rightarrow> string \<Rightarrow> channel_op list \<times> bool" where
  "Consume flt open_ch queue consumer = (if \<not> open_ch then ([], False) else requests flt 0 [ConsumeFrom queue consumer])"

end
