(* ===== verification/BrokerLaws.thy ===== *)
theory BrokerLaws
  imports Broker
begin

text \<open>
  The proofs on publishing: the invariant of the gate, the publisher's fields and the confirmations,
  that \<open>Publish\<close> only reports a message the server has taken, and that a cancelled call is never
  blocked.
\<close>

section \<open>The invariant\<close>

fun holds :: "pc \<Rightarrow> bool" where
  "holds (Entered b) = True"
| "holds (Ready b c) = True"
| "holds (Bound b c st) = True"
| "holds (Writing b c st) = True"
| "holds (Awaiting b c st ret l) = True"
| "holds (Confirmed b c e) = True"
| "holds (Retiring b c e) = True"
| "holds Redialing = True"
| "holds Dialing = True"
| "holds (SocketSet k) = True"
| "holds (Opened k) = True"
| "holds _ = False"

text \<open>With a message on its publisher.\<close>

fun busy :: "pc \<Rightarrow> bool" where
  "busy (Awaiting b c st ret l) = True"
| "busy (Confirmed b c e) = True"
| "busy (Retiring b c e) = True"
| "busy _ = False"

text \<open>Nothing of an earlier message can be read from the publisher, unless it is closed.\<close>

definition quiet :: "publisher \<Rightarrow> bool" where
  "quiet p \<longleftrightarrow> pb_chan p \<longrightarrow> pb_sent p = [] \<and> pb_returns p = [] \<and> pb_confirms p = []"

text \<open>The only thing on the publisher is message \<open>m\<close>, and what was or will be read tells its fate.\<close>

definition waits :: "message set \<Rightarrow> publisher \<Rightarrow> message \<Rightarrow> message option \<Rightarrow> bool \<Rightarrow> bool" where
  "waits taken p m ret l \<longleftrightarrow>
     ((\<exists>f. pb_sent p = [(m, f)] \<and> pb_confirms p = [] \<and> (f = Taken \<longrightarrow> m \<in> taken) \<and>
         (f = Bounced \<longleftrightarrow> ret \<noteq> None \<or> pb_returns p \<noteq> [])) \<or>
      (\<exists>a. pb_sent p = [] \<and> pb_confirms p = [(m, a)] \<and> (a \<longrightarrow> m \<in> taken \<or> ret \<noteq> None \<or> pb_returns p \<noteq> []))) \<and>
     (pb_returns p = [] \<or> (\<exists>r. pb_returns p = [r] \<and> l \<and> ret = None)) \<and>
     (l \<or> ret \<noteq> None \<or> \<not> pb_chan p)"

definition at_pub :: "Connection \<Rightarrow> nat \<Rightarrow> bool" where
  "at_pub s c \<longleftrightarrow> bc_publishCh s = Some c \<or> bc_publishCh s = None \<and> bc_streams s = None \<and> bc_pubNetConn s = None"

definition fields_ok :: "Connection \<Rightarrow> bool" where
  "fields_ok s \<longleftrightarrow> (\<forall>c. bc_publishCh s = Some c \<longrightarrow>
     bc_streams s = Some c \<and> bc_pubNetConn s = Some c \<and> \<not> bc_closed s \<and> c < bc_next s)"

fun call_ok :: "Connection \<Rightarrow> nat \<Rightarrow> pc \<Rightarrow> bool" where
  "call_ok s i (Ready b c) \<longleftrightarrow> at_pub s c \<and> quiet (bc_pubs s c)"
| "call_ok s i (Bound b c st) \<longleftrightarrow> at_pub s c \<and> quiet (bc_pubs s c) \<and> (st = Some c \<or> st = None \<and> bc_pubNetConn s = None)"
| "call_ok s i (Writing b c st) \<longleftrightarrow> at_pub s c \<and> quiet (bc_pubs s c) \<and> st = Some c"
| "call_ok s i (Awaiting b c st ret l) \<longleftrightarrow> at_pub s c \<and> st = Some c \<and> waits (set (bc_queue s)) (bc_pubs s c) (i, b) ret l"
| "call_ok s i (Confirmed b c e) \<longleftrightarrow> at_pub s c \<and> (e = None \<longrightarrow> (i, b) \<in> set (bc_queue s)) \<and> (quiet (bc_pubs s c) \<or> bc_done s i)"
| "call_ok s i (Retiring b c e) \<longleftrightarrow> at_pub s c \<and> (e = None \<longrightarrow> (i, b) \<in> set (bc_queue s))"
| "call_ok s i Dialing \<longleftrightarrow> bc_publishCh s = None"
| "call_ok s i (SocketSet k) \<longleftrightarrow> bc_publishCh s = None \<and> quiet (bc_pubs s k) \<and> k < bc_next s \<and>
     (bc_closed s \<or> bc_pubNetConn s = Some k)"
| "call_ok s i (Opened k) \<longleftrightarrow> bc_publishCh s = None \<and> quiet (bc_pubs s k) \<and> k < bc_next s \<and>
     (bc_closed s \<or> bc_pubNetConn s = Some k \<and> bc_streams s = Some k)"
| "call_ok s i (Returned e) \<longleftrightarrow> (e = None \<longrightarrow> (\<exists>b. (i, b) \<in> set (bc_queue s)))"
| "call_ok s i _ \<longleftrightarrow> True"

definition conn_inv :: "Connection \<Rightarrow> bool" where
  "conn_inv s \<longleftrightarrow> fields_ok s \<and> (\<forall>i. holds (bc_call s i) \<longleftrightarrow> bc_gate s = Some i) \<and>
     (\<forall>i. call_ok s i (bc_call s i)) \<and>
     (\<forall>c. bc_publishCh s = Some c \<longrightarrow> (\<forall>i. bc_gate s = Some i \<longrightarrow> \<not> busy (bc_call s i)) \<longrightarrow> quiet (bc_pubs s c))"

lemma goto_simps [simp]:
  "bc_closed (goto i p s) = bc_closed s" "bc_publishCh (goto i p s) = bc_publishCh s" "bc_streams (goto i p s) = bc_streams s"
  "bc_pubNetConn (goto i p s) = bc_pubNetConn s" "bc_gate (goto i p s) = bc_gate s" "bc_next (goto i p s) = bc_next s"
  "bc_pubs (goto i p s) = bc_pubs s" "bc_call (goto i p s) = (bc_call s)(i := p)" "bc_done (goto i p s) = bc_done s"
  "bc_queue (goto i p s) = bc_queue s"
  by (simp_all add: goto_def)

lemma on_pub_simps [simp]:
  "bc_closed (on_pub k f s) = bc_closed s" "bc_publishCh (on_pub k f s) = bc_publishCh s" "bc_streams (on_pub k f s) = bc_streams s"
  "bc_pubNetConn (on_pub k f s) = bc_pubNetConn s" "bc_gate (on_pub k f s) = bc_gate s" "bc_next (on_pub k f s) = bc_next s"
  "bc_pubs (on_pub k f s) = (bc_pubs s)(k := f (bc_pubs s k))" "bc_call (on_pub k f s) = bc_call s"
  "bc_done (on_pub k f s) = bc_done s" "bc_queue (on_pub k f s) = bc_queue s"
  by (simp_all add: on_pub_def)

definition shut_pub :: "publisher \<Rightarrow> publisher" where
  "shut_pub p = p\<lparr>pb_conn := False, pb_chan := False\<rparr>"

lemma shut_simps [simp]:
  "bc_closed (shut k s) = bc_closed s" "bc_publishCh (shut k s) = bc_publishCh s" "bc_streams (shut k s) = bc_streams s"
  "bc_pubNetConn (shut k s) = bc_pubNetConn s" "bc_gate (shut k s) = bc_gate s" "bc_next (shut k s) = bc_next s"
  "bc_call (shut k s) = bc_call s" "bc_done (shut k s) = bc_done s" "bc_queue (shut k s) = bc_queue s"
  "bc_pubs (shut k s) = (\<lambda>c. if k = Some c then shut_pub (bc_pubs s c) else bc_pubs s c)"
  by (auto simp: shut_def shut_pub_def split: option.split)

lemma release_simps [simp]:
  "bc_closed (release s) = bc_closed s" "bc_publishCh (release s) = bc_publishCh s" "bc_streams (release s) = bc_streams s"
  "bc_pubNetConn (release s) = bc_pubNetConn s" "bc_gate (release s) = None" "bc_next (release s) = bc_next s"
  "bc_pubs (release s) = bc_pubs s" "bc_call (release s) = bc_call s" "bc_done (release s) = bc_done s"
  "bc_queue (release s) = bc_queue s"
  by (simp_all add: release_def)

lemma quiet_shut [simp]: "quiet (shut_pub p)"
  by (simp add: quiet_def shut_pub_def)

lemma finish_attempt_simps [simp]:
  "\<not> holds (finish_attempt b e)" "\<not> busy (finish_attempt b e)"
  "call_ok s i (finish_attempt b e) \<longleftrightarrow> (e = None \<longrightarrow> (\<exists>b. (i, b) \<in> set (bc_queue s)))"
  by (auto simp: finish_attempt_def split: option.split)

lemma busy_holds: "busy p \<Longrightarrow> holds p"
  by (cases p) simp_all

text \<open>A call's step: alone at the gate, or outside it.\<close>

lemma other_call_ok: "\<not> holds p \<Longrightarrow> bc_queue t = bc_queue s \<Longrightarrow> call_ok s j p \<Longrightarrow> call_ok t j p"
  by (cases p) simp_all

lemma inv_goto:
  assumes "conn_inv s" and "\<forall>j. j \<noteq> i \<longrightarrow> \<not> holds (bc_call s j)" and "bc_call t = bc_call s" and "bc_queue t = bc_queue s"
    and "bc_gate t = (if holds p then Some i else None)" and "fields_ok t" and "call_ok t i p"
    and "\<forall>c. bc_publishCh t = Some c \<longrightarrow> \<not> busy p \<longrightarrow> quiet (bc_pubs t c)"
  shows "conn_inv (goto i p t)"
proof -
  have "call_ok (goto i p t) j ((bc_call (goto i p t)) j)" for j
  proof (cases "j = i")
    case True
    have "call_ok (goto i p t) i q = call_ok t i q" for q by (cases q) (simp_all add: at_pub_def)
    with True assms(7) show ?thesis by simp
  next
    case False
    with assms(1-4) show ?thesis
      by (auto simp: conn_inv_def intro: other_call_ok [of "bc_call s j" "goto i p t" s])
  qed
  then show ?thesis using assms(2-6,8) busy_holds [of p] by (auto simp: conn_inv_def fields_ok_def)
qed

lemma inv_outside:
  assumes "conn_inv s" and "\<not> holds (bc_call s i)" and "\<not> holds p" and "call_ok s i p"
  shows "conn_inv (goto i p s)"
proof -
  have c: "call_ok (goto i p s) j q = call_ok s j q" for j q by (cases q) (simp_all add: at_pub_def)
  have "bc_gate s \<noteq> Some i" using assms(1,2) by (auto simp: conn_inv_def)
  with assms show ?thesis unfolding conn_inv_def c by (auto simp: fields_ok_def)
qed

lemma inv_holder:
  assumes "conn_inv s" and "holds (bc_call s i)"
  shows "bc_gate s = Some i" and "\<forall>j. j \<noteq> i \<longrightarrow> \<not> holds (bc_call s j)" and "call_ok s i (bc_call s i)" and "fields_ok s"
    and "\<forall>c. bc_publishCh s = Some c \<longrightarrow> \<not> busy (bc_call s i) \<longrightarrow> quiet (bc_pubs s c)"
  using assms by (auto simp: conn_inv_def)

lemma inv_acquire:
  assumes "conn_inv s" and "bc_gate s = None" and "holds p" and "call_ok s i p" and "\<not> busy p"
  shows "conn_inv (goto i p (s\<lparr>bc_gate := Some i\<rparr>))"
proof (rule inv_goto [OF assms(1)])
  have "call_ok (s\<lparr>bc_gate := Some i\<rparr>) j q = call_ok s j q" for j q by (cases q) (simp_all add: at_pub_def)
  with assms(4) show "call_ok (s\<lparr>bc_gate := Some i\<rparr>) i p" by simp
qed (use assms in \<open>auto simp: conn_inv_def fields_ok_def\<close>)

section \<open>The calls keep it\<close>

lemmas fields_defs = fields_ok_def at_pub_def forget_publisher_def

text \<open>A step of the holder: what has to be shown, from what the invariant says of it.\<close>

lemma inv_move:
  assumes "conn_inv s" and "bc_call s i = p" and "holds p" and "bc_call t = bc_call s" and "bc_queue t = bc_queue s"
    and "\<lbrakk>call_ok s i p; fields_ok s; bc_gate s = Some i; \<forall>c. bc_publishCh s = Some c \<longrightarrow> \<not> busy p \<longrightarrow> quiet (bc_pubs s c)\<rbrakk> \<Longrightarrow>
      bc_gate t = (if holds q then Some i else None) \<and> fields_ok t \<and> call_ok t i q \<and>
      (\<forall>c. bc_publishCh t = Some c \<longrightarrow> \<not> busy q \<longrightarrow> quiet (bc_pubs t c))"
  shows "conn_inv (goto i q t)"
proof -
  have "bc_gate s = Some i" "\<forall>j. j \<noteq> i \<longrightarrow> \<not> holds (bc_call s j)" "call_ok s i p" "fields_ok s"
    "\<forall>c. bc_publishCh s = Some c \<longrightarrow> \<not> busy p \<longrightarrow> quiet (bc_pubs s c)"
    using inv_holder [OF assms(1), of i] assms(2,3) by simp_all
  with assms(6) show ?thesis by (intro inv_goto [OF assms(1) _ assms(4,5)]) simp_all
qed

lemmas publisher_defs = waits_def verdict_def quiet_def

lemma await_inv: "awaitConfirm_step i s s' \<Longrightarrow> conn_inv s \<Longrightarrow> conn_inv s'"
  by (erule awaitConfirm_step.cases)
    (simp, erule inv_move, assumption, simp, simp, simp, fastforce simp: fields_defs publisher_defs)+

lemma publishOn_inv: "publishOn_step i s s' \<Longrightarrow> conn_inv s \<Longrightarrow> conn_inv s'"
proof (induction rule: publishOn_step.induct)
  case (po_gate s b)
  then show ?case by (intro inv_acquire) simp_all
next
  case (po_gate_ctx s b)
  then show ?case by (intro inv_outside) simp_all
next
  case (po_await s s')
  then show ?case by (rule await_inv)
qed (erule inv_move, assumption, simp, simp add: send_on_def, simp add: send_on_def,
    auto simp: fields_defs publisher_defs send_on_def retirePublisher_def)+

lemma openPublisher_inv: "openPublisher_step i s s' \<Longrightarrow> conn_inv s \<Longrightarrow> conn_inv s'"
  by (erule openPublisher_step.cases)
    (simp, erule inv_move, assumption, simp, simp, simp,
      (auto simp: fields_defs fresh_publisher_def quiet_def)[1])+

lemma redial_inv: "redial_step i s s' \<Longrightarrow> conn_inv s \<Longrightarrow> conn_inv s'"
proof (induction rule: redial_step.induct)
  case (rd_gate s)
  then show ?case by (intro inv_acquire) simp_all
next
  case (rd_gate_ctx s)
  then show ?case by (intro inv_outside) simp_all
next
  case (rd_open s s')
  then show ?case by (rule openPublisher_inv)
qed (erule inv_move, assumption, simp, simp add: forget_publisher_def, simp add: forget_publisher_def, auto simp: fields_defs isDead_def)+

lemma Publish_inv: "Publish_step i s s' \<Longrightarrow> conn_inv s \<Longrightarrow> conn_inv s'"
proof (induction rule: Publish_step.induct)
  case (pu_attempt s s')
  then show ?case by (rule publishOn_inv)
next
  case (pu_redialing s s')
  then show ?case by (rule redial_inv)
qed (rule inv_outside; simp)+

section \<open>So does everything else\<close>

text \<open>A step that no call makes: it leaves the calls alone and only adds to what they can rely on.\<close>

lemma inv_environment:
  assumes "conn_inv s" and "bc_call t = bc_call s" and "bc_gate t = bc_gate s" and "bc_next t = bc_next s"
    and "set (bc_queue s) \<subseteq> set (bc_queue t)" and "\<And>i. bc_done s i \<Longrightarrow> bc_done t i"
    and quiet: "\<And>c. quiet (bc_pubs s c) \<Longrightarrow> quiet (bc_pubs t c)"
    and waits: "\<And>c m ret l. waits (set (bc_queue s)) (bc_pubs s c) m ret l \<Longrightarrow> waits (set (bc_queue t)) (bc_pubs t c) m ret l"
    and fields: "bc_closed t = bc_closed s \<and> bc_publishCh t = bc_publishCh s \<and> bc_streams t = bc_streams s \<and>
        bc_pubNetConn t = bc_pubNetConn s \<or>
      bc_closed t \<and> bc_publishCh t = None \<and> bc_streams t = None \<and> bc_pubNetConn t = None"
  shows "conn_inv t"
proof -
  have "call_ok t i p" if "call_ok s i p" for i p
    using that fields assms(4-6) quiet waits by (cases p) (auto simp: at_pub_def)
  moreover have "fields_ok t" using fields assms(1,4) by (auto simp: conn_inv_def fields_ok_def)
  ultimately show ?thesis using assms(1-3) quiet fields by (auto simp: conn_inv_def)
qed

lemma waits_confirm:
  assumes "waits T p m ret l" and "pb_sent p = (m', f) # ms" and "f \<noteq> Sent"
  shows "waits T (p\<lparr>pb_sent := ms, pb_confirms := pb_confirms p @ [(m', f \<noteq> Refused)]\<rparr>) m ret l"
  using assms
  by (cases f) (auto simp: waits_def simp del: not_None_eq split_paired_Ex split_paired_All)

lemma server_inv: "server_step s s' \<Longrightarrow> conn_inv s \<Longrightarrow> conn_inv s'"
proof (induction rule: server_step.induct)
  case (sv_confirm s k m f ms)
  note waits_confirm [OF _ sv_confirm(1,2)]
  moreover have "\<not> quiet (bc_pubs s k)" using sv_confirm by (simp add: quiet_def)
  ultimately show ?case by (intro inv_environment [OF sv_confirm(4)]) (simp_all, blast+)
qed (erule inv_environment; auto simp: publisher_defs simp del: not_None_eq)+

lemma shut_pub_keeps [simp]: "quiet p \<Longrightarrow> quiet (shut_pub p)" "waits T p m ret l \<Longrightarrow> waits T (shut_pub p) m ret l"
  by (auto simp: publisher_defs shut_pub_def)

lemma Close_inv: "conn_inv s \<Longrightarrow> conn_inv (Close s)"
  by (erule inv_environment) (simp_all add: Close_def forget_publisher_def)

lemma conn_step_inv: "conn_step a s s' \<Longrightarrow> conn_inv s \<Longrightarrow> conn_inv s'"
proof (induction rule: conn_step.induct)
  case (cs_cancel s i)
  then show ?case by (rule inv_environment) auto
qed (simp_all add: Publish_inv server_inv Close_inv)

lemma conn_run_inv: "conn_run tr s \<Longrightarrow> conn_inv s"
proof (induction rule: conn_run.induct)
  case cr_new
  show ?case by (simp add: conn_inv_def fields_ok_def new_connection_def fresh_publisher_def quiet_def)
next
  case (cr_step tr s a s')
  then show ?case by (blast intro: conn_step_inv)
qed

text \<open>The gate is a lock: at most one call is between its publisher's read and its verdict.\<close>

lemma gate_exclusive:
  assumes "conn_run tr s" and "holds (bc_call s i)" and "holds (bc_call s j)"
  shows "i = j"
  using conn_run_inv [OF assms(1)] assms(2,3) by (auto simp: conn_inv_def)

section \<open>Copies\<close>

text \<open>Whether a call at \<open>p\<close> may have written its first or its second message.\<close>

fun wrote :: "bool \<Rightarrow> pc \<Rightarrow> bool" where
  "wrote b Idle = False"
| "wrote b (Gate a) = (a \<and> \<not> b)"
| "wrote b (Entered a) = (a \<and> \<not> b)"
| "wrote b (Ready a c) = (a \<and> \<not> b)"
| "wrote b (Bound a c st) = (a \<and> \<not> b)"
| "wrote b (Writing a c st) = (a \<and> \<not> b)"
| "wrote b (Awaiting a c st ret l) = (b \<longrightarrow> a)"
| "wrote b (Confirmed a c e) = (b \<longrightarrow> a)"
| "wrote b (Retiring a c e) = (b \<longrightarrow> a)"
| "wrote b (Returned e) = True"
| "wrote b _ = (\<not> b)"

definition written :: "Connection \<Rightarrow> message \<Rightarrow> bool" where
  "written s m \<longleftrightarrow> wrote (snd m) (bc_call s (fst m))"

definition sent :: "Connection \<Rightarrow> nat \<Rightarrow> (message \<times> fate) list" where
  "sent s k = pb_sent (bc_pubs s k)"

definition unique_inv :: "Connection \<Rightarrow> bool" where
  "unique_inv s \<longleftrightarrow> distinct (bc_queue s) \<and> (\<forall>m \<in> set (bc_queue s). written s m) \<and>
     (\<forall>k m f. (m, f) \<in> set (sent s k) \<longrightarrow> written s m \<and> (f = Sent \<longrightarrow> m \<notin> set (bc_queue s))) \<and>
     (\<forall>k. distinct (map fst (sent s k))) \<and>
     (\<forall>k k' m f f'. (m, f) \<in> set (sent s k) \<longrightarrow> (m, f') \<in> set (sent s k') \<longrightarrow> k = k')"

text \<open>What a call's step does to the messages: it forgets some, or writes one it had not written.\<close>

definition writes :: "nat \<Rightarrow> Connection \<Rightarrow> Connection \<Rightarrow> bool" where
  "writes i s t \<longleftrightarrow> bc_queue t = bc_queue s \<and> (\<forall>m. written s m \<longrightarrow> written t m) \<and>
     ((\<forall>k. sent t k = sent s k \<or> sent t k = []) \<or>
      (\<exists>c b. \<not> written s (i, b) \<and> written t (i, b) \<and> sent t = (sent s)(c := sent s c @ [((i, b), Sent)])))"

lemma wrote_finish [simp]: "wrote b (finish_attempt a e) \<longleftrightarrow> (b \<longrightarrow> a \<or> e = None)"
  by (auto simp: finish_attempt_def split: option.split)

lemma sent_simps [simp]:
  "sent (goto i p s) = sent s" "sent (release s) = sent s" "sent (shut k s) = sent s" "sent (forget_publisher s) = sent s"
  "sent (send_on c m s) = (sent s)(c := sent s c @ [(m, Sent)])" "sent (retirePublisher c s) = sent s"
  "sent (on_pub j f s) = (sent s)(j := pb_sent (f (bc_pubs s j)))"
  by (auto simp: sent_def shut_pub_def forget_publisher_def send_on_def retirePublisher_def fun_eq_iff)

lemma writes_nothing:
  assumes "bc_call s i = p" and "bc_call t = bc_call s" and "bc_queue t = bc_queue s"
    and "\<And>b. wrote b p \<Longrightarrow> wrote b q" and "\<And>k. sent t k = sent s k \<or> sent t k = []"
  shows "writes i s (goto i q t)"
proof -
  have "written (goto i q t) m" if "written s m" for m
    using that assms(1,2,4) by (cases "fst m = i") (simp_all add: written_def)
  with assms(3,5) show ?thesis by (simp add: writes_def del: split_paired_All)
qed

lemma writes_message:
  assumes "bc_call s i = Writing b c st" and "\<And>b'. wrote b' q \<longleftrightarrow> (b' \<longrightarrow> b)"
  shows "writes i s (goto i q (send_on c (i, b) s))"
proof -
  let ?t = "goto i q (send_on c (i, b) s)"
  have q: "bc_queue ?t = bc_queue s" by (simp add: send_on_def)
  have new: "\<not> written s (i, b)" "written ?t (i, b)" using assms by (simp_all add: written_def)
  have old: "written ?t m" if "written s m" for m
    using that assms by (cases "fst m = i") (auto simp: written_def send_on_def)
  have "sent ?t = (sent s)(c := sent s c @ [((i, b), Sent)])" by simp
  with q new old show ?thesis unfolding writes_def by blast
qed

lemma await_writes: "awaitConfirm_step i s s' \<Longrightarrow> writes i s s'"
  by (erule awaitConfirm_step.cases) (simp, erule writes_nothing, simp, simp, simp, simp add: sent_def)+

lemma publishOn_writes: "publishOn_step i s s' \<Longrightarrow> writes i s s'"
proof (induction rule: publishOn_step.induct)
  case (po_await s s')
  then show ?case by (rule await_writes)
next
  case (po_write s b c st)
  show ?case by (rule writes_message [OF po_write(1)]) simp
next
  case (po_write_lost s b c st)
  show ?case by (rule writes_message [OF po_write_lost(1)]) simp
qed (erule writes_nothing; auto simp: retirePublisher_def forget_publisher_def sent_def shut_pub_def)+

lemma openPublisher_writes: "openPublisher_step i s s' \<Longrightarrow> writes i s s'"
  by (erule openPublisher_step.cases)
    (simp, erule writes_nothing, simp, simp, simp, simp add: sent_def fresh_publisher_def shut_pub_def)+

lemma redial_writes: "redial_step i s s' \<Longrightarrow> writes i s s'"
proof (induction rule: redial_step.induct)
  case (rd_open s s')
  then show ?case by (rule openPublisher_writes)
qed (erule writes_nothing; auto simp: forget_publisher_def sent_def shut_pub_def)+

lemma Publish_writes: "Publish_step i s s' \<Longrightarrow> writes i s s'"
proof (induction rule: Publish_step.induct)
  case (pu_attempt s s')
  then show ?case by (rule publishOn_writes)
next
  case (pu_redialing s s')
  then show ?case by (rule redial_writes)
qed (erule writes_nothing; auto)+

lemma writes_unique:
  assumes "writes i s t" and "unique_inv s"
  shows "unique_inv t"
proof (cases "\<forall>k. sent t k = sent s k \<or> sent t k = []")
  case True
  then have sub: "x \<in> set (sent t k) \<Longrightarrow> x \<in> set (sent s k)" for x k by (cases "sent t k") (auto dest: spec [of _ k])
  have "distinct (map fst (sent t k))" for k
    using True assms(2) by (cases "sent t k = []") (auto simp: unique_inv_def dest: spec [of _ k])
  moreover have "bc_queue t = bc_queue s" "written s m \<Longrightarrow> written t m" for m
    using assms(1) unfolding writes_def by blast+
  ultimately show ?thesis using assms(2) unfolding unique_inv_def by (auto dest!: sub) blast
next
  case False
  then obtain c b where m: "\<not> written s (i, b)" "written t (i, b)" "sent t = (sent s)(c := sent s c @ [((i, b), Sent)])"
    and t: "bc_queue t = bc_queue s" "\<forall>m. written s m \<longrightarrow> written t m" using assms(1) by (auto simp: writes_def)
  have new: "((i, b), f) \<notin> set (sent s k)" "(i, b) \<notin> set (bc_queue s)" for f k using m(1) assms(2) by (auto simp: unique_inv_def)
  have mem: "(m, f) \<in> set (sent t k) \<longleftrightarrow> (m, f) \<in> set (sent s k) \<or> k = c \<and> m = (i, b) \<and> f = Sent" for m f k
    by (auto simp: m(3))
  have dist: "distinct (map fst (sent t k))" for k
    using new(1) assms(2) by (auto simp: m(3) unique_inv_def)
  have one: "k = k'" if "(m, f) \<in> set (sent t k)" "(m, f') \<in> set (sent t k')" for k k' m f f'
    using that new(1) assms(2) unfolding mem unique_inv_def by blast
  have "written s m \<and> (f = Sent \<longrightarrow> m \<notin> set (bc_queue s))" if "(m, f) \<in> set (sent s k)" for m f k
    using that assms(2) unfolding unique_inv_def by blast
  then have old: "written t m \<and> (f = Sent \<longrightarrow> m \<notin> set (bc_queue t))" if "(m, f) \<in> set (sent t k)" for m f k
    using that new(2) m(2) t unfolding mem by metis
  show ?thesis unfolding unique_inv_def
    using dist one old t assms(2) by (simp add: unique_inv_def del: split_paired_All)
qed

lemma unique_invD:
  assumes "unique_inv s"
  shows "distinct (bc_queue s)" and "m \<in> set (bc_queue s) \<Longrightarrow> written s m"
    and "(m, f) \<in> set (sent s k) \<Longrightarrow> written s m" and "(m, Sent) \<in> set (sent s k) \<Longrightarrow> m \<notin> set (bc_queue s)"
    and "distinct (map fst (sent s k))"
    and "(m, f) \<in> set (sent s k) \<Longrightarrow> (m, f') \<in> set (sent s k') \<Longrightarrow> k = k'"
  using assms unfolding unique_inv_def by blast+

text \<open>The server moves the first message of one publisher on, or takes it off.\<close>

lemma server_moves:
  assumes "unique_inv s" and "sent s k = (m, f) # ms" and "bc_call t = bc_call s" and "g \<noteq> Some Sent"
    and t: "sent t = (sent s)(k := (case g of None \<Rightarrow> ms | Some f' \<Rightarrow> (m, f') # ms))"
    and q: "bc_queue t = bc_queue s \<or> f = Sent \<and> bc_queue t = bc_queue s @ [m]"
  shows "unique_inv t"
proof -
  note D = unique_invD [OF assms(1)]
  have hd: "(m, f) \<in> set (sent s k)" by (simp add: assms(2))
  have tl: "m \<notin> fst ` set ms" "distinct (map fst ms)" using D(5) [of k] assms(2) by simp_all
  have w: "written t = written s" by (simp add: written_def fun_eq_iff assms(3))
  have mem: "j = k \<and> m' = m \<and> f' \<noteq> Sent \<or> (m', f') \<in> set (sent s j) \<and> m' \<noteq> m" if "(m', f') \<in> set (sent t j)" for m' f' j
  proof (cases "j = k")
    case True
    with that tl(1) assms(2,4) t show ?thesis by (cases g) (force simp: image_iff)+
  next
    case False
    with that t D(6) [OF hd] show ?thesis by auto
  qed
  have queue: "distinct (bc_queue t)" "\<And>m'. m' \<in> set (bc_queue t) \<Longrightarrow> m' \<in> set (bc_queue s) \<or> m' = m"
    using q D(1) D(4) [of m k] hd by auto
  have "distinct (map fst (sent t j))" for j using D(5) [of j] tl by (cases g) (auto simp: t)
  moreover have "written s m'" if "m' \<in> set (bc_queue t)" for m' using queue(2) [OF that] D(2,3) hd by blast
  moreover have "written s m' \<and> (f' = Sent \<longrightarrow> m' \<notin> set (bc_queue t))" if "(m', f') \<in> set (sent t j)" for m' f' j
    using mem [OF that] queue(2) [of m'] hd D(3) [of m' _ _] D(4) [of m' j] by auto
  moreover have "j = j'" if "(m', f') \<in> set (sent t j)" "(m', f'') \<in> set (sent t j')" for j j' m' f' f''
    using mem [OF that(1)] mem [OF that(2)] D(6) [of m' f' j f'' j'] by auto
  ultimately show ?thesis using queue(1) unfolding unique_inv_def w by (simp del: split_paired_All)
qed

lemma unique_same: "unique_inv s \<Longrightarrow> sent t = sent s \<Longrightarrow> bc_call t = bc_call s \<Longrightarrow> bc_queue t = bc_queue s \<Longrightarrow> unique_inv t"
  by (simp add: unique_inv_def written_def)

lemma server_unique: "server_step s s' \<Longrightarrow> unique_inv s \<Longrightarrow> unique_inv s'"
proof (induction rule: server_step.induct)
  case (sv_take s k m ms)
  let ?t = "on_pub k (\<lambda>p. p\<lparr>pb_sent := (m, Taken) # ms\<rparr>) s"
  have "sent (?t\<lparr>bc_queue := q\<rparr>) = sent ?t" for q by (simp add: sent_def fun_eq_iff)
  with sv_take(1) show ?case
    by (intro server_moves [OF sv_take(2), of k m Sent ms _ "Some Taken"]) (simp_all add: sent_def [of s])
next
  case (sv_bounce s k m ms)
  then show ?case by (intro server_moves [OF sv_bounce(3), of k m Sent ms _ "Some Bounced"]) (simp_all add: sent_def fun_eq_iff)
next
  case (sv_refuse s k m ms)
  then show ?case by (intro server_moves [OF sv_refuse(2), of k m Sent ms _ "Some Refused"]) (simp_all add: sent_def fun_eq_iff)
next
  case (sv_confirm s k m f ms)
  then show ?case by (intro server_moves [OF sv_confirm(4), of k m f ms _ None]) (simp_all add: sent_def fun_eq_iff)
qed (erule unique_same; auto simp: sent_def fun_eq_iff)+

lemma conn_step_unique: "conn_step a s s' \<Longrightarrow> unique_inv s \<Longrightarrow> unique_inv s'"
proof (induction rule: conn_step.induct)
  case (cs_call i s s')
  then show ?case by (blast intro: writes_unique Publish_writes)
next
  case (cs_server s s')
  then show ?case by (blast intro: server_unique)
next
  case (cs_close s)
  then show ?case
    by (rule unique_same) (auto simp: Close_def sent_def shut_pub_def forget_publisher_def fun_eq_iff)
next
  case (cs_cancel s i)
  then show ?case by (rule unique_same) (simp_all add: sent_def fun_eq_iff)
qed

lemma conn_run_unique: "conn_run tr s \<Longrightarrow> unique_inv s"
proof (induction rule: conn_run.induct)
  case cr_new
  show ?case by (simp add: unique_inv_def sent_def new_connection_def fresh_publisher_def)
next
  case (cr_step tr s a s')
  then show ?case by (blast intro: conn_step_unique)
qed

section \<open>Own steps\<close>

definition attempt_rank :: "bool \<Rightarrow> nat \<Rightarrow> nat" where
  "attempt_rank b n = (if b then n else n + 15)"

text \<open>How many steps a call has left at most.\<close>

fun steps_left :: "pc \<Rightarrow> nat" where
  "steps_left Idle = 25"
| "steps_left (Gate b) = attempt_rank b 9"
| "steps_left (Entered b) = attempt_rank b 8"
| "steps_left (Ready b c) = attempt_rank b 7"
| "steps_left (Bound b c st) = attempt_rank b 6"
| "steps_left (Writing b c st) = attempt_rank b 5"
| "steps_left (Awaiting b c st ret l) = attempt_rank b (if l then 4 else 3)"
| "steps_left (Confirmed b c e) = attempt_rank b 2"
| "steps_left (Retiring b c e) = attempt_rank b 1"
| "steps_left (Failed e) = 15"
| "steps_left RedialGate = 14"
| "steps_left Redialing = 13"
| "steps_left Dialing = 12"
| "steps_left (SocketSet k) = 11"
| "steps_left (Opened k) = 10"
| "steps_left (Returned e) = 0"

lemma finish_rank [simp]: "0 < n \<Longrightarrow> steps_left (finish_attempt b e) < attempt_rank b n"
  by (auto simp: finish_attempt_def attempt_rank_def split: option.split)

lemma await_rank: "awaitConfirm_step i s s' \<Longrightarrow> steps_left (bc_call s' i) < steps_left (bc_call s i)"
  by (erule awaitConfirm_step.cases) (simp_all add: attempt_rank_def)

lemma publishOn_rank: "publishOn_step i s s' \<Longrightarrow> steps_left (bc_call s' i) < steps_left (bc_call s i)"
proof (induction rule: publishOn_step.induct)
  case (po_await s s')
  then show ?case by (rule await_rank)
qed (simp_all, simp_all add: attempt_rank_def)

lemma Publish_rank: "Publish_step i s s' \<Longrightarrow> steps_left (bc_call s' i) < steps_left (bc_call s i)"
proof (induction rule: Publish_step.induct)
  case (pu_attempt s s')
  then show ?case by (rule publishOn_rank)
next
  case (pu_redialing s s')
  then show ?case
  proof (induction rule: redial_step.induct)
    case (rd_open s s')
    then show ?case by (rule openPublisher_step.cases) simp_all
  qed (simp_all add: attempt_rank_def)
qed (simp_all add: attempt_rank_def)

lemma Publish_calls: "Publish_step i s s' \<Longrightarrow> j \<noteq> i \<Longrightarrow> bc_call s' j = bc_call s j"
proof (induction rule: Publish_step.induct)
  case (pu_attempt s s')
  then show ?case
  proof (induction rule: publishOn_step.induct)
    case (po_await s s')
    then show ?case by cases simp_all
  qed (simp_all add: send_on_def retirePublisher_def forget_publisher_def)
next
  case (pu_redialing s s')
  then show ?case
  proof (induction rule: redial_step.induct)
    case (rd_open s s')
    then show ?case by cases simp_all
  qed (simp_all add: forget_publisher_def)
qed simp_all

lemma environment_calls: "conn_step None s s' \<Longrightarrow> bc_call s' = bc_call s"
proof (erule conn_step.cases)
  assume "None = (None :: nat option)"
  fix t t' assume "s = t" "s' = t'" "server_step t t'"
  then show ?thesis by (auto elim!: server_step.cases)
qed (auto simp: Close_def forget_publisher_def)

lemma own_steps: "conn_run tr s \<Longrightarrow> length (filter (\<lambda>a. a = Some i) tr) + steps_left (bc_call s i) \<le> 25"
proof (induction rule: conn_run.induct)
  case (cr_step tr s a s')
  show ?case
  proof (cases a)
    case None
    with cr_step environment_calls show ?thesis by auto
  next
    case (Some j)
    with cr_step(2) have "Publish_step j s s'" by (auto elim: conn_step.cases)
    from Publish_rank [OF this] Publish_calls [OF this, of i] cr_step(3) Some show ?thesis by (cases "i = j") auto
  qed
qed (simp add: new_connection_def)

text \<open>A call whose context has ended can always go on.\<close>

lemma cancelled_enabled:
  assumes "bc_done s i" and "\<forall>r. bc_call s i \<noteq> Returned r"
  shows "\<exists>s'. Publish_step i s s'"
proof (cases "bc_call s i")
  case (Entered b)
  show ?thesis
  proof (cases "bc_publishCh s")
    case None
    with Entered show ?thesis by (blast intro: pu_attempt po_unavailable)
  next
    case (Some c)
    with Entered show ?thesis
      by (cases "bc_closed s"; cases "pb_chan (bc_pubs s c)") (blast intro: pu_attempt po_unavailable po_channel)+
  qed
next
  case Redialing
  then show ?thesis by (cases "bc_closed s"; cases "isDead s") (blast intro: pu_redialing redial_step.intros)+
qed (use assms in \<open>blast intro: Publish_step.intros publishOn_step.intros awaitConfirm_step.intros redial_step.intros
    openPublisher_step.intros\<close>)+

section \<open>Connecting and declaring\<close>

text \<open>
  The attempts are made in order, each but the successful one followed by its pause, and the first
  success ends them; \<open>n\<close> failures take \<open>n * (n + 1)\<close> seconds of pauses.
\<close>

lemma connect_loop_spec:
  assumes "connect_loop ok i n = (ps, r)"
  shows "(case r of Some j \<Rightarrow> i \<le> j \<and> j \<le> n \<and> ok j \<and> (\<forall>k. i \<le> k \<longrightarrow> k < j \<longrightarrow> \<not> ok k) \<and>
        ps = map (\<lambda>k. int (k * 2) * second) [i..<j]
      | None \<Rightarrow> (\<forall>k. i \<le> k \<longrightarrow> k \<le> n \<longrightarrow> \<not> ok k) \<and> ps = map (\<lambda>k. int (k * 2) * second) [i..<Suc n])"
  using assms
proof (induction ok i n arbitrary: ps r rule: connect_loop.induct)
  case (1 ok i n)
  show ?case
  proof (cases "i \<le> n \<and> \<not> ok i")
    case False
    with "1.prems" show ?thesis by (subst (asm) connect_loop.simps) (auto split: if_splits)
  next
    case True
    obtain w r' where rec: "connect_loop ok (Suc i) n = (w, r')" by fastforce
    have eq: "ps = int (i * 2) * second # w" "r = r'"
      using "1.prems" True rec by (subst (asm) connect_loop.simps, simp)+
    from "1.IH" [OF _ _ rec] True show ?thesis
      by (auto simp: eq upt_conv_Cons Suc_le_eq not_less split: option.splits) (metis le_neq_implies_less)+
  qed
qed

lemma ConnectWithRetry_waits: "sum_list (map (\<lambda>k. int (k * 2) * second) [1..<Suc n]) = int (n * (n + 1)) * second"
  by (induction n) (simp_all add: algebra_simps)

lemma ttl_NotifyRetryDelay: "ttl_of NotifyRetryDelay = 30000"
  by (simp add: ttl_of_def NotifyRetryDelay_def duration_defs)

lemma requests_prefix: "requests flt n xs = (ys, ok) \<Longrightarrow> prefix ys xs \<and> (ok \<longleftrightarrow> ys = xs \<and> (\<forall>k < length xs. \<not> flt (n + k)))"
proof (induction flt n xs arbitrary: ys ok rule: requests.induct)
  case (2 flt n x xs)
  then show ?case
    by (auto simp: less_Suc_eq_0_disj split: if_splits prod.splits)
qed simp

text \<open>A consumer has its prefetch limit and its queue before it takes the first delivery, or no channel.\<close>

lemma ConsumeWithPrefetch_spec:
  assumes "ConsumeWithPrefetch flt is_closed has_conn queue consumer n = (ops, ok)"
  shows "if ok then ops = [OpenChannel, Qos n, QueueDeclare queue None, ConsumeFrom queue consumer]
    else ops = [] \<or> ops = [OpenChannel] \<or> last ops = CloseChannel"
  using assms requests_prefix [of flt 1 "[Qos n, QueueDeclare queue None, ConsumeFrom queue consumer]"]
  by (auto simp: ConsumeWithPrefetch_def split: if_splits prod.splits)

section \<open>Properties\<close>

definition copies :: "nat \<Rightarrow> Connection \<Rightarrow> nat" where
  "copies i s = length (filter (\<lambda>m. fst m = i) (bc_queue s))"

text \<open>
  C4: However the calls of \<open>Publish\<close>, the server, broken connections, ended contexts and \<open>Close\<close>
  interleave: a call that returned nil has its own message in the server's queue, though the code
  never compares a confirmation or a return with the message it waits for; and no call, redialling
  included, puts more than two copies there.
\<close>

theorem publish_confirmed:
  assumes "conn_run tr s"
  shows "copies i s \<le> 2 \<and> (bc_call s i = Returned None \<longrightarrow> 1 \<le> copies i s)"
proof -
  let ?ms = "filter (\<lambda>m. fst m = i) (bc_queue s)"
  have "set ?ms \<subseteq> {(i, False), (i, True)}" by (auto simp: prod_eq_iff)
  then have "card (set ?ms) \<le> card {(i, False), (i, True)}" by (intro card_mono) simp_all
  moreover have "distinct ?ms" using conn_run_unique [OF assms] by (simp add: unique_inv_def)
  then have "card (set ?ms) = length ?ms" by (rule distinct_card)
  ultimately have "copies i s \<le> 2" by (simp add: copies_def)
  moreover have "call_ok s i (bc_call s i)" using conn_run_inv [OF assms] by (simp add: conn_inv_def)
  then have "\<exists>b. (i, b) \<in> set (bc_queue s)" if "bc_call s i = Returned None" using that by simp
  then have "bc_call s i = Returned None \<longrightarrow> ?ms \<noteq> []" by (force simp: filter_empty_conv)
  ultimately show ?thesis by (cases ?ms) (auto simp: copies_def)
qed

text \<open>
  C34: \<open>Publish\<close> ends: every call takes at most 25 steps of its own in all, and once its context has
  ended it is never blocked, neither by the gate, nor by a confirmation that does not come, nor by a
  connection that breaks or is closed.
\<close>

theorem cancelled_publish_returns:
  assumes "conn_run tr s"
  shows "length (filter (\<lambda>a. a = Some i) tr) \<le> 25 \<and>
    (bc_done s i \<longrightarrow> (\<forall>r. bc_call s i \<noteq> Returned r) \<longrightarrow> (\<exists>s'. conn_step (Some i) s s'))"
  using own_steps [OF assms, of i] cancelled_enabled [of s i] by (auto intro: conn_step.cs_call)

section \<open>Witnesses\<close>

text \<open>A message that is published, taken by the server and confirmed.\<close>

definition demo_entered :: Connection where
  "demo_entered = goto 0 (Entered False) ((goto 0 (Gate False) new_connection)\<lparr>bc_gate := Some 0\<rparr>)"

definition demo_sent :: Connection where
  "demo_sent = goto 0 (Awaiting False 0 (Some 0) None True) (send_on 0 (0, False) demo_entered)"

definition demo_taken :: Connection where
  "demo_taken = (on_pub 0 (\<lambda>p. p\<lparr>pb_sent := [((0, False), Taken)]\<rparr>) demo_sent)\<lparr>bc_queue := [(0, False)]\<rparr>"

lemma demo_entered_state [simp]:
  "bc_call demo_entered = (\<lambda>_. Idle)(0 := Entered False)" "\<not> bc_closed demo_entered" "bc_publishCh demo_entered = Some 0"
  "bc_streams demo_entered = Some 0" "bc_pubNetConn demo_entered = Some 0" "bc_pubs demo_entered = (\<lambda>_. fresh_publisher)"
  "bc_queue demo_entered = []" "\<not> bc_done demo_entered i"
  by (simp_all add: demo_entered_def new_connection_def)

lemma own_run: "conn_run tr s \<Longrightarrow> publishOn_step i s s' \<Longrightarrow> \<exists>tr. conn_run tr s'"
  by (blast intro: cr_step cs_call pu_attempt)

lemma demo_entered_run: "\<exists>tr. conn_run tr demo_entered"
proof -
  have "Publish_step 0 new_connection (goto 0 (Gate False) new_connection)"
    by (rule pu_start) (simp add: new_connection_def)
  with cr_new have "conn_run ([] @ [Some 0]) (goto 0 (Gate False) new_connection)" by (rule cr_step [OF _ cs_call])
  moreover have "publishOn_step 0 (goto 0 (Gate False) new_connection) demo_entered"
    unfolding demo_entered_def by (rule po_gate) (simp_all add: new_connection_def)
  ultimately show ?thesis by (rule own_run)
qed

lemma demo_sent_run: "\<exists>tr. conn_run tr demo_sent"
proof -
  let ?r = "goto 0 (Ready False 0) demo_entered" and ?b = "goto 0 (Bound False 0 (Some 0)) demo_entered"
  let ?w = "goto 0 (Writing False 0 (Some 0)) demo_entered"
  have g [simp]: "goto i p (goto i q s) = goto i p s" for i p q s by (simp add: goto_def)
  obtain tr where "conn_run tr demo_entered" using demo_entered_run by blast
  moreover have "publishOn_step 0 demo_entered ?r" by (rule po_channel) (simp_all add: fresh_publisher_def)
  ultimately obtain tr where "conn_run tr ?r" using own_run by blast
  moreover have "publishOn_step 0 ?r ?b" using po_streams [of ?r 0 False 0] by simp
  ultimately obtain tr where "conn_run tr ?b" using own_run by blast
  moreover have "publishOn_step 0 ?b ?w" using po_deadline [of ?b 0 False 0 "Some 0"] by simp
  ultimately obtain tr where "conn_run tr ?w" using own_run by blast
  moreover have "goto 0 p (send_on 0 m (goto 0 q s)) = goto 0 p (send_on 0 m s)" for p q m s
    by (simp add: goto_def send_on_def on_pub_def)
  then have "publishOn_step 0 ?w demo_sent"
    using po_write [of ?w 0 False 0 "Some 0"] by (simp add: demo_sent_def fresh_publisher_def)
  ultimately show ?thesis by (rule own_run)
qed

lemma demo_taken_run: "\<exists>tr. conn_run tr demo_taken"
proof -
  obtain tr where r: "conn_run tr demo_sent" using demo_sent_run by blast
  have "server_step demo_sent demo_taken"
    using sv_take [of demo_sent 0 "(0, False)" "[]"] by (simp add: demo_sent_def demo_taken_def send_on_def fresh_publisher_def)
  with r show ?thesis by (blast intro: cr_step cs_server)
qed

theorem publish_confirmed_witness:
  "\<exists>tr s. conn_run tr s \<and> bc_call s 0 = Returned None \<and> 1 \<le> copies 0 s"
proof -
  obtain tr where r: "conn_run tr demo_taken" using demo_taken_run by blast
  let ?c = "on_pub 0 (\<lambda>p. p\<lparr>pb_sent := [], pb_confirms := pb_confirms p @ [((0, False), Taken \<noteq> Refused)]\<rparr>) demo_taken"
  have d: "pb_sent (bc_pubs demo_taken 0) = [((0, False), Taken)]" "pb_chan (bc_pubs demo_taken 0)"
    "pb_confirms (bc_pubs demo_taken 0) = []" "pb_returns (bc_pubs demo_taken 0) = []"
    "bc_call demo_taken 0 = Awaiting False 0 (Some 0) None True" "\<not> bc_done demo_taken 0"
    by (simp_all add: demo_taken_def demo_sent_def send_on_def fresh_publisher_def)
  have "server_step demo_taken ?c" using d by (intro sv_confirm) simp_all
  with r have "conn_run (tr @ [None]) ?c" by (blast intro: cr_step cs_server)
  moreover have "publishOn_step 0 ?c (goto 0 (Confirmed False 0 (verdict None True)) (on_pub 0 (\<lambda>p. p\<lparr>pb_confirms := []\<rparr>) ?c))"
    using d by (intro po_await aw_confirm [where m = "(0, False)"]) simp_all
  ultimately obtain tr' s where s: "conn_run tr' s" "bc_call s 0 = Confirmed False 0 None" "\<not> bc_done s 0"
    using own_run [of "tr @ [None]" ?c 0] d(6) by (fastforce simp: verdict_def)
  have "publishOn_step 0 s (goto 0 (finish_attempt False None) (release s))" using s(2,3) by (rule po_confirmed)
  with s(1) obtain tr where t: "conn_run tr (goto 0 (Returned None) (release s))"
    using own_run by (fastforce simp: finish_attempt_def)
  then have "1 \<le> copies 0 (goto 0 (Returned None) (release s))" using publish_confirmed [OF t, of 0] by simp
  with t show ?thesis by (intro exI [of _ tr] exI [of _ "goto 0 (Returned None) (release s)"]) simp
qed

theorem cancelled_publish_returns_witness:
  "\<exists>s'. conn_step (Some 0) (demo_sent\<lparr>bc_done := (bc_done demo_sent)(0 := True)\<rparr>) s'"
proof -
  obtain tr where "conn_run tr demo_sent" using demo_sent_run by blast
  then have "conn_run (tr @ [None]) (demo_sent\<lparr>bc_done := (bc_done demo_sent)(0 := True)\<rparr>)"
    by (rule cr_step [OF _ cs_cancel])
  from cancelled_publish_returns [OF this, of 0] show ?thesis by (simp add: demo_sent_def send_on_def)
qed

end
