(* ===== verification/Setup.thy ===== *)
theory Setup
  imports Broker
begin

text \<open>
  The setup of a publisher connection in \<open>shared/pkg/broker/rabbitmq.go\<close>: \<open>openPublisher\<close> with the
  callbacks that close its socket when the context ends or five seconds have passed, and the guard
  \<open>setPublishDeadline\<close> puts around a write. The callbacks run in goroutines of their own, so every rule
  is a critical section or a blocking operation of one of them.
\<close>

section \<open>Callbacks\<close>

text \<open>
  A function given to \<open>context.AfterFunc\<close> or \<open>time.AfterFunc\<close>: not registered, registered, running, or
  finished with its channel closed; \<open>Stopped\<close> when \<open>stop\<close> came first, which then has returned true.
\<close>

datatype callback = NoFunc | Armed | Started | Ran | Stopped

definition settled :: "callback \<Rightarrow> bool" where
  "settled c = (c = NoFunc \<or> c = Ran \<or> c = Stopped)"

section \<open>openPublisher\<close>

datatype setup_error = DialFailed | HandshakeFailed | DeadlineFailed | ChannelFailed | ConfirmFailed
  | SetupCtx | SetupTimedOut

text \<open>
  Where \<open>openPublisher\<close> stands. \<open>Deadline k\<close> is its \<open>k\<close>-th call of \<open>setupDeadline\<close>. From \<open>StopCancel\<close> on it is in
  \<open>finishSetup\<close>, called by the \<open>defer\<close> with the error it returns, or at the end without one.
\<close>

datatype setup_pc =
  Dial
| Register
| Handshake
| Deadline nat
| OpenChannel
| EnableConfirms
| StopCancel "setup_error option"
| AwaitClosed "setup_error option"
| StopTimer "setup_error option" bool
| AwaitTimer "setup_error option" bool
| Finished "setup_error option" bool
| GaveUp
| Panicked
| SetupDone "setup_error option"

text \<open>
  \<open>st_sock\<close>: the socket, once dialled, and whether it has not been closed on this side; \<open>st_net\<close>: the
  variable \<open>netConn\<close> is set; \<open>st_ctx\<close>: the context has ended; \<open>st_pubNetConn\<close>, \<open>st_streams\<close>: the fields of
  the connection are set.
\<close>

record setup_state =
  st_pc :: setup_pc
  st_ctx :: bool
  st_sock :: "bool option"
  st_net :: bool
  st_cancel :: callback
  st_timer :: callback
  st_pubNetConn :: bool
  st_streams :: bool

definition setup_start :: "bool \<Rightarrow> setup_state" where
  "setup_start ctx = \<lparr>st_pc = Dial, st_ctx = ctx, st_sock = None, st_net = False, st_cancel = Armed,
     st_timer = NoFunc, st_pubNetConn = False, st_streams = False\<rparr>"

definition close_socket :: "setup_state \<Rightarrow> setup_state" where
  "close_socket s = s\<lparr>st_sock := map_option (\<lambda>_. False) (st_sock s)\<rparr>"

text \<open>\<open>setupDeadline\<close>: the socket, whether \<open>SetDeadline\<close> fails, and the context.\<close>

definition setupDeadline :: "bool \<Rightarrow> bool \<Rightarrow> bool \<Rightarrow> setup_error option" where
  "setupDeadline conn fails ctx =
     (if \<not> conn then Some DeadlineFailed else if fails then Some DeadlineFailed else if ctx then Some SetupCtx else None)"

text \<open>
  \<open>registerPublisherSocket\<close>, under the mutex the callback of the context takes: the socket becomes
  \<open>netConn\<close> and its timer starts, or it is closed.
\<close>

definition registerPublisherSocket :: "bool \<Rightarrow> setup_state \<Rightarrow> setup_state" where
  "registerPublisherSocket fails s =
     (if st_ctx s then (close_socket s)\<lparr>st_net := False, st_pc := StopCancel (Some DialFailed)\<rparr>
      else if fails then (close_socket s)\<lparr>st_net := False, st_pc := StopCancel (Some DialFailed)\<rparr>
      else s\<lparr>st_net := True, st_timer := Armed, st_pc := Handshake\<rparr>)"

text \<open>What follows a \<open>setupDeadline\<close>; after an error \<open>netConn\<close> is closed, which panics where it is nil.\<close>

definition after_deadline :: "nat \<Rightarrow> setup_error option \<Rightarrow> setup_state \<Rightarrow> setup_state" where
  "after_deadline k r s =
     (case r of
        Some e \<Rightarrow> if st_net s then (close_socket s)\<lparr>st_pc := StopCancel (Some e)\<rparr> else s\<lparr>st_pc := Panicked\<rparr>
      | None \<Rightarrow> if k = 0 then s\<lparr>st_pubNetConn := True, st_pc := OpenChannel\<rparr>
                else if k = 1 then s\<lparr>st_pc := EnableConfirms\<rparr>
                else s\<lparr>st_pc := StopCancel None\<rparr>)"

text \<open>
  The function itself. \<open>DialConfig\<close> dials, registers the socket and does the handshake; a failed
  handshake may leave the socket open or closed. A handshake may still end well on a socket that a
  callback has just closed.
\<close>

inductive setup_main :: "setup_state \<Rightarrow> setup_state \<Rightarrow> bool" where
  sm_dial_error: "st_pc s = Dial \<Longrightarrow> setup_main s (s\<lparr>st_pc := StopCancel (Some DialFailed)\<rparr>)"
| sm_dial: "st_pc s = Dial \<Longrightarrow> setup_main s (s\<lparr>st_sock := Some True, st_pc := Register\<rparr>)"
| sm_register: "st_pc s = Register \<Longrightarrow> setup_main s (registerPublisherSocket fails s)"
| sm_handshake: "st_pc s = Handshake \<Longrightarrow> setup_main s (s\<lparr>st_pc := Deadline 0\<rparr>)"
| sm_handshake_error: "st_pc s = Handshake \<Longrightarrow> t = s \<or> t = close_socket s \<Longrightarrow>
    setup_main s (t\<lparr>st_pc := StopCancel (Some HandshakeFailed)\<rparr>)"
| sm_deadline: "st_pc s = Deadline k \<Longrightarrow>
    setup_main s (after_deadline k (setupDeadline (st_net s) fails (st_ctx s)) s)"
| sm_channel: "st_pc s = OpenChannel \<Longrightarrow> setup_main s (s\<lparr>st_pc := Deadline 1\<rparr>)"
| sm_channel_error: "st_pc s = OpenChannel \<Longrightarrow>
    setup_main s ((close_socket s)\<lparr>st_pc := StopCancel (Some ChannelFailed)\<rparr>)"
| sm_confirm: "st_pc s = EnableConfirms \<Longrightarrow> setup_main s (s\<lparr>st_pc := Deadline 2\<rparr>)"
| sm_confirm_error: "st_pc s = EnableConfirms \<Longrightarrow>
    setup_main s ((close_socket s)\<lparr>st_pc := StopCancel (Some ConfirmFailed)\<rparr>)"
| sm_stop_cancel: "st_pc s = StopCancel w \<Longrightarrow> st_cancel s = Armed \<Longrightarrow>
    setup_main s (s\<lparr>st_cancel := Stopped, st_pc := StopTimer w True\<rparr>)"
| sm_cancel_started: "st_pc s = StopCancel w \<Longrightarrow> st_cancel s = Started \<or> st_cancel s = Ran \<Longrightarrow>
    setup_main s (s\<lparr>st_pc := AwaitClosed w\<rparr>)"
| sm_closed: "st_pc s = AwaitClosed w \<Longrightarrow> st_cancel s = Ran \<Longrightarrow> setup_main s (s\<lparr>st_pc := StopTimer w False\<rparr>)"
| sm_no_timer: "st_pc s = StopTimer w c \<Longrightarrow> st_timer s = NoFunc \<Longrightarrow> setup_main s (s\<lparr>st_pc := Finished w c\<rparr>)"
| sm_stop_timer: "st_pc s = StopTimer w c \<Longrightarrow> st_timer s = Armed \<Longrightarrow>
    setup_main s (s\<lparr>st_timer := Stopped, st_pc := Finished w c\<rparr>)"
| sm_timer_started: "st_pc s = StopTimer w c \<Longrightarrow> st_timer s = Started \<or> st_timer s = Ran \<Longrightarrow>
    setup_main s (s\<lparr>st_pc := AwaitTimer w c\<rparr>)"
| sm_timer_done: "st_pc s = AwaitTimer w c \<Longrightarrow> st_timer s = Ran \<Longrightarrow> setup_main s (s\<lparr>st_pc := Finished w False\<rparr>)"
| sm_return: "st_pc s = Finished (Some e) c \<Longrightarrow> setup_main s (s\<lparr>st_pc := SetupDone (Some e)\<rparr>)"
| sm_success: "st_pc s = Finished None True \<Longrightarrow> \<not> st_ctx s \<Longrightarrow>
    setup_main s (s\<lparr>st_streams := True, st_pc := SetupDone None\<rparr>)"
| sm_give_up: "st_pc s = Finished None c \<Longrightarrow> \<not> c \<or> st_ctx s \<Longrightarrow> setup_main s ((close_socket s)\<lparr>st_pc := GaveUp\<rparr>)"
| sm_gave_up: "st_pc s = GaveUp \<Longrightarrow>
    setup_main s (s\<lparr>st_pc := SetupDone (Some (if st_ctx s then SetupCtx else SetupTimedOut))\<rparr>)"

text \<open>The context ends, which starts its callback a moment later; the timer fires; a callback runs.\<close>

inductive setup_callback :: "setup_state \<Rightarrow> setup_state \<Rightarrow> bool" where
  sc_start: "st_ctx s \<Longrightarrow> st_cancel s = Armed \<Longrightarrow> setup_callback s (s\<lparr>st_cancel := Started\<rparr>)"
| sc_run: "st_cancel s = Started \<Longrightarrow>
    setup_callback s ((if st_net s then close_socket s else s)\<lparr>st_cancel := Ran\<rparr>)"
| sc_fire: "st_timer s = Armed \<Longrightarrow> setup_callback s (s\<lparr>st_timer := Started\<rparr>)"
| sc_timeout: "st_timer s = Started \<Longrightarrow> setup_callback s ((close_socket s)\<lparr>st_timer := Ran\<rparr>)"

text \<open>Runs, with the number of steps the function itself made.\<close>

inductive setup_run :: "nat \<Rightarrow> setup_state \<Rightarrow> bool" where
  sr_start: "setup_run 0 (setup_start ctx)"
| sr_main: "setup_run n s \<Longrightarrow> setup_main s s' \<Longrightarrow> setup_run (Suc n) s'"
| sr_other: "setup_run n s \<Longrightarrow> setup_callback s s' \<or> s' = s\<lparr>st_ctx := True\<rparr> \<Longrightarrow> setup_run n s'"

section \<open>The guard of a write\<close>

text \<open>
  \<open>setPublishDeadline\<close> and its use in \<open>publishOn\<close>, whose calls take turns: the write deadline is set,
  the callback of the context sets it to the past, the write ends, \<open>stop\<close> stops the callback or awaits
  it, and the deadline is reset; after an error the publisher is retired, and its socket closed.
\<close>

datatype write_deadline = NoDeadline | Future | Past

datatype guard_pc = GIdle | GWriting | GStop bool | GWait bool | GAfter bool

record guard =
  gd_pc :: guard_pc
  gd_ctx :: bool
  gd_func :: callback
  gd_deadline :: write_deadline
  gd_open :: bool

definition guard_start :: guard where
  "guard_start = \<lparr>gd_pc = GIdle, gd_ctx = False, gd_func = NoFunc, gd_deadline = NoDeadline, gd_open = True\<rparr>"

inductive guard_step :: "guard \<Rightarrow> guard \<Rightarrow> bool" where
  gs_error: "gd_pc g = GIdle \<Longrightarrow> gd_open g \<Longrightarrow> guard_step g (g\<lparr>gd_open := False\<rparr>)"
| gs_guard: "gd_pc g = GIdle \<Longrightarrow> gd_open g \<Longrightarrow>
    guard_step g (g\<lparr>gd_pc := GWriting, gd_ctx := ctx, gd_func := Armed, gd_deadline := Future\<rparr>)"
| gs_written: "gd_pc g = GWriting \<Longrightarrow> guard_step g (g\<lparr>gd_pc := GStop ok\<rparr>)"
| gs_stop: "gd_pc g = GStop ok \<Longrightarrow> gd_func g = Armed \<Longrightarrow> guard_step g (g\<lparr>gd_pc := GAfter ok, gd_func := Stopped\<rparr>)"
| gs_late: "gd_pc g = GStop ok \<Longrightarrow> gd_func g = Started \<or> gd_func g = Ran \<Longrightarrow> guard_step g (g\<lparr>gd_pc := GWait ok\<rparr>)"
| gs_wait: "gd_pc g = GWait ok \<Longrightarrow> gd_func g = Ran \<Longrightarrow> guard_step g (g\<lparr>gd_pc := GAfter ok\<rparr>)"
| gs_reset: "gd_pc g = GAfter True \<Longrightarrow> guard_step g (g\<lparr>gd_pc := GIdle, gd_deadline := NoDeadline\<rparr>)"
| gs_retire: "gd_pc g = GAfter False \<Longrightarrow> guard_step g (g\<lparr>gd_pc := GIdle, gd_open := False\<rparr>)"
| gs_ctx: "guard_step g (g\<lparr>gd_ctx := True\<rparr>)"
| gs_start: "gd_ctx g \<Longrightarrow> gd_func g = Armed \<Longrightarrow> guard_step g (g\<lparr>gd_func := Started\<rparr>)"
| gs_run: "gd_func g = Started \<Longrightarrow> guard_step g (g\<lparr>gd_func := Ran, gd_deadline := Past\<rparr>)"

inductive guard_run :: "guard \<Rightarrow> bool" where
  gr_start: "guard_run guard_start"
| gr_step: "guard_run g \<Longrightarrow> guard_step g g' \<Longrightarrow> guard_run g'"

end
