(* ===== verification/SetupLaws.thy ===== *)
theory SetupLaws
  imports Setup
begin

text \<open>
  What the callbacks cannot do: once \<open>openPublisher\<close> has returned none of them is left, so the socket of
  the publisher it opened stays open, and one it gave up is closed; the guard of a write leaves nothing
  that touches the deadline of a later one.
\<close>

section \<open>The setup of a publisher\<close>

text \<open>The socket is registered, and open unless a callback has closed it.\<close>

definition connected :: "setup_state \<Rightarrow> bool" where
  "connected s = (st_net s \<and> st_timer s \<noteq> NoFunc \<and> st_sock s \<noteq> None \<and>
     (st_cancel s \<noteq> Ran \<and> st_timer s \<noteq> Ran \<longrightarrow> st_sock s = Some True))"

definition aim :: "setup_error option \<Rightarrow> setup_state \<Rightarrow> bool" where
  "aim w s = (case w of None \<Rightarrow> connected s \<and> st_pubNetConn s
     | Some e \<Rightarrow> e \<noteq> HandshakeFailed \<longrightarrow> st_sock s \<noteq> Some True)"

fun pc_wf :: "setup_pc \<Rightarrow> setup_state \<Rightarrow> bool" where
  "pc_wf Dial s = (st_sock s = None \<and> \<not> st_net s \<and> st_timer s = NoFunc \<and> st_cancel s \<noteq> Stopped)"
| "pc_wf Register s = (st_sock s = Some True \<and> \<not> st_net s \<and> st_timer s = NoFunc \<and> st_cancel s \<noteq> Stopped)"
| "pc_wf Handshake s = (connected s \<and> st_cancel s \<noteq> Stopped \<and> st_timer s \<noteq> Stopped)"
| "pc_wf (Deadline k) s =
     (connected s \<and> st_cancel s \<noteq> Stopped \<and> st_timer s \<noteq> Stopped \<and> (k = 0 \<or> st_pubNetConn s))"
| "pc_wf OpenChannel s = (connected s \<and> st_cancel s \<noteq> Stopped \<and> st_timer s \<noteq> Stopped \<and> st_pubNetConn s)"
| "pc_wf EnableConfirms s = (connected s \<and> st_cancel s \<noteq> Stopped \<and> st_timer s \<noteq> Stopped \<and> st_pubNetConn s)"
| "pc_wf (StopCancel w) s = (aim w s \<and> st_cancel s \<noteq> Stopped \<and> st_timer s \<noteq> Stopped)"
| "pc_wf (AwaitClosed w) s =
     (aim w s \<and> (st_cancel s = Started \<or> st_cancel s = Ran) \<and> st_timer s \<noteq> Stopped)"
| "pc_wf (StopTimer w c) s =
     (aim w s \<and> (st_cancel s = Stopped \<or> \<not> c \<and> st_cancel s = Ran) \<and> st_timer s \<noteq> Stopped)"
| "pc_wf (AwaitTimer w c) s =
     (aim w s \<and> (st_cancel s = Stopped \<or> \<not> c \<and> st_cancel s = Ran) \<and> (st_timer s = Started \<or> st_timer s = Ran))"
| "pc_wf (Finished w c) s =
     (aim w s \<and> settled (st_cancel s) \<and> settled (st_timer s) \<and>
      (c \<longrightarrow> st_cancel s = Stopped \<and> (st_timer s = Stopped \<or> st_timer s = NoFunc)))"
| "pc_wf GaveUp s = (st_sock s \<noteq> Some True \<and> settled (st_cancel s) \<and> settled (st_timer s))"
| "pc_wf Panicked s = False"
| "pc_wf (SetupDone r) s = (settled (st_cancel s) \<and> settled (st_timer s) \<and>
     (case r of None \<Rightarrow> st_sock s = Some True \<and> st_pubNetConn s \<and> st_streams s
      | Some e \<Rightarrow> e \<noteq> HandshakeFailed \<longrightarrow> st_sock s \<noteq> Some True))"

fun rank :: "setup_pc \<Rightarrow> nat" where
  "rank Dial = 0"
| "rank Register = 1"
| "rank Handshake = 2"
| "rank (Deadline k) = (if k = 0 then 3 else if k = 1 then 5 else 7)"
| "rank OpenChannel = 4"
| "rank EnableConfirms = 6"
| "rank (StopCancel _) = 8"
| "rank (AwaitClosed _) = 9"
| "rank (StopTimer _ _) = 10"
| "rank (AwaitTimer _ _) = 11"
| "rank (Finished _ _) = 12"
| "rank GaveUp = 13"
| "rank Panicked = 14"
| "rank (SetupDone _) = 14"

definition setup_wf :: "nat \<Rightarrow> setup_state \<Rightarrow> bool" where
  "setup_wf n s = (pc_wf (st_pc s) s \<and> st_cancel s \<noteq> NoFunc \<and> (st_streams s \<longrightarrow> st_pc s = SetupDone None) \<and>
     n \<le> rank (st_pc s))"

lemmas opening_defs = setup_wf_def connected_def aim_def settled_def close_socket_def

lemma setup_main_wf:
  assumes "setup_wf n s" and "setup_main s s'"
  shows "setup_wf (Suc n) s'"
  using assms(2,1)
proof cases
  case (sm_register fails)
  then show ?thesis using assms(1) by (auto simp: registerPublisherSocket_def opening_defs)
next
  case (sm_deadline k fails)
  then show ?thesis using assms(1)
    by (auto simp: after_deadline_def setupDeadline_def opening_defs split: option.splits)
next
  case (sm_give_up c)
  then show ?thesis using assms(1) by (auto simp: opening_defs split: option.splits)
qed (auto simp: opening_defs split: option.splits)

lemma setup_callback_wf:
  assumes "setup_wf n s" and "setup_callback s s'"
  shows "setup_wf n s'"
  using assms(2)
proof cases
  case sc_start
  then show ?thesis using assms(1) by (cases "st_pc s") (auto simp: opening_defs split: option.splits)
next
  case sc_run
  then show ?thesis using assms(1) by (cases "st_pc s") (auto simp: opening_defs split: option.splits)
next
  case sc_fire
  then show ?thesis using assms(1) by (cases "st_pc s") (auto simp: opening_defs split: option.splits)
next
  case sc_timeout
  then show ?thesis using assms(1) by (cases "st_pc s") (auto simp: opening_defs split: option.splits)
qed

lemma setup_run_wf: "setup_run n s \<Longrightarrow> setup_wf n s"
proof (induction rule: setup_run.induct)
  case (sr_start ctx)
  then show ?case by (simp add: setup_wf_def setup_start_def)
next
  case (sr_main n s s')
  then show ?case by (blast intro: setup_main_wf)
next
  case (sr_other n s s')
  then show ?case
  proof (elim disjE)
    assume "s' = s\<lparr>st_ctx := True\<rparr>"
    then show ?thesis using sr_other.IH
      by (cases "st_pc s") (auto simp: opening_defs split: option.splits)
  qed (blast intro: setup_callback_wf)
qed

text \<open>The function is never stuck: it can go on, or the callback it waits for can.\<close>

lemma setup_progress:
  assumes wf: "setup_wf n s" and "\<nexists>r. st_pc s = SetupDone r"
  shows "\<exists>s'. setup_main s s' \<or> setup_callback s s'"
proof -
  have cancel: "st_cancel s \<noteq> NoFunc" and pc: "pc_wf (st_pc s) s" using wf by (simp_all add: setup_wf_def)
  show ?thesis
  proof (cases "st_pc s")
    case (StopCancel w)
    then show ?thesis using pc cancel by (cases "st_cancel s") (auto intro: setup_main.intros)
  next
    case (AwaitClosed w)
    then show ?thesis using pc by (auto intro: setup_main.intros setup_callback.intros)
  next
    case (StopTimer w c)
    then show ?thesis using pc by (cases "st_timer s") (auto intro: setup_main.intros)
  next
    case (AwaitTimer w c)
    then show ?thesis using pc by (auto intro: setup_main.intros setup_callback.intros)
  next
    case (Finished w c)
    show ?thesis
    proof (cases w)
      case (Some e)
      then show ?thesis using sm_return [of s e c] Finished by blast
    next
      case None
      then show ?thesis using sm_success [of s] sm_give_up [of s c] Finished by (cases "c \<and> \<not> st_ctx s") auto
    qed
  qed (use assms(2) pc in \<open>auto intro: setup_main.intros\<close>)
qed

inductive_cases setup_callbackE: "setup_callback s s'"

text \<open>
  C37: \<open>openPublisher\<close> never panics and returns after at most fourteen steps of its own, waiting only for
  a callback that runs. Once it has returned no callback is left, so neither its timer nor the end of
  its context can close the socket later. If it succeeded, the socket is open on this side and the
  streams are set; if it failed, the socket is closed, except where the library's own handshake failed,
  and no stream was set.
\<close>

theorem setup_settled:
  assumes "setup_run n s"
  shows "n \<le> 14 \<and> st_pc s \<noteq> Panicked \<and>
    (case st_pc s of
       SetupDone r \<Rightarrow> (\<nexists>s'. setup_callback s s') \<and>
         (case r of
            None \<Rightarrow> st_sock s = Some True \<and> st_pubNetConn s \<and> st_streams s
          | Some e \<Rightarrow> (e = HandshakeFailed \<or> st_sock s \<noteq> Some True) \<and> \<not> st_streams s)
     | _ \<Rightarrow> \<exists>s'. setup_main s s' \<or> setup_callback s s')"
proof -
  have wf: "setup_wf n s" using assms by (rule setup_run_wf)
  have rank: "rank p \<le> 14" for p by (cases p) auto
  have n: "n \<le> 14" using wf rank [of "st_pc s"] by (auto simp: setup_wf_def)
  have p: "st_pc s \<noteq> Panicked" using wf by (auto simp: setup_wf_def)
  show ?thesis
  proof (cases "\<exists>r. st_pc s = SetupDone r")
    case True
    then obtain r where r: "st_pc s = SetupDone r" by blast
    have "\<nexists>s'. setup_callback s s'" using wf r by (auto simp: setup_wf_def settled_def elim: setup_callbackE)
    then show ?thesis using n wf r by (auto simp: setup_wf_def split: option.splits)
  next
    case False
    then show ?thesis using n p setup_progress [OF wf False] by (cases "st_pc s") auto
  qed
qed

definition demo_at :: "setup_pc \<Rightarrow> bool \<Rightarrow> callback \<Rightarrow> callback \<Rightarrow> setup_state" where
  "demo_at pc sock_open cancel timer = \<lparr>st_pc = pc, st_ctx = False, st_sock = Some sock_open, st_net = True,
     st_cancel = cancel, st_timer = timer, st_pubNetConn = True, st_streams = False\<rparr>"

text \<open>The timer fires while the publisher's channel is made to confirm.\<close>

lemma demo_late: "setup_run 7 (demo_at (Deadline 2) False Armed Ran)"
proof -
  let ?start = "setup_start False"
  have r1: "setup_run (Suc 0) (?start\<lparr>st_sock := Some True, st_pc := Register\<rparr>)"
    by (rule sr_main [OF sr_start sm_dial]) (simp add: setup_start_def)
  have r2: "setup_run (Suc (Suc 0)) (registerPublisherSocket False (?start\<lparr>st_sock := Some True, st_pc := Register\<rparr>))"
    by (rule sr_main [OF r1 sm_register]) simp
  have r3: "setup_run (Suc (Suc (Suc 0))) ((demo_at (Deadline 0) True Armed Armed)\<lparr>st_pubNetConn := False\<rparr>)"
    using sr_main [OF r2 sm_handshake] by (simp add: registerPublisherSocket_def setup_start_def demo_at_def)
  have r4: "setup_run 4 (demo_at OpenChannel True Armed Armed)"
    using sr_main [OF r3 sm_deadline [of _ 0 False]]
    by (simp add: demo_at_def after_deadline_def setupDeadline_def eval_nat_numeral)
  have r5: "setup_run 5 (demo_at (Deadline 1) True Armed Armed)"
    using sr_main [OF r4 sm_channel] by (simp add: demo_at_def eval_nat_numeral)
  have r6: "setup_run 6 (demo_at EnableConfirms True Armed Armed)"
    using sr_main [OF r5 sm_deadline [of _ 1 False]]
    by (simp add: demo_at_def after_deadline_def setupDeadline_def eval_nat_numeral)
  have r7: "setup_run 7 (demo_at (Deadline 2) True Armed Armed)"
    using sr_main [OF r6 sm_confirm] by (simp add: demo_at_def eval_nat_numeral)
  have r8: "setup_run 7 (demo_at (Deadline 2) True Armed Started)"
    using sr_other [OF r7 disjI1 [OF sc_fire]] by (simp add: demo_at_def)
  show ?thesis using sr_other [OF r8 disjI1 [OF sc_timeout]] by (simp add: demo_at_def close_socket_def)
qed

theorem setup_settled_witness:
  "\<exists>s. setup_run 13 s \<and> st_pc s = SetupDone (Some SetupTimedOut) \<and> st_sock s = Some False \<and> (\<nexists>s'. setup_callback s s')"
proof -
  have r8: "setup_run 8 (demo_at (StopCancel None) False Armed Ran)"
    using sr_main [OF demo_late sm_deadline [of _ 2 False]]
    by (simp add: demo_at_def after_deadline_def setupDeadline_def eval_nat_numeral)
  have r9: "setup_run 9 (demo_at (StopTimer None True) False Stopped Ran)"
    using sr_main [OF r8 sm_stop_cancel] by (simp add: demo_at_def eval_nat_numeral)
  have r10: "setup_run 10 (demo_at (AwaitTimer None True) False Stopped Ran)"
    using sr_main [OF r9 sm_timer_started] by (simp add: demo_at_def eval_nat_numeral)
  have r11: "setup_run 11 (demo_at (Finished None False) False Stopped Ran)"
    using sr_main [OF r10 sm_timer_done] by (simp add: demo_at_def eval_nat_numeral)
  have r12: "setup_run 12 (demo_at GaveUp False Stopped Ran)"
    using sr_main [OF r11 sm_give_up [of _ False]] by (simp add: demo_at_def close_socket_def eval_nat_numeral)
  have r13: "setup_run 13 (demo_at (SetupDone (Some SetupTimedOut)) False Stopped Ran)"
    using sr_main [OF r12 sm_gave_up] by (simp add: demo_at_def eval_nat_numeral)
  show ?thesis using setup_settled [OF r13] r13 by (intro exI [of _ "demo_at (SetupDone (Some SetupTimedOut)) False Stopped Ran"])
      (simp add: demo_at_def)
qed

section \<open>The guard of a write\<close>

fun guard_wf :: "guard_pc \<Rightarrow> guard \<Rightarrow> bool" where
  "guard_wf GIdle g = (settled (gd_func g) \<and> (gd_open g \<longrightarrow> gd_deadline g = NoDeadline))"
| "guard_wf GWriting g = (gd_func g = Armed \<or> gd_func g = Started \<or> gd_func g = Ran)"
| "guard_wf (GStop ok) g = (gd_func g = Armed \<or> gd_func g = Started \<or> gd_func g = Ran)"
| "guard_wf (GWait ok) g = (gd_func g = Started \<or> gd_func g = Ran)"
| "guard_wf (GAfter ok) g = settled (gd_func g)"

lemma guard_run_wf: "guard_run g \<Longrightarrow> guard_wf (gd_pc g) g"
proof (induction rule: guard_run.induct)
  case gr_start
  then show ?case by (simp add: guard_start_def settled_def)
next
  case (gr_step g g')
  from gr_step.hyps(2) gr_step.IH show ?case
    by (cases rule: guard_step.cases; cases "gd_pc g"; auto simp: settled_def)
qed

text \<open>
  Between two writes on a publisher that was not retired no callback of an earlier write is left, and
  no deadline: the next write has its full time.
\<close>

lemma write_guard_quiet:
  assumes "guard_run g" and "gd_pc g = GIdle" and "gd_open g"
  shows "gd_deadline g = NoDeadline" and "gd_func g \<noteq> Armed" and "gd_func g \<noteq> Started"
  using guard_run_wf [OF assms(1)] assms(2,3) by (auto simp: settled_def)

end
