(* ===== verification/Outbox.thy ===== *)
theory Outbox
  imports Contracts
begin

text \<open>
  The transactional outbox: the table both services keep (\<open>gateway_outbox\<close>,
  \<open>scheduler_outbox\<close> of \<open>migrations/init.sql\<close>), the three operations of each store on it
  (\<open>services/gateway/internal/store/outbox.go\<close>, \<open>services/scheduler/internal/store/outbox.go\<close>)
  and the delivery worker of \<open>shared/pkg/outbox/worker.go\<close>. The worker's \<open>Store\<close> interface
  is the locale \<open>outbox_store\<close>; both stores interpret it. Inside it: an event is marked
  published only after the broker confirmed it, and no event is lost or changed.
\<close>

section \<open>The table\<close>

record outbox_row =
  ob_id :: uuid
  ob_event_key :: string
  ob_queue :: string
  ob_payload :: json
  ob_created_at :: time
  ob_available_at :: time
  ob_attempts :: int
  ob_lease_token :: "uuid option"
  ob_locked_until :: "time option"
  ob_published_at :: "time option"
  ob_last_error :: "string option"

type_synonym outbox = "outbox_row list"

text \<open>A row as INSERT makes it, with the defaults of the schema.\<close>

definition new_outbox_row :: "uuid \<Rightarrow> time \<Rightarrow> string \<Rightarrow> string \<Rightarrow> json \<Rightarrow> outbox_row" where
  "new_outbox_row i now key queue payload =
     \<lparr>ob_id = i, ob_event_key = key, ob_queue = queue, ob_payload = payload,
      ob_created_at = now, ob_available_at = now, ob_attempts = 0, ob_lease_token = None,
      ob_locked_until = None, ob_published_at = None, ob_last_error = None\<rparr>"

lemma new_outbox_row_simps [simp]:
  "ob_id (new_outbox_row i now key queue payload) = i"
  "ob_event_key (new_outbox_row i now key queue payload) = key"
  "ob_queue (new_outbox_row i now key queue payload) = queue"
  "ob_payload (new_outbox_row i now key queue payload) = payload"
  "ob_published_at (new_outbox_row i now key queue payload) = None"
  by (simp_all add: new_outbox_row_def)

section \<open>Events and the worker's constants\<close>

record Event =
  ev_ID :: uuid
  ev_LeaseToken :: uuid
  ev_Queue :: string
  ev_Payload :: json
  ev_Attempts :: int

definition claimLimit :: nat where "claimLimit = 1"
definition leaseDuration :: duration where "leaseDuration = 60 * second"
definition publishTimeout :: duration where "publishTimeout = 10 * second"
definition minBackoff :: duration where "minBackoff = second"
definition maxBackoff :: duration where "maxBackoff = 60 * second"

definition backoff :: "int \<Rightarrow> duration" where
  "backoff attempts =
     (let a = (if attempts < 0 then 0 else attempts);
          n = nat (min a 6);
          d = minBackoff * 2 ^ n
      in if d > maxBackoff then maxBackoff else d)"

section \<open>What one store call depends on besides the table\<close>

text \<open>
  The server's \<open>NOW()\<close>, the statements the driver fails, the tokens \<open>gen_random_uuid()\<close>
  draws per row, and the rows another transaction holds locked (\<open>SKIP LOCKED\<close>).
\<close>

record oenv =
  oe_now :: time
  oe_flt :: faults
  oe_tok :: "uuid \<Rightarrow> uuid"
  oe_locked :: "uuid \<Rightarrow> bool"

text \<open>The UPDATE of a claim: lease the picked rows and count the attempt. (The
  counter is an \<open>INT\<close> column; its overflow, after two thousand million claims of one
  event, is not modelled.)\<close>

definition lease_rows :: "oenv \<Rightarrow> duration \<Rightarrow> uuid list \<Rightarrow> outbox \<Rightarrow> outbox" where
  "lease_rows e lease ids t =
     update_where (\<lambda>r. ob_id r \<in> set ids)
       (\<lambda>r. r\<lparr>ob_lease_token := Some (oe_tok e (ob_id r)),
             ob_locked_until := Some (oe_now e + lease),
             ob_attempts := ob_attempts r + 1\<rparr>) t"

definition leased_event :: "oenv \<Rightarrow> outbox_row \<Rightarrow> Event" where
  "leased_event e r =
     \<lparr>ev_ID = ob_id r, ev_LeaseToken = oe_tok e (ob_id r), ev_Queue = ob_queue r,
      ev_Payload = ob_payload r, ev_Attempts = ob_attempts r + 1\<rparr>"

text \<open>
  The transaction of a claim around the picked rows: \<open>Begin\<close>, the query, reading the rows
  and \<open>Commit\<close> can fail; then nothing is leased.
\<close>

definition claim_tx :: "oenv \<Rightarrow> duration \<Rightarrow> outbox_row list \<Rightarrow> outbox \<Rightarrow> outbox \<times> (store_error + Event list)" where
  "claim_tx e lease picked t =
     (if oe_flt e 0 then (t, Inl ErrDB)
      else if oe_flt e 1 then (t, Inl ErrDB)
      else if oe_flt e 2 then (t, Inl ErrDB)
      else if oe_flt e 3 then (t, Inl ErrDB)
      else (lease_rows e lease (map ob_id picked) t, Inr (map (leased_event e) picked)))"

section \<open>The Gateway's store\<close>

definition gw_due :: "oenv \<Rightarrow> outbox_row \<Rightarrow> bool" where
  "gw_due e r \<longleftrightarrow> ob_published_at r = None \<and> ob_available_at r \<le> oe_now e
     \<and> (case ob_locked_until r of None \<Rightarrow> True | Some l \<Rightarrow> l < oe_now e)
     \<and> \<not> oe_locked e (ob_id r)"

definition gw_Claim :: "oenv \<Rightarrow> nat \<Rightarrow> duration \<Rightarrow> outbox \<Rightarrow> outbox \<times> (store_error + Event list)" where
  "gw_Claim e limit lease t =
     claim_tx e lease (take limit (sort_key ob_created_at (filter (gw_due e) t))) t"

definition owned :: "uuid \<Rightarrow> uuid \<Rightarrow> outbox_row \<Rightarrow> bool" where
  "owned i token r \<longleftrightarrow> ob_id r = i \<and> ob_lease_token r = Some token \<and> ob_published_at r = None"

definition gw_MarkPublished :: "oenv \<Rightarrow> uuid \<Rightarrow> uuid \<Rightarrow> outbox \<Rightarrow> outbox \<times> store_error option" where
  "gw_MarkPublished e i leaseToken t =
     (if oe_flt e 0 then (t, Some ErrDB)
      else (update_where (owned i leaseToken)
              (\<lambda>r. r\<lparr>ob_published_at := Some (oe_now e), ob_lease_token := None,
                    ob_locked_until := None, ob_last_error := None\<rparr>) t, None))"

definition gw_Retry :: "oenv \<Rightarrow> uuid \<Rightarrow> uuid \<Rightarrow> string \<Rightarrow> duration \<Rightarrow> outbox \<Rightarrow> outbox \<times> store_error option" where
  "gw_Retry e i leaseToken lastError delay t =
     (if oe_flt e 0 then (t, Some ErrDB)
      else (update_where (owned i leaseToken)
              (\<lambda>r. r\<lparr>ob_available_at := oe_now e + delay, ob_lease_token := None,
                    ob_locked_until := None, ob_last_error := Some lastError\<rparr>) t, None))"

text \<open>
  \<open>enqueue\<close>: INSERT with ON CONFLICT(event_key) DO NOTHING, inside the caller's
  transaction; \<open>None\<close> when the drawn \<open>id\<close> is taken.
\<close>

definition gw_enqueue :: "uuid \<Rightarrow> time \<Rightarrow> string \<Rightarrow> string \<Rightarrow> json \<Rightarrow> outbox \<Rightarrow> outbox option" where
  "gw_enqueue i now key queue payload t =
     (if exists_where (\<lambda>r. ob_event_key r = key) t then Some t
      else if exists_where (\<lambda>r. ob_id r = i) t then None
      else Some (t @ [new_outbox_row i now key queue payload]))"

section \<open>The Scheduler's store\<close>

definition sc_due :: "oenv \<Rightarrow> outbox_row \<Rightarrow> bool" where
  "sc_due e r \<longleftrightarrow> ob_published_at r = None \<and> ob_available_at r \<le> oe_now e
     \<and> (case ob_locked_until r of None \<Rightarrow> True | Some l \<Rightarrow> l \<le> oe_now e)
     \<and> \<not> oe_locked e (ob_id r)"

definition sc_Claim :: "oenv \<Rightarrow> nat \<Rightarrow> duration \<Rightarrow> outbox \<Rightarrow> outbox \<times> (store_error + Event list)" where
  "sc_Claim e limit lease t =
     claim_tx e lease
       (take limit (sort_key (\<lambda>r. (ob_created_at r, ob_id r)) (filter (sc_due e) t))) t"

text \<open>\<open>RowsAffected() == 0\<close> is reported as \<open>pgx.ErrNoRows\<close>: the lease was lost.\<close>

definition sc_MarkPublished :: "oenv \<Rightarrow> uuid \<Rightarrow> uuid \<Rightarrow> outbox \<Rightarrow> outbox \<times> store_error option" where
  "sc_MarkPublished e i token t =
     (if oe_flt e 0 then (t, Some ErrDB)
      else if count_where (owned i token) t = 0 then (t, Some ErrDB)
      else (update_where (owned i token)
              (\<lambda>r. r\<lparr>ob_published_at := Some (oe_now e), ob_lease_token := None,
                    ob_locked_until := None\<rparr>) t, None))"

definition sc_Retry :: "oenv \<Rightarrow> uuid \<Rightarrow> uuid \<Rightarrow> string \<Rightarrow> duration \<Rightarrow> outbox \<Rightarrow> outbox \<times> store_error option" where
  "sc_Retry e i token lastError delay t =
     (if oe_flt e 0 then (t, Some ErrDB)
      else if count_where (owned i token) t = 0 then (t, Some ErrDB)
      else (update_where (owned i token)
              (\<lambda>r. r\<lparr>ob_available_at := oe_now e + delay, ob_lease_token := None,
                    ob_locked_until := None, ob_last_error := Some lastError\<rparr>) t, None))"

section \<open>The worker\<close>

text \<open>
  \<open>Worker.Run\<close> over a store given by its three operations. The environment of one pass of
  the loop says, at each place the code looks at it, whether the context is done, what the
  store calls depend on, and how the publisher answers (\<open>None\<close>: confirmed). The state is
  the store's and the list of publications that were confirmed.
\<close>

datatype wpoint = AtTop | AfterClaim | InWait | AtEvent nat | AfterPublish nat | AfterStore nat

record 'e wenv =
  we_done :: "wpoint \<Rightarrow> bool"
  we_claim :: 'e
  we_store :: "nat \<Rightarrow> 'e"
  we_publish :: "string \<Rightarrow> json \<Rightarrow> string option"

type_synonym publications = "(string \<times> json) list"

fun worker_events ::
  "('e \<Rightarrow> uuid \<Rightarrow> uuid \<Rightarrow> 's \<Rightarrow> 's \<times> store_error option) \<Rightarrow>
   ('e \<Rightarrow> uuid \<Rightarrow> uuid \<Rightarrow> string \<Rightarrow> duration \<Rightarrow> 's \<Rightarrow> 's \<times> store_error option) \<Rightarrow>
   'e wenv \<Rightarrow> nat \<Rightarrow> Event list \<Rightarrow> 's \<times> publications \<Rightarrow> ('s \<times> publications) \<times> bool" where
  "worker_events mark retry w i [] (s, pubs) = ((s, pubs), True)"
| "worker_events mark retry w i (ev # evs) (s, pubs) =
     (if we_done w (AtEvent i) then ((s, pubs), False)
      else if \<not> json_Valid (ev_Payload ev) then
        (let (s', err) = retry (we_store w i) (ev_ID ev) (ev_LeaseToken ev)
               ''invalid JSON payload'' (backoff (ev_Attempts ev)) s
         in if err \<noteq> None \<and> we_done w (AfterStore i) then ((s', pubs), False)
            else worker_events mark retry w (Suc i) evs (s', pubs))
      else case we_publish w (ev_Queue ev) (ev_Payload ev) of
        Some e \<Rightarrow>
          (if we_done w (AfterPublish i) then ((s, pubs), False)
           else (let (s', err) = retry (we_store w i) (ev_ID ev) (ev_LeaseToken ev) e
                       (backoff (ev_Attempts ev)) s
                 in if err \<noteq> None \<and> we_done w (AfterStore i) then ((s', pubs), False)
                    else worker_events mark retry w (Suc i) evs (s', pubs)))
      | None \<Rightarrow>
          (let pubs' = pubs @ [(ev_Queue ev, ev_Payload ev)];
               (s', err) = mark (we_store w i) (ev_ID ev) (ev_LeaseToken ev) s
           in if err \<noteq> None \<and> we_done w (AfterStore i) then ((s', pubs'), False)
              else worker_events mark retry w (Suc i) evs (s', pubs')))"

text \<open>One pass of the \<open>for\<close> loop; \<open>False\<close> means \<open>Run\<close> returned \<open>ctx.Err()\<close>.\<close>

definition worker_pass ::
  "('e \<Rightarrow> nat \<Rightarrow> duration \<Rightarrow> 's \<Rightarrow> 's \<times> (store_error + Event list)) \<Rightarrow>
   ('e \<Rightarrow> uuid \<Rightarrow> uuid \<Rightarrow> 's \<Rightarrow> 's \<times> store_error option) \<Rightarrow>
   ('e \<Rightarrow> uuid \<Rightarrow> uuid \<Rightarrow> string \<Rightarrow> duration \<Rightarrow> 's \<Rightarrow> 's \<times> store_error option) \<Rightarrow>
   'e wenv \<Rightarrow> 's \<times> publications \<Rightarrow> ('s \<times> publications) \<times> bool" where
  "worker_pass claim mark retry w x =
     (if we_done w AtTop then (x, False)
      else case claim (we_claim w) claimLimit leaseDuration (fst x) of
        (s, Inl _) \<Rightarrow>
          (if we_done w AfterClaim then ((s, snd x), False)
           else ((s, snd x), \<not> we_done w InWait))
      | (s, Inr []) \<Rightarrow> ((s, snd x), \<not> we_done w InWait)
      | (s, Inr evs) \<Rightarrow> worker_events mark retry w 0 evs (s, snd x))"

text \<open>\<open>Run\<close> for as many passes as environments are given, stopping where it returns.\<close>

fun worker_run ::
  "('e \<Rightarrow> nat \<Rightarrow> duration \<Rightarrow> 's \<Rightarrow> 's \<times> (store_error + Event list)) \<Rightarrow>
   ('e \<Rightarrow> uuid \<Rightarrow> uuid \<Rightarrow> 's \<Rightarrow> 's \<times> store_error option) \<Rightarrow>
   ('e \<Rightarrow> uuid \<Rightarrow> uuid \<Rightarrow> string \<Rightarrow> duration \<Rightarrow> 's \<Rightarrow> 's \<times> store_error option) \<Rightarrow>
   'e wenv list \<Rightarrow> 's \<times> publications \<Rightarrow> 's \<times> publications" where
  "worker_run claim mark retry [] x = x"
| "worker_run claim mark retry (w # ws) x =
     (let (x', go) = worker_pass claim mark retry w x
      in if go then worker_run claim mark retry ws x' else x')"

section \<open>The interface the worker relies on\<close>

text \<open>
  What the worker needs of its store: an abstract view of the events (queue, payload,
  published or not), which claims and retries do not change, which a mark changes only by
  setting the flag of that event, and that claimed events are unpublished events of the
  view.
\<close>

type_synonym event_view = "uuid \<Rightarrow> (string \<times> json \<times> bool) option"

definition same_events :: "event_view \<Rightarrow> event_view \<Rightarrow> bool" where
  "same_events v v' \<longleftrightarrow> (\<forall>i. map_option (\<lambda>(q, p, _). (q, p)) (v i) = map_option (\<lambda>(q, p, _). (q, p)) (v' i))"

definition confirmed :: "event_view \<Rightarrow> event_view \<Rightarrow> publications \<Rightarrow> bool" where
  "confirmed v0 v pubs \<longleftrightarrow>
     (\<forall>i q p. v i = Some (q, p, True) \<longrightarrow> v0 i = Some (q, p, True) \<or> (q, p) \<in> set pubs)"

lemma same_events_refl [simp]: "same_events v v"
  by (simp add: same_events_def)

lemma same_events_trans: "same_events u v \<Longrightarrow> same_events v w \<Longrightarrow> same_events u w"
  by (simp add: same_events_def)

lemma same_events_sym: "same_events v w \<Longrightarrow> same_events w v"
  by (simp add: same_events_def)

lemma same_events_Some: "same_events v w \<Longrightarrow> v i = Some (q, p, b) \<Longrightarrow> \<exists>b'. w i = Some (q, p, b')"
  unfolding same_events_def by (drule spec [of _ i]) (cases "w i"; auto)

lemma confirmed_mono: "confirmed v0 v pubs \<Longrightarrow> set pubs \<subseteq> set pubs' \<Longrightarrow> confirmed v0 v pubs'"
  unfolding confirmed_def by blast

locale outbox_store =
  fixes claim :: "'e \<Rightarrow> nat \<Rightarrow> duration \<Rightarrow> 's \<Rightarrow> 's \<times> (store_error + Event list)"
    and mark :: "'e \<Rightarrow> uuid \<Rightarrow> uuid \<Rightarrow> 's \<Rightarrow> 's \<times> store_error option"
    and retry :: "'e \<Rightarrow> uuid \<Rightarrow> uuid \<Rightarrow> string \<Rightarrow> duration \<Rightarrow> 's \<Rightarrow> 's \<times> store_error option"
    and view :: "'s \<Rightarrow> event_view"
    and wf :: "'s \<Rightarrow> bool"
  assumes claim_view: "wf s \<Longrightarrow> view (fst (claim e n d s)) = view s"
    and claim_wf: "wf s \<Longrightarrow> wf (fst (claim e n d s))"
    and claim_events: "wf s \<Longrightarrow> claim e n d s = (s', Inr evs) \<Longrightarrow> ev \<in> set evs \<Longrightarrow>
      view s (ev_ID ev) = Some (ev_Queue ev, ev_Payload ev, False)"
    and mark_view: "wf s \<Longrightarrow> view s i = Some (q, p, b) \<Longrightarrow>
      view (fst (mark e i t s)) = view s \<or> view (fst (mark e i t s)) = (view s)(i \<mapsto> (q, p, True))"
    and mark_wf: "wf s \<Longrightarrow> wf (fst (mark e i t s))"
    and retry_view: "wf s \<Longrightarrow> view (fst (retry e i t er d s)) = view s"
    and retry_wf: "wf s \<Longrightarrow> wf (fst (retry e i t er d s))"
begin

definition sound :: "event_view \<Rightarrow> 's \<times> publications \<Rightarrow> bool" where
  "sound v0 x \<longleftrightarrow> wf (fst x) \<and> same_events v0 (view (fst x)) \<and> confirmed v0 (view (fst x)) (snd x)
     \<and> (\<forall>i q p. v0 i = Some (q, p, True) \<longrightarrow> view (fst x) i = Some (q, p, True))"

lemma sound_init: "wf s \<Longrightarrow> sound (view s) (s, pubs)"
  by (simp add: sound_def confirmed_def)

lemma sound_same_view:
  "sound v0 (s, pubs) \<Longrightarrow> wf s' \<Longrightarrow> view s' = view s \<Longrightarrow> sound v0 (s', pubs)"
  by (simp add: sound_def)

lemma sound_mark:
  assumes "sound v0 (s, pubs)" and "view s i = Some (q, p, b)"
  shows "sound v0 (fst (mark e i t s), pubs @ [(q, p)])"
proof -
  have wf: "wf s" and same: "same_events v0 (view s)" and conf: "confirmed v0 (view s) pubs"
    and stay: "\<And>i q p. v0 i = Some (q, p, True) \<Longrightarrow> view s i = Some (q, p, True)"
    using assms(1) by (auto simp: sound_def)
  have conf': "confirmed v0 (view s) (pubs @ [(q, p)])"
    using conf by (rule confirmed_mono) auto
  consider "view (fst (mark e i t s)) = view s"
    | "view (fst (mark e i t s)) = (view s)(i \<mapsto> (q, p, True))"
    using mark_view [OF wf assms(2)] by blast
  then show ?thesis
  proof cases
    case 1
    then show ?thesis using mark_wf [OF wf] same conf' stay by (simp add: sound_def)
  next
    case 2
    have "same_events (view s) ((view s)(i \<mapsto> (q, p, True)))"
      using assms(2) by (simp add: same_events_def)
    moreover have "confirmed v0 ((view s)(i \<mapsto> (q, p, True))) (pubs @ [(q, p)])"
      using conf' by (auto simp: confirmed_def)
    ultimately show ?thesis
      using 2 mark_wf [OF wf] same stay assms(2)
      by (auto simp: sound_def intro: same_events_trans dest!: stay)
  qed
qed

lemma sound_events:
  assumes "sound v0 x"
    and "\<And>ev. ev \<in> set evs \<Longrightarrow> \<exists>b. v0 (ev_ID ev) = Some (ev_Queue ev, ev_Payload ev, b)"
  shows "sound v0 (fst (worker_events mark retry w i evs x))"
  using assms
proof (induction evs arbitrary: i x)
  case Nil
  then show ?case by (cases x) simp
next
  case (Cons ev evs)
  obtain s pubs where x: "x = (s, pubs)" by (cases x)
  have wf: "wf s" and same: "same_events v0 (view s)" using Cons.prems(1) by (auto simp: x sound_def)
  obtain b0 where "v0 (ev_ID ev) = Some (ev_Queue ev, ev_Payload ev, b0)"
    using Cons.prems(2) by auto
  then obtain b where v: "view s (ev_ID ev) = Some (ev_Queue ev, ev_Payload ev, b)"
    using same_events_Some [OF same] by blast
  have r: "sound v0 (fst (retry e j t er d s), pubs)" for e j t er d
    using sound_same_view [of v0 s pubs] Cons.prems(1) retry_view [OF wf] retry_wf [OF wf] by (simp add: x)
  have m: "sound v0 (fst (mark e (ev_ID ev) t s), pubs @ [(ev_Queue ev, ev_Payload ev)])" for e t
    using sound_mark [OF _ v] Cons.prems(1) by (simp add: x)
  have IH: "sound v0 y \<Longrightarrow> sound v0 (fst (worker_events mark retry w (Suc i) evs y))" for y
    using Cons.IH Cons.prems(2) by simp
  show ?case
    using Cons.prems(1) IH r [of "we_store w i" "ev_ID ev" "ev_LeaseToken ev"]
      m [of "we_store w i" "ev_LeaseToken ev"]
    by (auto simp: x Let_def case_prod_beta split: option.splits)
qed

lemma sound_pass:
  assumes "sound v0 x"
  shows "sound v0 (fst (worker_pass claim mark retry w x))"
proof -
  obtain s pubs where x: "x = (s, pubs)" by (cases x)
  have wf: "wf s" and same: "same_events v0 (view s)" using assms by (auto simp: x sound_def)
  obtain s' res where c: "claim (we_claim w) claimLimit leaseDuration s = (s', res)" by fastforce
  have s': "sound v0 (s', pubs)"
    using sound_same_view [of v0 s pubs s'] assms claim_view [OF wf, of "we_claim w" claimLimit leaseDuration]
      claim_wf [OF wf, of "we_claim w" claimLimit leaseDuration] c x by simp
  have "\<exists>b. v0 (ev_ID ev) = Some (ev_Queue ev, ev_Payload ev, b)" if "res = Inr evs" "ev \<in> set evs" for ev evs
    using claim_events [OF wf] c that same by (fastforce simp: same_events_def dest: spec [of _ "ev_ID ev"] split: option.splits)
  then show ?thesis
    using s' assms c
    by (auto simp: worker_pass_def x simp del: worker_events.simps split: sum.splits list.splits intro!: sound_events)
qed

lemma sound_run: "sound v0 x \<Longrightarrow> sound v0 (worker_run claim mark retry ws x)"
proof (induction ws arbitrary: x)
  case (Cons w ws)
  then show ?case using sound_pass [of v0 x w] by (cases "worker_pass claim mark retry w x") (auto simp: Let_def)
qed simp

text \<open>Whatever fails: published events were confirmed by the broker, and no event changes.\<close>

lemma run_sound:
  assumes "wf s" and "worker_run claim mark retry ws (s, []) = (s', pubs)"
  shows "same_events (view s) (view s')"
    and "view s' i = Some (q, p, True) \<Longrightarrow> view s i = Some (q, p, True) \<or> (q, p) \<in> set pubs"
    and "view s i = Some (q, p, True) \<Longrightarrow> view s' i = Some (q, p, True)"
proof -
  have "sound (view s) (s', pubs)" using sound_run [OF sound_init [OF assms(1)], of ws "[]"] assms(2) by simp
  then show "same_events (view s) (view s')"
    and "view s' i = Some (q, p, True) \<Longrightarrow> view s i = Some (q, p, True) \<or> (q, p) \<in> set pubs"
    and "view s i = Some (q, p, True) \<Longrightarrow> view s' i = Some (q, p, True)"
    by (auto simp: sound_def confirmed_def)
qed

end

section \<open>Liveness of the interface\<close>

text \<open>
  A store whose calls do not fail (\<open>healthy\<close>) claims an event whenever one is due, no more
  than the limit, and lets the holder of the lease mark it; other events stay due.
\<close>

definition valid_events :: "event_view \<Rightarrow> bool" where
  "valid_events v \<longleftrightarrow> (\<forall>i q p b. v i = Some (q, p, b) \<longrightarrow> json_Valid p)"

lemma valid_events_same: "same_events v w \<Longrightarrow> valid_events v \<Longrightarrow> valid_events w"
  unfolding valid_events_def by (metis same_events_Some same_events_sym)

definition unpublished :: "event_view \<Rightarrow> uuid set" where
  "unpublished v = {i. \<exists>q p. v i = Some (q, p, False)}"

locale live_outbox_store = outbox_store claim mark retry view wf
  for claim :: "'e \<Rightarrow> nat \<Rightarrow> duration \<Rightarrow> 's \<Rightarrow> 's \<times> (store_error + Event list)"
    and mark :: "'e \<Rightarrow> uuid \<Rightarrow> uuid \<Rightarrow> 's \<Rightarrow> 's \<times> store_error option"
    and retry :: "'e \<Rightarrow> uuid \<Rightarrow> uuid \<Rightarrow> string \<Rightarrow> duration \<Rightarrow> 's \<Rightarrow> 's \<times> store_error option"
    and view :: "'s \<Rightarrow> event_view"
    and wf :: "'s \<Rightarrow> bool" +
  fixes healthy :: "'e \<Rightarrow> bool"
    and due :: "'e \<Rightarrow> 's \<Rightarrow> uuid \<Rightarrow> bool"
  assumes claim_ok: "wf s \<Longrightarrow> healthy e \<Longrightarrow> \<exists>evs. snd (claim e n d s) = Inr evs \<and> length evs \<le> n
      \<and> (\<forall>ev \<in> set evs. due e s (ev_ID ev)) \<and> (evs = [] \<longrightarrow> 0 < n \<longrightarrow> (\<forall>i. \<not> due e s i))"
    and mark_claimed: "wf s \<Longrightarrow> claim e n d s = (s', Inr evs) \<Longrightarrow> ev \<in> set evs \<Longrightarrow> healthy e' \<Longrightarrow>
      mark e' (ev_ID ev) (ev_LeaseToken ev) s' = (s'', r) \<Longrightarrow>
      r = None \<and> view s'' = (view s')(ev_ID ev \<mapsto> (ev_Queue ev, ev_Payload ev, True))"
    and due_claim: "wf s \<Longrightarrow> claim e n d s = (s', Inr evs) \<Longrightarrow> i \<notin> ev_ID ` set evs \<Longrightarrow>
      due e' s' i = due e' s i"
    and due_mark: "wf s \<Longrightarrow> i \<noteq> j \<Longrightarrow> due e (fst (mark e' j t s)) i = due e s i"
    and due_unpublished: "wf s \<Longrightarrow> due e s i \<Longrightarrow> i \<in> unpublished (view s)"
    and view_finite: "finite (dom (view s))"
begin

definition good_pass :: "'e wenv \<Rightarrow> bool" where
  "good_pass w \<longleftrightarrow> (\<forall>pt. \<not> we_done w pt) \<and> healthy (we_claim w) \<and> (\<forall>i. healthy (we_store w i))
     \<and> (\<forall>q p. we_publish w q p = None)"

lemma finite_unpublished: "finite (unpublished (view s))"
proof -
  have "unpublished (view s) \<subseteq> dom (view s)" by (auto simp: unpublished_def)
  then show ?thesis using view_finite finite_subset by blast
qed

lemma good_pass_step:
  assumes "wf s" and "good_pass w" and valid: "valid_events (view s)"
  obtains s' pubs' where "worker_pass claim mark retry w (s, pubs) = ((s', pubs'), True)"
    and "wf s'" and "same_events (view s) (view s')"
    and "(\<forall>i. \<not> due (we_claim w) s i) \<or> unpublished (view s') \<subset> unpublished (view s)"
    and "\<forall>i e. i \<in> unpublished (view s') \<longrightarrow> due e s' i = due e s i"
    and "unpublished (view s') \<subseteq> unpublished (view s)"
proof -
  have h: "healthy (we_claim w)" and hs: "healthy (we_store w 0)" using assms(2) by (auto simp: good_pass_def)
  obtain evs where evs: "snd (claim (we_claim w) claimLimit leaseDuration s) = Inr evs"
    and len: "length evs \<le> claimLimit" and d: "\<forall>ev \<in> set evs. due (we_claim w) s (ev_ID ev)"
    and none: "evs = [] \<longrightarrow> (\<forall>i. \<not> due (we_claim w) s i)"
    using claim_ok [OF assms(1) h, of claimLimit leaseDuration] by (auto simp: claimLimit_def)
  obtain s1 where c: "claim (we_claim w) claimLimit leaseDuration s = (s1, Inr evs)"
    using evs by (metis prod.collapse)
  have v1: "view s1 = view s" and wf1: "wf s1"
    using claim_view [OF assms(1), of "we_claim w" claimLimit leaseDuration]
      claim_wf [OF assms(1), of "we_claim w" claimLimit leaseDuration] c by auto
  show ?thesis
  proof (cases evs)
    case Nil
    have "worker_pass claim mark retry w (s, pubs) = ((s1, pubs), True)"
      using assms(2) c Nil by (simp add: worker_pass_def good_pass_def)
    then show ?thesis
      using that [of s1 pubs] wf1 v1 none Nil due_claim [OF assms(1) c] by simp
  next
    case (Cons ev rest)
    with len have ev: "evs = [ev]" by (simp add: claimLimit_def)
    obtain s2 r where m: "mark (we_store w 0) (ev_ID ev) (ev_LeaseToken ev) s1 = (s2, r)" by fastforce
    have v: "view s (ev_ID ev) = Some (ev_Queue ev, ev_Payload ev, False)"
      using claim_events [OF assms(1) c] ev by simp
    have v2: "view s2 = (view s)(ev_ID ev \<mapsto> (ev_Queue ev, ev_Payload ev, True))" and "r = None"
      using mark_claimed [OF assms(1) c _ hs m] ev v1 by auto
    have pass: "worker_pass claim mark retry w (s, pubs) = ((s2, pubs @ [(ev_Queue ev, ev_Payload ev)]), True)"
      using assms(2) c ev m \<open>r = None\<close> valid v by (auto simp: worker_pass_def good_pass_def valid_events_def)
    have less: "unpublished (view s2) = unpublished (view s) - {ev_ID ev}"
      using v by (auto simp: v2 unpublished_def)
    have "ev_ID ev \<in> unpublished (view s)" using v by (simp add: unpublished_def)
    with less have "unpublished (view s2) \<subset> unpublished (view s)" by blast
    moreover have "due e s2 i = due e s i" if "i \<in> unpublished (view s2)" for i e
    proof -
      from that less have ne: "i \<noteq> ev_ID ev" by blast
      show ?thesis using due_mark [OF wf1 ne, of e "we_store w 0" "ev_LeaseToken ev"] m
        due_claim [OF assms(1) c] ne ev by simp
    qed
    moreover have "wf s2" using mark_wf [OF wf1, of "we_store w 0" "ev_ID ev" "ev_LeaseToken ev"] m by simp
    moreover have "same_events (view s) (view s2)" using v by (simp add: v2 same_events_def)
    ultimately show ?thesis using that [OF pass] by blast
  qed
qed

text \<open>Enough fault-free passes publish every event that is due throughout.\<close>

lemma published_stays:
  assumes "wf s" and "view s i = Some (q, p, True)"
  shows "view (fst (worker_run claim mark retry ws (s, pubs))) i = Some (q, p, True)"
  using sound_run [OF sound_init [OF assms(1)], of ws pubs] assms(2) by (simp add: sound_def)

lemma run_drains:
  assumes "wf s" and "\<forall>w \<in> set ws. good_pass w"
    and "valid_events (view s)"
    and "card (unpublished (view s)) \<le> length ws"
    and "\<forall>w \<in> set ws. due (we_claim w) s i" and "view s i = Some (q, p, b)"
  shows "view (fst (worker_run claim mark retry ws (s, pubs))) i = Some (q, p, True)"
  using assms
proof (induction ws arbitrary: s b pubs)
  case Nil
  then have "unpublished (view s) = {}" using finite_unpublished by simp
  with Nil(6) have b by (cases b) (auto simp: unpublished_def)
  with Nil show ?case by simp
next
  case (Cons w ws)
  have good: "good_pass w" using Cons.prems(2) by simp
  obtain s' pubs' where pass: "worker_pass claim mark retry w (s, pubs) = ((s', pubs'), True)"
    and wf': "wf s'" and same: "same_events (view s) (view s')"
    and prog: "(\<forall>i. \<not> due (we_claim w) s i) \<or> unpublished (view s') \<subset> unpublished (view s)"
    and dues: "\<forall>i e. i \<in> unpublished (view s') \<longrightarrow> due e s' i = due e s i"
    by (rule good_pass_step [OF Cons.prems(1) good Cons.prems(3), where pubs = pubs]) (rule that; assumption)
  obtain b' where v': "view s' i = Some (q, p, b')"
    using same_events_Some [OF same Cons.prems(6)] by blast
  have valid': "valid_events (view s')" using valid_events_same [OF same Cons.prems(3)] .
  have "due (we_claim w) s i" using Cons.prems(5) by simp
  with prog have "card (unpublished (view s')) < card (unpublished (view s))"
    by (metis finite_unpublished psubset_card_mono)
  with Cons.prems(4) have len: "card (unpublished (view s')) \<le> length ws" by simp
  show ?case
  proof (cases b')
    case True
    with v' pass show ?thesis using published_stays [OF wf', of i q p ws pubs'] by simp
  next
    case False
    with v' have "i \<in> unpublished (view s')" by (simp add: unpublished_def)
    with dues Cons.prems(5) have "\<forall>w \<in> set ws. due (we_claim w) s' i" by simp
    with Cons.IH [OF wf' _ valid' len _ v'] Cons.prems(2) pass show ?thesis by simp
  qed
qed

end

section \<open>The two stores provide the interface\<close>

text \<open>The other key of the table: no two rows have the same \<open>event_key\<close>.\<close>

definition ob_keyed :: "outbox \<Rightarrow> bool" where
  "ob_keyed t \<longleftrightarrow> distinct (map ob_event_key t)"

definition ob_wf :: "outbox \<Rightarrow> bool" where
  "ob_wf t \<longleftrightarrow> distinct (map ob_id t)"

definition ob_view :: "outbox \<Rightarrow> event_view" where
  "ob_view t i = map_option (\<lambda>r. (ob_queue r, ob_payload r, ob_published_at r \<noteq> None))
     (find (\<lambda>r. ob_id r = i) t)"

definition ob_healthy :: "oenv \<Rightarrow> bool" where
  "ob_healthy e \<longleftrightarrow> (\<forall>k. \<not> oe_flt e k)"

lemma ob_view_Some: "ob_wf t \<Longrightarrow> ob_view t i = Some (q, p, b) \<longleftrightarrow>
  (\<exists>r \<in> set t. ob_id r = i \<and> ob_queue r = q \<and> ob_payload r = p \<and> (ob_published_at r \<noteq> None) = b)"
  by (auto simp: ob_view_def ob_wf_def find_key_iff)

lemma ob_view_row: "ob_wf t \<Longrightarrow> r \<in> set t \<Longrightarrow>
  ob_view t (ob_id r) = Some (ob_queue r, ob_payload r, ob_published_at r \<noteq> None)"
  by (auto simp: ob_view_Some)

lemma ob_view_finite: "finite (dom (ob_view t))"
proof -
  have "dom (ob_view t) \<subseteq> ob_id ` set t" by (auto simp: ob_view_def dest!: find_SomeD)
  then show ?thesis using finite_surj by blast
qed

lemma ob_view_update:
  assumes "\<And>r. ob_id (f r) = ob_id r" "\<And>r. ob_queue (f r) = ob_queue r"
    "\<And>r. ob_payload (f r) = ob_payload r" "\<And>r. ob_published_at (f r) = ob_published_at r"
  shows "ob_view (update_where P f t) = ob_view t"
proof
  fix i
  show "ob_view (update_where P f t) i = ob_view t i"
    by (cases "find (\<lambda>r. ob_id r = i) t") (auto simp: ob_view_def find_update_where assms)
qed

lemma ob_wf_update: "(\<And>r. ob_id (f r) = ob_id r) \<Longrightarrow> ob_wf t \<Longrightarrow> ob_wf (update_where P f t)"
  by (simp add: ob_wf_def map_update_where)

lemma ob_view_mark:
  assumes "ob_wf t" "\<And>r. ob_id (f r) = ob_id r" "\<And>r. ob_queue (f r) = ob_queue r"
    "\<And>r. ob_payload (f r) = ob_payload r" "\<And>r. ob_published_at (f r) \<noteq> None"
    and "r \<in> set t" "owned i tok r"
  shows "ob_view (update_where (owned i tok) f t) = (ob_view t)(i \<mapsto> (ob_queue r, ob_payload r, True))"
proof
  fix j
  have *: "x = r" if "x \<in> set t" "owned i tok x" for x
    using that assms(1,6,7) by (auto simp: owned_def ob_wf_def dest: distinct_key_eq)
  show "ob_view (update_where (owned i tok) f t) j = ((ob_view t)(i \<mapsto> (ob_queue r, ob_payload r, True))) j"
  proof (cases "j = i")
    case True
    have "ob_id r = i" using assms(7) by (simp add: owned_def)
    with True assms(1,6,7) have "find (\<lambda>x. ob_id x = j) t = Some r"
      by (auto simp: ob_wf_def find_key_iff)
    with assms True show ?thesis by (simp add: ob_view_def find_update_where)
  next
    case False
    then have "\<not> owned i tok x" if "find (\<lambda>x. ob_id x = j) t = Some x" for x
      using that by (auto simp: owned_def dest: find_SomeD)
    with False assms(2) show ?thesis
      by (cases "find (\<lambda>x. ob_id x = j) t") (auto simp: ob_view_def find_update_where)
  qed
qed

lemma ob_view_mark_none:
  "\<forall>r \<in> set t. \<not> owned i tok r \<Longrightarrow> update_where (owned i tok) f t = t"
  by (simp add: update_where_none)

lemma claim_tx_view: "ob_view (fst (claim_tx e lease picked t)) = ob_view t"
  by (simp add: claim_tx_def lease_rows_def ob_view_update)

lemma claim_tx_wf: "ob_wf t \<Longrightarrow> ob_wf (fst (claim_tx e lease picked t))"
  by (simp add: claim_tx_def lease_rows_def ob_wf_update)

lemma claim_tx_InrD: "claim_tx e lease picked t = (t', Inr evs) \<Longrightarrow>
  t' = lease_rows e lease (map ob_id picked) t \<and> evs = map (leased_event e) picked"
  by (auto simp: claim_tx_def split: if_splits)

lemma claim_tx_events:
  assumes "ob_wf t" "set picked \<subseteq> {r \<in> set t. ob_published_at r = None}"
    and "claim_tx e lease picked t = (t', Inr evs)" and "ev \<in> set evs"
  shows "ob_view t (ev_ID ev) = Some (ev_Queue ev, ev_Payload ev, False)"
proof -
  from claim_tx_InrD [OF assms(3)] assms(4) obtain r where r: "r \<in> set picked" "ev = leased_event e r"
    by auto
  with assms(2) have "r \<in> set t" "ob_published_at r = None" by auto
  with r show ?thesis using ob_view_row [OF assms(1), of r] by (simp add: leased_event_def)
qed

lemma claim_tx_ok: "ob_healthy e \<Longrightarrow>
  claim_tx e lease picked t = (lease_rows e lease (map ob_id picked) t, Inr (map (leased_event e) picked))"
  by (simp add: claim_tx_def ob_healthy_def)

lemma claim_tx_owned:
  assumes "ob_wf t" "set picked \<subseteq> {r \<in> set t. ob_published_at r = None}"
    and "claim_tx e lease picked t = (t', Inr evs)" and "ev \<in> set evs"
  shows "\<exists>r \<in> set t'. owned (ev_ID ev) (ev_LeaseToken ev) r \<and> ob_queue r = ev_Queue ev \<and> ob_payload r = ev_Payload ev"
proof -
  obtain r where r: "r \<in> set picked" "ev = leased_event e r" and t': "t' = lease_rows e lease (map ob_id picked) t"
    using claim_tx_InrD [OF assms(3)] assms(4) by auto
  then have "r \<in> set t" "ob_published_at r = None" using assms(2) by auto
  let ?r = "r\<lparr>ob_lease_token := Some (oe_tok e (ob_id r)), ob_locked_until := Some (oe_now e + lease),
             ob_attempts := ob_attempts r + 1\<rparr>"
  have "?r \<in> set t'" using r(1) \<open>r \<in> set t\<close> by (auto simp: t' lease_rows_def set_update_where image_iff intro!: bexI [of _ r])
  then show ?thesis using r \<open>ob_published_at r = None\<close> by (intro bexI [of _ ?r]) (simp_all add: owned_def leased_event_def)
qed

lemma set_take_sort: "set (take n (sort_key k (filter P t))) \<subseteq> {r \<in> set t. P r}"
  using set_take_subset by fastforce

lemma gw_picked: "set (take n (sort_key k (filter (gw_due e) t))) \<subseteq> {r \<in> set t. ob_published_at r = None}"
  using set_take_sort by (fastforce simp: gw_due_def)

lemma sc_picked: "set (take n (sort_key k (filter (sc_due e) t))) \<subseteq> {r \<in> set t. ob_published_at r = None}"
  using set_take_sort by (fastforce simp: sc_due_def)

definition row_due :: "(oenv \<Rightarrow> outbox_row \<Rightarrow> bool) \<Rightarrow> oenv \<Rightarrow> outbox \<Rightarrow> uuid \<Rightarrow> bool" where
  "row_due D e t i \<longleftrightarrow> (\<exists>r \<in> set t. ob_id r = i \<and> D e r)"

lemma row_due_update:
  assumes "\<And>r. ob_id (f r) = ob_id r" and "\<And>r. P r \<Longrightarrow> ob_id r \<noteq> i"
  shows "row_due D e (update_where P f t) i = row_due D e t i"
proof
  assume "row_due D e (update_where P f t) i"
  then obtain r where r: "r \<in> set t" "ob_id (if P r then f r else r) = i" "D e (if P r then f r else r)"
    by (auto simp: row_due_def set_update_where)
  with assms have "\<not> P r" by (cases "P r") auto
  with r show "row_due D e t i" by (auto simp: row_due_def)
next
  assume "row_due D e t i"
  then obtain r where r: "r \<in> set t" "ob_id r = i" "D e r" by (auto simp: row_due_def)
  with assms(2) have "\<not> P r" by blast
  with r show "row_due D e (update_where P f t) i"
    by (auto simp: row_due_def set_update_where image_iff intro!: bexI [of _ r])
qed

lemma gw_laws:
  "ob_wf t \<Longrightarrow> ob_view (fst (gw_Claim e n d t)) = ob_view t"
  "ob_wf t \<Longrightarrow> ob_wf (fst (gw_Claim e n d t))"
  "ob_wf t \<Longrightarrow> ob_wf (fst (gw_MarkPublished e i tok t))"
  "ob_wf t \<Longrightarrow> ob_view (fst (gw_Retry e i tok er d t)) = ob_view t"
  "ob_wf t \<Longrightarrow> ob_wf (fst (gw_Retry e i tok er d t))"
  by (simp_all add: gw_Claim_def claim_tx_view claim_tx_wf gw_MarkPublished_def gw_Retry_def
      ob_view_update ob_wf_update)

lemma sc_laws:
  "ob_wf t \<Longrightarrow> ob_view (fst (sc_Claim e n d t)) = ob_view t"
  "ob_wf t \<Longrightarrow> ob_wf (fst (sc_Claim e n d t))"
  "ob_wf t \<Longrightarrow> ob_wf (fst (sc_MarkPublished e i tok t))"
  "ob_wf t \<Longrightarrow> ob_view (fst (sc_Retry e i tok er d t)) = ob_view t"
  "ob_wf t \<Longrightarrow> ob_wf (fst (sc_Retry e i tok er d t))"
  by (simp_all add: sc_Claim_def claim_tx_view claim_tx_wf sc_MarkPublished_def sc_Retry_def
      ob_view_update ob_wf_update)

lemma ob_mark_cases:
  assumes "ob_wf t" "ob_view t i = Some (q, p, b)"
    and "\<And>r. ob_id (f r) = ob_id r" "\<And>r. ob_queue (f r) = ob_queue r"
    "\<And>r. ob_payload (f r) = ob_payload r" "\<And>r. ob_published_at (f r) \<noteq> None"
  shows "ob_view (update_where (owned i tok) f t) = ob_view t \<or>
    ob_view (update_where (owned i tok) f t) = (ob_view t)(i \<mapsto> (q, p, True))"
proof (cases "\<exists>r \<in> set t. owned i tok r")
  case True
  then obtain r where r: "r \<in> set t" "owned i tok r" by blast
  then have "ob_id r = i" by (simp add: owned_def)
  with ob_view_row [OF assms(1) r(1)] assms(2) have "ob_queue r = q" "ob_payload r = p" by auto
  with ob_view_mark [OF assms(1,3-6) r] show ?thesis by simp
qed (simp add: ob_view_mark_none)

interpretation gw: outbox_store gw_Claim gw_MarkPublished gw_Retry ob_view ob_wf
proof unfold_locales
  fix t e n d t' evs ev
  assume "ob_wf t" "gw_Claim e n d t = (t', Inr evs)" "ev \<in> set evs"
  then show "ob_view t (ev_ID ev) = Some (ev_Queue ev, ev_Payload ev, False)"
    unfolding gw_Claim_def using claim_tx_events [OF _ gw_picked] by blast
next
  fix t :: outbox and i q p b e tok
  assume "ob_wf t" "ob_view t i = Some (q, p, b)"
  then show "ob_view (fst (gw_MarkPublished e i tok t)) = ob_view t \<or>
      ob_view (fst (gw_MarkPublished e i tok t)) = (ob_view t)(i \<mapsto> (q, p, True))"
    using ob_mark_cases [of t i q p b] by (simp add: gw_MarkPublished_def)
qed (simp_all add: gw_laws)

interpretation sc: outbox_store sc_Claim sc_MarkPublished sc_Retry ob_view ob_wf
proof unfold_locales
  fix t e n d t' evs ev
  assume "ob_wf t" "sc_Claim e n d t = (t', Inr evs)" "ev \<in> set evs"
  then show "ob_view t (ev_ID ev) = Some (ev_Queue ev, ev_Payload ev, False)"
    unfolding sc_Claim_def using claim_tx_events [OF _ sc_picked] by blast
next
  fix t :: outbox and i q p b e tok
  assume "ob_wf t" "ob_view t i = Some (q, p, b)"
  then show "ob_view (fst (sc_MarkPublished e i tok t)) = ob_view t \<or>
      ob_view (fst (sc_MarkPublished e i tok t)) = (ob_view t)(i \<mapsto> (q, p, True))"
    using ob_mark_cases [of t i q p b] by (simp add: sc_MarkPublished_def)
qed (simp_all add: sc_laws)

lemma due_lease_rows:
  "i \<notin> set ids \<Longrightarrow> row_due D e (lease_rows e' d ids t) i = row_due D e t i"
  unfolding lease_rows_def by (rule row_due_update) auto

lemma claim_tx_due:
  assumes "claim_tx e d picked t = (t', Inr evs)" and "i \<notin> ev_ID ` set evs"
  shows "row_due D e' t' i = row_due D e' t i"
proof -
  from claim_tx_InrD [OF assms(1)] assms(2)
  have "t' = lease_rows e d (map ob_id picked) t" "i \<notin> set (map ob_id picked)"
    by (auto simp: leased_event_def image_image)
  then show ?thesis using due_lease_rows by blast
qed

lemma due_mark_rows: "i \<noteq> j \<Longrightarrow> (\<And>r. ob_id (f r) = ob_id r) \<Longrightarrow>
  row_due D e (update_where (owned j tok) f t) i = row_due D e t i"
  by (rule row_due_update) (auto simp: owned_def)

lemma picked_empty: "take n (sort_key k (filter P t)) = [] \<Longrightarrow> 0 < n \<Longrightarrow> r \<in> set t \<Longrightarrow> \<not> P r"
  by (auto simp: filter_empty_conv dest: arg_cong [of _ _ length])

lemma claim_tx_live:
  assumes "ob_healthy e" "set picked \<subseteq> {r \<in> set t. D e r}" "length picked \<le> n"
    and "picked = [] \<longrightarrow> 0 < n \<longrightarrow> (\<forall>r \<in> set t. \<not> D e r)"
  shows "\<exists>evs. snd (claim_tx e d picked t) = Inr evs \<and> length evs \<le> n
    \<and> (\<forall>ev \<in> set evs. row_due D e t (ev_ID ev)) \<and> (evs = [] \<longrightarrow> 0 < n \<longrightarrow> (\<forall>i. \<not> row_due D e t i))"
  using assms by (auto simp: claim_tx_ok row_due_def leased_event_def)

interpretation gw_live: live_outbox_store gw_Claim gw_MarkPublished gw_Retry ob_view ob_wf
    ob_healthy "row_due gw_due"
proof unfold_locales
  fix t e n d
  assume "ob_wf t" "ob_healthy e"
  then show "\<exists>evs. snd (gw_Claim e n d t) = Inr evs \<and> length evs \<le> n \<and>
      (\<forall>ev \<in> set evs. row_due gw_due e t (ev_ID ev)) \<and>
      (evs = [] \<longrightarrow> 0 < n \<longrightarrow> (\<forall>i. \<not> row_due gw_due e t i))"
    unfolding gw_Claim_def by (intro claim_tx_live) (use set_take_sort picked_empty in \<open>fastforce+\<close>)
next
  fix t e n d t' evs ev e' t'' r
  assume a: "ob_wf t" "gw_Claim e n d t = (t', Inr evs)" "ev \<in> set evs" "ob_healthy e'"
    and m: "gw_MarkPublished e' (ev_ID ev) (ev_LeaseToken ev) t' = (t'', r)"
  obtain x where x: "x \<in> set t'" "owned (ev_ID ev) (ev_LeaseToken ev) x"
    "ob_queue x = ev_Queue ev" "ob_payload x = ev_Payload ev"
    using claim_tx_owned [OF a(1) gw_picked a(2) [unfolded gw_Claim_def] a(3)] by blast
  have "ob_wf t'" using gw_laws(2) [OF a(1), of e n d] a(2) by simp
  from ob_view_mark [OF this _ _ _ _ x(1,2)] x m a(4)
  show "r = None \<and> ob_view t'' = (ob_view t')(ev_ID ev \<mapsto> (ev_Queue ev, ev_Payload ev, True))"
    by (auto simp: gw_MarkPublished_def ob_healthy_def)
next
  fix t e n d t' evs i e'
  assume "gw_Claim e n d t = (t', Inr evs)" and "i \<notin> ev_ID ` set evs"
  then show "row_due gw_due e' t' i = row_due gw_due e' t i"
    unfolding gw_Claim_def by (rule claim_tx_due)
next
  fix i j e e' tok and t :: outbox
  assume "i \<noteq> (j::uuid)"
  then show "row_due gw_due e (fst (gw_MarkPublished e' j tok t)) i = row_due gw_due e t i"
    by (simp add: gw_MarkPublished_def due_mark_rows)
next
  fix t e i
  assume "ob_wf t" "row_due gw_due e t i"
  then show "i \<in> unpublished (ob_view t)"
    by (auto simp: row_due_def gw_due_def unpublished_def ob_view_Some)
qed (rule ob_view_finite)

interpretation sc_live: live_outbox_store sc_Claim sc_MarkPublished sc_Retry ob_view ob_wf
    ob_healthy "row_due sc_due"
proof unfold_locales
  fix t e n d
  assume "ob_wf t" "ob_healthy e"
  then show "\<exists>evs. snd (sc_Claim e n d t) = Inr evs \<and> length evs \<le> n \<and>
      (\<forall>ev \<in> set evs. row_due sc_due e t (ev_ID ev)) \<and>
      (evs = [] \<longrightarrow> 0 < n \<longrightarrow> (\<forall>i. \<not> row_due sc_due e t i))"
    unfolding sc_Claim_def by (intro claim_tx_live) (use set_take_sort picked_empty in \<open>fastforce+\<close>)
next
  fix t e n d t' evs ev e' t'' r
  assume a: "ob_wf t" "sc_Claim e n d t = (t', Inr evs)" "ev \<in> set evs" "ob_healthy e'"
    and m: "sc_MarkPublished e' (ev_ID ev) (ev_LeaseToken ev) t' = (t'', r)"
  obtain x where x: "x \<in> set t'" "owned (ev_ID ev) (ev_LeaseToken ev) x"
    "ob_queue x = ev_Queue ev" "ob_payload x = ev_Payload ev"
    using claim_tx_owned [OF a(1) sc_picked a(2) [unfolded sc_Claim_def] a(3)] by blast
  have wf': "ob_wf t'" using sc_laws(2) [OF a(1), of e n d] a(2) by simp
  have "count_where (owned (ev_ID ev) (ev_LeaseToken ev)) t' \<noteq> 0"
    using x by (auto simp: count_where_0)
  with ob_view_mark [OF wf' _ _ _ _ x(1,2)] x m a(4)
  show "r = None \<and> ob_view t'' = (ob_view t')(ev_ID ev \<mapsto> (ev_Queue ev, ev_Payload ev, True))"
    by (auto simp: sc_MarkPublished_def ob_healthy_def)
next
  fix t e n d t' evs i e'
  assume "sc_Claim e n d t = (t', Inr evs)" and "i \<notin> ev_ID ` set evs"
  then show "row_due sc_due e' t' i = row_due sc_due e' t i"
    unfolding sc_Claim_def by (rule claim_tx_due)
next
  fix i j e e' tok and t :: outbox
  assume "i \<noteq> (j::uuid)"
  then show "row_due sc_due e (fst (sc_MarkPublished e' j tok t)) i = row_due sc_due e t i"
    by (simp add: sc_MarkPublished_def due_mark_rows)
next
  fix t e i
  assume "ob_wf t" "row_due sc_due e t i"
  then show "i \<in> unpublished (ob_view t)"
    by (auto simp: row_due_def sc_due_def unpublished_def ob_view_Some)
qed (rule ob_view_finite)

section \<open>What no worker call changes\<close>

text \<open>The rows, their order, keys, queues and payloads stay.\<close>

definition ob_static :: "outbox \<Rightarrow> (uuid \<times> string \<times> string \<times> json) list" where
  "ob_static t = map (\<lambda>r. (ob_id r, ob_event_key r, ob_queue r, ob_payload r)) t"

lemma ob_static_update: "(\<And>r. ob_id (f r) = ob_id r \<and> ob_event_key (f r) = ob_event_key r
    \<and> ob_queue (f r) = ob_queue r \<and> ob_payload (f r) = ob_payload r) \<Longrightarrow>
    ob_static (update_where P f t) = ob_static t"
  by (simp add: ob_static_def map_update_where)

lemma ob_static_worker [simp]:
  "ob_static (fst (gw_Claim e n d t)) = ob_static t" "ob_static (fst (sc_Claim e n d t)) = ob_static t"
  "ob_static (fst (gw_MarkPublished e i tok t)) = ob_static t"
  "ob_static (fst (sc_MarkPublished e i tok t)) = ob_static t"
  "ob_static (fst (gw_Retry e i tok er dl t)) = ob_static t"
  "ob_static (fst (sc_Retry e i tok er dl t)) = ob_static t"
  by (simp_all add: gw_Claim_def sc_Claim_def claim_tx_def lease_rows_def gw_MarkPublished_def
      sc_MarkPublished_def gw_Retry_def sc_Retry_def ob_static_update)

lemma ob_static_cong:
  assumes "ob_static t' = ob_static t"
  shows "ob_wf t' = ob_wf t" "ob_keyed t' = ob_keyed t"
    "map ob_event_key t' = map ob_event_key t"
    "(\<forall>r \<in> set t'. P (ob_event_key r) (ob_queue r) (ob_payload r))
     = (\<forall>r \<in> set t. P (ob_event_key r) (ob_queue r) (ob_payload r))"
proof -
  have id: "map ob_id t = map fst (ob_static t)"
    and key: "map ob_event_key t = map (fst \<circ> snd) (ob_static t)" for t
    by (simp_all add: ob_static_def comp_def)
  have "(\<forall>r \<in> set t. P (ob_event_key r) (ob_queue r) (ob_payload r))
      = (\<forall>(_, k, q, p) \<in> set (ob_static t). P k q p)" for t
    by (simp add: ob_static_def)
  then show "ob_wf t' = ob_wf t" "ob_keyed t' = ob_keyed t"
    "map ob_event_key t' = map ob_event_key t"
    "(\<forall>r \<in> set t'. P (ob_event_key r) (ob_queue r) (ob_payload r))
     = (\<forall>r \<in> set t. P (ob_event_key r) (ob_queue r) (ob_payload r))"
    by (simp_all add: ob_wf_def ob_keyed_def id key assms)
qed

section \<open>Leases are exclusive\<close>

lemma claim_tx_keeps:
  assumes "\<forall>r \<in> set picked. ob_id r \<noteq> i" and "claim_tx e d picked t = (t', res)"
  shows "filter (\<lambda>r. ob_id r = i) t' = filter (\<lambda>r. ob_id r = i) t
    \<and> (\<forall>evs. res = Inr evs \<longrightarrow> i \<notin> ev_ID ` set evs)"
proof -
  have "filter (\<lambda>r. ob_id r = i) (lease_rows e d (map ob_id picked) t) = filter (\<lambda>r. ob_id r = i) t"
    unfolding lease_rows_def using assms(1) by (intro filter_update_where) auto
  moreover have "i \<notin> ev_ID ` set (map (leased_event e) picked)" using assms(1) by (auto simp: leased_event_def)
  ultimately show ?thesis using assms(2) by (auto simp: claim_tx_def split: if_splits)
qed

text \<open>
  The transactions that touch an outbox, of either store, as one datatype: a claim, the two
  ways to settle an event, and the INSERT of the stores' other transactions (a taken key or
  id leaves the table as it is, whether the statement skips it or the transaction fails).
  A step returns the events it hands out.
\<close>

datatype outbox_op =
    GwClaim oenv nat duration
  | ScClaim oenv nat duration
  | GwMark oenv uuid uuid
  | ScMark oenv uuid uuid
  | GwRetry oenv uuid uuid string duration
  | ScRetry oenv uuid uuid string duration
  | Insert uuid time string string json

fun outbox_step :: "outbox_op \<Rightarrow> outbox \<Rightarrow> outbox \<times> Event list" where
  "outbox_step (GwClaim e n d) t = (case gw_Claim e n d t of (t', Inl _) \<Rightarrow> (t', []) | (t', Inr evs) \<Rightarrow> (t', evs))"
| "outbox_step (ScClaim e n d) t = (case sc_Claim e n d t of (t', Inl _) \<Rightarrow> (t', []) | (t', Inr evs) \<Rightarrow> (t', evs))"
| "outbox_step (GwMark e i tok) t = (fst (gw_MarkPublished e i tok t), [])"
| "outbox_step (ScMark e i tok) t = (fst (sc_MarkPublished e i tok t), [])"
| "outbox_step (GwRetry e i tok er dl) t = (fst (gw_Retry e i tok er dl t), [])"
| "outbox_step (ScRetry e i tok er dl) t = (fst (sc_Retry e i tok er dl t), [])"
| "outbox_step (Insert i now key queue payload) t =
     (case gw_enqueue i now key queue payload t of None \<Rightarrow> (t, []) | Some t' \<Rightarrow> (t', []))"

fun outbox_steps :: "outbox_op list \<Rightarrow> outbox \<Rightarrow> outbox \<times> Event list" where
  "outbox_steps [] t = (t, [])"
| "outbox_steps (p # ps) t =
     (let (t', evs) = outbox_step p t; (t'', evs') = outbox_steps ps t' in (t'', evs @ evs'))"

text \<open>The operations during a lease: claims before it ends, and no settling with the holder's token.\<close>

fun during_lease :: "uuid \<Rightarrow> uuid \<Rightarrow> time \<Rightarrow> outbox_op \<Rightarrow> bool" where
  "during_lease i tok until (GwClaim e n d) = (oe_now e < until)"
| "during_lease i tok until (ScClaim e n d) = (oe_now e < until)"
| "during_lease i tok until (GwMark e j tok') = (j \<noteq> i \<or> tok' \<noteq> tok)"
| "during_lease i tok until (ScMark e j tok') = (j \<noteq> i \<or> tok' \<noteq> tok)"
| "during_lease i tok until (GwRetry e j tok' er dl) = (j \<noteq> i \<or> tok' \<noteq> tok)"
| "during_lease i tok until (ScRetry e j tok' er dl) = (j \<noteq> i \<or> tok' \<noteq> tok)"
| "during_lease i tok until (Insert j now key queue payload) = True"

lemma owned_update_keeps:
  assumes "\<And>r. r \<in> set t \<Longrightarrow> ob_id r = i \<Longrightarrow> ob_lease_token r = Some tok" and "j \<noteq> i \<or> tok' \<noteq> tok"
    and "\<And>r. ob_id (f r) = ob_id r"
  shows "filter (\<lambda>r. ob_id r = i) (update_where (owned j tok') f t) = filter (\<lambda>r. ob_id r = i) t"
proof -
  have "\<not> owned j tok' r" if "r \<in> set t" "ob_id r = i" for r
    using assms(1) [OF that] assms(2) that(2) by (auto simp: owned_def)
  then show ?thesis
    by (induction t) (auto simp: update_where_def assms(3))
qed

lemma lease_step:
  assumes rows: "\<And>r. r \<in> set t \<Longrightarrow> ob_id r = i \<Longrightarrow> ob_locked_until r = Some until \<and> ob_lease_token r = Some tok"
    and here: "\<exists>r \<in> set t. ob_id r = i"
    and during: "during_lease i tok until p" and step: "outbox_step p t = (t', evs)"
  shows "filter (\<lambda>r. ob_id r = i) t' = filter (\<lambda>r. ob_id r = i) t \<and> i \<notin> ev_ID ` set evs"
proof -
  have due: "\<not> gw_due e r" "\<not> sc_due e r" if "r \<in> set t" "ob_id r = i" "oe_now e < until" for r e
    using rows [OF that(1,2)] that(3) by (auto simp: gw_due_def sc_due_def)
  have picked: "\<forall>r \<in> set (take m (sort_key k (filter (gw_due e) t))). ob_id r \<noteq> i"
    "\<forall>r \<in> set (take m (sort_key k' (filter (sc_due e) t))). ob_id r \<noteq> i"
    if "oe_now e < until" for e m and k :: "outbox_row \<Rightarrow> time" and k' :: "outbox_row \<Rightarrow> time \<times> uuid"
    using due that set_take_sort [of m k "gw_due e" t] set_take_sort [of m k' "sc_due e" t] by blast+
  have own: "filter (\<lambda>r. ob_id r = i) (update_where (owned j tok') f t) = filter (\<lambda>r. ob_id r = i) t"
    if "j \<noteq> i \<or> tok' \<noteq> tok" "\<And>r. ob_id (f r) = ob_id r" for j tok' f
    using rows that by (intro owned_update_keeps) auto
  show ?thesis
  proof (cases p)
    case (GwClaim e n d)
    with during picked(1) [of e n ob_created_at] step claim_tx_keeps show ?thesis
      by (fastforce simp: gw_Claim_def split: prod.splits sum.splits)
  next
    case (ScClaim e n d)
    with during picked(2) [of e n "\<lambda>r. (ob_created_at r, ob_id r)"] step claim_tx_keeps show ?thesis
      by (fastforce simp: sc_Claim_def split: prod.splits sum.splits)
  next
    case (Insert j now key queue payload)
    have "new_outbox_row j now key queue payload \<in> {r. ob_id r = i} \<longrightarrow> exists_where (\<lambda>r. ob_id r = j) t"
      using here by (auto simp: exists_where_def list_ex_iff)
    with Insert step show ?thesis
      by (auto simp: gw_enqueue_def split: if_splits)
  qed (use during step own in \<open>auto simp: gw_MarkPublished_def sc_MarkPublished_def gw_Retry_def sc_Retry_def split: if_splits\<close>)
qed

lemma lease_steps:
  assumes "\<And>r. r \<in> set t \<Longrightarrow> ob_id r = i \<Longrightarrow> ob_locked_until r = Some until \<and> ob_lease_token r = Some tok"
    and "\<exists>r \<in> set t. ob_id r = i"
    and "\<forall>p \<in> set ps. during_lease i tok until p" and "outbox_steps ps t = (t', evs)"
  shows "filter (\<lambda>r. ob_id r = i) t' = filter (\<lambda>r. ob_id r = i) t \<and> i \<notin> ev_ID ` set evs"
  using assms
proof (induction ps arbitrary: t evs)
  case (Cons p ps)
  obtain t1 es1 es2 where 1: "outbox_step p t = (t1, es1)" and 2: "outbox_steps ps t1 = (t', es2)"
    and evs: "evs = es1 @ es2"
    using Cons.prems(4) by (auto split: prod.splits)
  have s: "filter (\<lambda>r. ob_id r = i) t1 = filter (\<lambda>r. ob_id r = i) t" "i \<notin> ev_ID ` set es1"
    using lease_step [OF Cons.prems(1,2) _ 1] Cons.prems(3) by auto
  have same: "r \<in> set t1 \<and> ob_id r = i \<longleftrightarrow> r \<in> set t \<and> ob_id r = i" for r
    using arg_cong [OF s(1), of set] by (auto simp: set_eq_iff)
  have "filter (\<lambda>r. ob_id r = i) t' = filter (\<lambda>r. ob_id r = i) t1 \<and> i \<notin> ev_ID ` set es2"
    using same Cons.prems(1,2,3) by (intro Cons.IH [OF _ _ _ 2]) auto
  with s evs show ?case by auto
qed simp

lemma picked_unpublished:
  "set (take n (sort_key k (filter (gw_due e) t))) \<subseteq> {r \<in> set t. ob_published_at r = None}"
  "set (take n (sort_key k' (filter (sc_due e) t))) \<subseteq> {r \<in> set t. ob_published_at r = None}"
  by (auto simp: gw_due_def sc_due_def dest!: in_set_takeD)

lemma filter_key: "distinct (map k t) \<Longrightarrow> r \<in> set t \<Longrightarrow> filter (\<lambda>x. k x = k r) t = [r]"
proof (induction t)
  case (Cons a t)
  show ?case
  proof (cases "a = r")
    case True
    with Cons.prems(1) show ?thesis by (auto simp: filter_empty_conv image_iff)
  next
    case False
    with Cons show ?thesis by (auto simp: image_iff)
  qed
qed simp

lemma claim_tx_holds:
  assumes "claim_tx e d picked t = (t1, Inr evs)" and "ev \<in> set evs"
    and "ob_wf t" and "set picked \<subseteq> {r \<in> set t. ob_published_at r = None}"
  shows "\<exists>r. filter (\<lambda>x. ob_id x = ev_ID ev) t1 = [r] \<and> owned (ev_ID ev) (ev_LeaseToken ev) r
    \<and> ob_locked_until r = Some (oe_now e + d)"
proof -
  from claim_tx_InrD [OF assms(1)] assms(2) obtain x where x: "x \<in> set picked" "ev = leased_event e x"
    and t1: "t1 = lease_rows e d (map ob_id picked) t" by auto
  let ?f = "\<lambda>r. r\<lparr>ob_lease_token := Some (oe_tok e (ob_id r)), ob_locked_until := Some (oe_now e + d),
             ob_attempts := ob_attempts r + 1\<rparr>"
  have wf: "distinct (map ob_id t1)" using assms(3) unfolding t1 lease_rows_def by (simp add: map_update_where ob_wf_def)
  have "x \<in> set t" "ob_published_at x = None" using x assms(4) by auto
  then have r: "?f x \<in> set t1" "owned (ev_ID ev) (ev_LeaseToken ev) (?f x)" "ob_locked_until (?f x) = Some (oe_now e + d)"
    "ob_id (?f x) = ev_ID ev"
    using x by (auto simp: t1 lease_rows_def set_update_where owned_def leased_event_def)
  have "filter (\<lambda>y. ob_id y = ev_ID ev) t1 = [?f x]"
    using filter_key [OF wf r(1)] unfolding r(4) .
  with r show ?thesis by blast
qed

text \<open>
  C16: Leases are exclusive. After a claim of either store handed out an event, let any sequence
  of outbox operations follow: claims made before the lease ends, MarkPublished and Retry of
  any event but with another token than the holder's for this one, and new events. None of the
  claims hands the event out, its row stays exactly as the claim left it, and with any other token
  MarkPublished and Retry still change nothing, while the holder's MarkPublished publishes the
  event and its Retry releases it.
\<close>

theorem lease_exclusive:
  assumes wf: "ob_wf t"
    and claim: "gw_Claim e n d t = (t1, Inr evs) \<or> sc_Claim e n d t = (t1, Inr evs)"
    and ev: "ev \<in> set evs"
    and during: "\<forall>p \<in> set ps. during_lease (ev_ID ev) (ev_LeaseToken ev) (oe_now e + d) p"
    and steps: "outbox_steps ps t1 = (t2, handed)"
  shows "ev_ID ev \<notin> ev_ID ` set handed
    \<and> (\<exists>r. filter (\<lambda>x. ob_id x = ev_ID ev) t1 = [r] \<and> filter (\<lambda>x. ob_id x = ev_ID ev) t2 = [r])
    \<and> (tok \<noteq> ev_LeaseToken ev \<longrightarrow>
         fst (gw_MarkPublished e' (ev_ID ev) tok t2) = t2 \<and> fst (sc_MarkPublished e' (ev_ID ev) tok t2) = t2
         \<and> fst (gw_Retry e' (ev_ID ev) tok er dl t2) = t2 \<and> fst (sc_Retry e' (ev_ID ev) tok er dl t2) = t2)
    \<and> (\<not> oe_flt e' 0 \<longrightarrow>
         (\<forall>x \<in> set (fst (gw_MarkPublished e' (ev_ID ev) (ev_LeaseToken ev) t2))
              \<union> set (fst (sc_MarkPublished e' (ev_ID ev) (ev_LeaseToken ev) t2)).
            ob_id x = ev_ID ev \<longrightarrow> ob_published_at x = Some (oe_now e'))
         \<and> (\<forall>x \<in> set (fst (gw_Retry e' (ev_ID ev) (ev_LeaseToken ev) er dl t2))
              \<union> set (fst (sc_Retry e' (ev_ID ev) (ev_LeaseToken ev) er dl t2)).
            ob_id x = ev_ID ev \<longrightarrow> ob_lease_token x = None \<and> ob_available_at x = oe_now e' + dl))"
proof -
  let ?i = "ev_ID ev" and ?own = "\<lambda>r. filter (\<lambda>x. ob_id x = ev_ID ev) t1 = [r]"
  obtain r where r: "?own r" "owned ?i (ev_LeaseToken ev) r" "ob_locked_until r = Some (oe_now e + d)"
    using claim claim_tx_holds [OF _ ev wf picked_unpublished(1)] claim_tx_holds [OF _ ev wf picked_unpublished(2)]
    unfolding gw_Claim_def sc_Claim_def by blast
  have one: "x \<in> set t1 \<and> ob_id x = ?i \<longleftrightarrow> x = r" for x
    using arg_cong [OF r(1), of set] by (auto simp: set_eq_iff)
  have kept: "filter (\<lambda>x. ob_id x = ?i) t2 = [r]" "?i \<notin> ev_ID ` set handed"
  proof -
    have "filter (\<lambda>x. ob_id x = ?i) t2 = filter (\<lambda>x. ob_id x = ?i) t1 \<and> ?i \<notin> ev_ID ` set handed"
    proof (rule lease_steps [OF _ _ during steps])
      show "ob_locked_until x = Some (oe_now e + d) \<and> ob_lease_token x = Some (ev_LeaseToken ev)"
        if "x \<in> set t1" "ob_id x = ?i" for x
      proof -
        have "x = r" using one that by blast
        with r(2,3) show ?thesis by (simp add: owned_def)
      qed
      show "\<exists>x \<in> set t1. ob_id x = ?i" using one by blast
    qed
    with r(1) show "filter (\<lambda>x. ob_id x = ?i) t2 = [r]" "?i \<notin> ev_ID ` set handed" by auto
  qed
  have two: "x \<in> set t2 \<and> ob_id x = ?i \<longleftrightarrow> x = r" for x
    using arg_cong [OF kept(1), of set] by (auto simp: set_eq_iff)
  have other: "\<forall>x \<in> set t2. \<not> owned ?i tok x" if "tok \<noteq> ev_LeaseToken ev"
    using two r(2) that unfolding owned_def by (metis option.inject)
  have holder: "count_where (owned ?i (ev_LeaseToken ev)) t2 \<noteq> 0"
    using two [of r] r(2) unfolding count_where_0 by blast
  have mine: "owned ?i (ev_LeaseToken ev) x" if "x \<in> set t2" "ob_id x = ?i" for x
    using two [of x] r(2) that by simp
  show ?thesis
  proof (intro conjI impI)
    show "\<exists>r. ?own r \<and> filter (\<lambda>x. ob_id x = ?i) t2 = [r]" using r(1) kept(1) by blast
  qed (use other holder mine kept(2) in \<open>auto simp: gw_MarkPublished_def sc_MarkPublished_def gw_Retry_def
      sc_Retry_def ob_view_mark_none count_where_0 set_update_where\<close>)
qed

definition demo_row :: "string \<Rightarrow> outbox_row" where
  "demo_row i = new_outbox_row i 0 (''key-'' @ i) ''notify.tasks''
     (JNotify \<lparr>nt_TaskID = i, nt_Channel = ''telegram'', nt_Target = ''7'', nt_Text = ''hi'',
        nt_Direction = [], nt_NotBefore = 0\<rparr>)"

definition demo_oenv :: "time \<Rightarrow> oenv" where
  "demo_oenv now = \<lparr>oe_now = now, oe_flt = no_faults, oe_tok = (\<lambda>i. ''tok-'' @ i), oe_locked = (\<lambda>_. False)\<rparr>"

lemmas demo_outbox_defs = demo_row_def demo_oenv_def new_outbox_row_def gw_Claim_def sc_Claim_def
  claim_tx_def lease_rows_def update_where_def leased_event_def gw_due_def sc_due_def

text \<open>
  Event \<open>a\<close> is claimed at second 10. Then another event is inserted, claimed, and marked with
  the token of \<open>a\<close>'s lease as well as a stranger's; a claim at second 60 finds nothing more, and the
  holder publishes \<open>a\<close>.
\<close>

lemma demo_lease_claim:
  "gw_Claim (demo_oenv 10) 1 leaseDuration [demo_row ''a'']
     = (lease_rows (demo_oenv 10) leaseDuration [''a''] [demo_row ''a''], Inr [leased_event (demo_oenv 10) (demo_row ''a'')])"
  by (simp add: demo_outbox_defs)

definition demo_lease_ops :: "outbox_op list" where
  "demo_lease_ops = [Insert ''b'' 20 ''key-b'' ''notify.tasks'' (JNotify
       \<lparr>nt_TaskID = ''b'', nt_Channel = ''telegram'', nt_Target = ''7'', nt_Text = ''hi'', nt_Direction = [], nt_NotBefore = 0\<rparr>),
     GwClaim (demo_oenv 30) 1 leaseDuration, GwMark (demo_oenv 40) ''a'' ''stolen'', GwMark (demo_oenv 40) ''b'' ''tok-a'',
     ScClaim (demo_oenv 60) 5 leaseDuration]"

theorem lease_exclusive_witness:
  "let t1 = fst (gw_Claim (demo_oenv 10) 1 leaseDuration [demo_row ''a'']);
       (t2, handed) = outbox_steps demo_lease_ops t1
   in map ev_ID handed = [''b'']
     \<and> (\<forall>x \<in> set (fst (gw_MarkPublished (demo_oenv 65) ''a'' ''tok-a'' t2)). ob_id x = ''a'' \<longrightarrow> ob_published_at x = Some 65)"
proof -
  let ?ev = "leased_event (demo_oenv 10) (demo_row ''a'')"
  let ?t1 = "fst (gw_Claim (demo_oenv 10) 1 leaseDuration [demo_row ''a''])"
  obtain t2 handed where st: "outbox_steps demo_lease_ops ?t1 = (t2, handed)" by fastforce
  have ev: "ev_ID ?ev = ''a''" "ev_LeaseToken ?ev = ''tok-a''" by (simp_all add: demo_outbox_defs)
  have "\<forall>p \<in> set demo_lease_ops. during_lease (ev_ID ?ev) (ev_LeaseToken ?ev) (oe_now (demo_oenv 10) + leaseDuration) p"
    by (simp add: demo_lease_ops_def ev) (simp add: demo_oenv_def leaseDuration_def second_def)
  moreover have "ob_wf [demo_row ''a'']" by (simp add: ob_wf_def)
  moreover have "gw_Claim (demo_oenv 10) 1 leaseDuration [demo_row ''a''] = (?t1, Inr [?ev])"
    unfolding demo_lease_claim by (simp add: demo_row_def)
  ultimately have "(\<forall>x \<in> set (fst (gw_MarkPublished (demo_oenv 65) (ev_ID ?ev) (ev_LeaseToken ?ev) t2))
      \<union> set (fst (sc_MarkPublished (demo_oenv 65) (ev_ID ?ev) (ev_LeaseToken ?ev) t2)).
        ob_id x = ev_ID ?ev \<longrightarrow> ob_published_at x = Some (oe_now (demo_oenv 65)))"
    using lease_exclusive [where ev = ?ev and e' = "demo_oenv 65", OF _ disjI1 _ _ st,
        THEN conjunct2, THEN conjunct2, THEN conjunct2, THEN mp, THEN conjunct1]
    by (simp add: demo_oenv_def)
  then have "\<forall>x \<in> set (fst (gw_MarkPublished (demo_oenv 65) ''a'' ''tok-a'' t2)). ob_id x = ''a'' \<longrightarrow> ob_published_at x = Some 65"
    unfolding ev by (simp add: demo_oenv_def)
  moreover have "map ev_ID (snd (outbox_steps demo_lease_ops ?t1)) = [''b'']" by code_simp
  then have "map ev_ID handed = [''b'']" using st by simp
  ultimately show ?thesis using st by (simp add: Let_def)
qed

section \<open>Delivery\<close>

text \<open>
  C3: at-least-once delivery, safety: whatever the driver, the broker and cancellation do,
  and however many passes the worker of either service makes, every event of the outbox is
  still there with its queue and payload, stays published once published, and an event that
  became published was confirmed by the broker for that queue and payload.
\<close>

theorem outbox_delivery_sound:
  assumes "ob_wf t"
    and "worker_run gw_Claim gw_MarkPublished gw_Retry ws (t, []) = (t', pubs)
       \<or> worker_run sc_Claim sc_MarkPublished sc_Retry ws (t, []) = (t', pubs)"
  shows "same_events (ob_view t) (ob_view t')
    \<and> (ob_view t i = Some (q, p, True) \<longrightarrow> ob_view t' i = Some (q, p, True))
    \<and> (ob_view t' i = Some (q, p, True) \<longrightarrow> ob_view t i = Some (q, p, True) \<or> (q, p) \<in> set pubs)"
  using assms(2) gw.run_sound [OF assms(1)] sc.run_sound [OF assms(1)] by metis

definition demo_wenv :: "time \<Rightarrow> oenv wenv" where
  "demo_wenv now = \<lparr>we_done = (\<lambda>_. False), we_claim = demo_oenv now, we_store = (\<lambda>_. demo_oenv now),
     we_publish = (\<lambda>_ _. None)\<rparr>"

theorem outbox_delivery_sound_witness:
  "let t = [demo_row ''a'', demo_row ''b''];
       r = worker_run gw_Claim gw_MarkPublished gw_Retry [demo_wenv 5] (t, [])
   in same_events (ob_view t) (ob_view (fst r))"
proof -
  have wf: "ob_wf [demo_row ''a'', demo_row ''b'']" by (simp add: ob_wf_def demo_row_def)
  obtain t' pubs where r: "worker_run gw_Claim gw_MarkPublished gw_Retry [demo_wenv 5]
      ([demo_row ''a'', demo_row ''b''], []) = (t', pubs)" by fastforce
  from outbox_delivery_sound [OF wf disjI1 [OF r]] r show ?thesis by (simp add: Let_def)
qed

text \<open>
  C5: delivery, liveness: if the passes are free of faults and the broker confirms, as many
  passes as there are unpublished events publish every event that is due throughout (its
  \<open>available_at\<close> reached, not leased, not locked), for both services.
\<close>

theorem outbox_drains:
  assumes "ob_wf t" and "r \<in> set t"
    and "\<forall>x \<in> set t. json_Valid (ob_payload x)"
    and "card {i. \<exists>x \<in> set t. ob_id x = i \<and> ob_published_at x = None} \<le> length ws"
    and "\<forall>w \<in> set ws. (\<forall>pt. \<not> we_done w pt) \<and> ob_healthy (we_claim w)
      \<and> (\<forall>i. ob_healthy (we_store w i)) \<and> (\<forall>q p. we_publish w q p = None)"
  shows "((\<forall>w \<in> set ws. gw_due (we_claim w) r) \<longrightarrow>
      ob_view (fst (worker_run gw_Claim gw_MarkPublished gw_Retry ws (t, pubs))) (ob_id r)
        = Some (ob_queue r, ob_payload r, True))
    \<and> ((\<forall>w \<in> set ws. sc_due (we_claim w) r) \<longrightarrow>
      ob_view (fst (worker_run sc_Claim sc_MarkPublished sc_Retry ws (t, pubs))) (ob_id r)
        = Some (ob_queue r, ob_payload r, True))"
proof -
  have u: "unpublished (ob_view t) = {i. \<exists>x \<in> set t. ob_id x = i \<and> ob_published_at x = None}"
    using ob_view_Some [OF assms(1)] by (auto simp: unpublished_def)
  have v: "valid_events (ob_view t)"
    using assms(3) ob_view_Some [OF assms(1)] by (auto simp: valid_events_def)
  have c: "card (unpublished (ob_view t)) \<le> length ws" using assms(4) u by simp
  have g: "\<forall>w \<in> set ws. gw_live.good_pass w" "\<forall>w \<in> set ws. sc_live.good_pass w"
    using assms(5) by (simp_all add: gw_live.good_pass_def sc_live.good_pass_def)
  have d: "\<forall>w \<in> set ws. D (we_claim w) r \<Longrightarrow> \<forall>w \<in> set ws. row_due D (we_claim w) t (ob_id r)" for D
    using assms(2) by (auto simp: row_due_def)
  note row = ob_view_row [OF assms(1,2)]
  show ?thesis
    using gw_live.run_drains [OF assms(1) g(1) v c d row] sc_live.run_drains [OF assms(1) g(2) v c d row]
    by blast
qed

theorem outbox_drains_witness:
  "ob_view (fst (worker_run gw_Claim gw_MarkPublished gw_Retry [demo_wenv 5, demo_wenv 6]
     ([demo_row ''a'', demo_row ''b''], []))) ''b'' \<noteq> None"
proof -
  have ids: "{i. \<exists>x \<in> set [demo_row ''a'', demo_row ''b'']. ob_id x = i \<and> ob_published_at x = None} = {''a'', ''b''}"
    by (auto simp: demo_row_def)
  have "ob_view (fst (worker_run gw_Claim gw_MarkPublished gw_Retry [demo_wenv 5, demo_wenv 6]
     ([demo_row ''a'', demo_row ''b''], []))) (ob_id (demo_row ''b''))
     = Some (ob_queue (demo_row ''b''), ob_payload (demo_row ''b''), True)"
    using outbox_drains [of "[demo_row ''a'', demo_row ''b'']" "demo_row ''b''" "[demo_wenv 5, demo_wenv 6]" "[]",
        unfolded ids]
    by (simp add: ob_wf_def demo_row_def demo_wenv_def demo_oenv_def ob_healthy_def gw_due_def new_outbox_row_def)
  then show ?thesis by (simp add: demo_row_def)
qed

text \<open>
  The retry delay is the power of two of the attempts in seconds, capped: it is never
  below \<open>minBackoff\<close> nor above \<open>maxBackoff\<close>, never decreases with the attempts, and is exactly
  \<open>2^attempts\<close> seconds up to the fifth.
\<close>

theorem backoff_bounds:
  "minBackoff \<le> backoff a \<and> backoff a \<le> maxBackoff
   \<and> (a \<le> b \<longrightarrow> backoff a \<le> backoff b)
   \<and> (0 \<le> a \<and> a \<le> 5 \<longrightarrow> backoff a = 2 ^ nat a * second) \<and> (6 \<le> a \<longrightarrow> backoff a = maxBackoff)"
proof -
  have table: "backoff a = (if a \<le> 0 then second else if a = 1 then 2 * second else if a = 2 then 4 * second
     else if a = 3 then 8 * second else if a = 4 then 16 * second else if a = 5 then 32 * second else maxBackoff)" for a
  proof -
    consider "a \<le> 0" | "a = 1" | "a = 2" | "a = 3" | "a = 4" | "a = 5" | "6 \<le> a" by linarith
    then show ?thesis
      by cases (auto simp: backoff_def Let_def minBackoff_def maxBackoff_def second_def min_def)
  qed
  have "0 \<le> a \<and> a \<le> 5 \<longrightarrow> backoff a = 2 ^ nat a * second"
  proof
    assume "0 \<le> a \<and> a \<le> 5"
    then consider "a = 0" | "a = 1" | "a = 2" | "a = 3" | "a = 4" | "a = 5" by linarith
    then show "backoff a = 2 ^ nat a * second" by cases (simp_all add: table)
  qed
  moreover have "minBackoff \<le> backoff a" "backoff a \<le> maxBackoff" "a \<le> b \<longrightarrow> backoff a \<le> backoff b"
    by (auto simp: table minBackoff_def maxBackoff_def second_def)
  ultimately show ?thesis by (auto simp: table)
qed

theorem backoff_bounds_witness: "backoff 3 = 8 * second \<and> backoff 3 \<le> backoff 9"
  using backoff_bounds [of 3 9] by simp

end
