(* ===== verification/Platform.thy ===== *)
theory Platform
  imports Contracts
begin

text \<open>
  \<open>shared/pkg/platform/platform.go\<close>: recognising a Wildberries URL (\<open>Detect\<close>) and
  rewriting it to the one canonical form (\<open>NormalizeWB\<close>), the identity under which a
  product is stored. Also the part of \<open>net/url.Parse\<close> the scheduler's \<open>validWBIdentity\<close>
  looks at. The lemmas show that normalisation is idempotent, that its results are exactly
  the canonical URLs, and that canonical URLs name one product number.
\<close>

section \<open>Detect\<close>

text \<open>
  \<open>strings.ToLower\<close> on UTF-8 bytes, as far as an ASCII substring can tell: ASCII letters,
  and the two other characters whose lower case is ASCII (U+0130 to \<open>i\<close>, U+212A to \<open>k\<close>).
  Other characters are mapped to characters outside ASCII, here left as they are.
\<close>

function to_lower :: "string \<Rightarrow> string" where
  "to_lower s =
     (if s = [] then []
      else if take 2 s = [CHR 0xC4, CHR 0xB0] then CHR ''i'' # to_lower (drop 2 s)
      else if take 3 s = [CHR 0xE2, CHR 0x84, CHR 0xAA] then CHR ''k'' # to_lower (drop 3 s)
      else (if 65 \<le> (of_char (hd s) :: nat) \<and> (of_char (hd s) :: nat) \<le> 90
            then char_of ((of_char (hd s) :: nat) + 32) else hd s) # to_lower (tl s))"
  by pat_completeness auto
termination
  by (relation "measure length") auto

declare to_lower.simps [simp del]

definition wb_host :: string where "wb_host = ''wildberries.ru''"

definition Detect :: "string \<Rightarrow> string + string" where
  "Detect rawURL =
     (if contains (to_lower rawURL) wb_host then Inr ''wb''
      else Inl ''unsupported platform: must be wildberries.ru'')"

section \<open>NormalizeWB\<close>

text \<open>
  \<open>FindStringSubmatch\<close> of the regular expression \<open>wildberries\.ru/catalog/(\d+)\<close>: the
  leftmost match, with the longest run of ASCII digits as its group.
\<close>

definition wb_catalog :: string where "wb_catalog = ''wildberries.ru/catalog/''"

fun wbProductIDRe :: "string \<Rightarrow> string option" where
  "wbProductIDRe [] = None"
| "wbProductIDRe (c # cs) =
     (let ds = takeWhile is_digit (drop (length wb_catalog) (c # cs))
      in if has_prefix (c # cs) wb_catalog \<and> ds \<noteq> [] then Some ds else wbProductIDRe cs)"

definition canonical_url :: "string \<Rightarrow> string" where
  "canonical_url ds = ''https://www.wildberries.ru/catalog/'' @ ds @ ''/detail.aspx''"

definition NormalizeWB :: "string \<Rightarrow> string + string" where
  "NormalizeWB rawURL =
     (case wbProductIDRe rawURL of
        None \<Rightarrow> Inl ''no wildberries product id in url''
      | Some ds \<Rightarrow> Inr (canonical_url ds))"

section \<open>The part of net/url.Parse that is used\<close>

text \<open>\<open>strings.Cut\<close> at a byte: what is before its first occurrence, what is after it.\<close>

definition cut_at :: "char \<Rightarrow> string \<Rightarrow> string \<times> string" where
  "cut_at c s = (takeWhile (\<lambda>x. x \<noteq> c) s, tl (dropWhile (\<lambda>x. x \<noteq> c) s))"

definition is_alpha :: "char \<Rightarrow> bool" where
  "is_alpha c \<longleftrightarrow> (97 \<le> (of_char c :: nat) \<and> (of_char c :: nat) \<le> 122)
     \<or> (65 \<le> (of_char c :: nat) \<and> (of_char c :: nat) \<le> 90)"

definition is_hex :: "char \<Rightarrow> bool" where
  "is_hex c \<longleftrightarrow> is_digit c \<or> (97 \<le> (of_char c :: nat) \<and> (of_char c :: nat) \<le> 102)
     \<or> (65 \<le> (of_char c :: nat) \<and> (of_char c :: nat) \<le> 70)"

definition is_ctl :: "char \<Rightarrow> bool" where
  "is_ctl c \<longleftrightarrow> (of_char c :: nat) < 32 \<or> (of_char c :: nat) = 127"

text \<open>\<open>getScheme\<close>: \<open>None\<close> is the error "missing protocol scheme".\<close>

fun get_scheme :: "string \<Rightarrow> string \<Rightarrow> (string \<times> string) option" where
  "get_scheme acc [] = Some ([], rev acc)"
| "get_scheme acc (c # cs) =
     (if is_alpha c then get_scheme (c # acc) cs
      else if is_digit c \<or> c = CHR ''+'' \<or> c = CHR ''-'' \<or> c = CHR ''.'' then
        (if acc = [] then Some ([], c # cs) else get_scheme (c # acc) cs)
      else if c = CHR '':'' then (if acc = [] then None else Some (rev acc, cs))
      else Some ([], rev acc @ c # cs))"

fun valid_escapes :: "string \<Rightarrow> bool" where
  "valid_escapes [] = True"
| "valid_escapes (c # cs) =
     (if c = CHR 0x25 then length cs \<ge> 2 \<and> list_all is_hex (take 2 cs) \<and> valid_escapes (drop 2 cs)
      else valid_escapes cs)"

text \<open>The authority's host with its port, after the last \<open>@\<close>.\<close>

definition host_of :: "string \<Rightarrow> string" where
  "host_of auth = rev (takeWhile (\<lambda>x. x \<noteq> CHR ''@'') (rev auth))"

definition valid_port :: "string \<Rightarrow> bool" where
  "valid_port host \<longleftrightarrow> CHR '':'' \<in> set host \<longrightarrow> CHR ''['' \<notin> set host \<longrightarrow>
     list_all is_digit (rev (takeWhile (\<lambda>x. x \<noteq> CHR '':'') (rev host)))"

text \<open>
  \<open>url.Parse\<close>, reduced to its error, \<open>Scheme\<close> and \<open>Host\<close>. The host is given as written:
  an escape or a bracket in it is checked no further, because such a host is never one of
  the two the scheduler accepts.
\<close>

definition url_parse :: "string \<Rightarrow> (string \<times> string) option" where
  "url_parse rawURL =
     (let u = fst (cut_at (CHR ''#'') rawURL); frag = snd (cut_at (CHR ''#'') rawURL)
      in if list_ex is_ctl u \<or> \<not> valid_escapes frag then None
         else if u = ''*'' then Some ([], [])
         else case get_scheme [] u of
           None \<Rightarrow> None
         | Some (scheme, rest0) \<Rightarrow>
             (let rest = fst (cut_at (CHR ''?'') rest0)
              in if \<not> has_prefix rest ''/'' \<and> scheme \<noteq> [] then Some (to_lower scheme, [])
                 else if \<not> has_prefix rest ''/'' \<and> CHR '':'' \<in> set (fst (cut_at (CHR ''/'') rest)) then None
                 else if (scheme \<noteq> [] \<or> \<not> has_prefix rest ''///'') \<and> has_prefix rest ''//'' then
                   (let auth = fst (cut_at (CHR ''/'') (drop 2 rest));
                        path = drop (2 + length auth) rest
                    in if valid_escapes auth \<and> valid_port (host_of auth) \<and> valid_escapes path
                       then Some (to_lower scheme, host_of auth) else None)
                 else if valid_escapes rest then Some (to_lower scheme, []) else None))"

section \<open>Facts\<close>

definition canonical :: "string \<Rightarrow> bool" where
  "canonical u \<longleftrightarrow> (\<exists>ds. ds \<noteq> [] \<and> list_all is_digit ds \<and> u = canonical_url ds)"

lemma wbProductIDRe_SomeD: "wbProductIDRe s = Some ds \<Longrightarrow> ds \<noteq> [] \<and> list_all is_digit ds"
proof (induction s)
  case (Cons c cs)
  then show ?case
    by (auto simp: Let_def list_all_iff split: if_splits dest: set_takeWhileD)
qed simp

lemma takeWhile_digits: "list_all is_digit ds \<Longrightarrow> \<not> is_digit c \<Longrightarrow> takeWhile is_digit (ds @ c # cs) = ds"
  by (induction ds) auto

lemma slash_no_digit [simp]: "\<not> is_digit (CHR ''/'')"
  by (simp add: is_digit_def)

lemma wbProductIDRe_canonical:
  assumes "ds \<noteq> []" and "list_all is_digit ds"
  shows "wbProductIDRe (canonical_url ds) = Some ds"
  using assms
  by (simp add: canonical_url_def has_prefix_def wb_catalog_def takeWhile_digits Let_def)

lemma NormalizeWB_canonical: "canonical u \<Longrightarrow> NormalizeWB u = Inr u"
  by (auto simp: canonical_def NormalizeWB_def wbProductIDRe_canonical)

lemma NormalizeWB_InrD: "NormalizeWB u = Inr n \<Longrightarrow> canonical n"
  by (auto simp: canonical_def NormalizeWB_def split: option.splits dest: wbProductIDRe_SomeD)

lemma NormalizeWB_fixed_iff: "NormalizeWB u = Inr u \<longleftrightarrow> canonical u"
  using NormalizeWB_canonical NormalizeWB_InrD by blast

lemma canonical_url_inj: "canonical_url ds = canonical_url es \<Longrightarrow> ds = es"
  by (simp add: canonical_url_def)

lemma cut_at_absent: "c \<notin> set s \<Longrightarrow> cut_at c s = (s, [])"
  by (induction s) (auto simp: cut_at_def)

lemma valid_escapes_absent: "CHR 0x25 \<notin> set s \<Longrightarrow> valid_escapes s"
  by (induction s) auto

lemma digits_absent: "list_all is_digit ds \<Longrightarrow> \<not> is_digit c \<Longrightarrow> c \<notin> set ds"
  by (auto simp: list_all_iff)

lemma get_scheme_https: "get_scheme [] (''https:'' @ r) = Some (''https'', r)"
  by (simp add: is_alpha_def)

lemma canonical_url_chars:
  assumes "list_all is_digit ds" and "c \<in> set (canonical_url ds)"
  shows "is_digit c \<or> c \<in> set ''https://www.wildberries.ru/catalog/'' \<or> c \<in> set ''/detail.aspx''"
  using assms unfolding canonical_url_def list_all_iff set_append by blast

lemma no_ctl_canonical: "list_all is_digit ds \<Longrightarrow> \<not> list_ex is_ctl (canonical_url ds)"
proof -
  assume a: "list_all is_digit ds"
  have "\<not> is_ctl c" if "c \<in> set (canonical_url ds)" for c
    using canonical_url_chars [OF a that] by (auto simp: is_ctl_def is_digit_def)
  then show ?thesis by (simp add: list_ex_iff)
qed

lemma url_parse_canonical:
  assumes "list_all is_digit ds"
  shows "url_parse (canonical_url ds) = Some (''https'', ''www.wildberries.ru'')"
proof -
  define rest where "rest = ''//www.wildberries.ru/catalog/'' @ ds @ ''/detail.aspx''"
  have u: "canonical_url ds = ''https:'' @ rest" by (simp add: canonical_url_def rest_def)
  have absent: "c \<notin> set (canonical_url ds)"
    if "\<not> is_digit c" "c \<notin> set ''https://www.wildberries.ru/catalog/''" "c \<notin> set ''/detail.aspx''" for c
    using canonical_url_chars [OF assms] that by blast
  have "CHR ''#'' \<notin> set (canonical_url ds)" by (rule absent) (simp_all add: is_digit_def)
  then have cut1: "cut_at (CHR ''#'') (canonical_url ds) = (canonical_url ds, [])"
    by (rule cut_at_absent)
  have "CHR ''?'' \<notin> set (canonical_url ds)" by (rule absent) (simp_all add: is_digit_def)
  then have cut2: "cut_at (CHR ''?'') rest = (rest, [])" by (intro cut_at_absent) (simp add: u)
  have "CHR 0x25 \<notin> set (canonical_url ds)" by (rule absent) (simp_all add: is_digit_def)
  then have esc: "valid_escapes (''/catalog/'' @ ds @ ''/detail.aspx'')"
    by (intro valid_escapes_absent) (simp add: canonical_url_def)
  have auth: "fst (cut_at (CHR ''/'') (drop 2 rest)) = ''www.wildberries.ru''"
    by (simp add: rest_def cut_at_def)
  have path: "drop (2 + length ''www.wildberries.ru'') rest = ''/catalog/'' @ ds @ ''/detail.aspx''"
    by (simp add: rest_def)
  have host: "host_of ''www.wildberries.ru'' = ''www.wildberries.ru''" by code_simp
  have port: "valid_port ''www.wildberries.ru''" by code_simp
  have escs: "valid_escapes ''www.wildberries.ru''" by code_simp
  have low: "to_lower ''https'' = ''https''" by code_simp
  have pre: "has_prefix rest ''/''" "has_prefix rest ''//''" by (simp_all add: rest_def has_prefix_def)
  have sch: "get_scheme [] (canonical_url ds) = Some (''https'', rest)"
    unfolding u by (rule get_scheme_https)
  have "canonical_url ds \<noteq> ''*''" by (simp add: canonical_url_def)
  then show ?thesis
    unfolding url_parse_def Let_def cut1 fst_conv snd_conv sch
    by (simp only: option.case prod.case cut2 fst_conv auth path host port escs esc low pre
        no_ctl_canonical [OF assms] valid_escapes.simps simp_thms if_True if_False)
      simp
qed

lemma to_lower_append_ascii:
  assumes "list_all (\<lambda>c. (of_char c :: nat) < 128 \<and> \<not> (65 \<le> (of_char c :: nat) \<and> (of_char c :: nat) \<le> 90)) s"
  shows "to_lower (s @ t) = s @ to_lower t"
  using assms
proof (induction s)
  case (Cons c s)
  then have "c \<noteq> CHR 0xC4" "c \<noteq> CHR 0xE2" by auto
  with Cons show ?case by (subst to_lower.simps) (auto simp: numeral_2_eq_2 numeral_3_eq_3)
qed simp

lemma Detect_canonical: "canonical u \<Longrightarrow> Detect u = Inr ''wb''"
proof -
  assume "canonical u"
  then obtain ds where u: "u = canonical_url ds" and ds: "list_all is_digit ds"
    by (auto simp: canonical_def)
  have "to_lower (''https://www.wildberries.ru/'' @ r) = ''https://www.wildberries.ru/'' @ to_lower r" for r
    by (rule to_lower_append_ascii) simp
  then have "to_lower u = ''https://www.'' @ wb_host @ ''/'' @ to_lower (''catalog/'' @ ds @ ''/detail.aspx'')"
    by (simp add: u canonical_url_def wb_host_def)
  then have "contains (to_lower u) wb_host" unfolding contains_iff by blast
  then show ?thesis by (simp add: Detect_def)
qed

text \<open>
  C18: \<open>NormalizeWB\<close> returns exactly the canonical product URLs: its results are fixed
  points of it, they are recognised by \<open>Detect\<close> as Wildberries URLs, and a URL is returned
  unchanged if and only if it is canonical.
\<close>

theorem NormalizeWB_canonicalises:
  "(case NormalizeWB rawURL of
      Inl _ \<Rightarrow> wbProductIDRe rawURL = None
    | Inr u \<Rightarrow> canonical u \<and> NormalizeWB u = Inr u \<and> Detect u = Inr ''wb'')
   \<and> (NormalizeWB rawURL = Inr rawURL \<longleftrightarrow> canonical rawURL)"
proof (cases "wbProductIDRe rawURL")
  case None
  then show ?thesis using NormalizeWB_fixed_iff [of rawURL] by (simp add: NormalizeWB_def)
next
  case (Some ds)
  then have n: "NormalizeWB rawURL = Inr (canonical_url ds)" by (simp add: NormalizeWB_def)
  then have c: "canonical (canonical_url ds)" by (rule NormalizeWB_InrD)
  then have "NormalizeWB (canonical_url ds) = Inr (canonical_url ds)" "Detect (canonical_url ds) = Inr ''wb''"
    by (rule NormalizeWB_canonical, intro Detect_canonical)
  with n c show ?thesis using NormalizeWB_fixed_iff [of rawURL] by simp
qed

end
