(* ===== verification/Consumer.thy ===== *)
theory Consumer
  imports Contracts
begin

text \<open>
  The loop the gateway, scheduler and notifier consumers share (\<open>Consumer.Run\<close>): take the
  next delivery until the context is done or the channel closes. A delivery's body is what
  \<open>json.Unmarshal\<close> makes of it, \<open>None\<close> when it fails. The locale \<open>at_least_once\<close> states
  what a store operation must satisfy for redelivery to be harmless, and proves once that
  repeating deliveries changes nothing; both stores interpret it.
\<close>

section \<open>The loop\<close>

datatype 'd channel_event = CtxDone | ChanClosed | Delivered 'd

datatype run_end = StillRunning | ReturnedNil | ReturnedError

fun consume_loop ::
  "('d \<Rightarrow> 's \<Rightarrow> 's \<times> settle) \<Rightarrow> 'd channel_event list \<Rightarrow> 's \<Rightarrow> ('s \<times> settle list) \<times> run_end" where
  "consume_loop h [] s = ((s, []), StillRunning)"
| "consume_loop h (CtxDone # es) s = ((s, []), ReturnedNil)"
| "consume_loop h (ChanClosed # es) s = ((s, []), ReturnedError)"
| "consume_loop h (Delivered d # es) s =
     (let (s', a) = h d s; ((s'', as), r) = consume_loop h es s' in ((s'', a # as), r))"

text \<open>How a consumer settles a delivery from the error of its store call.\<close>

definition settle_by :: "store_error \<Rightarrow> store_error + unit \<Rightarrow> settle" where
  "settle_by invalid r =
     (case r of Inr _ \<Rightarrow> Ack | Inl err \<Rightarrow> if err = invalid then NackDrop else NackRequeue)"

lemma consume_loop_settles: "consume_loop h es s = ((s', as), r) \<Longrightarrow> length as \<le> length es"
  by (induction h es s arbitrary: s' as r rule: consume_loop.induct) (auto simp: Let_def split: prod.splits)

section \<open>A service as a sequence of its transactions\<close>

text \<open>
  A service processes deliveries and, in between, does its own work (ticks, requests of
  other clients, the outbox worker's calls). Every call is one database transaction, so a
  run is a sequence of them; the environments say how each one fares.
\<close>

datatype ('e, 'm, 'o) service_step = Deliver 'e 'm | Local 'o

fun run_steps ::
  "('e \<Rightarrow> 'm \<Rightarrow> 's \<Rightarrow> 's \<times> (store_error + unit)) \<Rightarrow> ('o \<Rightarrow> 's \<Rightarrow> 's) \<Rightarrow>
   ('e, 'm, 'o) service_step list \<Rightarrow> 's \<Rightarrow> 's" where
  "run_steps process own [] s = s"
| "run_steps process own (Deliver e m # xs) s = run_steps process own xs (fst (process e m s))"
| "run_steps process own (Local x # xs) s = run_steps process own xs (own x s)"

lemma run_steps_append: "run_steps p w (xs @ ys) s = run_steps p w ys (run_steps p w xs s)"
  by (induction p w xs s rule: run_steps.induct) auto

lemma run_steps_invariant:
  assumes "I s" and "\<And>e m s. Deliver e m \<in> set xs \<Longrightarrow> I s \<Longrightarrow> I (fst (p e m s))"
    and "\<And>x s. Local x \<in> set xs \<Longrightarrow> I s \<Longrightarrow> I (w x s)"
  shows "I (run_steps p w xs s)"
  using assms
proof (induction xs arbitrary: s)
  case (Cons x xs)
  have rest: "I (run_steps p w xs s')" if "I s'" for s'
    using Cons.IH [OF that] Cons.prems(2,3) by (meson list.set_intros(2))
  show ?case using rest Cons.prems by (cases x) auto
qed simp

fun delivers :: "'m \<Rightarrow> ('e, 'm, 'o) service_step \<Rightarrow> bool" where
  "delivers m (Deliver _ m') = (m' = m)"
| "delivers m (Local _) = False"

section \<open>Redelivery\<close>

locale at_least_once =
  fixes process :: "'e \<Rightarrow> 'm \<Rightarrow> 's \<Rightarrow> 's \<times> (store_error + unit)"
    and own :: "'o \<Rightarrow> 's \<Rightarrow> 's"
    and settled :: "'m \<Rightarrow> 's \<Rightarrow> bool"
  assumes atomic: "process e m s = (s', Inl err) \<Longrightarrow> s' = s"
    and settles: "process e m s = (s', Inr u) \<Longrightarrow> settled m s'"
    and settled_stays: "settled m s \<Longrightarrow> settled m (fst (process e m' s))"
    and settled_own: "settled m s \<Longrightarrow> settled m (own x s)"
    and settled_noop: "settled m s \<Longrightarrow> fst (process e m s) = s"
begin

lemma settled_run: "settled m s \<Longrightarrow> settled m (run_steps process own xs s)"
  by (erule run_steps_invariant) (rule settled_stays settled_own; assumption)+

text \<open>After one success, every later delivery of the same message can be dropped.\<close>

lemma run_drop:
  assumes "settled m s"
  shows "run_steps process own (filter (\<lambda>x. \<not> delivers m x) xs) s = run_steps process own xs s"
  using assms
proof (induction xs arbitrary: s)
  case (Cons x xs)
  show ?case
  proof (cases x)
    case (Deliver e m')
    then show ?thesis
      using Cons.IH [OF settled_stays [OF Cons.prems, of e m']] settled_noop [OF Cons.prems, of e]
        Cons.IH [OF Cons.prems] by (cases "m' = m") simp_all
  next
    case (Local y)
    then show ?thesis using Cons.IH [OF settled_own [OF Cons.prems, of y]] by simp
  qed
qed simp

lemma redelivery:
  assumes "process e m s = (s', Inr u)"
  shows "run_steps process own (Deliver e m # xs) s
    = run_steps process own (Deliver e m # filter (\<lambda>x. \<not> delivers m x) xs) s"
  using run_drop [OF settles [OF assms], of xs] assms by simp

text \<open>A failed call can simply be repeated: it left no trace.\<close>

lemma retry_after_failure:
  assumes "process e m s = (s', Inl err)"
  shows "run_steps process own (Deliver e m # xs) s = run_steps process own xs s"
  using atomic [OF assms] assms by simp

end

end
