(* ===== verification/GatewayStore.thy ===== *)
theory GatewayStore
  imports Outbox Platform Consumer
begin

text \<open>
  The gateway's store (\<open>services/gateway/internal/store\<close>): its tables and every operation of
  \<open>store.go\<close>, \<open>monitoring.go\<close> and \<open>results.go\<close>. A call returns the database and an error or its
  result. Its statements fail as \<open>ge_flt\<close> says, each under a number of its own; a failing
  statement is also one whose values the server rejects (text with a zero byte, say). An error
  return carries the rolled-back database. Arguments of type \<open>uuid\<close> are ids the store itself
  returned; texts from requests and messages go through \<open>pg_uuid\<close>. BIGINT counters
  incremented inside SQL are unbounded.
\<close>

section \<open>State\<close>

record user =
  us_id :: uuid
  us_chat_id :: int

record product =
  pd_id :: uuid
  pd_name :: string
  pd_url :: string
  pd_platform :: string
  pd_monitor_version :: int
  pd_latest_result_at :: "time option"

record sub_row =
  sb_id :: uuid
  sb_user_id :: uuid
  sb_product_id :: uuid
  sb_min_price :: "float64 option"
  sb_max_price :: "float64 option"
  sb_paused :: bool
  sb_active :: bool
  sb_alert_state :: string
  sb_alert_version :: int
  sb_created_at :: time

record price_row =
  ph_id :: uuid
  ph_product_id :: uuid
  ph_price :: float64
  ph_currency :: string
  ph_scraped_at :: time
  ph_task_id :: uuid

record force_row =
  fr_task_id :: uuid
  fr_product_id :: uuid
  fr_user_id :: uuid
  fr_chat_id :: int

datatype LookupStatus = LookupPending | LookupDone | LookupFailed

record lookup_row =
  lk_id :: uuid
  lk_url :: string
  lk_status :: LookupStatus
  lk_name :: "string option"
  lk_price :: "float64 option"
  lk_error :: "string option"
  lk_created_at :: time
  lk_expires_at :: time

record gw_db =
  users :: "user list"
  products :: "product list"
  subscriptions :: "sub_row list"
  price_history :: "price_row list"
  processed_price_results :: "uuid list"
  force_requests :: "force_row list"
  gateway_outbox :: outbox
  lookup_requests :: "lookup_row list"

text \<open>\<open>NOW()\<close>, the failing statements, and the UUIDs drawn by the server and by \<open>google/uuid\<close>.\<close>

record genv =
  ge_now :: time
  ge_flt :: faults
  ge_uuid :: "nat \<Rightarrow> uuid"

section \<open>Lookup requests\<close>

record LookupResult =
  lr_ID :: uuid
  lr_URL :: string
  lr_Status :: LookupStatus
  lr_Name :: string
  lr_Price :: float64
  lr_Error :: string

definition GetLookup :: "services \<Rightarrow> genv \<Rightarrow> string \<Rightarrow> gw_db \<Rightarrow> store_error + LookupResult" where
  "GetLookup S e i db =
     (if ge_flt e 0 then Inl ErrDB
      else case pg_uuid S i of
        None \<Rightarrow> Inl ErrDB
      | Some i' \<Rightarrow>
          (case find (\<lambda>r. lk_id r = i') (lookup_requests db) of
             None \<Rightarrow> Inl ErrNotFound
           | Some r \<Rightarrow> Inr \<lparr>lr_ID = lk_id r, lr_URL = lk_url r, lr_Status = lk_status r,
               lr_Name = (case lk_name r of None \<Rightarrow> [] | Some n \<Rightarrow> n),
               lr_Price = (case lk_price r of None \<Rightarrow> f_zero | Some p \<Rightarrow> p),
               lr_Error = (case lk_error r of None \<Rightarrow> [] | Some x \<Rightarrow> x)\<rparr>))"

definition DeleteExpiredLookups :: "genv \<Rightarrow> gw_db \<Rightarrow> gw_db \<times> (store_error + nat)" where
  "DeleteExpiredLookups e db =
     (if ge_flt e 0 then (db, Inl ErrDB)
      else (db\<lparr>lookup_requests := delete_where (\<lambda>r. lk_expires_at r < ge_now e) (lookup_requests db)\<rparr>,
            Inr (count_where (\<lambda>r. lk_expires_at r < ge_now e) (lookup_requests db))))"

definition PendingLookupCount :: "genv \<Rightarrow> gw_db \<Rightarrow> store_error + nat" where
  "PendingLookupCount e db =
     (if ge_flt e 0 then Inl ErrDB
      else Inr (count_where (\<lambda>r. lk_status r = LookupPending) (lookup_requests db)))"

definition CreateLookup :: "genv \<Rightarrow> uuid \<Rightarrow> string \<Rightarrow> gw_db \<Rightarrow> gw_db \<times> (store_error + unit)" where
  "CreateLookup e i url db =
     (if ge_flt e 0 then (db, Inl ErrDB)
      else if ge_flt e 1 \<or> exists_where (\<lambda>r. lk_id r = i) (lookup_requests db) then (db, Inl ErrDB)
      else let task = \<lparr>lt_TaskID = ge_uuid e 0, lt_LookupID = i, lt_URL = url, lt_Platform = ''wb''\<rparr>;
               row = \<lparr>lk_id = i, lk_url = url, lk_status = LookupPending, lk_name = None, lk_price = None,
                      lk_error = None, lk_created_at = ge_now e, lk_expires_at = ge_now e + 10 * minute\<rparr>
           in if ge_flt e 2 then (db, Inl ErrDB)
              else case gw_enqueue (ge_uuid e 1) (ge_now e) (''lookup:'' @ lt_TaskID task) QueueLookupTasks
                          (JLookup task) (gateway_outbox db) of
                None \<Rightarrow> (db, Inl ErrDB)
              | Some ob \<Rightarrow>
                  if ge_flt e 3 then (db, Inl ErrDB)
                  else (db\<lparr>lookup_requests := lookup_requests db @ [row], gateway_outbox := ob\<rparr>, Inr ()))"

section \<open>Users and products\<close>

definition UpsertUser :: "genv \<Rightarrow> int \<Rightarrow> gw_db \<Rightarrow> gw_db \<times> (store_error + uuid)" where
  "UpsertUser e chatID db =
     (if ge_flt e 0 then (db, Inl ErrDB)
      else case find (\<lambda>u. us_chat_id u = chatID) (users db) of
        Some u \<Rightarrow> (db, Inr (us_id u))
      | None \<Rightarrow>
          if exists_where (\<lambda>u. us_id u = ge_uuid e 0) (users db) then (db, Inl ErrDB)
          else (db\<lparr>users := users db @ [\<lparr>us_id = ge_uuid e 0, us_chat_id = chatID\<rparr>]\<rparr>, Inr (ge_uuid e 0)))"

definition UserIDByChatID :: "genv \<Rightarrow> int \<Rightarrow> gw_db \<Rightarrow> store_error + uuid" where
  "UserIDByChatID e chatID db =
     (if ge_flt e 0 then Inl ErrDB
      else case find (\<lambda>u. us_chat_id u = chatID) (users db) of
        None \<Rightarrow> Inl ErrNotFound
      | Some u \<Rightarrow> Inr (us_id u))"

definition EnsureProduct :: "genv \<Rightarrow> uuid \<Rightarrow> string \<Rightarrow> string \<Rightarrow> string \<Rightarrow> gw_db \<Rightarrow> gw_db \<times> (store_error + uuid)" where
  "EnsureProduct e candidateID name url platform db =
     (if ge_flt e 0 then (db, Inl ErrDB)
      else case find (\<lambda>p. pd_url p = url) (products db) of
        Some p \<Rightarrow> (db\<lparr>products := update_where (\<lambda>x. pd_url x = url) (\<lambda>x. x\<lparr>pd_name := name\<rparr>) (products db)\<rparr>,
                   Inr (pd_id p))
      | None \<Rightarrow>
          if exists_where (\<lambda>p. pd_id p = candidateID) (products db) then (db, Inl ErrDB)
          else (db\<lparr>products := products db @ [\<lparr>pd_id = candidateID, pd_name = name, pd_url = url,
                  pd_platform = platform, pd_monitor_version = 0, pd_latest_result_at = None\<rparr>]\<rparr>,
                Inr candidateID))"

section \<open>Monitoring snapshots\<close>

definition lockProduct :: "faults \<Rightarrow> nat \<Rightarrow> uuid \<Rightarrow> gw_db \<Rightarrow> store_error + (int \<times> string \<times> string)" where
  "lockProduct flt k productID db =
     (if flt k then Inl ErrDB
      else case find (\<lambda>p. pd_id p = productID) (products db) of
        None \<Rightarrow> Inl ErrDB
      | Some p \<Rightarrow> Inr (pd_monitor_version p, pd_url p, pd_platform p))"

definition track_key :: "uuid \<Rightarrow> int \<Rightarrow> string" where
  "track_key productID version = ''track:'' @ productID @ '':'' @ show_int version"

definition monitored :: "uuid \<Rightarrow> sub_row list \<Rightarrow> bool" where
  "monitored productID t = exists_where (\<lambda>r. sb_product_id r = productID \<and> sb_active r \<and> \<not> sb_paused r) t"

text \<open>
  \<open>snapshot\<close> with the statement before it, \<open>UPDATE products SET monitor_version\<close>; \<open>None\<close> is an
  error. The statements are \<open>k\<close> to \<open>k + 2\<close>, the UUIDs \<open>u\<close> and \<open>u + 1\<close>.
\<close>

definition snapshot :: "genv \<Rightarrow> nat \<Rightarrow> nat \<Rightarrow> uuid \<Rightarrow> int \<Rightarrow> string \<Rightarrow> string \<Rightarrow> gw_db \<Rightarrow> gw_db option" where
  "snapshot e k u productID version url platform db =
     (if ge_flt e k then None
      else let active = monitored productID (subscriptions db);
               request = \<lparr>tr_TaskID = ge_uuid e u, tr_Action = ''set_state'', tr_Version = version,
                 tr_Active = active, tr_ProductID = productID, tr_URL = url, tr_Platform = platform,
                 tr_IntervalHours = 1, tr_ChatID = 0\<rparr>
           in if ge_flt e (k + 1) then None
              else map_option (\<lambda>ob. db\<lparr>gateway_outbox := ob\<rparr>)
                (gw_enqueue (ge_uuid e (u + 1)) (ge_now e) (track_key productID version) QueueTrackRequests
                   (JTrack request) (gateway_outbox db)))"

definition set_version :: "uuid \<Rightarrow> int \<Rightarrow> gw_db \<Rightarrow> gw_db" where
  "set_version productID version db =
     db\<lparr>products := update_where (\<lambda>p. pd_id p = productID) (\<lambda>p. p\<lparr>pd_monitor_version := version\<rparr>) (products db)\<rparr>"

definition bump :: "genv \<Rightarrow> nat \<Rightarrow> nat \<Rightarrow> uuid \<Rightarrow> int \<Rightarrow> string \<Rightarrow> string \<Rightarrow> gw_db \<Rightarrow> gw_db option" where
  "bump e k u productID version url platform db =
     (let version' = incr64 version
      in if ge_flt e k then None
         else snapshot e (k + 1) u productID version' url platform (set_version productID version' db))"

text \<open>
  \<open>mutateSubscription\<close>. Its first SELECT runs before the product row is locked and may see
  an older state of the table, \<open>seen\<close>; everything after the lock sees the current one.
\<close>

datatype operation = OpPause | OpResume | OpThresholds float64 float64 | OpDelete

definition is_sub :: "uuid \<Rightarrow> uuid \<Rightarrow> sub_row \<Rightarrow> bool" where
  "is_sub subID userID r \<longleftrightarrow> sb_id r = subID \<and> sb_user_id r = userID"

text \<open>
  The statement of the operation: \<open>None\<close> is an error; the flag says whether to go on to the
  snapshot.
\<close>

definition mutate_rows :: "services \<Rightarrow> operation \<Rightarrow> uuid \<Rightarrow> uuid \<Rightarrow> sub_row list \<Rightarrow> sub_row list option" where
  "mutate_rows S operation subID userID t =
     (case operation of
        OpPause \<Rightarrow> Some (update_where (\<lambda>r. is_sub subID userID r \<and> sb_active r) (\<lambda>r. r\<lparr>sb_paused := True\<rparr>) t)
      | OpResume \<Rightarrow> Some (update_where (\<lambda>r. is_sub subID userID r \<and> sb_active r) (\<lambda>r. r\<lparr>sb_paused := False\<rparr>) t)
      | OpThresholds minPrice maxPrice \<Rightarrow>
          (let hit = (\<lambda>r. is_sub subID userID r \<and> (sb_min_price r \<noteq> Some minPrice \<or> sb_max_price r \<noteq> Some maxPrice))
           in if \<not> exists_where hit t then Some t
              else case (numcol S minPrice, numcol S maxPrice) of
                (Some mn, Some mx) \<Rightarrow>
                  Some (update_where hit (\<lambda>r. r\<lparr>sb_min_price := Some mn, sb_max_price := Some mx,
                    sb_alert_state := [], sb_alert_version := sb_alert_version r + 1\<rparr>) t)
              | _ \<Rightarrow> None)
      | OpDelete \<Rightarrow> Some (update_where (\<lambda>r. sb_id r = subID) (\<lambda>r. r\<lparr>sb_active := False\<rparr>) t))"

definition mutateSubscription :: "services \<Rightarrow> genv \<Rightarrow> sub_row list \<Rightarrow> string \<Rightarrow> uuid \<Rightarrow> operation \<Rightarrow> gw_db
    \<Rightarrow> gw_db \<times> (store_error + unit)" where
  "mutateSubscription S e seen rawSubID userID operation db =
     (if ge_flt e 0 then (db, Inl ErrDB)
      else if ge_flt e 1 then (db, Inl ErrDB)
      else case pg_uuid S rawSubID of
        None \<Rightarrow> (db, Inl ErrDB)
      | Some subID \<Rightarrow>
       (case find (is_sub subID userID) seen of
          None \<Rightarrow> (db, Inl ErrNotFound)
        | Some r \<Rightarrow>
           if operation \<noteq> OpDelete \<and> \<not> sb_active r then (db, Inl ErrNotFound)
           else let productID = sb_product_id r
           in case lockProduct (ge_flt e) 2 productID db of
             Inl err \<Rightarrow> (db, Inl err)
           | Inr (version, url, platform) \<Rightarrow>
              if ge_flt e 3 then (db, Inl ErrDB)
              else case find (is_sub subID userID) (subscriptions db) of
                None \<Rightarrow> (db, Inl ErrNotFound)
              | Some r' \<Rightarrow>
                 if operation \<noteq> OpDelete \<and> \<not> sb_active r' then (db, Inl ErrNotFound)
                 else if operation = OpDelete \<and> ge_flt e 4 then (db, Inl ErrDB)
                 else case (if operation = OpDelete then find (\<lambda>x. sb_id x = subID) (subscriptions db) else Some r') of
                   None \<Rightarrow> (db, Inl ErrNotFound)
                 | Some x \<Rightarrow>
                    if operation = OpDelete \<and> sb_user_id x \<noteq> userID then (db, Inl ErrNotFound)
                    else if operation = OpDelete \<and> \<not> sb_active x then (db, Inr ())
                    else if ge_flt e 5 then (db, Inl ErrDB)
                    else case mutate_rows S operation subID userID (subscriptions db) of
                      None \<Rightarrow> (db, Inl ErrDB)
                    | Some t \<Rightarrow>
                       (case bump e 6 0 productID version url platform (db\<lparr>subscriptions := t\<rparr>) of
                          None \<Rightarrow> (db, Inl ErrDB)
                        | Some db' \<Rightarrow> if ge_flt e 9 then (db, Inl ErrDB) else (db', Inr ()))))"

definition PauseSubscription :: "services \<Rightarrow> genv \<Rightarrow> sub_row list \<Rightarrow> string \<Rightarrow> uuid \<Rightarrow> gw_db \<Rightarrow> gw_db \<times> (store_error + unit)" where
  "PauseSubscription S e seen subID userID = mutateSubscription S e seen subID userID OpPause"

definition ResumeSubscription :: "services \<Rightarrow> genv \<Rightarrow> sub_row list \<Rightarrow> string \<Rightarrow> uuid \<Rightarrow> gw_db \<Rightarrow> gw_db \<times> (store_error + unit)" where
  "ResumeSubscription S e seen subID userID = mutateSubscription S e seen subID userID OpResume"

definition UpdateThresholds :: "services \<Rightarrow> genv \<Rightarrow> sub_row list \<Rightarrow> string \<Rightarrow> uuid \<Rightarrow> float64 \<Rightarrow> float64 \<Rightarrow> gw_db
    \<Rightarrow> gw_db \<times> (store_error + unit)" where
  "UpdateThresholds S e seen subID userID minPrice maxPrice =
     mutateSubscription S e seen subID userID (OpThresholds minPrice maxPrice)"

definition DeleteSubscription :: "services \<Rightarrow> genv \<Rightarrow> sub_row list \<Rightarrow> string \<Rightarrow> uuid \<Rightarrow> gw_db \<Rightarrow> gw_db \<times> (store_error + unit)" where
  "DeleteSubscription S e seen subID userID = mutateSubscription S e seen subID userID OpDelete"

section \<open>CreateSubscription\<close>

definition reset_needed :: "float64 \<Rightarrow> float64 \<Rightarrow> sub_row \<Rightarrow> bool" where
  "reset_needed minPrice maxPrice r \<longleftrightarrow> \<not> sb_active r
     \<or> (case sb_min_price r of None \<Rightarrow> True | Some q \<Rightarrow> \<not> f_eq q minPrice)
     \<or> (case sb_max_price r of None \<Rightarrow> True | Some q \<Rightarrow> \<not> f_eq q maxPrice)"

text \<open>The INSERT or UPDATE: the new rows, the subscription's id, and \<open>changed\<close>; \<open>None\<close> is an error.\<close>

definition upsert_sub :: "services \<Rightarrow> genv \<Rightarrow> uuid \<Rightarrow> uuid \<Rightarrow> float64 \<Rightarrow> float64 \<Rightarrow> gw_db
    \<Rightarrow> (sub_row list \<times> uuid \<times> bool) option" where
  "upsert_sub S e userID productID minPrice maxPrice db =
     (case (numcol S minPrice, numcol S maxPrice) of
        (Some mn, Some mx) \<Rightarrow>
          (case find (\<lambda>r. sb_user_id r = userID \<and> sb_product_id r = productID) (subscriptions db) of
             None \<Rightarrow>
               if exists_where (\<lambda>r. sb_id r = ge_uuid e 2) (subscriptions db)
                 \<or> \<not> exists_where (\<lambda>u. us_id u = userID) (users db) then None
               else Some (subscriptions db @ [\<lparr>sb_id = ge_uuid e 2, sb_user_id = userID, sb_product_id = productID,
                      sb_min_price = Some mn, sb_max_price = Some mx, sb_paused = False, sb_active = True,
                      sb_alert_state = [], sb_alert_version = 0, sb_created_at = ge_now e\<rparr>], ge_uuid e 2, True)
           | Some r \<Rightarrow>
               (let resetAlert = reset_needed minPrice maxPrice r
                in Some (update_where (\<lambda>x. sb_id x = sb_id r)
                     (\<lambda>x. x\<lparr>sb_min_price := Some mn, sb_max_price := Some mx, sb_active := True, sb_paused := False,
                           sb_alert_state := (if resetAlert then [] else sb_alert_state x),
                           sb_alert_version := sb_alert_version x + (if resetAlert then 1 else 0)\<rparr>)
                     (subscriptions db), sb_id r, resetAlert \<or> sb_paused r)))
      | _ \<Rightarrow> None)"

definition CreateSubscription :: "services \<Rightarrow> genv \<Rightarrow> uuid \<Rightarrow> uuid \<Rightarrow> float64 \<Rightarrow> float64 \<Rightarrow> gw_db
    \<Rightarrow> gw_db \<times> (store_error + uuid)" where
  "CreateSubscription S e userID productID minPrice maxPrice db =
     (if ge_flt e 0 then (db, Inl ErrDB)
      else case lockProduct (ge_flt e) 1 productID db of
        Inl err \<Rightarrow> (db, Inl err)
      | Inr (version, url, platform) \<Rightarrow>
         if ge_flt e 2 \<or> ge_flt e 3 then (db, Inl ErrDB)
         else case upsert_sub S e userID productID minPrice maxPrice db of
           None \<Rightarrow> (db, Inl ErrDB)
         | Some (t, i, changed) \<Rightarrow>
            (case (if changed then bump e 4 0 productID version url platform (db\<lparr>subscriptions := t\<rparr>)
                   else Some (db\<lparr>subscriptions := t\<rparr>)) of
               None \<Rightarrow> (db, Inl ErrDB)
             | Some db' \<Rightarrow> if ge_flt e 7 then (db, Inl ErrDB) else (db', Inr i)))"

section \<open>Force checks and reconciliation\<close>

text \<open>\<open>chatID\<close> is compared with the chat of the subscription's owner.\<close>

definition QueueForce :: "services \<Rightarrow> genv \<Rightarrow> string \<Rightarrow> uuid \<Rightarrow> int \<Rightarrow> gw_db \<Rightarrow> gw_db \<times> (store_error + uuid)" where
  "QueueForce S e rawSubID userID chatID db =
     (if ge_flt e 0 then (db, Inl ErrDB)
      else if ge_flt e 1 then (db, Inl ErrDB)
      else case pg_uuid S rawSubID of
        None \<Rightarrow> (db, Inl ErrDB)
      | Some subID \<Rightarrow>
       (case find (\<lambda>r. is_sub subID userID r \<and> sb_active r) (subscriptions db) of
          None \<Rightarrow> (db, Inl ErrNotFound)
        | Some r \<Rightarrow>
         (case (find (\<lambda>p. pd_id p = sb_product_id r) (products db), find (\<lambda>u. us_id u = sb_user_id r) (users db)) of
            (Some p, Some u) \<Rightarrow>
              (if us_chat_id u \<noteq> chatID then (db, Inl ErrNotFound)
               else let taskID = ge_uuid e 0;
                        request = \<lparr>tr_TaskID = taskID, tr_Action = ''force'', tr_Version = 0, tr_Active = False,
                          tr_ProductID = pd_id p, tr_URL = pd_url p, tr_Platform = pd_platform p,
                          tr_IntervalHours = 0, tr_ChatID = chatID\<rparr>
                    in if ge_flt e 2 \<or> exists_where (\<lambda>f. fr_task_id f = taskID) (force_requests db) then (db, Inl ErrDB)
                       else if ge_flt e 3 then (db, Inl ErrDB)
                       else case gw_enqueue (ge_uuid e 1) (ge_now e) (''force:'' @ taskID) QueueTrackRequests
                              (JTrack request) (gateway_outbox db) of
                         None \<Rightarrow> (db, Inl ErrDB)
                       | Some ob \<Rightarrow>
                           if ge_flt e 4 then (db, Inl ErrDB)
                           else (db\<lparr>force_requests := force_requests db @ [\<lparr>fr_task_id = taskID,
                                     fr_product_id = pd_id p, fr_user_id = userID, fr_chat_id = chatID\<rparr>],
                                   gateway_outbox := ob\<rparr>, Inr taskID))
          | _ \<Rightarrow> (db, Inl ErrNotFound))))"

text \<open>Row \<open>k\<close> of the loop uses the statements \<open>2 + 3k\<close> to \<open>4 + 3k\<close>.\<close>

fun reconcile_loop :: "genv \<Rightarrow> nat \<Rightarrow> product list \<Rightarrow> gw_db \<Rightarrow> gw_db option" where
  "reconcile_loop e k [] db = Some db"
| "reconcile_loop e k (p # ps) db =
     (case bump e (2 + 3 * k) (2 * k) (pd_id p) (pd_monitor_version p) (pd_url p) (pd_platform p) db of
        None \<Rightarrow> None
      | Some db' \<Rightarrow> reconcile_loop e (Suc k) ps db')"

definition ReconcileMonitoring :: "genv \<Rightarrow> gw_db \<Rightarrow> gw_db \<times> (store_error + unit)" where
  "ReconcileMonitoring e db =
     (if ge_flt e 0 then (db, Inl ErrDB)
      else if ge_flt e 1 then (db, Inl ErrDB)
      else let all_products = sort_key pd_id (products db)
           in case reconcile_loop e 0 all_products db of
                None \<Rightarrow> (db, Inl ErrDB)
              | Some db' \<Rightarrow>
                  if ge_flt e (2 + 3 * length all_products) then (db, Inl ErrDB) else (db', Inr ()))"

section \<open>Reading subscriptions and prices\<close>

record Subscription =
  ss_ID :: uuid
  ss_ProductID :: uuid
  ss_ProductName :: string
  ss_ProductURL :: string
  ss_MinPrice :: "float64 option"
  ss_MaxPrice :: "float64 option"
  ss_Paused :: bool

text \<open>The inner join of a subscription with its product.\<close>

definition join_product :: "product list \<Rightarrow> sub_row \<Rightarrow> Subscription option" where
  "join_product t r = map_option (\<lambda>p. \<lparr>ss_ID = sb_id r, ss_ProductID = sb_product_id r, ss_ProductName = pd_name p,
     ss_ProductURL = pd_url p, ss_MinPrice = sb_min_price r, ss_MaxPrice = sb_max_price r, ss_Paused = sb_paused r\<rparr>)
     (find (\<lambda>p. pd_id p = sb_product_id r) t)"

definition UserSubscriptions :: "genv \<Rightarrow> uuid \<Rightarrow> gw_db \<Rightarrow> store_error + Subscription list" where
  "UserSubscriptions e userID db =
     (if ge_flt e 0 \<or> ge_flt e 1 then Inl ErrDB
      else Inr (List.map_filter (join_product (products db))
        (sort_key sb_created_at (filter (\<lambda>r. sb_user_id r = userID \<and> sb_active r) (subscriptions db)))))"

definition GetSubscription :: "services \<Rightarrow> genv \<Rightarrow> string \<Rightarrow> uuid \<Rightarrow> gw_db \<Rightarrow> store_error + Subscription" where
  "GetSubscription S e rawSubID userID db =
     (if ge_flt e 0 then Inl ErrDB
      else case pg_uuid S rawSubID of
        None \<Rightarrow> Inl ErrDB
      | Some subID \<Rightarrow>
         (case find (\<lambda>r. is_sub subID userID r \<and> sb_active r) (subscriptions db) of
            None \<Rightarrow> Inl ErrNotFound
          | Some r \<Rightarrow> (case join_product (products db) r of None \<Rightarrow> Inl ErrNotFound | Some s \<Rightarrow> Inr s)))"

record PricePoint =
  pp_Price :: float64
  pp_Currency :: string
  pp_ScrapedAt :: time

definition PriceHistory :: "genv \<Rightarrow> uuid \<Rightarrow> nat \<Rightarrow> gw_db \<Rightarrow> store_error + PricePoint list" where
  "PriceHistory e productID limit db =
     (if ge_flt e 0 \<or> ge_flt e 1 then Inl ErrDB
      else Inr (map (\<lambda>r. \<lparr>pp_Price = ph_price r, pp_Currency = ph_currency r, pp_ScrapedAt = ph_scraped_at r\<rparr>)
        (take limit (sort_key (\<lambda>r. - ph_scraped_at r) (filter (\<lambda>r. ph_product_id r = productID) (price_history db))))))"

text \<open>\<open>int(olderThan.Seconds())\<close> truncates towards zero.\<close>

definition whole_seconds :: "duration \<Rightarrow> duration" where
  "whole_seconds d = (if d < 0 then - ((- d) div second) else d div second) * second"

definition DeleteOldPriceHistory :: "genv \<Rightarrow> duration \<Rightarrow> gw_db \<Rightarrow> gw_db \<times> (store_error + nat)" where
  "DeleteOldPriceHistory e olderThan db =
     (let old = (\<lambda>r. ph_scraped_at r < ge_now e - whole_seconds olderThan)
      in if ge_flt e 0 then (db, Inl ErrDB)
         else (db\<lparr>price_history := delete_where old (price_history db)\<rparr>, Inr (count_where old (price_history db))))"

section \<open>Price results\<close>

definition classify :: "float64 \<Rightarrow> float64 \<Rightarrow> float64 \<Rightarrow> string" where
  "classify price minPrice maxPrice =
     (if f_lt f_zero minPrice \<and> f_lt price minPrice then ''down''
      else if f_lt f_zero maxPrice \<and> f_lt maxPrice price then ''up''
      else [])"

text \<open>The literals of the messages, as UTF-8.\<close>

definition txt_current :: string where \<comment> \<open>current price\<close>
  "txt_current = utf8
     [240, 159, 147, 138, 32, 208, 162, 208, 181, 208, 186, 209, 131, 209, 137, 208, 176, 209,
      143, 32, 209, 134, 208, 181, 208, 189, 208, 176, 10, 10]"

definition txt_price :: string where \<comment> \<open>price\<close>
  "txt_price = utf8
     [10, 10, 208, 166, 208, 181, 208, 189, 208, 176, 58, 32]"

definition txt_failed :: string where \<comment> \<open>the price could not be checked\<close>
  "txt_failed = utf8
     [226, 154, 160, 239, 184, 143, 32, 208, 157, 208, 181, 32, 209, 131, 208, 180, 208, 176,
      208, 187, 208, 190, 209, 129, 209, 140, 32, 208, 191, 209, 128, 208, 190, 208, 178, 208,
      181, 209, 128, 208, 184, 209, 130, 209, 140, 32, 209, 134, 208, 181, 208, 189, 209, 131,
      10, 10]"

definition txt_fell :: string where \<comment> \<open>the price fell\<close>
  "txt_fell = utf8
     [240, 159, 147, 137, 32, 208, 166, 208, 181, 208, 189, 208, 176, 32, 209, 131, 208, 191,
      208, 176, 208, 187, 208, 176, 33, 10, 10]"

definition txt_minimum :: string where \<comment> \<open>your minimum\<close>
  "txt_minimum = utf8
     [10, 208, 146, 208, 176, 209, 136, 32, 208, 188, 208, 184, 208, 189, 208, 184, 208, 188,
      209, 131, 208, 188, 58, 32]"

definition txt_rose :: string where \<comment> \<open>the price rose\<close>
  "txt_rose = utf8
     [240, 159, 147, 136, 32, 208, 166, 208, 181, 208, 189, 208, 176, 32, 208, 178, 209, 139,
      209, 128, 208, 190, 209, 129, 208, 187, 208, 176, 33, 10, 10]"

definition txt_maximum :: string where \<comment> \<open>your maximum\<close>
  "txt_maximum = utf8
     [10, 208, 146, 208, 176, 209, 136, 32, 208, 188, 208, 176, 208, 186, 209, 129, 208, 184,
      208, 188, 209, 131, 208, 188, 58, 32]"

definition newline :: string where "newline = [CHR 10]"

definition alertText :: "string \<Rightarrow> string \<Rightarrow> float64 \<Rightarrow> string \<Rightarrow> string \<Rightarrow> float64 \<Rightarrow> float64 \<Rightarrow> string" where
  "alertText name url price currency direction minPrice maxPrice =
     (if direction = ''down''
      then txt_fell @ name @ newline @ url @ txt_price @ fmt_f0 price @ '' '' @ currency
         @ txt_minimum @ fmt_f0 minPrice @ '' '' @ currency
      else txt_rose @ name @ newline @ url @ txt_price @ fmt_f0 price @ '' '' @ currency
         @ txt_maximum @ fmt_f0 maxPrice @ '' '' @ currency)"

definition forceText :: "string \<Rightarrow> string \<Rightarrow> PriceResult \<Rightarrow> string" where
  "forceText name url result =
     (if pr_Success result
      then txt_current @ name @ newline @ url @ txt_price @ fmt_f0 (pr_Price result) @ '' '' @ pr_Currency result
      else txt_failed @ name @ newline @ url @ newline @ newline @ pr_Error result)"

definition bad_price :: "PriceResult \<Rightarrow> bool" where
  "bad_price result \<longleftrightarrow> pr_Success result \<and>
     (f_isNaN (pr_Price result) \<or> f_isInf (pr_Price result) \<or> f_lt (pr_Price result) f_zero)"

text \<open>The branch of a lookup result, from \<open>Begin\<close> on.\<close>

definition process_lookup :: "services \<Rightarrow> genv \<Rightarrow> PriceResult \<Rightarrow> gw_db \<Rightarrow> gw_db \<times> (store_error + unit)" where
  "process_lookup S e result db =
     (if ge_flt e 0 then (db, Inl ErrDB)
      else if ge_flt e 1 then (db, Inl ErrDB)
      else case pg_uuid S (pr_TaskID result) of
        None \<Rightarrow> (db, Inl ErrDB)
      | Some tid \<Rightarrow>
         if tid \<in> set (processed_price_results db)
         then (if ge_flt e 3 then (db, Inl ErrDB) else (db, Inr ()))
         else if ge_flt e 2 then (db, Inl ErrDB)
         else case pg_uuid S (pr_LookupID result) of
           None \<Rightarrow> (db, Inl ErrDB)
         | Some lid \<Rightarrow>
            let row = (if pr_Success result
              then map_option (\<lambda>price r. r\<lparr>lk_status := LookupDone, lk_name := Some (pr_Name result),
                     lk_price := Some price, lk_expires_at := ge_now e + hour\<rparr>) (numcol S (pr_Price result))
              else Some (\<lambda>r. r\<lparr>lk_status := LookupFailed, lk_error := Some (pr_Error result)\<rparr>))
            in case row of
                 None \<Rightarrow> (db, Inl ErrDB)
               | Some f \<Rightarrow>
                   if ge_flt e 3 then (db, Inl ErrDB)
                   else (db\<lparr>processed_price_results := processed_price_results db @ [tid],
                          lookup_requests := update_where (\<lambda>r. lk_id r = lid) f (lookup_requests db)\<rparr>, Inr ()))"

record alert_row =
  al_id :: uuid
  al_chat :: int
  al_min :: float64
  al_max :: float64
  al_state :: string
  al_version :: int

definition alert_rows :: "uuid \<Rightarrow> gw_db \<Rightarrow> alert_row list" where
  "alert_rows productID db =
     List.map_filter (\<lambda>s. map_option (\<lambda>u. \<lparr>al_id = sb_id s, al_chat = us_chat_id u,
         al_min = (case sb_min_price s of None \<Rightarrow> f_zero | Some q \<Rightarrow> q),
         al_max = (case sb_max_price s of None \<Rightarrow> f_zero | Some q \<Rightarrow> q),
         al_state = sb_alert_state s, al_version = sb_alert_version s\<rparr>)
       (find (\<lambda>u. us_id u = sb_user_id s) (users db)))
     (sort_key sb_id (filter (\<lambda>s. sb_product_id s = productID \<and> sb_active s \<and> \<not> sb_paused s) (subscriptions db)))"

definition alert_key :: "uuid \<Rightarrow> int \<Rightarrow> string" where
  "alert_key i version = ''alert:'' @ i @ '':'' @ show_int version"

text \<open>
  The loop over the subscriptions; row \<open>k\<close> uses the statements \<open>9 + 2k\<close> and \<open>10 + 2k\<close> and two
  UUIDs from \<open>2 + 2k\<close> on.
\<close>

fun alert_loop :: "genv \<Rightarrow> nat \<Rightarrow> string \<Rightarrow> string \<Rightarrow> PriceResult \<Rightarrow> alert_row list \<Rightarrow> gw_db \<Rightarrow> gw_db option" where
  "alert_loop e k name url result [] db = Some db"
| "alert_loop e k name url result (sub # subs) db =
     (let nxt = classify (pr_Price result) (al_min sub) (al_max sub);
          version = incr64 (al_version sub);
          db' = db\<lparr>subscriptions := update_where (\<lambda>r. sb_id r = al_id sub)
                  (\<lambda>r. r\<lparr>sb_alert_state := nxt, sb_alert_version := version\<rparr>) (subscriptions db)\<rparr>;
          task = \<lparr>nt_TaskID = ge_uuid e (2 + 2 * k), nt_Channel = ''telegram'', nt_Target = show_int (al_chat sub),
                  nt_Text = alertText name url (pr_Price result) (pr_Currency result) nxt (al_min sub) (al_max sub),
                  nt_Direction = nxt, nt_NotBefore = 0\<rparr>
      in if nxt = al_state sub then alert_loop e (Suc k) name url result subs db
         else if ge_flt e (9 + 2 * k) then None
         else if nxt = [] then alert_loop e (Suc k) name url result subs db'
         else if ge_flt e (10 + 2 * k) then None
         else case gw_enqueue (ge_uuid e (3 + 2 * k)) (ge_now e) (alert_key (al_id sub) version) QueueNotifyTasks
                (JNotify task) (gateway_outbox db') of
           None \<Rightarrow> None
         | Some ob \<Rightarrow> alert_loop e (Suc k) name url result subs (db'\<lparr>gateway_outbox := ob\<rparr>))"

text \<open>What follows the INSERT of a new \<open>task_id\<close>, for the product row \<open>p\<close>.\<close>

definition record_result :: "services \<Rightarrow> genv \<Rightarrow> PriceResult \<Rightarrow> uuid \<Rightarrow> product \<Rightarrow> int option \<Rightarrow> gw_db
    \<Rightarrow> gw_db option" where
  "record_result S e result tid p forceChat db =
     (let stale = (pr_Success result \<and>
            (case pd_latest_result_at p of None \<Rightarrow> False | Some latest \<Rightarrow> pr_ScrapedAt result < latest));
          db1 = db\<lparr>processed_price_results := processed_price_results db @ [tid]\<rparr>;
          db2 = (if pr_Success result
            then (if ge_flt e 4 \<or> exists_where (\<lambda>r. ph_task_id r = tid \<or> ph_id r = ge_uuid e 0) (price_history db1) then None
                  else map_option (\<lambda>price. db1\<lparr>price_history := price_history db1 @ [\<lparr>ph_id = ge_uuid e 0,
                    ph_product_id = pd_id p, ph_price = price, ph_currency = pr_Currency result,
                    ph_scraped_at = tscol S (pr_ScrapedAt result), ph_task_id = tid\<rparr>]\<rparr>) (numcol S (pr_Price result)))
            else Some db1)
      in case db2 of
           None \<Rightarrow> None
         | Some db2 \<Rightarrow>
           if pr_Success result \<and> \<not> stale \<and> ge_flt e 5 then None
           else let db3 = (if pr_Success result \<and> \<not> stale
                  then db2\<lparr>products := update_where (\<lambda>x. pd_id x = pd_id p)
                         (\<lambda>x. x\<lparr>pd_latest_result_at := Some (tscol S (pr_ScrapedAt result))\<rparr>) (products db2)\<rparr>
                  else db2)
           in case forceChat of
                Some chat \<Rightarrow>
                  if ge_flt e 6 then None
                  else map_option (\<lambda>ob. db3\<lparr>gateway_outbox := ob\<rparr>)
                    (gw_enqueue (ge_uuid e 1) (ge_now e) (''force-result:'' @ pr_TaskID result) QueueNotifyTasks
                       (JNotify \<lparr>nt_TaskID = pr_TaskID result, nt_Channel = ''telegram'', nt_Target = show_int chat,
                          nt_Text = forceText (pd_name p) (pd_url p) result, nt_Direction = [], nt_NotBefore = 0\<rparr>)
                       (gateway_outbox db3))
              | None \<Rightarrow>
                  if \<not> pr_Success result \<or> stale then Some db3
                  else if ge_flt e 7 then None
                  else alert_loop e 0 (pd_name p) (pd_url p) result (alert_rows (pd_id p) db3) db3)"

definition process_product :: "services \<Rightarrow> genv \<Rightarrow> PriceResult \<Rightarrow> gw_db \<Rightarrow> gw_db \<times> (store_error + unit)" where
  "process_product S e result db =
     (if ge_flt e 0 then (db, Inl ErrDB)
      else if ge_flt e 1 then (db, Inl ErrDB)
      else case pg_uuid S (pr_ProductID result) of
        None \<Rightarrow> (db, Inl ErrDB)
      | Some pid \<Rightarrow>
       (case find (\<lambda>p. pd_id p = pid) (products db) of
          None \<Rightarrow> (db, Inl ErrInvalidResult)
        | Some p \<Rightarrow>
         if ge_flt e 2 then (db, Inl ErrDB)
         else case pg_uuid S (pr_TaskID result) of
           None \<Rightarrow> (db, Inl ErrDB)
         | Some tid \<Rightarrow>
           (let force = find (\<lambda>f. fr_task_id f = tid) (force_requests db);
                seen = (tid \<in> set (processed_price_results db));
                marked = db\<lparr>processed_price_results := processed_price_results db @ [tid]\<rparr>
            in if force = None \<and> pr_Force result then
                 (if ge_flt e 3 \<or> ge_flt e 8 then (db, Inl ErrDB)
                  else (if seen then db else marked, Inr ()))
               else if (case force of None \<Rightarrow> False | Some f \<Rightarrow> fr_product_id f \<noteq> pr_ProductID result)
                 then (db, Inl ErrInvalidResult)
               else if ge_flt e 3 then (db, Inl ErrDB)
               else if seen then (if ge_flt e 8 then (db, Inl ErrDB) else (db, Inr ()))
               else if pr_Success result \<and> pr_ScrapedAt result = 0 then (db, Inl ErrInvalidResult)
               else (case record_result S e result tid p (map_option fr_chat_id force) db of
                       None \<Rightarrow> (db, Inl ErrDB)
                     | Some db' \<Rightarrow> if ge_flt e 8 then (db, Inl ErrDB) else (db', Inr ())))))"

definition ProcessPriceResult :: "services \<Rightarrow> genv \<Rightarrow> PriceResult \<Rightarrow> gw_db \<Rightarrow> gw_db \<times> (store_error + unit)" where
  "ProcessPriceResult S e result db =
     (if uuid_parse S (pr_TaskID result) = None then (db, Inl ErrInvalidResult)
      else if pr_LookupID result \<noteq> [] \<and> pr_ProductID result \<noteq> [] then (db, Inl ErrInvalidResult)
      else if pr_LookupID result \<noteq> [] then
        (if uuid_parse S (pr_LookupID result) = None then (db, Inl ErrInvalidResult)
         else if bad_price result then (db, Inl ErrInvalidResult)
         else process_lookup S e result db)
      else if uuid_parse S (pr_ProductID result) = None then (db, Inl ErrInvalidResult)
      else if bad_price result then (db, Inl ErrInvalidResult)
      else process_product S e result db)"

section \<open>The consumer of price.results\<close>

definition gw_handle :: "services \<Rightarrow> genv \<times> PriceResult option \<Rightarrow> gw_db \<Rightarrow> gw_db \<times> settle" where
  "gw_handle S d db =
     (case snd d of
        None \<Rightarrow> (db, NackDrop)
      | Some result \<Rightarrow> (let (db', r) = ProcessPriceResult S (fst d) result db in (db', settle_by ErrInvalidResult r)))"

definition gw_Run :: "services \<Rightarrow> bool \<Rightarrow> (genv \<times> PriceResult option) channel_event list \<Rightarrow> gw_db
    \<Rightarrow> (gw_db \<times> settle list) \<times> run_end" where
  "gw_Run S consume_ok es db =
     (if \<not> consume_ok then ((db, []), ReturnedError) else consume_loop (gw_handle S) es db)"

section \<open>The cleaner\<close>

text \<open>\<open>cleaner.Run\<close>: one entry per tick, the environments of its two calls; \<open>None\<close> is cancellation.\<close>

fun cleaner_Run :: "duration \<Rightarrow> (genv \<times> genv) option list \<Rightarrow> gw_db \<Rightarrow> gw_db" where
  "cleaner_Run retention [] db = db"
| "cleaner_Run retention (None # es) db = db"
| "cleaner_Run retention (Some (e1, e2) # es) db =
     cleaner_Run retention es (fst (DeleteOldPriceHistory e2 retention (fst (DeleteExpiredLookups e1 db))))"

section \<open>The reconciliation loop\<close>

text \<open>
  \<open>runReconciliation\<close> of \<open>cmd/gateway/main.go\<close>: each round is the environment of the call,
  whether the context is done after it, and whether it is done before the timer fires. The
  result is the database, the retry delay and the delays waited.
\<close>

fun reconciliation :: "(genv \<times> bool \<times> bool) list \<Rightarrow> duration \<Rightarrow> gw_db \<Rightarrow> gw_db \<times> duration list" where
  "reconciliation [] retryDelay db = (db, [])"
| "reconciliation ((e, cancelled, stop) # rs) retryDelay db =
     (let (db', r) = ReconcileMonitoring e db;
          failed = (case r of Inl _ \<Rightarrow> \<not> cancelled | Inr _ \<Rightarrow> False);
          delay = (if failed then retryDelay else 5 * minute);
          retryDelay' = (if failed then (if retryDelay * 2 > minute then minute else retryDelay * 2) else second)
      in if stop then (db', [delay])
         else let (db'', ds) = reconciliation rs retryDelay' db' in (db'', delay # ds))"

end
