(* ===== verification/GatewayLaws.thy ===== *)
theory GatewayLaws
  imports GatewayStore
begin

text \<open>
  The gateway's store as a service: its transactions in any order, the invariant of its
  tables, and above all the monitoring protocol: the newest snapshot in the outbox always
  describes the current subscriptions, under a version no other snapshot has.
\<close>

section \<open>The service\<close>

text \<open>
  An older state of the subscriptions: no other rows, the same keys, anything in the other
  columns. It is what \<open>mutateSubscription\<close>'s first SELECT may see.
\<close>

definition older :: "(sub_row \<Rightarrow> sub_row option) \<Rightarrow> sub_row list \<Rightarrow> sub_row list" where
  "older v t = List.map_filter (\<lambda>r. map_option (\<lambda>r'. r'\<lparr>sb_id := sb_id r, sb_user_id := sb_user_id r,
     sb_product_id := sb_product_id r\<rparr>) (v r)) t"

datatype gw_work =
    WCreateLookup genv uuid string
  | WExpireLookups genv
  | WTrimHistory genv duration
  | WUpsertUser genv int
  | WEnsureProduct genv uuid string string string
  | WMutate genv "sub_row \<Rightarrow> sub_row option" string uuid operation
  | WSubscribe genv uuid uuid float64 float64
  | WQueueForce genv string uuid int
  | WReconcile genv
  | WGwClaim oenv nat duration
  | WGwMark oenv uuid uuid
  | WGwRetry oenv uuid uuid string duration

fun gw_own :: "services \<Rightarrow> gw_work \<Rightarrow> gw_db \<Rightarrow> gw_db" where
  "gw_own S (WCreateLookup e i url) db = fst (CreateLookup e i url db)"
| "gw_own S (WExpireLookups e) db = fst (DeleteExpiredLookups e db)"
| "gw_own S (WTrimHistory e d) db = fst (DeleteOldPriceHistory e d db)"
| "gw_own S (WUpsertUser e chat) db = fst (UpsertUser e chat db)"
| "gw_own S (WEnsureProduct e i name url plat) db = fst (EnsureProduct e i name url plat db)"
| "gw_own S (WMutate e v i u op) db = fst (mutateSubscription S e (older v (subscriptions db)) i u op db)"
| "gw_own S (WSubscribe e u p mn mx) db = fst (CreateSubscription S e u p mn mx db)"
| "gw_own S (WQueueForce e i u chat) db = fst (QueueForce S e i u chat db)"
| "gw_own S (WReconcile e) db = fst (ReconcileMonitoring e db)"
| "gw_own S (WGwClaim e n d) db = db\<lparr>gateway_outbox := fst (gw_Claim e n d (gateway_outbox db))\<rparr>"
| "gw_own S (WGwMark e i tok) db = db\<lparr>gateway_outbox := fst (gw_MarkPublished e i tok (gateway_outbox db))\<rparr>"
| "gw_own S (WGwRetry e i tok er d) db =
     db\<lparr>gateway_outbox := fst (gw_Retry e i tok er d (gateway_outbox db))\<rparr>"

type_synonym gw_steps = "(genv, PriceResult, gw_work) service_step list"

definition gw_run :: "services \<Rightarrow> gw_steps \<Rightarrow> gw_db \<Rightarrow> gw_db" where
  "gw_run S = run_steps (ProcessPriceResult S) (gw_own S)"

text \<open>What the handlers guarantee of the calls they make: only canonical URLs are stored.\<close>

fun work_ok :: "gw_work \<Rightarrow> bool" where
  "work_ok (WCreateLookup e i url) = canonical url"
| "work_ok (WEnsureProduct e i name url plat) = (canonical url \<and> plat = ''wb'')"
| "work_ok _ = True"

fun step_ok :: "('e, 'm, gw_work) service_step \<Rightarrow> bool" where
  "step_ok (Local x) = work_ok x"
| "step_ok (Deliver _ _) = True"

section \<open>Event keys\<close>

lemma gw_enqueue_cases:
  "gw_enqueue i now key q p t = Some t' \<longleftrightarrow>
     (key \<in> ob_event_key ` set t \<and> t' = t
      \<or> key \<notin> ob_event_key ` set t \<and> i \<notin> ob_id ` set t \<and> t' = t @ [new_outbox_row i now key q p])"
  by (auto simp: gw_enqueue_def exists_where_iff image_iff)

lemma colon_split:
  assumes "a @ CHR '':'' # x = b @ CHR '':'' # y" and "CHR '':'' \<notin> set x" and "CHR '':'' \<notin> set y"
  shows "a = b \<and> x = y"
proof -
  have "rev x @ CHR '':'' # rev a = rev y @ CHR '':'' # rev b"
    using assms(1) by (metis rev_append rev.simps(2) append_assoc append_Cons append_Nil)
  moreover have "takeWhile (\<lambda>c. c \<noteq> CHR '':'') (rev z @ CHR '':'' # w) = rev z"
    "dropWhile (\<lambda>c. c \<noteq> CHR '':'') (rev z @ CHR '':'' # w) = CHR '':'' # w" if "CHR '':'' \<notin> set z" for z w
    using that by (subst takeWhile_append2 dropWhile_append2; auto)+
  ultimately show ?thesis using assms(2,3) by (metis list.inject rev_rev_ident)
qed

lemma track_key_inj: "track_key p v = track_key p' v' \<longleftrightarrow> p = p' \<and> v = v'"
  using colon_split [of p "show_int v" p' "show_int v'"] show_int_inj [of v v']
  by (auto simp: track_key_def show_int_no_colon)

lemma alert_key_inj: "alert_key p v = alert_key p' v' \<longleftrightarrow> p = p' \<and> v = v'"
  using colon_split [of p "show_int v" p' "show_int v'"] show_int_inj [of v v']
  by (auto simp: alert_key_def show_int_no_colon)

text \<open>The kinds of keys: the part before the first colon.\<close>

definition key_kind :: "string \<Rightarrow> string" where
  "key_kind k = takeWhile (\<lambda>c. c \<noteq> CHR '':'') k"

lemma key_kind_Cons [simp]: "key_kind (c # s) = (if c = CHR '':'' then [] else c # key_kind s)"
  by (simp add: key_kind_def)

lemma key_kinds [simp]:
  "key_kind (track_key p v) = ''track''" "key_kind (alert_key i v) = ''alert''"
  "key_kind (''lookup:'' @ s) = ''lookup''" "key_kind (''force:'' @ s) = ''force''"
  "key_kind (''force-result:'' @ s) = ''force-result''"
  by (simp_all add: key_kind_def track_key_def alert_key_def)

section \<open>The monitoring invariant\<close>

text \<open>
  A snapshot event is one under a track key: its message is for a stored product and its URL,
  not newer than the product. No other event uses such a key.
\<close>

fun snapshot_of :: "json \<Rightarrow> TrackRequest option" where
  "snapshot_of (JTrack m) = (if tr_Action m = ''set_state'' then Some m else None)"
| "snapshot_of _ = None"

definition snap_ok :: "product list \<Rightarrow> string \<Rightarrow> string \<Rightarrow> TrackRequest \<Rightarrow> bool" where
  "snap_ok ps k q m \<longleftrightarrow> k = track_key (tr_ProductID m) (tr_Version m) \<and> q = QueueTrackRequests
     \<and> tr_IntervalHours m = 1 \<and> 0 < tr_Version m
     \<and> (\<exists>p \<in> set ps. pd_id p = tr_ProductID m \<and> pd_url p = tr_URL m \<and> pd_platform p = tr_Platform m
          \<and> tr_Version m \<le> pd_monitor_version p)"

definition track_ok :: "product list \<Rightarrow> string \<Rightarrow> string \<Rightarrow> json \<Rightarrow> bool" where
  "track_ok ps k q pl \<longleftrightarrow> json_Valid pl \<and>
     (case snapshot_of pl of Some m \<Rightarrow> snap_ok ps k q m | None \<Rightarrow> key_kind k \<noteq> ''track'')"

lemma snapshot_of_iff: "snapshot_of pl = Some m \<longleftrightarrow> pl = JTrack m \<and> tr_Action m = ''set_state''"
  by (cases pl) auto

definition rows_ok :: "product list \<Rightarrow> outbox \<Rightarrow> bool" where
  "rows_ok ps ob \<longleftrightarrow> (\<forall>r \<in> set ob. track_ok ps (ob_event_key r) (ob_queue r) (ob_payload r))"

text \<open>The product's newest snapshot describes its subscriptions.\<close>

definition latest_ok :: "sub_row list \<Rightarrow> outbox \<Rightarrow> product \<Rightarrow> bool" where
  "latest_ok subs ob p \<longleftrightarrow>
     (if pd_monitor_version p = 0 then \<not> monitored (pd_id p) subs
      else \<exists>r \<in> set ob. ob_event_key r = track_key (pd_id p) (pd_monitor_version p)
         \<and> (\<exists>m. ob_payload r = JTrack m \<and> tr_Active m = monitored (pd_id p) subs))"

definition mon_wf :: "int \<Rightarrow> product list \<Rightarrow> sub_row list \<Rightarrow> outbox \<Rightarrow> bool" where
  "mon_wf n ps subs ob \<longleftrightarrow> distinct (map pd_id ps) \<and> distinct (map pd_url ps)
     \<and> (\<forall>p \<in> set ps. canonical (pd_url p) \<and> pd_platform p = ''wb''
          \<and> 0 \<le> pd_monitor_version p \<and> pd_monitor_version p \<le> n \<and> latest_ok subs ob p)
     \<and> rows_ok ps ob"

lemma mon_wf_mono: "mon_wf n ps subs ob \<Longrightarrow> n \<le> n' \<Longrightarrow> mon_wf n' ps subs ob"
  by (auto simp: mon_wf_def)

lemma rows_ok_static: "ob_static ob' = ob_static ob \<Longrightarrow> rows_ok ps ob' = rows_ok ps ob"
  unfolding rows_ok_def by (rule ob_static_cong(4))

lemma latest_ok_static:
  assumes "ob_static ob' = ob_static ob"
  shows "latest_ok subs ob' p = latest_ok subs ob p"
proof -
  define Q where "Q k pl \<longleftrightarrow> k = track_key (pd_id p) (pd_monitor_version p)
      \<and> (\<exists>m. pl = JTrack m \<and> tr_Active m = monitored (pd_id p) subs)" for k pl
  have "(\<forall>r \<in> set ob'. \<not> Q (ob_event_key r) (ob_payload r)) = (\<forall>r \<in> set ob. \<not> Q (ob_event_key r) (ob_payload r))"
    using ob_static_cong(4) [OF assms, of "\<lambda>k _ pl. \<not> Q k pl"] by simp
  then have "(\<exists>r \<in> set ob'. Q (ob_event_key r) (ob_payload r)) = (\<exists>r \<in> set ob. Q (ob_event_key r) (ob_payload r))"
    by blast
  then show ?thesis unfolding latest_ok_def Q_def by simp
qed

lemma mon_wf_static: "ob_static ob' = ob_static ob \<Longrightarrow> mon_wf n ps subs ob \<Longrightarrow> mon_wf n ps subs ob'"
  by (simp add: mon_wf_def rows_ok_static [of ob' ob] latest_ok_static [of ob' ob])

lemma mon_wf_subs: "mon_wf n ps subs ob \<Longrightarrow> (\<And>i. monitored i subs' = monitored i subs) \<Longrightarrow> mon_wf n ps subs' ob"
  by (simp add: mon_wf_def latest_ok_def)

text \<open>Columns of a product other than these do not matter.\<close>

definition same_identity :: "product \<Rightarrow> product \<Rightarrow> bool" where
  "same_identity p p' \<longleftrightarrow> pd_id p' = pd_id p \<and> pd_url p' = pd_url p \<and> pd_platform p' = pd_platform p
     \<and> pd_monitor_version p' = pd_monitor_version p"

definition grows :: "product list \<Rightarrow> product list \<Rightarrow> bool" where
  "grows ps ps' \<longleftrightarrow> (\<forall>p \<in> set ps. \<exists>p' \<in> set ps'. pd_id p' = pd_id p \<and> pd_url p' = pd_url p
     \<and> pd_platform p' = pd_platform p \<and> pd_monitor_version p \<le> pd_monitor_version p')"

lemma grows_update:
  assumes "\<And>p. p \<in> set ps \<Longrightarrow> P p \<Longrightarrow> pd_id (f p) = pd_id p \<and> pd_url (f p) = pd_url p
      \<and> pd_platform (f p) = pd_platform p \<and> pd_monitor_version p \<le> pd_monitor_version (f p)"
  shows "grows ps (update_where P f ps)"
  unfolding grows_def
proof (intro ballI)
  fix p
  assume p: "p \<in> set ps"
  then have "(if P p then f p else p) \<in> set (update_where P f ps)" by (simp add: update_where_def)
  then show "\<exists>p' \<in> set (update_where P f ps). pd_id p' = pd_id p \<and> pd_url p' = pd_url p
     \<and> pd_platform p' = pd_platform p \<and> pd_monitor_version p \<le> pd_monitor_version p'"
    by (rule bexI [rotated]) (use assms [OF p] in simp)
qed

lemma grows_append: "grows ps (ps @ qs)"
  by (force simp: grows_def)

lemma track_ok_mono:
  assumes "track_ok ps k q pl" and "grows ps ps'"
  shows "track_ok ps' k q pl"
proof (cases "snapshot_of pl")
  case (Some m)
  with assms(1) obtain p where p: "p \<in> set ps" "pd_id p = tr_ProductID m" "pd_url p = tr_URL m"
    "pd_platform p = tr_Platform m" "tr_Version m \<le> pd_monitor_version p"
    by (auto simp: track_ok_def snap_ok_def)
  from assms(2) p(1) obtain p' where "p' \<in> set ps'" "pd_id p' = pd_id p" "pd_url p' = pd_url p"
    "pd_platform p' = pd_platform p" "pd_monitor_version p \<le> pd_monitor_version p'"
    unfolding grows_def by blast
  with p have "\<exists>p' \<in> set ps'. pd_id p' = tr_ProductID m \<and> pd_url p' = tr_URL m
      \<and> pd_platform p' = tr_Platform m \<and> tr_Version m \<le> pd_monitor_version p'"
    by (intro bexI [of _ p']) simp_all
  with Some assms(1) show ?thesis by (simp add: track_ok_def snap_ok_def)
next
  case None
  with assms(1) show ?thesis by (simp add: track_ok_def)
qed

lemma rows_ok_mono: "rows_ok ps ob \<Longrightarrow> grows ps ps' \<Longrightarrow> rows_ok ps' ob"
  unfolding rows_ok_def using track_ok_mono by blast

lemma mon_wf_products:
  assumes "mon_wf n ps subs ob" and "\<And>p. same_identity p (f p)"
  shows "mon_wf n (update_where P f ps) subs ob"
proof -
  have "grows ps (update_where P f ps)"
    using assms(2) by (intro grows_update) (simp add: same_identity_def)
  then have rows: "rows_ok (update_where P f ps) ob"
    using assms(1) by (auto simp: mon_wf_def intro: rows_ok_mono)
  have f: "pd_id (f p) = pd_id p" "pd_url (f p) = pd_url p" "pd_platform (f p) = pd_platform p"
    "pd_monitor_version (f p) = pd_monitor_version p" for p
    using assms(2) [of p] by (simp_all add: same_identity_def)
  have latest: "latest_ok subs ob (f p) = latest_ok subs ob p" for p by (simp add: latest_ok_def f)
  show ?thesis unfolding mon_wf_def
    using rows assms(1) by (intro conjI ball_update_where) (auto simp: mon_wf_def map_update_where f latest)
qed

lemma mon_wf_append:
  assumes "mon_wf n ps subs ob" and "key_kind (ob_event_key r) \<noteq> ''track''" and "json_Valid (ob_payload r)"
    and "\<And>m. ob_payload r = JTrack m \<Longrightarrow> tr_Action m \<noteq> ''set_state''"
  shows "mon_wf n ps subs (ob @ [r])"
proof -
  have "track_ok ps (ob_event_key r) (ob_queue r) (ob_payload r)"
    using assms(2-4) by (auto simp: track_ok_def snapshot_of_iff split: option.split)
  moreover have "latest_ok subs (ob @ [r]) p" if "latest_ok subs ob p" for p
    using that by (auto simp: latest_ok_def)
  ultimately show ?thesis using assms(1) by (auto simp: mon_wf_def rows_ok_def)
qed

lemma mon_wf_new_product:
  assumes "mon_wf n ps subs ob" and "canonical (pd_url p)" "pd_platform p = ''wb''" "pd_monitor_version p = 0"
    and "pd_id p \<notin> pd_id ` set ps" "pd_url p \<notin> pd_url ` set ps" "\<not> monitored (pd_id p) subs" "0 \<le> n"
  shows "mon_wf n (ps @ [p]) subs ob"
proof -
  have "rows_ok (ps @ [p]) ob"
    using assms(1) rows_ok_mono [OF _ grows_append] by (simp add: mon_wf_def)
  with assms show ?thesis by (auto simp: mon_wf_def latest_ok_def)
qed

text \<open>No event under a track key is newer than its product.\<close>

lemma track_key_bound:
  assumes "rows_ok ps ob" and "distinct (map pd_id ps)" and "r \<in> set ob"
    and "ob_event_key r = track_key (pd_id p) v" and "p \<in> set ps"
  shows "v \<le> pd_monitor_version p"
proof -
  from assms(1,3) have t: "track_ok ps (track_key (pd_id p) v) (ob_queue r) (ob_payload r)"
    using assms(4) by (auto simp: rows_ok_def)
  show ?thesis
  proof (cases "snapshot_of (ob_payload r)")
    case None
    with t show ?thesis by (simp add: track_ok_def)
  next
    case (Some m)
    with t obtain x where x: "x \<in> set ps" "pd_id x = tr_ProductID m" "tr_Version m \<le> pd_monitor_version x"
      and "pd_id p = tr_ProductID m" "v = tr_Version m"
      by (auto simp: track_ok_def snap_ok_def track_key_inj)
    with distinct_key_eq [OF assms(2) x(1) assms(5)] show ?thesis by simp
  qed
qed

section \<open>Bumping a version\<close>

lemma bump_Some:
  assumes "bump e k u pid v url plat db = Some db'"
  obtains ob m where "gw_enqueue (ge_uuid e (u + 1)) (ge_now e) (track_key pid (incr64 v)) QueueTrackRequests
      (JTrack m) (gateway_outbox db) = Some ob"
    "m = \<lparr>tr_TaskID = ge_uuid e u, tr_Action = ''set_state'', tr_Version = incr64 v,
        tr_Active = monitored pid (subscriptions db), tr_ProductID = pid, tr_URL = url, tr_Platform = plat,
        tr_IntervalHours = 1, tr_ChatID = 0\<rparr>"
    "db' = (set_version pid (incr64 v) db)\<lparr>gateway_outbox := ob\<rparr>"
  using assms by (auto simp: bump_def snapshot_def Let_def set_version_def split: if_splits)

definition put_version :: "uuid \<Rightarrow> int \<Rightarrow> product list \<Rightarrow> product list" where
  "put_version pid v = update_where (\<lambda>p. pd_id p = pid) (\<lambda>p. p\<lparr>pd_monitor_version := v\<rparr>)"

lemma put_version_props:
  "map pd_id (put_version pid v ps) = map pd_id ps" "map pd_url (put_version pid v ps) = map pd_url ps"
  "set (put_version pid v ps) = (\<lambda>p. if pd_id p = pid then p\<lparr>pd_monitor_version := v\<rparr> else p) ` set ps"
  unfolding put_version_def by (simp_all only: set_update_where) (simp_all add: map_update_where)

lemma mon_wf_bump:
  assumes wf: "mon_wf n ps subs0 ob" and p: "p \<in> set ps" and v: "pd_monitor_version p < n" and n: "n < 2 ^ 63"
    and others: "\<And>i. i \<noteq> pd_id p \<Longrightarrow> monitored i subs = monitored i subs0"
    and enq: "gw_enqueue i now (track_key (pd_id p) v') QueueTrackRequests (JTrack m) ob = Some ob'"
    and m: "tr_Action m = ''set_state''" "tr_Version m = v'" "tr_Active m = monitored (pd_id p) subs"
      "tr_ProductID m = pd_id p" "tr_URL m = pd_url p" "tr_Platform m = pd_platform p" "tr_IntervalHours m = 1"
    and v': "v' = incr64 (pd_monitor_version p)"
  shows "mon_wf n (put_version (pd_id p) v' ps) subs ob'"
    and "ob' = ob @ [new_outbox_row i now (track_key (pd_id p) v') QueueTrackRequests (JTrack m)]"
proof -
  have pos: "0 \<le> pd_monitor_version p" using wf p by (simp add: mon_wf_def)
  then have ver: "v' = pd_monitor_version p + 1" using v n v' by (simp add: incr64_less)
  have dist: "distinct (map pd_id ps)" and rows: "rows_ok ps ob" using wf by (auto simp: mon_wf_def)
  have "track_key (pd_id p) v' \<notin> ob_event_key ` set ob"
  proof
    assume "track_key (pd_id p) v' \<in> ob_event_key ` set ob"
    then obtain r where "r \<in> set ob" "ob_event_key r = track_key (pd_id p) v'" by auto
    from track_key_bound [OF rows dist this p] ver show False by simp
  qed
  with enq show out: "ob' = ob @ [new_outbox_row i now (track_key (pd_id p) v') QueueTrackRequests (JTrack m)]"
    by (simp add: gw_enqueue_cases)
  define r where "r = new_outbox_row i now (track_key (pd_id p) v') QueueTrackRequests (JTrack m)"
  let ?ps = "put_version (pd_id p) v' ps"
  have "grows ps ?ps" unfolding put_version_def
  proof (rule grows_update)
    fix x
    assume "x \<in> set ps" "pd_id x = pd_id p"
    then have "x = p" using p distinct_key_eq [OF dist] by blast
    then show "pd_id (x\<lparr>pd_monitor_version := v'\<rparr>) = pd_id x \<and> pd_url (x\<lparr>pd_monitor_version := v'\<rparr>) = pd_url x
      \<and> pd_platform (x\<lparr>pd_monitor_version := v'\<rparr>) = pd_platform x
      \<and> pd_monitor_version x \<le> pd_monitor_version (x\<lparr>pd_monitor_version := v'\<rparr>)" using ver by simp
  qed
  then have old: "rows_ok ?ps ob" by (rule rows_ok_mono [OF rows])
  have mem: "p\<lparr>pd_monitor_version := v'\<rparr> \<in> set ?ps"
    unfolding put_version_props(3) using p by (intro image_eqI [of _ _ p]) simp_all
  have "snap_ok ?ps (track_key (pd_id p) v') QueueTrackRequests m"
    unfolding snap_ok_def using m ver pos by (intro conjI bexI [OF _ mem]) simp_all
  then have "track_ok ?ps (ob_event_key r) (ob_queue r) (ob_payload r)"
    using m(1) by (simp add: track_ok_def r_def new_outbox_row_def)
  with old have rows': "rows_ok ?ps ob'" by (auto simp: rows_ok_def out r_def)
  have "latest_ok subs ob' x" if x: "x \<in> set ?ps" for x
  proof -
    from x obtain y where y: "y \<in> set ps" "x = (if pd_id y = pd_id p then y\<lparr>pd_monitor_version := v'\<rparr> else y)"
      by (auto simp: put_version_props)
    show ?thesis
    proof (cases "pd_id y = pd_id p")
      case True
      then show ?thesis using y(2) m(3) ver pos by (auto simp: latest_ok_def out)
    next
      case False
      have "latest_ok subs0 ob y" using wf y(1) by (simp add: mon_wf_def)
      then show ?thesis using y(2) False others [OF False] by (auto simp: latest_ok_def out)
    qed
  qed
  moreover have "canonical (pd_url x) \<and> pd_platform x = ''wb'' \<and> 0 \<le> pd_monitor_version x \<and> pd_monitor_version x \<le> n"
    if x: "x \<in> set ?ps" for x
  proof -
    from x obtain y where y: "y \<in> set ps" "x = (if pd_id y = pd_id p then y\<lparr>pd_monitor_version := v'\<rparr> else y)"
      by (auto simp: put_version_props)
    with wf have "canonical (pd_url y) \<and> pd_platform y = ''wb'' \<and> 0 \<le> pd_monitor_version y \<and> pd_monitor_version y \<le> n"
      by (simp add: mon_wf_def)
    with y(2) v ver pos show ?thesis by auto
  qed
  ultimately show "mon_wf n ?ps subs ob'"
    using wf rows' by (simp add: mon_wf_def put_version_props(1,2))
qed

section \<open>The invariant of the tables\<close>

definition subs_wf :: "user list \<Rightarrow> product list \<Rightarrow> sub_row list \<Rightarrow> bool" where
  "subs_wf us ps subs \<longleftrightarrow> distinct (map us_id us) \<and> distinct (map us_chat_id us) \<and> distinct (map sb_id subs)
     \<and> distinct (map (\<lambda>s. (sb_user_id s, sb_product_id s)) subs)
     \<and> (\<forall>s \<in> set subs. sb_user_id s \<in> us_id ` set us \<and> sb_product_id s \<in> pd_id ` set ps)"

text \<open>Alerts are numbered by \<open>alert_version\<close>; none in the outbox is newer than its subscription.\<close>

definition alert_wf :: "int \<Rightarrow> sub_row list \<Rightarrow> outbox \<Rightarrow> bool" where
  "alert_wf n subs ob \<longleftrightarrow> (\<forall>s \<in> set subs. 0 \<le> sb_alert_version s \<and> sb_alert_version s \<le> n)
     \<and> (\<forall>r \<in> set ob. key_kind (ob_event_key r) = ''alert'' \<longrightarrow>
          (\<exists>s \<in> set subs. \<exists>v. ob_event_key r = alert_key (sb_id s) v \<and> v \<le> sb_alert_version s))"

definition history_wf :: "uuid list \<Rightarrow> price_row list \<Rightarrow> bool" where
  "history_wf processed h \<longleftrightarrow> distinct processed \<and> distinct (map ph_id h) \<and> distinct (map ph_task_id h)
     \<and> ph_task_id ` set h \<subseteq> set processed"

text \<open>A force request belongs to a stored product and carries the chat of its user.\<close>

definition force_wf :: "user list \<Rightarrow> product list \<Rightarrow> force_row list \<Rightarrow> bool" where
  "force_wf us ps fs \<longleftrightarrow> distinct (map fr_task_id fs) \<and> (\<forall>f \<in> set fs. fr_product_id f \<in> pd_id ` set ps
     \<and> (\<exists>u \<in> set us. us_id u = fr_user_id f \<and> us_chat_id u = fr_chat_id f))"

definition lookup_wf :: "lookup_row list \<Rightarrow> bool" where
  "lookup_wf ls \<longleftrightarrow> distinct (map lk_id ls) \<and> (\<forall>l \<in> set ls. canonical (lk_url l))"

definition gw_wf :: "int \<Rightarrow> gw_db \<Rightarrow> bool" where
  "gw_wf n db \<longleftrightarrow> mon_wf n (products db) (subscriptions db) (gateway_outbox db)
     \<and> ob_wf (gateway_outbox db) \<and> ob_keyed (gateway_outbox db)
     \<and> subs_wf (users db) (products db) (subscriptions db)
     \<and> alert_wf n (subscriptions db) (gateway_outbox db)
     \<and> history_wf (processed_price_results db) (price_history db)
     \<and> force_wf (users db) (products db) (force_requests db)
     \<and> lookup_wf (lookup_requests db)"

lemma gw_wfI:
  assumes "mon_wf n (products db) (subscriptions db) (gateway_outbox db)"
    "ob_wf (gateway_outbox db)" "ob_keyed (gateway_outbox db)"
    "subs_wf (users db) (products db) (subscriptions db)" "alert_wf n (subscriptions db) (gateway_outbox db)"
    "history_wf (processed_price_results db) (price_history db)"
    "force_wf (users db) (products db) (force_requests db)" "lookup_wf (lookup_requests db)"
  shows "gw_wf n db"
  using assms by (simp add: gw_wf_def)

lemma gw_wfD:
  assumes "gw_wf n db"
  shows "mon_wf n (products db) (subscriptions db) (gateway_outbox db)"
    "ob_wf (gateway_outbox db)" "ob_keyed (gateway_outbox db)"
    "subs_wf (users db) (products db) (subscriptions db)" "alert_wf n (subscriptions db) (gateway_outbox db)"
    "history_wf (processed_price_results db) (price_history db)"
    "force_wf (users db) (products db) (force_requests db)" "lookup_wf (lookup_requests db)"
  using assms by (simp_all add: gw_wf_def)

lemma alert_wf_mono: "alert_wf n subs ob \<Longrightarrow> n \<le> n' \<Longrightarrow> alert_wf n' subs ob"
  by (auto simp: alert_wf_def)

lemma gw_wf_mono: "gw_wf n db \<Longrightarrow> n \<le> n' \<Longrightarrow> gw_wf n' db"
  by (auto simp: gw_wf_def intro: mon_wf_mono alert_wf_mono)

lemma alert_wf_static:
  assumes "ob_static ob' = ob_static ob"
  shows "alert_wf n subs ob' = alert_wf n subs ob"
  using ob_static_cong(4) [OF assms, of "\<lambda>k _ _. key_kind k = ''alert'' \<longrightarrow>
      (\<exists>s \<in> set subs. \<exists>v. k = alert_key (sb_id s) v \<and> v \<le> sb_alert_version s)"]
  by (simp add: alert_wf_def)

lemma gw_wf_outbox:
  assumes "gw_wf n db" and s: "ob_static ob = ob_static (gateway_outbox db)"
  shows "gw_wf n (db\<lparr>gateway_outbox := ob\<rparr>)"
  using gw_wfD [OF assms(1)] mon_wf_static [OF s]
  by (intro gw_wfI) (simp_all add: ob_static_cong(1,2) [OF s] alert_wf_static [OF s])

lemma alert_wf_append:
  "alert_wf n subs ob \<Longrightarrow> key_kind (ob_event_key r) \<noteq> ''alert'' \<Longrightarrow> alert_wf n subs (ob @ [r])"
  by (auto simp: alert_wf_def)

lemma ob_append_wf:
  "ob_wf ob \<Longrightarrow> ob_id r \<notin> ob_id ` set ob \<Longrightarrow> ob_wf (ob @ [r])"
  "ob_keyed ob \<Longrightarrow> ob_event_key r \<notin> ob_event_key ` set ob \<Longrightarrow> ob_keyed (ob @ [r])"
  by (auto simp: ob_wf_def ob_keyed_def)

text \<open>Enqueueing an event that is neither a snapshot nor an alert keeps the invariant.\<close>

lemma gw_wf_enqueue:
  assumes wf: "gw_wf n db" and enq: "gw_enqueue i now key q pl (gateway_outbox db) = Some ob"
    and k: "key_kind key \<noteq> ''track''" "key_kind key \<noteq> ''alert''" and pl: "json_Valid pl" "snapshot_of pl = None"
  shows "gw_wf n (db\<lparr>gateway_outbox := ob\<rparr>)"
proof -
  define r where "r = new_outbox_row i now key q pl"
  from enq consider "ob = gateway_outbox db"
    | "ob = gateway_outbox db @ [r]" "ob_event_key r \<notin> ob_event_key ` set (gateway_outbox db)"
      "ob_id r \<notin> ob_id ` set (gateway_outbox db)"
    by (auto simp: gw_enqueue_cases r_def)
  then show ?thesis
  proof cases
    case 1
    then show ?thesis using wf by simp
  next
    case 2
    note d = gw_wfD [OF wf]
    have r: "key_kind (ob_event_key r) \<noteq> ''track''" "key_kind (ob_event_key r) \<noteq> ''alert''" "json_Valid (ob_payload r)"
      "\<And>m. ob_payload r = JTrack m \<Longrightarrow> tr_Action m \<noteq> ''set_state''"
      using k pl by (auto simp: r_def)
    show ?thesis unfolding 2(1)
      by (rule gw_wfI)
        (use mon_wf_append [OF d(1) r(1,3,4)] ob_append_wf(1) [OF d(2) 2(3)] ob_append_wf(2) [OF d(3) 2(2)]
          alert_wf_append [OF d(5) r(2)] d(4,6-8) in simp_all)
  qed
qed

section \<open>The operations keep it: lookups, users, products, force checks\<close>

lemma CreateLookup_wf: "gw_wf n db \<Longrightarrow> canonical url \<Longrightarrow> gw_wf n (fst (CreateLookup e i url db))"
proof (cases "CreateLookup e i url db")
  case (Pair db' res)
  assume wf: "gw_wf n db" and c: "canonical url"
  show ?thesis
  proof (cases "db' = db")
    case False
    define task where "task = \<lparr>lt_TaskID = ge_uuid e 0, lt_LookupID = i, lt_URL = url, lt_Platform = ''wb''\<rparr>"
    define row where "row = \<lparr>lk_id = i, lk_url = url, lk_status = LookupPending, lk_name = None, lk_price = None,
                      lk_error = None, lk_created_at = ge_now e, lk_expires_at = ge_now e + 10 * minute\<rparr>"
    from False obtain ob where db': "db' = db\<lparr>lookup_requests := lookup_requests db @ [row], gateway_outbox := ob\<rparr>"
      and enq: "gw_enqueue (ge_uuid e 1) (ge_now e) (''lookup:'' @ lt_TaskID task) QueueLookupTasks (JLookup task) (gateway_outbox db) = Some ob"
      and new: "\<not> exists_where (\<lambda>r. lk_id r = i) (lookup_requests db)"
      using Pair unfolding CreateLookup_def Let_def row_def task_def
      by (auto split: if_splits option.splits)
    have "gw_wf n (db\<lparr>gateway_outbox := ob\<rparr>)"
      by (rule gw_wf_enqueue [OF wf enq]) simp_all
    moreover have "lookup_wf (lookup_requests db @ [row])"
      using gw_wfD(8) [OF wf] new c by (auto simp: row_def lookup_wf_def exists_where_iff)
    ultimately show ?thesis by (simp add: Pair db' gw_wf_def)
  qed (simp add: Pair wf)
qed

lemma lookup_wf_filter: "lookup_wf ls \<Longrightarrow> lookup_wf (delete_where P ls)"
  by (auto simp: lookup_wf_def delete_where_def distinct_map_filter)

lemma lookup_wf_update:
  "lookup_wf ls \<Longrightarrow> (\<And>l. lk_id (f l) = lk_id l \<and> lk_url (f l) = lk_url l) \<Longrightarrow> lookup_wf (update_where P f ls)"
  by (auto simp: lookup_wf_def map_update_where set_update_where)

lemma DeleteExpiredLookups_wf: "gw_wf n db \<Longrightarrow> gw_wf n (fst (DeleteExpiredLookups e db))"
  by (auto simp: DeleteExpiredLookups_def gw_wf_def lookup_wf_filter)

lemma DeleteOldPriceHistory_wf: "gw_wf n db \<Longrightarrow> gw_wf n (fst (DeleteOldPriceHistory e d db))"
  by (auto simp: DeleteOldPriceHistory_def Let_def gw_wf_def history_wf_def delete_where_def distinct_map_filter)

lemma UpsertUser_wf: "gw_wf n db \<Longrightarrow> gw_wf n (fst (UpsertUser e chat db))"
  by (auto simp: UpsertUser_def gw_wf_def subs_wf_def force_wf_def exists_where_iff dest: find_NoneD split: option.split)

lemma EnsureProduct_wf:
  assumes wf: "gw_wf n db" and c: "canonical url" "plat = ''wb''" and n: "0 \<le> n"
  shows "gw_wf n (fst (EnsureProduct e i name url plat db))"
proof (cases "find (\<lambda>p. pd_url p = url) (products db)")
  case (Some p)
  have "mon_wf n (update_where (\<lambda>x. pd_url x = url) (\<lambda>x. x\<lparr>pd_name := name\<rparr>) (products db)) (subscriptions db) (gateway_outbox db)"
    by (rule mon_wf_products [OF gw_wfD(1) [OF wf]]) (simp add: same_identity_def)
  moreover have "pd_id ` set (update_where (\<lambda>x. pd_url x = url) (\<lambda>x. x\<lparr>pd_name := name\<rparr>) (products db)) = pd_id ` set (products db)"
    using map_update_where [of "products db" "\<lambda>x. pd_url x = url" pd_id "\<lambda>x. x\<lparr>pd_name := name\<rparr>"] by (metis (no_types, lifting) product.select_convs(1) product.surjective product.update_convs(2) set_map)
  ultimately show ?thesis using wf Some by (simp add: EnsureProduct_def gw_wf_def subs_wf_def force_wf_def)
next
  case None
  show ?thesis
  proof (cases "ge_flt e 0 \<or> exists_where (\<lambda>p. pd_id p = i) (products db)")
    case True
    then show ?thesis using wf None by (auto simp: EnsureProduct_def)
  next
    case False
    define p where "p = \<lparr>pd_id = i, pd_name = name, pd_url = url, pd_platform = plat, pd_monitor_version = 0, pd_latest_result_at = None\<rparr>"
    note d = gw_wfD [OF wf]
    have fresh: "pd_id p \<notin> pd_id ` set (products db)" "pd_url p \<notin> pd_url ` set (products db)"
      using False None find_NoneD [OF None] by (auto simp: p_def exists_where_iff)
    moreover have "sb_product_id s \<noteq> pd_id p" if "s \<in> set (subscriptions db)" for s
      using d(4) fresh(1) that by (metis subs_wf_def)
    then have "\<not> monitored (pd_id p) (subscriptions db)"
      by (auto simp: monitored_def exists_where_iff)
    ultimately have "mon_wf n (products db @ [p]) (subscriptions db) (gateway_outbox db)"
      using c n by (intro mon_wf_new_product [OF d(1)]) (simp_all add: p_def)
    then show ?thesis using wf False None
      by (auto simp: EnsureProduct_def p_def gw_wf_def subs_wf_def force_wf_def)
  qed
qed

lemma QueueForce_wf: "gw_wf n db \<Longrightarrow> gw_wf n (fst (QueueForce S e i u chat db))"
proof (cases "QueueForce S e i u chat db")
  case (Pair db' res)
  assume wf: "gw_wf n db"
  show ?thesis
  proof (cases "db' = db")
    case False
    define request where "request (p :: product) = \<lparr>tr_TaskID = ge_uuid e 0, tr_Action = ''force'', tr_Version = 0, tr_Active = False,
        tr_ProductID = pd_id p, tr_URL = pd_url p, tr_Platform = pd_platform p, tr_IntervalHours = 0, tr_ChatID = chat\<rparr>"
      for p :: product
    from False obtain sid r p us ob where
      r: "find (\<lambda>r. is_sub sid u r \<and> sb_active r) (subscriptions db) = Some r"
      and p: "find (\<lambda>p. pd_id p = sb_product_id r) (products db) = Some p"
      and us: "find (\<lambda>u. us_id u = sb_user_id r) (users db) = Some us" "us_chat_id us = chat"
      and new: "\<not> exists_where (\<lambda>f. fr_task_id f = ge_uuid e 0) (force_requests db)"
      and enq: "gw_enqueue (ge_uuid e 1) (ge_now e) (''force:'' @ ge_uuid e 0) QueueTrackRequests (JTrack (request p)) (gateway_outbox db) = Some ob"
      and db': "db' = db\<lparr>force_requests := force_requests db @ [\<lparr>fr_task_id = ge_uuid e 0,
          fr_product_id = pd_id p, fr_user_id = u, fr_chat_id = chat\<rparr>], gateway_outbox := ob\<rparr>"
      using Pair unfolding QueueForce_def Let_def request_def
      by (auto split: if_splits option.splits)
    have "gw_wf n (db\<lparr>gateway_outbox := ob\<rparr>)"
      by (rule gw_wf_enqueue [OF wf enq]) (simp_all add: request_def)
    moreover have "force_wf (users db) (products db) (force_requests db @ [\<lparr>fr_task_id = ge_uuid e 0,
          fr_product_id = pd_id p, fr_user_id = u, fr_chat_id = chat\<rparr>])"
    proof -
      have "us \<in> set (users db)" "us_id us = u" "p \<in> set (products db)"
        using find_SomeD [OF us(1)] find_SomeD [OF r] find_SomeD [OF p] by (auto simp: is_sub_def)
      then show ?thesis using gw_wfD(7) [OF wf] new us(2) by (auto simp: force_wf_def exists_where_iff)
    qed
    ultimately show ?thesis by (simp add: Pair db' gw_wf_def)
  qed (simp add: Pair wf)
qed

section \<open>Changes of subscriptions\<close>

definition sub_evolves :: "sub_row \<Rightarrow> sub_row \<Rightarrow> bool" where
  "sub_evolves s s' \<longleftrightarrow> sb_id s' = sb_id s \<and> sb_user_id s' = sb_user_id s \<and> sb_product_id s' = sb_product_id s
     \<and> sb_alert_version s \<le> sb_alert_version s' \<and> sb_alert_version s' \<le> sb_alert_version s + 1"

lemma sub_evolves_refl [simp]: "sub_evolves s s"
  by (simp add: sub_evolves_def)

abbreviation subs_evolve :: "sub_row list \<Rightarrow> sub_row list \<Rightarrow> bool" where
  "subs_evolve \<equiv> list_all2 sub_evolves"

lemma subs_evolve_refl [simp]: "subs_evolve t t"
  by (simp add: list.rel_refl)

lemma subs_evolve_update:
  assumes "\<And>s. s \<in> set t \<Longrightarrow> P s \<Longrightarrow> sub_evolves s (f s)"
  shows "subs_evolve t (update_where P f t)"
  using assms by (simp add: update_where_def list_all2_map2 list_all2_same)

lemma subs_evolve_keys:
  assumes "subs_evolve t t'"
  shows "map sb_id t' = map sb_id t" "map sb_user_id t' = map sb_user_id t" "map sb_product_id t' = map sb_product_id t"
    "map (\<lambda>s. (sb_user_id s, sb_product_id s)) t' = map (\<lambda>s. (sb_user_id s, sb_product_id s)) t"
  using assms by (induction rule: list_all2_induct) (auto simp: sub_evolves_def)

lemma subs_evolve_mem:
  assumes "subs_evolve t t'"
  shows "s' \<in> set t' \<Longrightarrow> \<exists>s \<in> set t. sub_evolves s s'" and "s \<in> set t \<Longrightarrow> \<exists>s' \<in> set t'. sub_evolves s s'"
  using assms by (induction rule: list_all2_induct) auto

lemma subs_wf_evolve:
  assumes "subs_wf us ps t" and e: "subs_evolve t t'"
  shows "subs_wf us ps t'"
  using assms(1) subs_evolve_mem(1) [OF e]
  by (fastforce simp: subs_wf_def subs_evolve_keys [OF e] sub_evolves_def)

lemma alert_wf_evolve:
  assumes a: "alert_wf n t ob" and e: "subs_evolve t t'"
  shows "alert_wf (n + 1) t' ob"
  unfolding alert_wf_def
proof (intro conjI ballI impI)
  fix s'
  assume "s' \<in> set t'"
  then obtain s where "s \<in> set t" "sub_evolves s s'" using subs_evolve_mem(1) [OF e] by blast
  then show "0 \<le> sb_alert_version s'" "sb_alert_version s' \<le> n + 1"
    using a by (fastforce simp: alert_wf_def sub_evolves_def)+
next
  fix r
  assume "r \<in> set ob" "key_kind (ob_event_key r) = ''alert''"
  then obtain s v where s: "s \<in> set t" "ob_event_key r = alert_key (sb_id s) v" "v \<le> sb_alert_version s"
    using a by (auto simp: alert_wf_def)
  then obtain s' where "s' \<in> set t'" "sub_evolves s s'" using subs_evolve_mem(2) [OF e] by blast
  with s show "\<exists>s \<in> set t'. \<exists>v. ob_event_key r = alert_key (sb_id s) v \<and> v \<le> sb_alert_version s"
    by (intro bexI [of _ s'] exI [of _ v]) (auto simp: sub_evolves_def)
qed

lemma monitored_update:
  assumes "\<And>s. s \<in> set t \<Longrightarrow> P s \<Longrightarrow> sb_product_id s = pid \<and> sb_product_id (f s) = pid" and "i \<noteq> pid"
  shows "monitored i (update_where P f t) = monitored i t"
proof -
  have "(sb_product_id (if P s then f s else s) = i \<and> sb_active (if P s then f s else s) \<and> \<not> sb_paused (if P s then f s else s))
      = (sb_product_id s = i \<and> sb_active s \<and> \<not> sb_paused s)" if "s \<in> set t" for s
    using assms(1) [OF that] assms(2) by auto
  then show ?thesis
    unfolding monitored_def exists_where_def update_where_def list_ex_iff set_map
    by (auto simp only: bex_simps(7) cong: bex_cong)
qed

lemma gw_bump:
  assumes wf: "gw_wf n db" and p: "p \<in> set (products db)" and v: "pd_monitor_version p < n" "n < 2 ^ 63"
    and t: "subs_wf (users db) (products db) t" "alert_wf n t (gateway_outbox db)"
    and others: "\<And>i. i \<noteq> pd_id p \<Longrightarrow> monitored i t = monitored i (subscriptions db)"
    and b: "bump e k u (pd_id p) (pd_monitor_version p) (pd_url p) (pd_platform p) (db\<lparr>subscriptions := t\<rparr>) = Some db'"
  shows "gw_wf n db'"
    and "products db' = put_version (pd_id p) (incr64 (pd_monitor_version p)) (products db)"
    and "subscriptions db' = t"
proof -
  obtain ob m where enq: "gw_enqueue (ge_uuid e (u + 1)) (ge_now e) (track_key (pd_id p) (incr64 (pd_monitor_version p)))
      QueueTrackRequests (JTrack m) (gateway_outbox db) = Some ob"
    and m: "m = \<lparr>tr_TaskID = ge_uuid e u, tr_Action = ''set_state'', tr_Version = incr64 (pd_monitor_version p),
        tr_Active = monitored (pd_id p) t, tr_ProductID = pd_id p, tr_URL = pd_url p,
        tr_Platform = pd_platform p, tr_IntervalHours = 1, tr_ChatID = 0\<rparr>"
    and db': "db' = (set_version (pd_id p) (incr64 (pd_monitor_version p)) (db\<lparr>subscriptions := t\<rparr>))\<lparr>gateway_outbox := ob\<rparr>"
    using b by (elim bump_Some) simp
  note d = gw_wfD [OF wf]
  let ?v = "incr64 (pd_monitor_version p)"
  show prods: "products db' = put_version (pd_id p) ?v (products db)" and subs: "subscriptions db' = t"
    by (simp_all add: db' set_version_def put_version_def)
  have mon: "mon_wf n (put_version (pd_id p) ?v (products db)) t ob"
    and ob: "ob = gateway_outbox db @ [new_outbox_row (ge_uuid e (u + 1)) (ge_now e) (track_key (pd_id p) ?v) QueueTrackRequests (JTrack m)]"
    using mon_wf_bump [OF d(1) p v others enq] by (simp_all add: m)
  have keys: "track_key (pd_id p) ?v \<notin> ob_event_key ` set (gateway_outbox db)"
    "ge_uuid e (u + 1) \<notin> ob_id ` set (gateway_outbox db)"
    using enq ob by (auto simp: gw_enqueue_cases)
  have "alert_wf n t ob" unfolding ob by (rule alert_wf_append [OF t(2)]) simp
  moreover have "ob_wf ob" "ob_keyed ob" unfolding ob using ob_append_wf d(2,3) keys by simp_all
  moreover have "pd_id ` set (put_version (pd_id p) ?v (products db)) = pd_id ` set (products db)"
    using put_version_props(1) by (metis set_map)
  ultimately show "gw_wf n db'"
    using mon t d(4-8) prods subs
    by (intro gw_wfI) (simp_all add: db' set_version_def subs_wf_def force_wf_def)
qed

section \<open>mutateSubscription\<close>

lemma find_older:
  assumes "find (is_sub i u) (older v t) = Some r0"
  shows "\<exists>r \<in> set t. is_sub i u r \<and> sb_product_id r = sb_product_id r0"
proof -
  have "r0 \<in> set (older v t)" "is_sub i u r0" using find_SomeD [OF assms] by auto
  then show ?thesis by (auto simp: older_def List.map_filter_def is_sub_def)
qed

lemma mutate_Inl: "mutateSubscription S e seen i u op db = (db', Inl err) \<Longrightarrow> db' = db"
  by (auto simp: mutateSubscription_def Let_def split: if_splits option.splits sum.splits prod.splits)

lemma lockProduct_Inr: "lockProduct flt k pid db = Inr (v, url, plat) \<Longrightarrow>
    \<exists>p. find (\<lambda>p. pd_id p = pid) (products db) = Some p \<and> v = pd_monitor_version p \<and> url = pd_url p \<and> plat = pd_platform p"
  by (auto simp: lockProduct_def split: if_splits option.splits)

lemma mutate_Inr:
  assumes "mutateSubscription S e seen raw u op db = (db', Inr x)"
  obtains i r0 r where "pg_uuid S raw = Some i" "find (is_sub i u) seen = Some r0"
    "find (is_sub i u) (subscriptions db) = Some r" "op \<noteq> OpDelete \<Longrightarrow> sb_active r"
    "op = OpDelete \<and> db' = db \<and> (\<exists>y. find (\<lambda>y. sb_id y = i) (subscriptions db) = Some y \<and> \<not> sb_active y)
     \<or> (\<exists>p t. find (\<lambda>p. pd_id p = sb_product_id r0) (products db) = Some p
          \<and> mutate_rows S op i u (subscriptions db) = Some t
          \<and> (op = OpDelete \<longrightarrow> (\<exists>y. find (\<lambda>y. sb_id y = i) (subscriptions db) = Some y \<and> sb_user_id y = u \<and> sb_active y))
          \<and> bump e 6 0 (sb_product_id r0) (pd_monitor_version p) (pd_url p) (pd_platform p) (db\<lparr>subscriptions := t\<rparr>) = Some db')"
proof -
  obtain i r0 r where a: "pg_uuid S raw = Some i" "find (is_sub i u) seen = Some r0"
    "find (is_sub i u) (subscriptions db) = Some r"
    using assms by (auto simp: mutateSubscription_def Let_def split: if_splits option.splits sum.splits prod.splits)
  obtain v url plat where l: "lockProduct (ge_flt e) 2 (sb_product_id r0) db = Inr (v, url, plat)"
    using assms a by (auto simp: mutateSubscription_def Let_def split: if_splits option.splits sum.splits prod.splits)
  from lockProduct_Inr [OF l] obtain p where
    p: "find (\<lambda>p. pd_id p = sb_product_id r0) (products db) = Some p" "v = pd_monitor_version p" "url = pd_url p" "plat = pd_platform p"
    by blast
  show ?thesis
    by (rule that [OF a])
      (use assms a l p in \<open>auto simp: mutateSubscription_def Let_def split: if_splits option.splits\<close>)
qed

lemma mutate_rows_evolve:
  assumes "mutate_rows S op i u t = Some t'" and d: "distinct (map sb_id t)"
    and r: "r \<in> set t" "sb_id r = i"
  shows "subs_evolve t t'" and "j \<noteq> sb_product_id r \<Longrightarrow> monitored j t' = monitored j t"
proof -
  have one: "s = r" if "s \<in> set t" "sb_id s = i" for s
    using distinct_key_eq [OF d that(1) r(1)] that(2) r(2) by simp
  have upd: "subs_evolve t (update_where P f t) \<and> (j \<noteq> sb_product_id r \<longrightarrow> monitored j (update_where P f t) = monitored j t)"
    if "\<And>s. P s \<Longrightarrow> sb_id s = i" "\<And>s. sub_evolves s (f s)" for P f
    using that one by (auto intro!: subs_evolve_update monitored_update [where pid = "sb_product_id r"] simp: sub_evolves_def)
  have "subs_evolve t t' \<and> (j \<noteq> sb_product_id r \<longrightarrow> monitored j t' = monitored j t)"
  proof (cases op)
    case OpPause
    have "t' = update_where (\<lambda>s. is_sub i u s \<and> sb_active s) (\<lambda>s. s\<lparr>sb_paused := True\<rparr>) t"
      using assms(1) by (simp add: mutate_rows_def OpPause)
    then show ?thesis by (simp only:) (rule upd, auto simp: is_sub_def sub_evolves_def)
  next
    case OpResume
    have "t' = update_where (\<lambda>s. is_sub i u s \<and> sb_active s) (\<lambda>s. s\<lparr>sb_paused := False\<rparr>) t"
      using assms(1) by (simp add: mutate_rows_def OpResume)
    then show ?thesis by (simp only:) (rule upd, auto simp: is_sub_def sub_evolves_def)
  next
    case (OpThresholds mn mx)
    let ?hit = "\<lambda>s. is_sub i u s \<and> (sb_min_price s \<noteq> Some mn \<or> sb_max_price s \<noteq> Some mx)"
    from assms(1) consider "t' = t" | a b where "t' = update_where ?hit (\<lambda>s. s\<lparr>sb_min_price := Some a, sb_max_price := Some b,
                    sb_alert_state := [], sb_alert_version := sb_alert_version s + 1\<rparr>) t"
      by (auto simp: mutate_rows_def OpThresholds Let_def split: if_splits option.splits)
    then show ?thesis
    proof cases
      case 2
      then show ?thesis by (simp only:) (rule upd, auto simp: is_sub_def sub_evolves_def)
    qed simp
  next
    case OpDelete
    have "t' = update_where (\<lambda>s. sb_id s = i) (\<lambda>s. s\<lparr>sb_active := False\<rparr>) t"
      using assms(1) by (simp add: mutate_rows_def OpDelete)
    then show ?thesis by (simp only:) (rule upd, auto simp: sub_evolves_def)
  qed
  then show "subs_evolve t t'" "j \<noteq> sb_product_id r \<Longrightarrow> monitored j t' = monitored j t" by auto
qed

lemma mutate_wf:
  assumes wf: "gw_wf n db" and n: "n < 2 ^ 63 - 1"
  shows "gw_wf (n + 1) (fst (mutateSubscription S e (older v (subscriptions db)) raw u op db))"
proof (cases "mutateSubscription S e (older v (subscriptions db)) raw u op db")
  case (Pair db' res)
  have wf1: "gw_wf (n + 1) db" using gw_wf_mono [OF wf] by simp
  show ?thesis
  proof (cases res)
    case (Inl err)
    then show ?thesis using Pair mutate_Inl wf1 by fastforce
  next
    case (Inr x)
    with Pair have "mutateSubscription S e (older v (subscriptions db)) raw u op db = (db', Inr x)" by simp
    then show ?thesis
    proof (rule mutate_Inr)
      fix i r0 r
      assume r0: "find (is_sub i u) (older v (subscriptions db)) = Some r0"
        and r: "find (is_sub i u) (subscriptions db) = Some r"
        and c: "op = OpDelete \<and> db' = db \<and> (\<exists>y. find (\<lambda>y. sb_id y = i) (subscriptions db) = Some y \<and> \<not> sb_active y)
          \<or> (\<exists>p t. find (\<lambda>p. pd_id p = sb_product_id r0) (products db) = Some p
          \<and> mutate_rows S op i u (subscriptions db) = Some t
          \<and> (op = OpDelete \<longrightarrow> (\<exists>y. find (\<lambda>y. sb_id y = i) (subscriptions db) = Some y \<and> sb_user_id y = u \<and> sb_active y))
          \<and> bump e 6 0 (sb_product_id r0) (pd_monitor_version p) (pd_url p) (pd_platform p) (db\<lparr>subscriptions := t\<rparr>) = Some db')"
      note d = gw_wfD [OF wf]
      have ids: "distinct (map sb_id (subscriptions db))" using d(4) by (simp add: subs_wf_def)
      have rr: "r \<in> set (subscriptions db)" "sb_id r = i" using find_SomeD [OF r] by (auto simp: is_sub_def)
      obtain r1 where r1: "r1 \<in> set (subscriptions db)" "sb_id r1 = i" "sb_product_id r1 = sb_product_id r0"
        using find_older [OF r0] by (auto simp: is_sub_def)
      then have prod: "sb_product_id r0 = sb_product_id r" using distinct_key_eq [OF ids r1(1) rr(1)] rr(2) by simp
      from c show ?thesis
      proof (elim disjE exE conjE)
        assume "db' = db"
        then show ?thesis using wf1 Pair by simp
      next
        fix p t
        assume p: "find (\<lambda>p. pd_id p = sb_product_id r0) (products db) = Some p"
          and t: "mutate_rows S op i u (subscriptions db) = Some t"
          and b: "bump e 6 0 (sb_product_id r0) (pd_monitor_version p) (pd_url p) (pd_platform p) (db\<lparr>subscriptions := t\<rparr>) = Some db'"
        have pp: "p \<in> set (products db)" "pd_id p = sb_product_id r0" using find_SomeD [OF p] by auto
        note ev = mutate_rows_evolve [OF t ids rr]
        have "pd_monitor_version p < n + 1" using d(1) pp(1) by (auto simp: mon_wf_def)
        then have "gw_wf (n + 1) db'"
          by (intro gw_bump(1) [OF wf1 pp(1) _ _ subs_wf_evolve [OF d(4) ev(1)] alert_wf_evolve [OF d(5) ev(1)] _ b [folded pp(2)]])
            (use n ev(2) pp(2) prod in auto)
        then show ?thesis by (simp add: Pair)
      qed
    qed
  qed
qed

section \<open>CreateSubscription and reconciliation\<close>

lemma upsert_sub_cases:
  assumes "upsert_sub S e u p mn mx db = Some (t, i, changed)"
  obtains (inserted) row where "find (\<lambda>r. sb_user_id r = u \<and> sb_product_id r = p) (subscriptions db) = None"
      "i \<notin> sb_id ` set (subscriptions db)" "u \<in> us_id ` set (users db)" "t = subscriptions db @ [row]"
      "sb_id row = i" "sb_user_id row = u" "sb_product_id row = p" "sb_active row" "\<not> sb_paused row"
      "sb_alert_version row = 0" "sb_alert_state row = []" "changed"
      "numcol S mn \<noteq> None" "numcol S mx \<noteq> None" "sb_min_price row = numcol S mn" "sb_max_price row = numcol S mx"
  | (updated) r f where "find (\<lambda>r. sb_user_id r = u \<and> sb_product_id r = p) (subscriptions db) = Some r"
      "i = sb_id r" "t = update_where (\<lambda>x. sb_id x = sb_id r) f (subscriptions db)"
      "\<And>x. sub_evolves x (f x) \<and> sb_active (f x) \<and> \<not> sb_paused (f x)"
      "changed = (reset_needed mn mx r \<or> sb_paused r)" "numcol S mn \<noteq> None" "numcol S mx \<noteq> None"
      "\<And>x. sb_min_price (f x) = numcol S mn \<and> sb_max_price (f x) = numcol S mx
         \<and> sb_alert_state (f x) = (if reset_needed mn mx r then [] else sb_alert_state x)"
proof -
  obtain a b where ab: "numcol S mn = Some a" "numcol S mx = Some b"
    using assms by (auto simp: upsert_sub_def split: option.splits)
  show ?thesis
  proof (cases "find (\<lambda>r. sb_user_id r = u \<and> sb_product_id r = p) (subscriptions db)")
    case None
    with assms ab show ?thesis
      by (intro inserted [OF None, of "\<lparr>sb_id = i, sb_user_id = u, sb_product_id = p, sb_min_price = Some a,
            sb_max_price = Some b, sb_paused = False, sb_active = True, sb_alert_state = [],
            sb_alert_version = 0, sb_created_at = ge_now e\<rparr>"])
        (auto simp: upsert_sub_def exists_where_iff split: if_splits)
  next
    case (Some r)
    show ?thesis
      by (rule updated [OF Some, of "\<lambda>x. x\<lparr>sb_min_price := Some a, sb_max_price := Some b, sb_active := True, sb_paused := False,
              sb_alert_state := (if reset_needed mn mx r then [] else sb_alert_state x),
              sb_alert_version := sb_alert_version x + (if reset_needed mn mx r then 1 else 0)\<rparr>"])
        (use assms ab Some in \<open>auto simp: upsert_sub_def Let_def sub_evolves_def\<close>)
  qed
qed

lemma CreateSubscription_Inl: "CreateSubscription S e u p mn mx db = (db', Inl err) \<Longrightarrow> db' = db"
  by (auto simp: CreateSubscription_def split: if_splits option.splits sum.splits prod.splits)

lemma CreateSubscription_Inr:
  assumes "CreateSubscription S e u pid mn mx db = (db', Inr i)"
  obtains p t changed where "find (\<lambda>p. pd_id p = pid) (products db) = Some p"
    "upsert_sub S e u pid mn mx db = Some (t, i, changed)"
    "(if changed then bump e 4 0 pid (pd_monitor_version p) (pd_url p) (pd_platform p) (db\<lparr>subscriptions := t\<rparr>)
      else Some (db\<lparr>subscriptions := t\<rparr>)) = Some db'"
proof -
  obtain v url plat where l: "lockProduct (ge_flt e) 1 pid db = Inr (v, url, plat)"
    using assms by (auto simp: CreateSubscription_def split: if_splits sum.splits)
  from lockProduct_Inr [OF l] obtain p where
    p: "find (\<lambda>p. pd_id p = pid) (products db) = Some p" "v = pd_monitor_version p" "url = pd_url p" "plat = pd_platform p"
    by blast
  obtain t changed where up: "upsert_sub S e u pid mn mx db = Some (t, i, changed)"
    using assms l by (auto simp: CreateSubscription_def split: if_splits option.splits)
  show ?thesis
    by (rule that [OF p(1) up]) (use assms l p up in \<open>auto simp: CreateSubscription_def split: if_splits option.splits\<close>)
qed

lemma subs_wf_append:
  assumes "subs_wf us ps t" and "sb_id s \<notin> sb_id ` set t" and "sb_user_id s \<in> us_id ` set us"
    and "sb_product_id s \<in> pd_id ` set ps"
    and "\<forall>r \<in> set t. \<not> (sb_user_id r = sb_user_id s \<and> sb_product_id r = sb_product_id s)"
  shows "subs_wf us ps (t @ [s])"
  using assms by (auto simp: subs_wf_def)

lemma upsert_sub_wf:
  assumes wf: "gw_wf n db" and n: "0 \<le> n"
    and p: "p \<in> set (products db)" and u: "upsert_sub S e us (pd_id p) mn mx db = Some (t, i, changed)"
  shows "subs_wf (users db) (products db) t" "alert_wf (n + 1) t (gateway_outbox db)"
    and "j \<noteq> pd_id p \<Longrightarrow> monitored j t = monitored j (subscriptions db)"
    and "\<not> changed \<Longrightarrow> monitored j t = monitored j (subscriptions db)"
proof -
  note d = gw_wfD [OF wf]
  have ids: "distinct (map sb_id (subscriptions db))" using d(4) by (simp add: subs_wf_def)
  have "subs_wf (users db) (products db) t \<and> alert_wf (n + 1) t (gateway_outbox db)
     \<and> (j \<noteq> pd_id p \<longrightarrow> monitored j t = monitored j (subscriptions db))
     \<and> (\<not> changed \<longrightarrow> monitored j t = monitored j (subscriptions db))"
    using u
  proof (cases rule: upsert_sub_cases)
    case (inserted row)
    have pair: "\<forall>r \<in> set (subscriptions db). \<not> (sb_user_id r = sb_user_id row \<and> sb_product_id r = sb_product_id row)"
      using find_NoneD [OF inserted(1)] inserted(6,7) by simp
    have "subs_wf (users db) (products db) t"
      unfolding inserted(4) using inserted p by (intro subs_wf_append [OF d(4) _ _ _ pair]) auto
    moreover have "alert_wf (n + 1) t (gateway_outbox db)"
      using alert_wf_mono [OF d(5), of "n + 1"] inserted(10) n
      unfolding alert_wf_def inserted(4) by auto
    moreover have "j \<noteq> pd_id p \<Longrightarrow> monitored j t = monitored j (subscriptions db)"
      using inserted(7) by (auto simp: inserted(4) monitored_def exists_where_def)
    ultimately show ?thesis using inserted(12) by blast
  next
    case (updated r f)
    have r: "r \<in> set (subscriptions db)" "sb_product_id r = pd_id p" using find_SomeD [OF updated(1)] by auto
    have one: "s = r" if "s \<in> set (subscriptions db)" "sb_id s = sb_id r" for s
      using distinct_key_eq [OF ids that(1) r(1) that(2)] .
    have ev: "subs_evolve (subscriptions db) t"
      unfolding updated(3) using updated(4) by (intro subs_evolve_update) blast
    have "monitored j t = monitored j (subscriptions db)" if "j \<noteq> pd_id p"
      unfolding updated(3) using one r(2) updated(4) that
      by (intro monitored_update [where pid = "pd_id p"]) (auto simp: sub_evolves_def)
    moreover have "monitored j t = monitored j (subscriptions db)" if "\<not> changed"
    proof -
      have act: "sb_active r" "\<not> sb_paused r" using that updated(5) by (auto simp: reset_needed_def)
      have "(sb_product_id (f s) = j \<and> sb_active (f s) \<and> \<not> sb_paused (f s)) = (sb_product_id s = j \<and> sb_active s \<and> \<not> sb_paused s)"
        if "s \<in> set (subscriptions db)" "sb_id s = sb_id r" for s
        using one [OF that] act updated(4) [of s] by (auto simp: sub_evolves_def)
      then show ?thesis unfolding monitored_def exists_where_def update_where_def updated(3) list_ex_iff set_map
        by (auto split: if_splits)
    qed
    ultimately show ?thesis using subs_wf_evolve [OF d(4) ev] alert_wf_evolve [OF d(5) ev] by blast
  qed
  then show "subs_wf (users db) (products db) t" "alert_wf (n + 1) t (gateway_outbox db)"
    "j \<noteq> pd_id p \<Longrightarrow> monitored j t = monitored j (subscriptions db)"
    "\<not> changed \<Longrightarrow> monitored j t = monitored j (subscriptions db)" by auto
qed

lemma CreateSubscription_wf:
  assumes wf: "gw_wf n db" and n: "0 \<le> n" "n < 2 ^ 63 - 1"
  shows "gw_wf (n + 1) (fst (CreateSubscription S e u pid mn mx db))"
proof (cases "CreateSubscription S e u pid mn mx db")
  case (Pair db' res)
  have wf1: "gw_wf (n + 1) db" using gw_wf_mono [OF wf] by simp
  show ?thesis
  proof (cases res)
    case (Inl err)
    then show ?thesis using Pair CreateSubscription_Inl wf1 by fastforce
  next
    case (Inr i)
    with Pair have "CreateSubscription S e u pid mn mx db = (db', Inr i)" by simp
    then show ?thesis
    proof (rule CreateSubscription_Inr)
      fix p t changed
      assume p: "find (\<lambda>p. pd_id p = pid) (products db) = Some p"
        and up: "upsert_sub S e u pid mn mx db = Some (t, i, changed)"
        and b: "(if changed then bump e 4 0 pid (pd_monitor_version p) (pd_url p) (pd_platform p) (db\<lparr>subscriptions := t\<rparr>)
          else Some (db\<lparr>subscriptions := t\<rparr>)) = Some db'"
      have pp: "p \<in> set (products db)" "pd_id p = pid" using find_SomeD [OF p] by auto
      note u = upsert_sub_wf [OF wf n(1) pp(1) up [folded pp(2)]]
      show ?thesis
      proof (cases changed)
        case True
        have "pd_monitor_version p < n + 1" using gw_wfD(1) [OF wf] pp(1) by (auto simp: mon_wf_def)
        then have "gw_wf (n + 1) db'"
          using b True pp(2) n u(3)
          by (intro gw_bump(1) [OF wf1 pp(1) _ _ u(1,2), of e 4 0]) auto
        then show ?thesis by (simp add: Pair)
      next
        case False
        then have "db' = db\<lparr>subscriptions := t\<rparr>" using b by simp
        moreover have "mon_wf (n + 1) (products db) t (gateway_outbox db)"
          by (rule mon_wf_subs [OF gw_wfD(1) [OF wf1]]) (rule u(4) [OF False])
        ultimately show ?thesis using wf1 u(1,2) by (simp add: Pair gw_wf_def)
      qed
    qed
  qed
qed

lemma reconcile_loop_wf:
  assumes "gw_wf n db" and "n < 2 ^ 63" and "reconcile_loop e k ps db = Some db'"
    and "distinct (map pd_id ps)" and "\<forall>p \<in> set ps. p \<in> set (products db) \<and> pd_monitor_version p < n"
  shows "gw_wf n db'"
  using assms
proof (induction ps arbitrary: k db)
  case (Cons p ps)
  from Cons.prems(3) obtain db1 where
    b: "bump e (2 + 3 * k) (2 * k) (pd_id p) (pd_monitor_version p) (pd_url p) (pd_platform p) (db\<lparr>subscriptions := subscriptions db\<rparr>) = Some db1"
    and rest: "reconcile_loop e (Suc k) ps db1 = Some db'"
    by (auto split: option.splits)
  have p: "p \<in> set (products db)" "pd_monitor_version p < n" using Cons.prems(5) by auto
  note g = gw_bump [OF Cons.prems(1) p(1,2) Cons.prems(2) gw_wfD(4,5) [OF Cons.prems(1)] refl b]
  have "q \<in> set (products db1)" if "q \<in> set ps" for q
  proof -
    have "q \<in> set (products db)" using Cons.prems(5) that by simp
    moreover have "pd_id q \<noteq> pd_id p" using Cons.prems(4) that by (metis distinct.simps(2) image_eqI list.map(2) set_map)
    ultimately have "q \<in> set (products db)" "pd_id q \<noteq> pd_id p" by auto
    then show ?thesis unfolding g(2) put_version_props(3) by (intro image_eqI [of _ _ q]) simp_all
  qed
  then show ?case using Cons.prems(4,5) by (intro Cons.IH [OF g(1) Cons.prems(2) rest]) auto
qed simp

lemma Reconcile_wf:
  assumes wf: "gw_wf n db" and n: "n < 2 ^ 63 - 1"
  shows "gw_wf (n + 1) (fst (ReconcileMonitoring e db))"
proof -
  have wf1: "gw_wf (n + 1) db" using gw_wf_mono [OF wf] by simp
  have "gw_wf (n + 1) db'" if "reconcile_loop e 0 (sort_key pd_id (products db)) db = Some db'" for db'
  proof (rule reconcile_loop_wf [OF wf1 _ that])
    show "n + 1 < 2 ^ 63" using n by simp
    show "distinct (map pd_id (sort_key pd_id (products db)))"
      using gw_wfD(1) [OF wf] by (simp add: mon_wf_def distinct_map)
    show "\<forall>p \<in> set (sort_key pd_id (products db)). p \<in> set (products db) \<and> pd_monitor_version p < n + 1"
      using gw_wfD(1) [OF wf] by (auto simp: mon_wf_def)
  qed
  then show ?thesis using wf1 by (auto simp: ReconcileMonitoring_def Let_def split: option.splits)
qed

end
