(* ===== verification/GatewayResults.thy ===== *)
theory GatewayResults
  imports GatewayLaws
begin

text \<open>
  \<open>ProcessPriceResult\<close>: its outcomes, the alert loop as one functional update, the rest of the
  invariant's preservation, redelivery, and the gateway's properties.
\<close>

section \<open>The outcomes of ProcessPriceResult\<close>

lemma ProcessPriceResult_Inl: "ProcessPriceResult S e m db = (db', Inl err) \<Longrightarrow> db' = db"
  by (auto simp: ProcessPriceResult_def process_lookup_def process_product_def Let_def
      split: if_splits option.splits)

definition mark_done :: "uuid \<Rightarrow> gw_db \<Rightarrow> gw_db" where
  "mark_done tid db = db\<lparr>processed_price_results := processed_price_results db @ [tid]\<rparr>"

lemma process_lookup_Inr:
  assumes "process_lookup S e m db = (db', Inr u)"
  obtains tid where "pg_uuid S (pr_TaskID m) = Some tid"
    "tid \<in> set (processed_price_results db) \<and> db' = db
     \<or> tid \<notin> set (processed_price_results db) \<and> (\<exists>lid f. pg_uuid S (pr_LookupID m) = Some lid
         \<and> (\<forall>l. lk_id (f l) = lk_id l \<and> lk_url (f l) = lk_url l)
         \<and> (pr_Success m \<longrightarrow> (\<exists>price. numcol S (pr_Price m) = Some price \<and> (\<forall>l. lk_status (f l) = LookupDone
              \<and> lk_name (f l) = Some (pr_Name m) \<and> lk_price (f l) = Some price)))
         \<and> (\<not> pr_Success m \<longrightarrow> (\<forall>l. lk_status (f l) = LookupFailed \<and> lk_error (f l) = Some (pr_Error m)))
         \<and> db' = mark_done tid (db\<lparr>lookup_requests := update_where (\<lambda>r. lk_id r = lid) f (lookup_requests db)\<rparr>))"
proof -
  obtain tid where tid: "pg_uuid S (pr_TaskID m) = Some tid"
    using assms by (auto simp: process_lookup_def split: if_splits option.splits)
  show ?thesis
  proof (cases "tid \<in> set (processed_price_results db)")
    case True
    with assms tid have "db' = db" by (auto simp: process_lookup_def split: if_splits)
    with True tid that show ?thesis by blast
  next
    case False
    with assms tid obtain lid where lid: "pg_uuid S (pr_LookupID m) = Some lid"
      by (auto simp: process_lookup_def split: if_splits option.splits)
    show ?thesis
    proof (cases "pr_Success m")
      case s: True
      with assms tid lid False obtain price where price: "numcol S (pr_Price m) = Some price"
        by (auto simp: process_lookup_def Let_def split: if_splits option.splits)
      define f where "f l = l\<lparr>lk_status := LookupDone, lk_name := Some (pr_Name m), lk_price := Some price,
          lk_expires_at := ge_now e + hour\<rparr>" for l :: lookup_row
      have "db' = mark_done tid (db\<lparr>lookup_requests := update_where (\<lambda>r. lk_id r = lid) f (lookup_requests db)\<rparr>)"
        using assms tid lid False s price
        by (auto simp: process_lookup_def Let_def mark_done_def f_def [abs_def] split: if_splits)
      then show ?thesis using tid False lid s price
        by (intro that [OF tid] disjI2 conjI exI [of _ lid] exI [of _ f]) (auto simp: f_def)
    next
      case s: False
      define f where "f l = l\<lparr>lk_status := LookupFailed, lk_error := Some (pr_Error m)\<rparr>" for l :: lookup_row
      have "db' = mark_done tid (db\<lparr>lookup_requests := update_where (\<lambda>r. lk_id r = lid) f (lookup_requests db)\<rparr>)"
        using assms tid lid False s
        by (auto simp: process_lookup_def Let_def mark_done_def f_def [abs_def] split: if_splits)
      then show ?thesis using tid False lid s
        by (intro that [OF tid] disjI2 conjI exI [of _ lid] exI [of _ f]) (auto simp: f_def)
    qed
  qed
qed

definition force_of :: "uuid \<Rightarrow> gw_db \<Rightarrow> force_row option" where
  "force_of tid db = find (\<lambda>f. fr_task_id f = tid) (force_requests db)"

lemma process_product_Inr:
  assumes "process_product S e m db = (db', Inr u)"
  obtains tid pid p where "pg_uuid S (pr_TaskID m) = Some tid" "pg_uuid S (pr_ProductID m) = Some pid"
    "find (\<lambda>p. pd_id p = pid) (products db) = Some p"
    "tid \<in> set (processed_price_results db) \<and> db' = db
     \<or> tid \<notin> set (processed_price_results db) \<and> force_of tid db = None \<and> pr_Force m \<and> db' = mark_done tid db
     \<or> tid \<notin> set (processed_price_results db) \<and> (force_of tid db = None \<longrightarrow> \<not> pr_Force m)
       \<and> (\<forall>f. force_of tid db = Some f \<longrightarrow> fr_product_id f = pr_ProductID m)
       \<and> (pr_Success m \<longrightarrow> pr_ScrapedAt m \<noteq> 0)
       \<and> record_result S e m tid p (map_option fr_chat_id (force_of tid db)) db = Some db'"
proof -
  obtain pid p tid where a: "pg_uuid S (pr_ProductID m) = Some pid" "find (\<lambda>p. pd_id p = pid) (products db) = Some p"
    "pg_uuid S (pr_TaskID m) = Some tid"
    using assms by (auto simp: process_product_def split: if_splits option.splits)
  show ?thesis
    by (rule that [OF a(3,1,2)])
      (use assms a in \<open>auto simp: process_product_def Let_def mark_done_def force_of_def split: if_splits option.splits\<close>)
qed

definition stale :: "PriceResult \<Rightarrow> product \<Rightarrow> bool" where
  "stale m p \<longleftrightarrow> pr_Success m \<and> (case pd_latest_result_at p of None \<Rightarrow> False | Some latest \<Rightarrow> pr_ScrapedAt m < latest)"

text \<open>The tables after the history row and the product's time of its latest result are written.\<close>

definition recorded :: "services \<Rightarrow> genv \<Rightarrow> PriceResult \<Rightarrow> uuid \<Rightarrow> product \<Rightarrow> float64 \<Rightarrow> gw_db \<Rightarrow> gw_db" where
  "recorded S e m tid p price db =
     (let marked = mark_done tid db;
          saved = marked\<lparr>price_history := price_history db @ [\<lparr>ph_id = ge_uuid e 0, ph_product_id = pd_id p,
                ph_price = price, ph_currency = pr_Currency m, ph_scraped_at = tscol S (pr_ScrapedAt m),
                ph_task_id = tid\<rparr>]\<rparr>
      in if \<not> pr_Success m then marked
         else if stale m p then saved
         else saved\<lparr>products := update_where (\<lambda>x. pd_id x = pd_id p)
                (\<lambda>x. x\<lparr>pd_latest_result_at := Some (tscol S (pr_ScrapedAt m))\<rparr>) (products db)\<rparr>)"

lemma record_result_Some:
  assumes "record_result S e m tid p chat db = Some db'"
  obtains price where "pr_Success m \<Longrightarrow> numcol S (pr_Price m) = Some price
      \<and> (\<forall>r \<in> set (price_history db). ph_task_id r \<noteq> tid \<and> ph_id r \<noteq> ge_uuid e 0)"
    "case chat of
       Some c \<Rightarrow> (\<exists>ob. gw_enqueue (ge_uuid e 1) (ge_now e) (''force-result:'' @ pr_TaskID m) QueueNotifyTasks
           (JNotify \<lparr>nt_TaskID = pr_TaskID m, nt_Channel = ''telegram'', nt_Target = show_int c,
              nt_Text = forceText (pd_name p) (pd_url p) m, nt_Direction = [], nt_NotBefore = 0\<rparr>)
           (gateway_outbox db) = Some ob \<and> db' = (recorded S e m tid p price db)\<lparr>gateway_outbox := ob\<rparr>)
     | None \<Rightarrow> if \<not> pr_Success m \<or> stale m p then db' = recorded S e m tid p price db
         else alert_loop e 0 (pd_name p) (pd_url p) m
           (alert_rows (pd_id p) (recorded S e m tid p price db)) (recorded S e m tid p price db) = Some db'"
proof (cases "pr_Success m")
  case True
  then obtain price where price: "numcol S (pr_Price m) = Some price"
    and no: "\<not> exists_where (\<lambda>r. ph_task_id r = tid \<or> ph_id r = ge_uuid e 0) (price_history db)"
    using assms by (auto simp: record_result_def Let_def split: if_splits option.splits)
  show ?thesis
    by (rule that [of price])
      (use assms True price no in \<open>auto simp: record_result_def Let_def recorded_def mark_done_def stale_def exists_where_iff
         split: if_splits option.splits\<close>)
next
  case False
  show ?thesis
    by (rule that [of f_zero])
      (use assms False in \<open>auto simp: record_result_def Let_def recorded_def mark_done_def stale_def split: if_splits option.splits\<close>)
qed

lemma recorded_simps [simp]:
  "subscriptions (recorded S e m tid p price db) = subscriptions db"
  "users (recorded S e m tid p price db) = users db"
  "gateway_outbox (recorded S e m tid p price db) = gateway_outbox db"
  "force_requests (recorded S e m tid p price db) = force_requests db"
  "lookup_requests (recorded S e m tid p price db) = lookup_requests db"
  "processed_price_results (recorded S e m tid p price db) = processed_price_results db @ [tid]"
  "alert_rows i (recorded S e m tid p price db) = alert_rows i db"
  by (simp_all add: recorded_def mark_done_def alert_rows_def Let_def)

section \<open>The alert loop\<close>

definition direction :: "PriceResult \<Rightarrow> alert_row \<Rightarrow> string" where
  "direction m a = classify (pr_Price m) (al_min a) (al_max a)"

definition fires :: "PriceResult \<Rightarrow> alert_row \<Rightarrow> bool" where
  "fires m a \<longleftrightarrow> direction m a \<noteq> al_state a"

definition alert_task :: "genv \<Rightarrow> string \<Rightarrow> string \<Rightarrow> PriceResult \<Rightarrow> nat \<Rightarrow> alert_row \<Rightarrow> NotifyTask" where
  "alert_task e name url m k a =
     \<lparr>nt_TaskID = ge_uuid e (2 + 2 * k), nt_Channel = ''telegram'', nt_Target = show_int (al_chat a),
      nt_Text = alertText name url (pr_Price m) (pr_Currency m) (direction m a) (al_min a) (al_max a),
      nt_Direction = direction m a, nt_NotBefore = 0\<rparr>"

definition alert_event :: "genv \<Rightarrow> string \<Rightarrow> string \<Rightarrow> PriceResult \<Rightarrow> nat \<Rightarrow> alert_row \<Rightarrow> outbox_row" where
  "alert_event e name url m k a = new_outbox_row (ge_uuid e (3 + 2 * k)) (ge_now e)
     (alert_key (al_id a) (incr64 (al_version a))) QueueNotifyTasks (JNotify (alert_task e name url m k a))"

fun alert_events :: "genv \<Rightarrow> nat \<Rightarrow> string \<Rightarrow> string \<Rightarrow> PriceResult \<Rightarrow> alert_row list \<Rightarrow> outbox" where
  "alert_events e k name url m [] = []"
| "alert_events e k name url m (a # as) =
     (if fires m a \<and> direction m a \<noteq> [] then [alert_event e name url m k a] else [])
     @ alert_events e (Suc k) name url m as"

definition alerted :: "PriceResult \<Rightarrow> alert_row list \<Rightarrow> sub_row \<Rightarrow> sub_row" where
  "alerted m as s = (case find (\<lambda>a. al_id a = sb_id s \<and> fires m a) as of
       None \<Rightarrow> s
     | Some a \<Rightarrow> s\<lparr>sb_alert_state := direction m a, sb_alert_version := incr64 (al_version a)\<rparr>)"

definition unalerted :: "alert_row list \<Rightarrow> outbox \<Rightarrow> bool" where
  "unalerted as ob \<longleftrightarrow> (\<forall>a \<in> set as. \<forall>v > al_version a. alert_key (al_id a) v \<notin> ob_event_key ` set ob)"

lemma alert_event_simps [simp]:
  "ob_event_key (alert_event e name url m k a) = alert_key (al_id a) (incr64 (al_version a))"
  "ob_payload (alert_event e name url m k a) = JNotify (alert_task e name url m k a)"
  "ob_queue (alert_event e name url m k a) = QueueNotifyTasks"
  "ob_published_at (alert_event e name url m k a) = None"
  by (simp_all add: alert_event_def new_outbox_row_def)

lemma alert_events_mem: "r \<in> set (alert_events e k name url m as) \<Longrightarrow>
    \<exists>a \<in> set as. \<exists>j. fires m a \<and> direction m a \<noteq> [] \<and> r = alert_event e name url m j a"
  by (induction as arbitrary: k) (auto split: if_splits)

lemma alert_events_complete: "a \<in> set as \<Longrightarrow> fires m a \<Longrightarrow> direction m a \<noteq> [] \<Longrightarrow>
    \<exists>j. alert_event e name url m j a \<in> set (alert_events e k name url m as)"
  by (induction as arbitrary: k) auto

lemma alerted_Cons:
  assumes "al_id a \<notin> al_id ` set as"
  shows "alerted m (a # as) s = alerted m as (if al_id a = sb_id s \<and> fires m a
    then s\<lparr>sb_alert_state := direction m a, sb_alert_version := incr64 (al_version a)\<rparr> else s)"
proof (cases "al_id a = sb_id s \<and> fires m a")
  case True
  have "find (\<lambda>b. al_id b = sb_id s \<and> fires m b) as = None"
    using assms True by (auto simp: find_None_iff image_iff)
  with True show ?thesis by (simp add: alerted_def)
qed (auto simp: alerted_def)

lemma direction_unfold: "classify (pr_Price m) (al_min a) (al_max a) = direction m a"
  by (simp add: direction_def)

lemma alert_loop_spec:
  assumes "alert_loop e k name url m as db = Some db'"
    and "distinct (map al_id as)" and "unalerted as (gateway_outbox db)"
    and "\<forall>a \<in> set as. 0 \<le> al_version a \<and> al_version a < 2 ^ 63 - 1"
  shows "db' = db\<lparr>subscriptions := map (alerted m as) (subscriptions db),
      gateway_outbox := gateway_outbox db @ alert_events e k name url m as\<rparr>"
    and "ob_wf (gateway_outbox db) \<Longrightarrow> ob_wf (gateway_outbox db')"
    and "ob_keyed (gateway_outbox db) \<Longrightarrow> ob_keyed (gateway_outbox db')"
proof -
  have "db' = db\<lparr>subscriptions := map (alerted m as) (subscriptions db),
      gateway_outbox := gateway_outbox db @ alert_events e k name url m as\<rparr>
    \<and> (ob_wf (gateway_outbox db) \<longrightarrow> ob_wf (gateway_outbox db'))
    \<and> (ob_keyed (gateway_outbox db) \<longrightarrow> ob_keyed (gateway_outbox db'))"
    using assms
  proof (induction as arbitrary: k db)
    case Nil
    have "map (alerted m []) t = t" for t by (simp add: alerted_def map_idI)
    with Nil show ?case by simp
  next
    case (Cons a as)
    have new: "al_id a \<notin> al_id ` set as" and dist: "distinct (map al_id as)" using Cons.prems(2) by auto
    define upd where "upd = (\<lambda>s. s\<lparr>sb_alert_state := direction m a, sb_alert_version := incr64 (al_version a)\<rparr> :: sub_row)"
    define db1 where "db1 = db\<lparr>subscriptions := update_where (\<lambda>s. sb_id s = al_id a) upd (subscriptions db)\<rparr>"
    have map1: "map (alerted m (a # as)) (subscriptions db)
        = map (alerted m as) (if fires m a then subscriptions db1 else subscriptions db)"
      using alerted_Cons [OF new] by (auto simp: db1_def upd_def update_where_def)
    have un: "unalerted as (gateway_outbox db)" using Cons.prems(3) by (simp add: unalerted_def)
    have vs: "\<forall>a \<in> set as. 0 \<le> al_version a \<and> al_version a < 2 ^ 63 - 1" using Cons.prems(4) by simp
    consider (quiet) "\<not> fires m a" "alert_loop e (Suc k) name url m as db = Some db'"
      | (clear) "fires m a" "direction m a = []" "alert_loop e (Suc k) name url m as db1 = Some db'"
      | (alert) ob where "fires m a" "direction m a \<noteq> []"
        "gw_enqueue (ge_uuid e (3 + 2 * k)) (ge_now e) (alert_key (al_id a) (incr64 (al_version a))) QueueNotifyTasks
           (JNotify (alert_task e name url m k a)) (gateway_outbox db) = Some ob"
        "alert_loop e (Suc k) name url m as (db1\<lparr>gateway_outbox := ob\<rparr>) = Some db'"
      using Cons.prems(1)
      by (auto simp: Let_def direction_unfold fires_def db1_def upd_def alert_task_def split: if_splits option.splits)
    then show ?case
    proof cases
      case quiet
      from Cons.IH [OF quiet(2) dist un vs] show ?thesis using map1 quiet(1) by auto
    next
      case clear
      have "unalerted as (gateway_outbox db1)" using un by (simp add: db1_def)
      from Cons.IH [OF clear(3) dist this vs] show ?thesis using map1 clear(1,2) by (auto simp: db1_def)
    next
      case alert
      let ?r = "alert_event e name url m k a"
      have v: "incr64 (al_version a) = al_version a + 1" using Cons.prems(4) by (simp add: incr64_less)
      have fresh: "alert_key (al_id a) (incr64 (al_version a)) \<notin> ob_event_key ` set (gateway_outbox db)"
        using Cons.prems(3) v by (simp add: unalerted_def)
      then have ob: "ob = gateway_outbox db @ [?r]" and i: "ob_id ?r \<notin> ob_id ` set (gateway_outbox db)"
        using alert(3) by (auto simp: gw_enqueue_cases alert_event_def)
      have "alert_key (al_id b) w \<noteq> ob_event_key ?r" if "b \<in> set as" for b w
        using new that by (simp add: alert_key_inj) (metis image_eqI)
      then have "unalerted as (gateway_outbox (db1\<lparr>gateway_outbox := ob\<rparr>))"
        using un by (auto simp: ob unalerted_def image_iff)
      from Cons.IH [OF alert(4) dist this vs] show ?thesis
        using map1 alert(1,2) fresh i by (auto simp: db1_def ob intro: ob_append_wf)
    qed
  qed
  then show "db' = db\<lparr>subscriptions := map (alerted m as) (subscriptions db),
      gateway_outbox := gateway_outbox db @ alert_events e k name url m as\<rparr>"
    "ob_wf (gateway_outbox db) \<Longrightarrow> ob_wf (gateway_outbox db')"
    "ob_keyed (gateway_outbox db) \<Longrightarrow> ob_keyed (gateway_outbox db')" by auto
qed

section \<open>The rows the alert loop runs over\<close>

definition price_of :: "float64 option \<Rightarrow> float64" where
  "price_of q = (case q of None \<Rightarrow> f_zero | Some x \<Rightarrow> x)"

definition watching :: "uuid \<Rightarrow> sub_row \<Rightarrow> bool" where
  "watching pid s \<longleftrightarrow> sb_product_id s = pid \<and> sb_active s \<and> \<not> sb_paused s"

definition row_of :: "sub_row \<Rightarrow> user \<Rightarrow> alert_row" where
  "row_of s u = \<lparr>al_id = sb_id s, al_chat = us_chat_id u, al_min = price_of (sb_min_price s),
     al_max = price_of (sb_max_price s), al_state = sb_alert_state s, al_version = sb_alert_version s\<rparr>"

lemma map_filter_mem: "a \<in> set (List.map_filter f t) \<longleftrightarrow> (\<exists>s \<in> set t. f s = Some a)"
  by (induction t) (auto simp: map_filter_simps split: option.split)

lemma alert_rows_mem:
  assumes "subs_wf (users db) ps (subscriptions db)"
  shows "a \<in> set (alert_rows pid db) \<longleftrightarrow>
    (\<exists>s \<in> set (subscriptions db). \<exists>u \<in> set (users db). watching pid s \<and> us_id u = sb_user_id s \<and> a = row_of s u)"
proof -
  have d: "distinct (map us_id (users db))" using assms by (simp add: subs_wf_def)
  have "find (\<lambda>u. us_id u = i) (users db) = Some u \<longleftrightarrow> u \<in> set (users db) \<and> us_id u = i" for i u
    by (rule find_key_iff [OF d])
  then show ?thesis
    by (auto simp: alert_rows_def map_filter_mem watching_def row_of_def price_of_def)
qed

lemma alert_rows_distinct:
  assumes "subs_wf (users db) ps (subscriptions db)"
  shows "distinct (map al_id (alert_rows pid db))"
proof -
  have ids: "map al_id (List.map_filter (\<lambda>s. map_option (h s) (g s)) t) = map sb_id (filter (\<lambda>s. g s \<noteq> None) t)"
    if "\<And>s u. al_id (h s u) = sb_id s" for g :: "sub_row \<Rightarrow> user option" and h t
    using that by (induction t) (auto simp: map_filter_simps split: option.splits)
  have "distinct (map sb_id (filter (\<lambda>s. sb_product_id s = pid \<and> sb_active s \<and> \<not> sb_paused s) (subscriptions db)))"
    using assms by (intro distinct_map_filter) (simp add: subs_wf_def)
  then have "distinct (map sb_id (sort_key sb_id (filter (\<lambda>s. sb_product_id s = pid \<and> sb_active s \<and> \<not> sb_paused s) (subscriptions db))))"
    by (simp add: distinct_map)
  then show ?thesis
    unfolding alert_rows_def by (subst ids) (simp_all add: distinct_map_filter)
qed

text \<open>What a fired alert does to its subscription.\<close>

text \<open>
  The state a price should put a subscription in: below a positive lowest price, above a positive
  highest one, or neither. A threshold that is missing or not positive is none.
\<close>

definition threshold :: "float64 option \<Rightarrow> (float64 \<Rightarrow> bool) \<Rightarrow> bool" where
  "threshold q crossed \<longleftrightarrow> (case q of None \<Rightarrow> False | Some t \<Rightarrow> f_lt f_zero t \<and> crossed t)"

definition next_state :: "PriceResult \<Rightarrow> sub_row \<Rightarrow> string" where
  "next_state m s =
     (if threshold (sb_min_price s) (\<lambda>t. f_lt (pr_Price m) t) then ''down''
      else if threshold (sb_max_price s) (\<lambda>t. f_lt t (pr_Price m)) then ''up''
      else [])"

lemma next_state_classify: "next_state m s = classify (pr_Price m) (price_of (sb_min_price s)) (price_of (sb_max_price s))"
  by (auto simp: next_state_def threshold_def price_of_def classify_def split: option.split)

definition alert_sub :: "PriceResult \<Rightarrow> uuid \<Rightarrow> sub_row \<Rightarrow> sub_row" where
  "alert_sub m pid s =
     (if watching pid s \<and> next_state m s \<noteq> sb_alert_state s
      then s\<lparr>sb_alert_state := next_state m s, sb_alert_version := incr64 (sb_alert_version s)\<rparr> else s)"

lemma row_of_simps [simp]:
  "al_id (row_of s u) = sb_id s" "al_version (row_of s u) = sb_alert_version s"
  "al_state (row_of s u) = sb_alert_state s" "al_chat (row_of s u) = us_chat_id u"
  "al_min (row_of s u) = price_of (sb_min_price s)" "al_max (row_of s u) = price_of (sb_max_price s)"
  "direction m (row_of s u) = next_state m s"
  by (simp_all add: row_of_def direction_def next_state_classify)

lemma alerted_alert_sub:
  assumes wf: "subs_wf (users db) ps (subscriptions db)" and s: "s \<in> set (subscriptions db)"
  shows "alerted m (alert_rows pid db) s = alert_sub m pid s"
proof -
  have ids: "distinct (map sb_id (subscriptions db))" using wf by (simp add: subs_wf_def)
  note mem = alert_rows_mem [OF wf, of _ pid]
  show ?thesis
  proof (cases "find (\<lambda>a. al_id a = sb_id s \<and> fires m a) (alert_rows pid db)")
    case None
    have "\<not> (watching pid s \<and> next_state m s \<noteq> sb_alert_state s)"
    proof
      assume w: "watching pid s \<and> next_state m s \<noteq> sb_alert_state s"
      have "sb_user_id s \<in> us_id ` set (users db)" using wf s by (simp add: subs_wf_def)
      then obtain u where "u \<in> set (users db)" "us_id u = sb_user_id s" by (metis imageE)
      with w s have "row_of s u \<in> set (alert_rows pid db)" by (auto simp: mem)
      from find_NoneD [OF None this] w show False by (simp add: fires_def)
    qed
    with None show ?thesis unfolding alerted_def alert_sub_def by auto
  next
    case (Some a)
    then have a: "a \<in> set (alert_rows pid db)" "al_id a = sb_id s" "fires m a" using find_SomeD by fastforce+
    from a(1) obtain s' u where s': "s' \<in> set (subscriptions db)" "watching pid s'" "a = row_of s' u"
      by (auto simp: mem)
    with a(2) distinct_key_eq [OF ids s'(1) s] have "s' = s" by simp
    with s'(2,3) a(3) Some show ?thesis by (simp add: alerted_def alert_sub_def fires_def)
  qed
qed

lemma alert_sub_evolves: "0 \<le> sb_alert_version s \<Longrightarrow> sb_alert_version s < 2 ^ 63 - 1 \<Longrightarrow> sub_evolves s (alert_sub m pid s)"
  by (simp add: alert_sub_def sub_evolves_def incr64_less)

lemma monitored_map:
  assumes "\<And>s. sb_product_id (f s) = sb_product_id s \<and> sb_active (f s) = sb_active s \<and> sb_paused (f s) = sb_paused s"
  shows "monitored i (map f t) = monitored i t"
  using assms by (simp add: monitored_def exists_where_def list_ex_iff)

lemma unalerted_rows:
  assumes wf: "subs_wf (users db) ps (subscriptions db)" and a: "alert_wf n (subscriptions db) ob"
  shows "unalerted (alert_rows pid db) ob"
  unfolding unalerted_def
proof (intro ballI allI impI notI)
  fix a v
  assume a': "a \<in> set (alert_rows pid db)" and v: "al_version a < v" and "alert_key (al_id a) v \<in> ob_event_key ` set ob"
  then obtain r where r: "r \<in> set ob" "alert_key (al_id a) v = ob_event_key r" by (elim imageE) simp
  have "key_kind (ob_event_key r) = ''alert''" unfolding r(2) [symmetric] by simp
  then have "\<exists>s \<in> set (subscriptions db). \<exists>w. ob_event_key r = alert_key (sb_id s) w \<and> w \<le> sb_alert_version s"
    using a r(1) by (simp only: alert_wf_def)
  then obtain s w where s: "s \<in> set (subscriptions db)" "ob_event_key r = alert_key (sb_id s) w" "w \<le> sb_alert_version s"
    by blast
  from a' obtain s' u where s': "s' \<in> set (subscriptions db)" "a = row_of s' u" by (auto simp: alert_rows_mem [OF wf])
  have "alert_key (sb_id s) w = alert_key (sb_id s') v" using r(2) s(2) s'(2) by simp
  then have "sb_id s = sb_id s'" "w = v" by (simp_all add: alert_key_inj)
  have "distinct (map sb_id (subscriptions db))" using wf by (simp add: subs_wf_def)
  from distinct_key_eq [OF this s(1) s'(1) \<open>sb_id s = sb_id s'\<close>] have "s = s'" .
  with s(3) s'(2) v \<open>w = v\<close> show False by simp
qed

text \<open>The loop as one update, in a well-formed database.\<close>

lemma alert_loop_wf:
  assumes wf: "gw_wf n db" and n: "n < 2 ^ 63 - 1"
    and l: "alert_loop e 0 name url m (alert_rows pid db) db = Some db'"
  shows "db' = db\<lparr>subscriptions := map (alert_sub m pid) (subscriptions db),
      gateway_outbox := gateway_outbox db @ alert_events e 0 name url m (alert_rows pid db)\<rparr>"
    and "gw_wf (n + 1) db'"
proof -
  note d = gw_wfD [OF wf]
  let ?as = "alert_rows pid db"
  let ?ev = "alert_events e 0 name url m ?as"
  have vb: "0 \<le> sb_alert_version s" "sb_alert_version s < 2 ^ 63 - 1" if "s \<in> set (subscriptions db)" for s
    using d(5) that n by (fastforce simp: alert_wf_def)+
  have vs: "\<forall>a \<in> set ?as. 0 \<le> al_version a \<and> al_version a < 2 ^ 63 - 1"
    using vb by (auto simp: alert_rows_mem [OF d(4)])
  note spec = alert_loop_spec [OF l alert_rows_distinct [OF d(4)] unalerted_rows [OF d(4,5)] vs]
  have subs: "map (alerted m ?as) (subscriptions db) = map (alert_sub m pid) (subscriptions db)"
    using alerted_alert_sub [OF d(4)] by simp
  then show db': "db' = db\<lparr>subscriptions := map (alert_sub m pid) (subscriptions db),
      gateway_outbox := gateway_outbox db @ ?ev\<rparr>"
    using spec(1) by simp
  have ev: "subs_evolve (subscriptions db) (map (alert_sub m pid) (subscriptions db))"
    using vb alert_sub_evolves by (simp add: list_all2_map2 list_all2_same)
  have "mon_wf (n + 1) (products db) (map (alert_sub m pid) (subscriptions db)) (gateway_outbox db @ rs)"
    if "set rs \<subseteq> set ?ev" for rs
    using that
  proof (induction rs rule: rev_induct)
    case Nil
    have "mon_wf n (products db) (map (alert_sub m pid) (subscriptions db)) (gateway_outbox db)"
      by (rule mon_wf_subs [OF d(1)], rule monitored_map) (simp add: alert_sub_def)
    then show ?case using mon_wf_mono by fastforce
  next
    case (snoc r rs)
    then obtain a j where r: "r = alert_event e name url m j a" using alert_events_mem [of r e 0 name url m ?as] by auto
    have "mon_wf (n + 1) (products db) (map (alert_sub m pid) (subscriptions db)) ((gateway_outbox db @ rs) @ [r])"
      using snoc by (intro mon_wf_append) (auto simp: r)
    then show ?case by simp
  qed
  then have mon: "mon_wf (n + 1) (products db) (map (alert_sub m pid) (subscriptions db)) (gateway_outbox db @ ?ev)"
    by blast
  have "\<exists>s \<in> set (map (alert_sub m pid) (subscriptions db)). \<exists>v. ob_event_key r = alert_key (sb_id s) v \<and> v \<le> sb_alert_version s"
    if "r \<in> set ?ev" for r
  proof -
    from alert_events_mem [OF that] obtain a j where a: "a \<in> set ?as" "fires m a" "r = alert_event e name url m j a" by blast
    from a(1) obtain s u where s: "s \<in> set (subscriptions db)" "watching pid s" "a = row_of s u"
      by (auto simp: alert_rows_mem [OF d(4)])
    then have "alert_sub m pid s \<in> set (map (alert_sub m pid) (subscriptions db))" by simp
    moreover have "sb_id (alert_sub m pid s) = sb_id s" "sb_alert_version (alert_sub m pid s) = incr64 (sb_alert_version s)"
      using s a(2) by (simp_all add: alert_sub_def fires_def)
    ultimately show ?thesis using a(3) s(3)
      by (intro bexI [of _ "alert_sub m pid s"] exI [of _ "incr64 (sb_alert_version s)"]) simp_all
  qed
  moreover have "alert_wf (n + 1) (map (alert_sub m pid) (subscriptions db)) (gateway_outbox db)"
    by (rule alert_wf_evolve [OF d(5) ev])
  ultimately have al: "alert_wf (n + 1) (map (alert_sub m pid) (subscriptions db)) (gateway_outbox db @ ?ev)"
    unfolding alert_wf_def by auto
  show "gw_wf (n + 1) db'"
    using mon al subs_wf_evolve [OF d(4) ev] spec(2) [OF d(2)] spec(3) [OF d(3)] d(6-8)
    by (intro gw_wfI) (simp_all add: db')
qed

section \<open>ProcessPriceResult keeps the invariant\<close>

lemma mark_done_wf: "gw_wf n db \<Longrightarrow> tid \<notin> set (processed_price_results db) \<Longrightarrow> gw_wf n (mark_done tid db)"
  by (auto simp: gw_wf_def mark_done_def history_wf_def)

lemma latest_wf:
  assumes wf: "gw_wf n db"
  shows "gw_wf n (db\<lparr>products := update_where P (\<lambda>x. x\<lparr>pd_latest_result_at := l\<rparr>) (products db)\<rparr>)"
proof -
  have "mon_wf n (update_where P (\<lambda>x. x\<lparr>pd_latest_result_at := l\<rparr>) (products db)) (subscriptions db) (gateway_outbox db)"
    by (rule mon_wf_products [OF gw_wfD(1) [OF wf]]) (simp add: same_identity_def)
  moreover have "map pd_id (update_where P (\<lambda>x. x\<lparr>pd_latest_result_at := l\<rparr>) (products db)) = map pd_id (products db)"
    by (rule map_update_where) simp
  then have "pd_id ` set (update_where P (\<lambda>x. x\<lparr>pd_latest_result_at := l\<rparr>) (products db)) = pd_id ` set (products db)"
    by (metis set_map)
  ultimately show ?thesis using wf by (simp add: gw_wf_def subs_wf_def force_wf_def)
qed

lemma recorded_wf:
  assumes wf: "gw_wf n db" and new: "tid \<notin> set (processed_price_results db)"
    and h: "pr_Success m \<Longrightarrow> \<forall>r \<in> set (price_history db). ph_task_id r \<noteq> tid \<and> ph_id r \<noteq> ge_uuid e 0"
  shows "gw_wf n (recorded S e m tid p price db)"
proof (cases "pr_Success m")
  case False
  then show ?thesis using mark_done_wf [OF wf new] by (simp add: recorded_def)
next
  case True
  define saved where "saved = (mark_done tid db)\<lparr>price_history := price_history db @ [\<lparr>ph_id = ge_uuid e 0, ph_product_id = pd_id p,
                ph_price = price, ph_currency = pr_Currency m, ph_scraped_at = tscol S (pr_ScrapedAt m),
                ph_task_id = tid\<rparr>]\<rparr>"
  have "gw_wf n saved"
    using mark_done_wf [OF wf new] h [OF True] new
    by (auto simp: gw_wf_def saved_def mark_done_def history_wf_def)
  moreover have "products saved = products db" by (simp add: saved_def mark_done_def)
  ultimately show ?thesis using True latest_wf [of n saved] by (simp add: recorded_def Let_def saved_def)
qed

lemma process_product_wf:
  assumes wf: "gw_wf n db" and n: "n < 2 ^ 63 - 1" and r: "process_product S e m db = (db', Inr u)"
  shows "gw_wf (n + 1) db'"
  using r
proof (rule process_product_Inr)
  fix tid pid p
  assume c: "tid \<in> set (processed_price_results db) \<and> db' = db
     \<or> tid \<notin> set (processed_price_results db) \<and> force_of tid db = None \<and> pr_Force m \<and> db' = mark_done tid db
     \<or> tid \<notin> set (processed_price_results db) \<and> (force_of tid db = None \<longrightarrow> \<not> pr_Force m)
       \<and> (\<forall>f. force_of tid db = Some f \<longrightarrow> fr_product_id f = pr_ProductID m)
       \<and> (pr_Success m \<longrightarrow> pr_ScrapedAt m \<noteq> 0)
       \<and> record_result S e m tid p (map_option fr_chat_id (force_of tid db)) db = Some db'"
  have wf1: "gw_wf (n + 1) db" using gw_wf_mono [OF wf] by simp
  from c show ?thesis
  proof (elim disjE conjE)
    assume "db' = db"
    then show ?thesis using wf1 by simp
  next
    assume "tid \<notin> set (processed_price_results db)" "db' = mark_done tid db"
    then show ?thesis using mark_done_wf [OF wf1] by simp
  next
    assume new: "tid \<notin> set (processed_price_results db)"
      and rec: "record_result S e m tid p (map_option fr_chat_id (force_of tid db)) db = Some db'"
    from rec show ?thesis
    proof (rule record_result_Some)
      fix price
      assume h: "pr_Success m \<Longrightarrow> numcol S (pr_Price m) = Some price
          \<and> (\<forall>r \<in> set (price_history db). ph_task_id r \<noteq> tid \<and> ph_id r \<noteq> ge_uuid e 0)"
        and c: "case map_option fr_chat_id (force_of tid db) of
           Some c \<Rightarrow> (\<exists>ob. gw_enqueue (ge_uuid e 1) (ge_now e) (''force-result:'' @ pr_TaskID m) QueueNotifyTasks
               (JNotify \<lparr>nt_TaskID = pr_TaskID m, nt_Channel = ''telegram'', nt_Target = show_int c,
                  nt_Text = forceText (pd_name p) (pd_url p) m, nt_Direction = [], nt_NotBefore = 0\<rparr>)
               (gateway_outbox db) = Some ob \<and> db' = (recorded S e m tid p price db)\<lparr>gateway_outbox := ob\<rparr>)
         | None \<Rightarrow> if \<not> pr_Success m \<or> stale m p then db' = recorded S e m tid p price db
             else alert_loop e 0 (pd_name p) (pd_url p) m
               (alert_rows (pd_id p) (recorded S e m tid p price db)) (recorded S e m tid p price db) = Some db'"
      have rec: "gw_wf n (recorded S e m tid p price db)" using h by (intro recorded_wf [OF wf new]) blast
      show ?thesis
      proof (cases "force_of tid db")
        case (Some f)
        with c obtain ob where enq: "gw_enqueue (ge_uuid e 1) (ge_now e) (''force-result:'' @ pr_TaskID m) QueueNotifyTasks
               (JNotify \<lparr>nt_TaskID = pr_TaskID m, nt_Channel = ''telegram'', nt_Target = show_int (fr_chat_id f),
                  nt_Text = forceText (pd_name p) (pd_url p) m, nt_Direction = [], nt_NotBefore = 0\<rparr>)
               (gateway_outbox (recorded S e m tid p price db)) = Some ob" and db': "db' = (recorded S e m tid p price db)\<lparr>gateway_outbox := ob\<rparr>"
          by auto
        have "gw_wf n db'" unfolding db' by (rule gw_wf_enqueue [OF rec enq]) simp_all
        then show ?thesis using gw_wf_mono by fastforce
      next
        case None
        show ?thesis
        proof (cases "\<not> pr_Success m \<or> stale m p")
          case True
          with None c have "db' = recorded S e m tid p price db" by simp
          then show ?thesis using rec gw_wf_mono by fastforce
        next
          case False
          with None c have "alert_loop e 0 (pd_name p) (pd_url p) m
               (alert_rows (pd_id p) (recorded S e m tid p price db)) (recorded S e m tid p price db) = Some db'" by simp
          then show ?thesis by (rule alert_loop_wf(2) [OF rec n])
        qed
      qed
    qed
  qed
qed

lemma process_lookup_wf:
  assumes wf: "gw_wf n db" and r: "process_lookup S e m db = (db', Inr u)"
  shows "gw_wf n db'"
  using r
proof (rule process_lookup_Inr)
  fix tid
  assume "tid \<in> set (processed_price_results db) \<and> db' = db
     \<or> tid \<notin> set (processed_price_results db) \<and> (\<exists>lid f. pg_uuid S (pr_LookupID m) = Some lid
         \<and> (\<forall>l. lk_id (f l) = lk_id l \<and> lk_url (f l) = lk_url l)
         \<and> (pr_Success m \<longrightarrow> (\<exists>price. numcol S (pr_Price m) = Some price \<and> (\<forall>l. lk_status (f l) = LookupDone
              \<and> lk_name (f l) = Some (pr_Name m) \<and> lk_price (f l) = Some price)))
         \<and> (\<not> pr_Success m \<longrightarrow> (\<forall>l. lk_status (f l) = LookupFailed \<and> lk_error (f l) = Some (pr_Error m)))
         \<and> db' = mark_done tid (db\<lparr>lookup_requests := update_where (\<lambda>r. lk_id r = lid) f (lookup_requests db)\<rparr>))"
  then show ?thesis
  proof (elim disjE conjE exE)
    fix lid f
    assume f: "\<forall>l. lk_id (f l) = lk_id l \<and> lk_url (f l) = lk_url l" and new: "tid \<notin> set (processed_price_results db)"
      and db': "db' = mark_done tid (db\<lparr>lookup_requests := update_where (\<lambda>r. lk_id r = lid) f (lookup_requests db)\<rparr>)"
    have "lookup_wf (update_where (\<lambda>r. lk_id r = lid) f (lookup_requests db))"
      using f by (intro lookup_wf_update [OF gw_wfD(8) [OF wf]]) simp
    then have "gw_wf n (db\<lparr>lookup_requests := update_where (\<lambda>r. lk_id r = lid) f (lookup_requests db)\<rparr>)"
      using wf by (simp add: gw_wf_def)
    then show ?thesis unfolding db' by (rule mark_done_wf) (simp add: new)
  qed (simp add: wf)
qed

lemma ProcessPriceResult_Inr:
  assumes "ProcessPriceResult S e m db = (db', Inr u)"
  shows "process_lookup S e m db = (db', Inr u) \<and> pr_LookupID m \<noteq> []
     \<or> process_product S e m db = (db', Inr u) \<and> pr_LookupID m = []"
  using assms by (auto simp: ProcessPriceResult_def split: if_splits)

lemma ProcessPriceResult_wf:
  assumes wf: "gw_wf n db" and n: "n < 2 ^ 63 - 1"
  shows "gw_wf (n + 1) (fst (ProcessPriceResult S e m db))"
proof (cases "ProcessPriceResult S e m db")
  case (Pair db' res)
  have wf1: "gw_wf (n + 1) db" using gw_wf_mono [OF wf] by simp
  show ?thesis
  proof (cases res)
    case (Inl err)
    with Pair have "db' = db" by (auto dest: ProcessPriceResult_Inl)
    with Pair wf1 show ?thesis by simp
  next
    case (Inr u)
    with Pair have "ProcessPriceResult S e m db = (db', Inr u)" by simp
    from ProcessPriceResult_Inr [OF this] show ?thesis
      using process_lookup_wf [OF wf1, of S e m db' u] process_product_wf [OF wf n, of S e m db' u] by (auto simp: Pair)
  qed
qed

lemma gw_own_wf:
  assumes wf: "gw_wf n db" and n: "0 \<le> n" "n < 2 ^ 63 - 1" and ok: "work_ok x"
  shows "gw_wf (n + 1) (gw_own S x db)"
proof -
  have up: "gw_wf (n + 1) d" if "gw_wf n d" for d using gw_wf_mono [OF that] by simp
  show ?thesis
  proof (cases x)
    case (WCreateLookup e i url)
    then show ?thesis using up [OF CreateLookup_wf [OF wf]] ok by simp
  next
    case (WEnsureProduct e i name url plat)
    then show ?thesis using up [OF EnsureProduct_wf [OF wf _ _ n(1)]] ok by simp
  next
    case (WMutate e v i u op)
    then show ?thesis using mutate_wf [OF wf n(2)] by simp
  next
    case (WSubscribe e u p mn mx)
    then show ?thesis using CreateSubscription_wf [OF wf n] by simp
  next
    case (WReconcile e)
    then show ?thesis using Reconcile_wf [OF wf n(2)] by simp
  qed (simp_all add: up DeleteExpiredLookups_wf [OF wf] DeleteOldPriceHistory_wf [OF wf] UpsertUser_wf [OF wf]
      QueueForce_wf [OF wf] gw_wf_outbox [OF wf])
qed

lemma gw_run_wf:
  assumes "gw_wf n db" and "0 \<le> n" and "n + int (length xs) < 2 ^ 63" and "\<forall>x \<in> set xs. step_ok x"
  shows "gw_wf (n + int (length xs)) (gw_run S xs db)"
  using assms
proof (induction xs arbitrary: n db)
  case Nil
  then show ?case by (simp add: gw_run_def)
next
  case (Cons x xs)
  have n: "n < 2 ^ 63 - 1" using Cons.prems(3) by simp
  have IH: "gw_wf (n + int (length (x # xs))) (gw_run S xs db1)" if "gw_wf (n + 1) db1" for db1
    using Cons.IH [OF that] Cons.prems(2-4) by (simp add: algebra_simps)
  show ?case
  proof (cases x)
    case (Deliver e m)
    then show ?thesis using IH [OF ProcessPriceResult_wf [OF Cons.prems(1) n]] by (simp add: gw_run_def)
  next
    case (Local w)
    then have "work_ok w" using Cons.prems(4) by simp
    with Local show ?thesis using IH [OF gw_own_wf [OF Cons.prems(1,2) n]] by (simp add: gw_run_def)
  qed
qed

section \<open>Redelivery of results\<close>

definition result_settled :: "services \<Rightarrow> PriceResult \<Rightarrow> gw_db \<Rightarrow> bool" where
  "result_settled S m db \<longleftrightarrow>
     (\<exists>tid. pg_uuid S (pr_TaskID m) = Some tid \<and> tid \<in> set (processed_price_results db))"

text \<open>What a processed result adds to the set of processed tasks.\<close>

lemma alert_loop_processed:
  "alert_loop e k name url m as db = Some db' \<Longrightarrow> processed_price_results db' = processed_price_results db"
proof (induction as arbitrary: k db)
  case (Cons a as)
  then show ?case by (auto simp: Let_def dest: Cons.IH split: if_splits option.splits)
qed simp

lemma record_result_processed:
  assumes "record_result S e m tid p chat db = Some db'"
  shows "processed_price_results db' = processed_price_results db @ [tid]"
  using assms
  by (rule record_result_Some) (auto dest: alert_loop_processed split: option.splits if_splits)

lemma ProcessPriceResult_processed:
  assumes "ProcessPriceResult S e m db = (db', Inr u)"
  obtains tid where "pg_uuid S (pr_TaskID m) = Some tid"
    "tid \<in> set (processed_price_results db) \<and> db' = db
     \<or> tid \<notin> set (processed_price_results db) \<and> processed_price_results db' = processed_price_results db @ [tid]"
  using ProcessPriceResult_Inr [OF assms]
proof (elim disjE conjE)
  assume "process_lookup S e m db = (db', Inr u)"
  then show ?thesis by (rule process_lookup_Inr) (use that in \<open>auto simp: mark_done_def\<close>)
next
  assume "process_product S e m db = (db', Inr u)"
  then show ?thesis
    by (rule process_product_Inr) (use that in \<open>auto simp: mark_done_def dest: record_result_processed\<close>)
qed

lemma bump_processed: "bump e k u pid v url plat db = Some db' \<Longrightarrow> processed_price_results db' = processed_price_results db"
  by (erule bump_Some) (simp add: set_version_def)

lemma reconcile_loop_processed:
  "reconcile_loop e k ps db = Some db' \<Longrightarrow> processed_price_results db' = processed_price_results db"
  by (induction ps arbitrary: k db) (auto dest: bump_processed split: option.splits)

lemma gw_own_processed: "processed_price_results (gw_own S x db) = processed_price_results db"
proof (cases x)
  case (WMutate e v i u op)
  show ?thesis
  proof (cases "mutateSubscription S e (older v (subscriptions db)) i u op db")
    case (Pair db' res)
    show ?thesis
    proof (cases res)
      case (Inl err)
      with Pair have "db' = db" by (auto dest: mutate_Inl)
      then show ?thesis by (simp add: WMutate Pair)
    next
      case (Inr y)
      with Pair have "mutateSubscription S e (older v (subscriptions db)) i u op db = (db', Inr y)" by simp
      then have "processed_price_results db' = processed_price_results db"
        by (rule mutate_Inr) (auto dest: bump_processed)
      then show ?thesis by (simp add: WMutate Pair)
    qed
  qed
next
  case (WSubscribe e u p mn mx)
  show ?thesis
  proof (cases "CreateSubscription S e u p mn mx db")
    case (Pair db' res)
    show ?thesis
    proof (cases res)
      case (Inl err)
      with Pair have "db' = db" by (auto dest: CreateSubscription_Inl)
      then show ?thesis by (simp add: WSubscribe Pair)
    next
      case (Inr y)
      with Pair have "CreateSubscription S e u p mn mx db = (db', Inr y)" by simp
      then have "processed_price_results db' = processed_price_results db"
        by (rule CreateSubscription_Inr) (auto dest: bump_processed split: if_splits)
      then show ?thesis by (simp add: WSubscribe Pair)
    qed
  qed
next
  case (WReconcile e)
  then show ?thesis
    by (auto simp: ReconcileMonitoring_def Let_def dest: reconcile_loop_processed split: option.splits)
qed (auto simp: CreateLookup_def DeleteExpiredLookups_def DeleteOldPriceHistory_def UpsertUser_def EnsureProduct_def
    QueueForce_def Let_def split: option.splits)

interpretation results: at_least_once "ProcessPriceResult S" "gw_own S" "result_settled S" for S
proof unfold_locales
  show "s' = s" if "ProcessPriceResult S e m s = (s', Inl err)" for e m s s' err
    using that by (rule ProcessPriceResult_Inl)
  show "result_settled S m s'" if "ProcessPriceResult S e m s = (s', Inr u)" for e m s s' u
    using that by (rule ProcessPriceResult_processed) (auto simp: result_settled_def)
  have mono: "set (processed_price_results s) \<subseteq> set (processed_price_results (fst (ProcessPriceResult S e m s)))" for e m s
  proof (cases "ProcessPriceResult S e m s")
    case (Pair s' res)
    show ?thesis
    proof (cases res)
      case (Inl err)
      with Pair show ?thesis by (auto dest: ProcessPriceResult_Inl)
    next
      case (Inr u)
      with Pair have "ProcessPriceResult S e m s = (s', Inr u)" by simp
      then show ?thesis by (rule ProcessPriceResult_processed) (auto simp: Pair)
    qed
  qed
  show "result_settled S m (fst (ProcessPriceResult S e m' s))" if "result_settled S m s" for m e m' s
    using that mono [of s e m'] by (auto simp: result_settled_def)
  show "result_settled S m (gw_own S x s)" if "result_settled S m s" for m x s
    using that by (simp add: result_settled_def gw_own_processed)
  show "fst (ProcessPriceResult S e m s) = s" if s: "result_settled S m s" for m e s
  proof (cases "ProcessPriceResult S e m s")
    case (Pair s' res)
    show ?thesis
    proof (cases res)
      case (Inl err)
      with Pair show ?thesis by (auto dest: ProcessPriceResult_Inl)
    next
      case (Inr u)
      with Pair have "ProcessPriceResult S e m s = (s', Inr u)" by simp
      then show ?thesis by (rule ProcessPriceResult_processed) (use s in \<open>auto simp: Pair result_settled_def\<close>)
    qed
  qed
qed

end
