(* ===== verification/Scheduler.thy ===== *)
theory Scheduler
  imports Outbox Platform Consumer
begin

text \<open>
  The scheduler service: its tables, the store operations of
  \<open>services/scheduler/internal/store/dispatch.go\<close> (\<open>ApplySnapshot\<close>, \<open>EnqueueDue\<close>,
  \<open>EnqueueForce\<close>), the tick of \<open>internal/scheduler/scheduler.go\<close> and the consumer of
  \<open>track.requests\<close>. A store call returns the database and either an error or its result;
  each of its statements fails when the environment says so, by its number in the call, and
  an error return carries the rolled-back database.
\<close>

section \<open>State\<close>

record scheduled_url =
  su_id :: uuid
  su_product_id :: uuid
  su_url :: string
  su_platform :: string
  su_next_check_at :: time
  su_check_interval_hours :: int
  su_active :: bool
  su_monitor_version :: int

record sched_db =
  scheduled_urls :: "scheduled_url list"
  scheduler_outbox :: outbox
  processed_force_commands :: "(uuid \<times> uuid) list"

text \<open>
  One call's surroundings: \<open>NOW()\<close>, failing statements, the UUIDs drawn in order, the
  readings of \<open>time.Now()\<close>, and the rows locked by other transactions.
\<close>

record senv =
  se_now :: time
  se_flt :: faults
  se_uuid :: "nat \<Rightarrow> uuid"
  se_clock :: "nat \<Rightarrow> time"
  se_locked :: "uuid \<Rightarrow> bool"

section \<open>Identity of a product URL\<close>

definition validWBIdentity :: "string \<Rightarrow> string \<Rightarrow> bool" where
  "validWBIdentity rawURL platform =
     (case url_parse rawURL of
        None \<Rightarrow> False
      | Some (scheme, host) \<Rightarrow>
          if platform \<noteq> ''wb'' \<or> scheme \<noteq> ''https''
            \<or> (host \<noteq> ''www.wildberries.ru'' \<and> host \<noteq> ''wildberries.ru'') then False
          else (case NormalizeWB rawURL of Inl _ \<Rightarrow> False | Inr normalized \<Rightarrow> normalized = rawURL))"

section \<open>ApplySnapshot\<close>

text \<open>
  INSERT ... ON CONFLICT(url) DO UPDATE ... WHERE: the outcomes are a unique violation
  (\<open>None\<close>), or the table with the number of affected rows.
\<close>

definition upsert_url :: "uuid \<Rightarrow> time \<Rightarrow> uuid \<Rightarrow> TrackRequest \<Rightarrow> scheduled_url list \<Rightarrow> (scheduled_url list \<times> nat) option" where
  "upsert_url i now pid req t =
     (case find (\<lambda>r. su_url r = tr_URL req) t of
        Some r \<Rightarrow>
          if su_monitor_version r < tr_Version req \<and> su_product_id r = pid
          then Some (update_where (\<lambda>x. su_url x = tr_URL req)
                 (\<lambda>x. x\<lparr>su_platform := tr_Platform req, su_check_interval_hours := tr_IntervalHours req,
                       su_active := tr_Active req, su_monitor_version := tr_Version req\<rparr>) t, 1)
          else Some (t, 0)
      | None \<Rightarrow>
          if exists_where (\<lambda>x. su_product_id x = pid \<or> su_id x = i) t then None
          else Some (t @ [\<lparr>su_id = i, su_product_id = pid, su_url = tr_URL req,
                 su_platform = tr_Platform req, su_next_check_at = now,
                 su_check_interval_hours = tr_IntervalHours req, su_active = tr_Active req,
                 su_monitor_version = tr_Version req\<rparr>], 1))"

definition ApplySnapshot :: "services \<Rightarrow> senv \<Rightarrow> TrackRequest \<Rightarrow> sched_db \<Rightarrow> sched_db \<times> (store_error + unit)" where
  "ApplySnapshot S e request db =
     (if tr_Action request \<noteq> ''set_state'' \<or> tr_Version request \<le> 0 \<or> tr_IntervalHours request \<le> 0
      then (db, Inl ErrInvalidRequest)
      else case uuid_parse S (tr_ProductID request) of
        None \<Rightarrow> (db, Inl ErrInvalidRequest)
      | Some productID \<Rightarrow>
         if uuid_parse S (tr_TaskID request) = None then (db, Inl ErrInvalidRequest)
         else if \<not> validWBIdentity (tr_URL request) (tr_Platform request) then (db, Inl ErrInvalidRequest)
         else if se_flt e 0 then (db, Inl ErrDB)
         else if se_flt e 1 then (db, Inl ErrDB)
         else if se_flt e 2 then (db, Inl ErrDB)
         else if se_flt e 3 then (db, Inl ErrDB)
         else if (case find (\<lambda>r. su_product_id r = productID) (scheduled_urls db) of
                    Some r \<Rightarrow> su_url r \<noteq> tr_URL request | None \<Rightarrow> False)
           then (db, Inl ErrInvalidRequest)
         else if se_flt e 4 \<or> tr_IntervalHours request \<ge> 2 ^ 31 then (db, Inl ErrDB)
         else case upsert_url (se_uuid e 0) (se_now e) productID request (scheduled_urls db) of
           None \<Rightarrow> (db, Inl ErrInvalidRequest)
         | Some (t, affected) \<Rightarrow>
            if affected = 0 \<and> se_flt e 5 then (db, Inl ErrDB)
            else if affected = 0 \<and>
              (case find (\<lambda>r. su_url r = tr_URL request) t of
                 None \<Rightarrow> True | Some r \<Rightarrow> su_product_id r \<noteq> productID)
            then (db, Inl ErrInvalidRequest)
            else if se_flt e 6 then (db, Inl ErrDB)
            else (db\<lparr>scheduled_urls := t\<rparr>, Inr ()))"

section \<open>EnqueueDue\<close>

definition dueBatchSize :: nat where "dueBatchSize = 100"

definition due_rows :: "senv \<Rightarrow> scheduled_url list \<Rightarrow> scheduled_url list" where
  "due_rows e t =
     take dueBatchSize (sort_key (\<lambda>r. (su_next_check_at r, su_id r))
       (filter (\<lambda>r. su_active r \<and> su_next_check_at r \<le> se_now e \<and> \<not> se_locked e (su_id r)) t))"

text \<open>INSERT INTO scheduler_outbox: both \<open>event_key\<close> and \<open>id\<close> are unique.\<close>

definition sc_insert :: "uuid \<Rightarrow> time \<Rightarrow> string \<Rightarrow> string \<Rightarrow> json \<Rightarrow> outbox \<Rightarrow> outbox option" where
  "sc_insert i now key queue payload t =
     (if exists_where (\<lambda>r. ob_event_key r = key \<or> ob_id r = i) t then None
      else Some (t @ [new_outbox_row i now key queue payload]))"

definition due_task :: "senv \<Rightarrow> nat \<Rightarrow> scheduled_url \<Rightarrow> ScraperTask" where
  "due_task e k d =
     \<lparr>st_TaskID = se_uuid e (2 * k), st_ProductID = su_product_id d, st_URL = su_url d,
      st_Platform = su_platform d, st_ScheduledAt = se_clock e k, st_Force = False, st_ChatID = 0\<rparr>"

text \<open>
  The loop over the selected rows; \<open>None\<close> is an error return. Statement \<open>3 + 2k\<close> is the
  INSERT of row \<open>k\<close>, the next one its UPDATE.
\<close>

fun due_loop :: "senv \<Rightarrow> nat \<Rightarrow> scheduled_url list \<Rightarrow> sched_db \<Rightarrow> sched_db option" where
  "due_loop e k [] db = Some db"
| "due_loop e k (d # ds) db =
     (if se_flt e (3 + 2 * k) then None
      else case sc_insert (se_uuid e (2 * k + 1)) (se_now e)
             (''periodic:'' @ st_TaskID (due_task e k d)) QueueScraperTasks (JScraper (due_task e k d))
             (scheduler_outbox db) of
        None \<Rightarrow> None
      | Some ob \<Rightarrow>
         if se_flt e (4 + 2 * k) then None
         else due_loop e (Suc k) ds
           (db\<lparr>scheduler_outbox := ob,
              scheduled_urls := update_where (\<lambda>r. su_id r = su_id d)
                (\<lambda>r. r\<lparr>su_next_check_at := se_now e + su_check_interval_hours r * hour\<rparr>)
                (scheduled_urls db)\<rparr>))"

definition EnqueueDue :: "senv \<Rightarrow> sched_db \<Rightarrow> sched_db \<times> (store_error + nat)" where
  "EnqueueDue e db =
     (if se_flt e 0 then (db, Inl ErrDB)
      else if se_flt e 1 then (db, Inl ErrDB)
      else if se_flt e 2 then (db, Inl ErrDB)
      else let entries = due_rows e (scheduled_urls db)
           in case due_loop e 0 entries db of
                None \<Rightarrow> (db, Inl ErrDB)
              | Some db' \<Rightarrow>
                  if se_flt e (3 + 2 * length entries) then (db, Inl ErrDB)
                  else (db', Inr (length entries)))"

section \<open>EnqueueForce\<close>

definition force_task :: "senv \<Rightarrow> uuid \<Rightarrow> uuid \<Rightarrow> TrackRequest \<Rightarrow> ScraperTask" where
  "force_task e taskID productID request =
     \<lparr>st_TaskID = taskID, st_ProductID = productID, st_URL = tr_URL request,
      st_Platform = tr_Platform request, st_ScheduledAt = se_clock e 0, st_Force = True,
      st_ChatID = tr_ChatID request\<rparr>"

definition EnqueueForce :: "services \<Rightarrow> senv \<Rightarrow> TrackRequest \<Rightarrow> sched_db \<Rightarrow> sched_db \<times> (store_error + unit)" where
  "EnqueueForce S e request db =
     (if tr_Action request \<noteq> ''force'' \<or> tr_ProductID request = []
        \<or> \<not> validWBIdentity (tr_URL request) (tr_Platform request)
      then (db, Inl ErrInvalidRequest)
      else case uuid_parse S (tr_ProductID request) of
        None \<Rightarrow> (db, Inl ErrInvalidRequest)
      | Some productID \<Rightarrow>
        (case uuid_parse S (tr_TaskID request) of
          None \<Rightarrow> (db, Inl ErrInvalidRequest)
        | Some taskID \<Rightarrow>
           if se_flt e 0 then (db, Inl ErrDB)
           else if se_flt e 1 then (db, Inl ErrDB)
           else if se_flt e 2 then (db, Inl ErrDB)
           else if se_flt e 3 then (db, Inl ErrDB)
           else if (case find (\<lambda>r. su_product_id r = productID) (scheduled_urls db) of
                      Some r \<Rightarrow> su_url r \<noteq> tr_URL request | None \<Rightarrow> False)
             then (db, Inl ErrInvalidRequest)
           else if se_flt e 4 then (db, Inl ErrDB)
           else if (case find (\<lambda>r. su_url r = tr_URL request) (scheduled_urls db) of
                      Some r \<Rightarrow> su_product_id r \<noteq> productID | None \<Rightarrow> False)
             then (db, Inl ErrInvalidRequest)
           else if se_flt e 5 then (db, Inl ErrDB)
           else if exists_where (\<lambda>r. fst r = taskID) (processed_force_commands db)
             then (if se_flt e 6 then (db, Inl ErrDB) else (db, Inr ()))
           else if se_flt e 6 then (db, Inl ErrDB)
           else (case sc_insert (se_uuid e 0) (se_now e) (''force:'' @ taskID) QueueScraperTasks
                   (JScraper (force_task e taskID productID request)) (scheduler_outbox db) of
                   None \<Rightarrow> (db, Inl ErrDB)
                 | Some ob \<Rightarrow>
                    if se_flt e 7 then (db, Inl ErrDB)
                    else (db\<lparr>scheduler_outbox := ob,
                            processed_force_commands := processed_force_commands db @ [(taskID, productID)]\<rparr>,
                          Inr ()))))"

section \<open>The consumer of track.requests and the tick\<close>

definition sched_process :: "services \<Rightarrow> senv \<Rightarrow> TrackRequest \<Rightarrow> sched_db \<Rightarrow> sched_db \<times> (store_error + unit)" where
  "sched_process S e req db =
     (if tr_Action req = ''set_state'' then ApplySnapshot S e req db
      else if tr_Action req = ''force'' then EnqueueForce S e req db
      else (db, Inl ErrInvalidRequest))"

definition sched_handle :: "services \<Rightarrow> senv \<times> TrackRequest option \<Rightarrow> sched_db \<Rightarrow> sched_db \<times> settle" where
  "sched_handle S d db =
     (case snd d of
        None \<Rightarrow> (db, NackDrop)
      | Some req \<Rightarrow> (let (db', r) = sched_process S (fst d) req db in (db', settle_by ErrInvalidRequest r)))"

text \<open>\<open>Consumer.Run\<close>; \<open>consume_ok\<close> says whether \<open>mq.Consume\<close> succeeds.\<close>

definition sched_Run :: "services \<Rightarrow> bool \<Rightarrow> (senv \<times> TrackRequest option) channel_event list \<Rightarrow> sched_db
    \<Rightarrow> (sched_db \<times> settle list) \<times> run_end" where
  "sched_Run S consume_ok es db =
     (if \<not> consume_ok then ((db, []), ReturnedError) else consume_loop (sched_handle S) es db)"

text \<open>
  \<open>Scheduler.Run\<close>: one dispatch at the start, then one per tick until the context is done.
  A dispatch logs an error and keeps the state the store call left.
\<close>

definition dispatch :: "senv \<Rightarrow> sched_db \<Rightarrow> sched_db" where
  "dispatch e db = fst (EnqueueDue e db)"

fun tick_loop :: "senv option list \<Rightarrow> sched_db \<Rightarrow> sched_db" where
  "tick_loop [] db = db"
| "tick_loop (None # es) db = db"
| "tick_loop (Some e # es) db = tick_loop es (dispatch e db)"

definition scheduler_Run :: "senv \<Rightarrow> senv option list \<Rightarrow> sched_db \<Rightarrow> sched_db" where
  "scheduler_Run e es db = tick_loop es (dispatch e db)"

end
