(* ===== verification/SchedulerLaws.thy ===== *)
theory SchedulerLaws
  imports Scheduler
begin

text \<open>
  What the scheduler's store promises. The service is the interleaving of the deliveries of
  \<open>track.requests\<close>, the ticks and the outbox worker's calls, each a transaction; the
  theorems hold for every sequence of them, with every combination of failing statements.
\<close>

section \<open>Identities\<close>

lemma validWBIdentity_iff [go_simps]: "validWBIdentity u p \<longleftrightarrow> p = ''wb'' \<and> canonical u"
proof (cases "canonical u")
  case True
  then obtain ds where "u = canonical_url ds" "list_all is_digit ds" by (auto simp: canonical_def)
  then show ?thesis
    using True NormalizeWB_canonical [OF True] by (auto simp: validWBIdentity_def url_parse_canonical)
next
  case False
  then have "NormalizeWB u \<noteq> Inr u" by (simp add: NormalizeWB_fixed_iff)
  with False show ?thesis
    by (auto simp: validWBIdentity_def split: option.split sum.split)
qed

section \<open>The outcomes of the store operations\<close>

text \<open>The row INSERT makes of a snapshot, and what DO UPDATE makes of an existing one.\<close>

definition fresh_row :: "uuid \<Rightarrow> time \<Rightarrow> uuid \<Rightarrow> TrackRequest \<Rightarrow> scheduled_url" where
  "fresh_row i now pid m =
     \<lparr>su_id = i, su_product_id = pid, su_url = tr_URL m, su_platform = tr_Platform m,
      su_next_check_at = now, su_check_interval_hours = tr_IntervalHours m,
      su_active = tr_Active m, su_monitor_version = tr_Version m\<rparr>"

definition take_over :: "TrackRequest \<Rightarrow> scheduled_url \<Rightarrow> scheduled_url" where
  "take_over m x = x\<lparr>su_platform := tr_Platform m, su_check_interval_hours := tr_IntervalHours m,
     su_active := tr_Active m, su_monitor_version := tr_Version m\<rparr>"

lemma row_simps [simp]:
  "su_id (fresh_row i now pid m) = i" "su_product_id (fresh_row i now pid m) = pid"
  "su_url (fresh_row i now pid m) = tr_URL m" "su_next_check_at (fresh_row i now pid m) = now"
  "su_platform (fresh_row i now pid m) = tr_Platform m"
  "su_check_interval_hours (fresh_row i now pid m) = tr_IntervalHours m"
  "su_active (fresh_row i now pid m) = tr_Active m"
  "su_monitor_version (fresh_row i now pid m) = tr_Version m"
  "su_id (take_over m x) = su_id x" "su_product_id (take_over m x) = su_product_id x"
  "su_url (take_over m x) = su_url x" "su_next_check_at (take_over m x) = su_next_check_at x"
  "su_platform (take_over m x) = tr_Platform m"
  "su_check_interval_hours (take_over m x) = tr_IntervalHours m"
  "su_active (take_over m x) = tr_Active m" "su_monitor_version (take_over m x) = tr_Version m"
  by (simp_all add: fresh_row_def take_over_def)

lemma take_over_abs: "take_over m = (\<lambda>x. x\<lparr>su_platform := tr_Platform m,
    su_check_interval_hours := tr_IntervalHours m, su_active := tr_Active m,
    su_monitor_version := tr_Version m\<rparr>)"
  by (rule ext) (simp add: take_over_def)

lemma upsert_url_cases:
  assumes "upsert_url i now pid m t = Some (t', n)"
  obtains (inserted) "find (\<lambda>r. su_url r = tr_URL m) t = None"
      "\<forall>x \<in> set t. su_product_id x \<noteq> pid \<and> su_id x \<noteq> i" "t' = t @ [fresh_row i now pid m]" "n = 1"
  | (updated) r where "find (\<lambda>r. su_url r = tr_URL m) t = Some r" "su_product_id r = pid"
      "su_monitor_version r < tr_Version m"
      "t' = update_where (\<lambda>x. su_url x = tr_URL m) (take_over m) t" "n = 1"
  | (kept) r where "find (\<lambda>r. su_url r = tr_URL m) t = Some r" "t' = t" "n = 0"
      "su_product_id r = pid \<longrightarrow> tr_Version m \<le> su_monitor_version r"
proof (cases "find (\<lambda>r. su_url r = tr_URL m) t")
  case None
  with assms inserted show ?thesis
    by (auto simp: upsert_url_def fresh_row_def exists_where_iff split: if_splits)
next
  case (Some r)
  show ?thesis
  proof (cases "su_monitor_version r < tr_Version m \<and> su_product_id r = pid")
    case True
    then show ?thesis using assms Some updated [OF Some]
      by (simp add: upsert_url_def take_over_abs)
  next
    case False
    then show ?thesis using assms Some kept [OF Some] by (auto simp: upsert_url_def)
  qed
qed

lemma ApplySnapshot_Inl: "ApplySnapshot S e m db = (db', Inl err) \<Longrightarrow> db' = db"
  by (auto simp: ApplySnapshot_def split: if_splits option.splits prod.splits)

lemma ApplySnapshot_Inr:
  assumes "ApplySnapshot S e m db = (db', Inr u)"
  obtains pid t n where "tr_Action m = ''set_state''" "0 < tr_Version m" "0 < tr_IntervalHours m"
    "uuid_parse S (tr_ProductID m) = Some pid" "uuid_parse S (tr_TaskID m) \<noteq> None"
    "validWBIdentity (tr_URL m) (tr_Platform m)"
    "\<And>r. find (\<lambda>r. su_product_id r = pid) (scheduled_urls db) = Some r \<Longrightarrow> su_url r = tr_URL m"
    "upsert_url (se_uuid e 0) (se_now e) pid m (scheduled_urls db) = Some (t, n)"
    "n = 0 \<Longrightarrow> \<exists>r. find (\<lambda>r. su_url r = tr_URL m) t = Some r \<and> su_product_id r = pid"
    "db' = db\<lparr>scheduled_urls := t\<rparr>"
proof -
  obtain pid where pid: "uuid_parse S (tr_ProductID m) = Some pid"
    using assms by (auto simp: ApplySnapshot_def split: if_splits option.splits)
  obtain t n where up: "upsert_url (se_uuid e 0) (se_now e) pid m (scheduled_urls db) = Some (t, n)"
    using assms pid by (auto simp: ApplySnapshot_def split: if_splits option.splits)
  show ?thesis
    by (rule that [OF _ _ _ pid _ _ _ up])
      (use assms pid up in \<open>auto simp: ApplySnapshot_def split: if_splits option.splits\<close>)
qed

lemma EnqueueForce_Inl: "EnqueueForce S e m db = (db', Inl err) \<Longrightarrow> db' = db"
  by (auto simp: EnqueueForce_def split: if_splits option.splits)

lemma sc_insert_cases: "sc_insert i now key q p t = Some t' \<longleftrightarrow>
    (\<forall>r \<in> set t. ob_event_key r \<noteq> key \<and> ob_id r \<noteq> i) \<and> t' = t @ [new_outbox_row i now key q p]"
  by (auto simp: sc_insert_def exists_where_iff)

text \<open>A force command is either found processed, or recorded with its task.\<close>

lemma EnqueueForce_Inr:
  assumes "EnqueueForce S e m db = (db', Inr u)"
  obtains pid tid where "tr_Action m = ''force''" "uuid_parse S (tr_ProductID m) = Some pid"
    "uuid_parse S (tr_TaskID m) = Some tid" "validWBIdentity (tr_URL m) (tr_Platform m)"
    "tid \<in> fst ` set (processed_force_commands db) \<and> db' = db
     \<or> tid \<notin> fst ` set (processed_force_commands db)
       \<and> sc_insert (se_uuid e 0) (se_now e) (''force:'' @ tid) QueueScraperTasks
           (JScraper (force_task e tid pid m)) (scheduler_outbox db) = Some (scheduler_outbox db')
       \<and> processed_force_commands db' = processed_force_commands db @ [(tid, pid)]
       \<and> scheduled_urls db' = scheduled_urls db"
proof -
  obtain pid tid where p: "uuid_parse S (tr_ProductID m) = Some pid" "uuid_parse S (tr_TaskID m) = Some tid"
    using assms by (auto simp: EnqueueForce_def split: if_splits option.splits)
  show ?thesis
    by (rule that [OF _ p])
      (use assms p in \<open>auto simp: EnqueueForce_def exists_where_iff image_iff split: if_splits option.splits\<close>)
qed

section \<open>Redelivery of track requests\<close>

text \<open>
  A request is settled when its effect is recorded: a snapshot when the URL's row is the
  product's and at least as new, a force command when its task id was processed.
\<close>

definition sched_settled :: "services \<Rightarrow> TrackRequest \<Rightarrow> sched_db \<Rightarrow> bool" where
  "sched_settled S m db \<longleftrightarrow>
     (if tr_Action m = ''set_state''
      then (\<exists>r. find (\<lambda>r. su_url r = tr_URL m) (scheduled_urls db) = Some r
              \<and> uuid_parse S (tr_ProductID m) = Some (su_product_id r)
              \<and> tr_Version m \<le> su_monitor_version r)
      else (\<exists>tid. uuid_parse S (tr_TaskID m) = Some tid \<and> tid \<in> fst ` set (processed_force_commands db)))"

definition url_le :: "scheduled_url list \<Rightarrow> scheduled_url list \<Rightarrow> bool" where
  "url_le t t' \<longleftrightarrow> (\<forall>u r. find (\<lambda>r. su_url r = u) t = Some r \<longrightarrow>
     (\<exists>r'. find (\<lambda>r. su_url r = u) t' = Some r' \<and> su_product_id r' = su_product_id r
         \<and> su_monitor_version r \<le> su_monitor_version r'))"

lemma url_le_refl [simp]: "url_le t t"
  by (simp add: url_le_def)

lemma url_le_trans: "url_le t t' \<Longrightarrow> url_le t' t'' \<Longrightarrow> url_le t t''"
  unfolding url_le_def by fastforce

lemma find_url_update:
  assumes "\<And>x. su_url (f x) = su_url x"
  shows "find (\<lambda>r. su_url r = u) (update_where P f t) = map_option (\<lambda>r. if P r then f r else r) (find (\<lambda>r. su_url r = u) t)"
  using assms by (intro find_update_where) simp

lemma upsert_url_le: "upsert_url i now pid m t = Some (t', n) \<Longrightarrow> url_le t t'"
proof (erule upsert_url_cases)
  assume "t' = t @ [fresh_row i now pid m]"
  then show ?thesis by (simp add: url_le_def find_append)
next
  fix r
  assume r: "find (\<lambda>r. su_url r = tr_URL m) t = Some r" "su_product_id r = pid" "su_monitor_version r < tr_Version m"
    and t': "t' = update_where (\<lambda>x. su_url x = tr_URL m) (take_over m) t"
  show ?thesis unfolding url_le_def
  proof (intro allI impI)
    fix u x
    assume x: "find (\<lambda>r. su_url r = u) t = Some x"
    then have "su_url x = u" by (auto dest: find_SomeD)
    with x r show "\<exists>r'. find (\<lambda>r. su_url r = u) t' = Some r' \<and> su_product_id r' = su_product_id x
         \<and> su_monitor_version x \<le> su_monitor_version r'"
      by (auto simp: t' find_url_update)
  qed
qed simp

lemma sched_process_Inl: "sched_process S e m db = (db', Inl err) \<Longrightarrow> db' = db"
  by (auto simp: sched_process_def dest: ApplySnapshot_Inl EnqueueForce_Inl split: if_splits)

lemma sched_process_mono:
  "url_le (scheduled_urls db) (scheduled_urls (fst (sched_process S e m db)))
   \<and> set (processed_force_commands db) \<subseteq> set (processed_force_commands (fst (sched_process S e m db)))"
proof (cases "sched_process S e m db")
  case (Pair db' res)
  show ?thesis
  proof (cases res)
    case (Inl err)
    then show ?thesis using Pair sched_process_Inl by fastforce
  next
    case (Inr u)
    show ?thesis
    proof (cases "tr_Action m = ''set_state''")
      case True
      then have "ApplySnapshot S e m db = (db', Inr u)" using Pair Inr by (simp add: sched_process_def)
      then show ?thesis by (rule ApplySnapshot_Inr) (auto simp: Pair dest: upsert_url_le)
    next
      case False
      then have "EnqueueForce S e m db = (db', Inr u)"
        using Pair Inr by (auto simp: sched_process_def split: if_splits)
      then show ?thesis by (rule EnqueueForce_Inr) (auto simp: Pair)
    qed
  qed
qed

lemma settled_mono:
  assumes "sched_settled S m db" and "url_le (scheduled_urls db) (scheduled_urls db')"
    and "set (processed_force_commands db) \<subseteq> set (processed_force_commands db')"
  shows "sched_settled S m db'"
proof (cases "tr_Action m = ''set_state''")
  case True
  then obtain r where r: "find (\<lambda>r. su_url r = tr_URL m) (scheduled_urls db) = Some r"
    "uuid_parse S (tr_ProductID m) = Some (su_product_id r)" "tr_Version m \<le> su_monitor_version r"
    using assms(1) by (auto simp: sched_settled_def)
  from assms(2) r(1) obtain r' where "find (\<lambda>r. su_url r = tr_URL m) (scheduled_urls db') = Some r'"
    "su_product_id r' = su_product_id r" "su_monitor_version r \<le> su_monitor_version r'"
    unfolding url_le_def by blast
  with r True show ?thesis by (auto simp: sched_settled_def)
next
  case False
  with assms(1,3) show ?thesis by (auto simp: sched_settled_def)
qed

lemma ApplySnapshot_settles: "ApplySnapshot S e m db = (db', Inr u) \<Longrightarrow> sched_settled S m db'"
proof (erule ApplySnapshot_Inr)
  fix pid t n
  assume a: "tr_Action m = ''set_state''" "uuid_parse S (tr_ProductID m) = Some pid"
    and up: "upsert_url (se_uuid e 0) (se_now e) pid m (scheduled_urls db) = Some (t, n)"
    and chk: "n = 0 \<Longrightarrow> \<exists>r. find (\<lambda>r. su_url r = tr_URL m) t = Some r \<and> su_product_id r = pid"
    and db': "db' = db\<lparr>scheduled_urls := t\<rparr>"
  from up show ?thesis
  proof (cases rule: upsert_url_cases)
    case inserted
    then show ?thesis using a by (simp add: sched_settled_def db' find_append)
  next
    case (updated r)
    then have "su_url r = tr_URL m" by (auto dest: find_SomeD)
    with updated show ?thesis using a by (simp add: sched_settled_def db' find_url_update)
  next
    case (kept r)
    then show ?thesis using a chk by (auto simp: sched_settled_def db')
  qed
qed

lemma ApplySnapshot_settled_noop:
  assumes "tr_Action m = ''set_state''" and "sched_settled S m db"
  shows "fst (ApplySnapshot S e m db) = db"
proof (cases "ApplySnapshot S e m db")
  case (Pair db' res)
  show ?thesis
  proof (cases res)
    case (Inl err)
    then show ?thesis using Pair ApplySnapshot_Inl by fastforce
  next
    case (Inr u)
    with Pair have "ApplySnapshot S e m db = (db', Inr u)" by simp
    then show ?thesis
    proof (rule ApplySnapshot_Inr)
      fix pid t n
      assume up: "upsert_url (se_uuid e 0) (se_now e) pid m (scheduled_urls db) = Some (t, n)"
        and db': "db' = db\<lparr>scheduled_urls := t\<rparr>"
      from up have "t = scheduled_urls db"
        by (cases rule: upsert_url_cases) (use assms in \<open>auto simp: sched_settled_def\<close>)
      then show ?thesis using Pair db' by simp
    qed
  qed
qed

lemma EnqueueForce_settled_noop:
  assumes "tr_Action m \<noteq> ''set_state''" and "sched_settled S m db"
  shows "fst (EnqueueForce S e m db) = db"
proof (cases "EnqueueForce S e m db")
  case (Pair db' res)
  show ?thesis
  proof (cases res)
    case (Inl err)
    then show ?thesis using Pair EnqueueForce_Inl by fastforce
  next
    case (Inr u)
    with Pair have "EnqueueForce S e m db = (db', Inr u)" by simp
    then show ?thesis
      by (rule EnqueueForce_Inr) (use assms Pair in \<open>auto simp: sched_settled_def\<close>)
  qed
qed

section \<open>The service\<close>

text \<open>
  Besides the deliveries: the tick, and the calls of the outbox worker (whose table is the
  scheduler's own).
\<close>

datatype sched_work =
    WTick senv
  | WClaim oenv nat duration
  | WMark oenv uuid uuid
  | WRetry oenv uuid uuid string duration

fun sched_own :: "sched_work \<Rightarrow> sched_db \<Rightarrow> sched_db" where
  "sched_own (WTick e) db = dispatch e db"
| "sched_own (WClaim e n d) db = db\<lparr>scheduler_outbox := fst (sc_Claim e n d (scheduler_outbox db))\<rparr>"
| "sched_own (WMark e i tok) db = db\<lparr>scheduler_outbox := fst (sc_MarkPublished e i tok (scheduler_outbox db))\<rparr>"
| "sched_own (WRetry e i tok er d) db =
     db\<lparr>scheduler_outbox := fst (sc_Retry e i tok er d (scheduler_outbox db))\<rparr>"

type_synonym sched_steps = "(senv, TrackRequest, sched_work) service_step list"

definition sched_run :: "services \<Rightarrow> sched_steps \<Rightarrow> sched_db \<Rightarrow> sched_db" where
  "sched_run S = run_steps (sched_process S) sched_own"

definition advance :: "senv \<Rightarrow> scheduled_url \<Rightarrow> scheduled_url" where
  "advance e r = r\<lparr>su_next_check_at := se_now e + su_check_interval_hours r * hour\<rparr>"

lemma advance_simps [simp]:
  "su_id (advance e r) = su_id r" "su_product_id (advance e r) = su_product_id r"
  "su_url (advance e r) = su_url r" "su_platform (advance e r) = su_platform r"
  "su_check_interval_hours (advance e r) = su_check_interval_hours r"
  "su_active (advance e r) = su_active r" "su_monitor_version (advance e r) = su_monitor_version r"
  "su_next_check_at (advance e r) = se_now e + su_check_interval_hours r * hour"
  by (simp_all add: advance_def)

definition due_outbox :: "senv \<Rightarrow> nat \<Rightarrow> scheduled_url list \<Rightarrow> outbox" where
  "due_outbox e k ds =
     map (\<lambda>(j, d). new_outbox_row (se_uuid e (2 * j + 1)) (se_now e) (''periodic:'' @ se_uuid e (2 * j))
            QueueScraperTasks (JScraper (due_task e j d))) (enumerate k ds)"

lemma due_outbox_Cons: "due_outbox e k (d # ds) =
    new_outbox_row (se_uuid e (2 * k + 1)) (se_now e) (''periodic:'' @ se_uuid e (2 * k))
      QueueScraperTasks (JScraper (due_task e k d)) # due_outbox e (Suc k) ds"
  by (simp add: due_outbox_def)

lemma update_where_twice:
  assumes "\<And>r. P (f r) = P r" "\<And>r. Q (f r) = Q r" "\<And>r. f (f r) = f r"
  shows "update_where Q f (update_where P f t) = update_where (\<lambda>r. P r \<or> Q r) f t"
  using assms by (auto simp: update_where_def)

lemma due_loop_Some:
  assumes "due_loop e k ds db = Some db'"
  shows "scheduled_urls db' = update_where (\<lambda>r. su_id r \<in> su_id ` set ds) (advance e) (scheduled_urls db)"
    and "scheduler_outbox db' = scheduler_outbox db @ due_outbox e k ds"
    and "processed_force_commands db' = processed_force_commands db"
    and "ob_wf (scheduler_outbox db) \<Longrightarrow> ob_wf (scheduler_outbox db')"
    and "ob_keyed (scheduler_outbox db) \<Longrightarrow> ob_keyed (scheduler_outbox db')"
proof -
  have "scheduled_urls db' = update_where (\<lambda>r. su_id r \<in> su_id ` set ds) (advance e) (scheduled_urls db)
    \<and> scheduler_outbox db' = scheduler_outbox db @ due_outbox e k ds
    \<and> processed_force_commands db' = processed_force_commands db
    \<and> (ob_wf (scheduler_outbox db) \<longrightarrow> ob_wf (scheduler_outbox db'))
    \<and> (ob_keyed (scheduler_outbox db) \<longrightarrow> ob_keyed (scheduler_outbox db'))"
    using assms
  proof (induction ds arbitrary: k db)
    case Nil
    then show ?case by (simp add: due_outbox_def update_where_none)
  next
    case (Cons d ds)
    define adv where "adv = update_where (\<lambda>r. su_id r = su_id d) (advance e) (scheduled_urls db)"
    from Cons.prems obtain ob where
      ins: "sc_insert (se_uuid e (2 * k + 1)) (se_now e) (''periodic:'' @ se_uuid e (2 * k)) QueueScraperTasks
              (JScraper (due_task e k d)) (scheduler_outbox db) = Some ob"
      and rest: "due_loop e (Suc k) ds (db\<lparr>scheduler_outbox := ob, scheduled_urls := adv\<rparr>) = Some db'"
      by (auto simp: adv_def advance_def [abs_def] due_task_def split: if_splits option.splits)
    define x where "x = new_outbox_row (se_uuid e (2 * k + 1)) (se_now e) (''periodic:'' @ se_uuid e (2 * k))
        QueueScraperTasks (JScraper (due_task e k d))"
    have ob: "ob = scheduler_outbox db @ [x]"
      and new: "\<forall>r \<in> set (scheduler_outbox db). ob_event_key r \<noteq> ob_event_key x \<and> ob_id r \<noteq> ob_id x"
      using ins by (auto simp: sc_insert_cases x_def)
    have wf: "ob_wf (scheduler_outbox db) \<Longrightarrow> ob_wf ob"
      "ob_keyed (scheduler_outbox db) \<Longrightarrow> ob_keyed ob"
      using new by (auto simp: ob ob_wf_def ob_keyed_def)
    have out: "due_outbox e k (d # ds) = x # due_outbox e (Suc k) ds"
      unfolding x_def by (rule due_outbox_Cons)
    have "update_where (\<lambda>r. su_id r \<in> su_id ` set ds) (advance e) adv
        = update_where (\<lambda>r. su_id r \<in> su_id ` set (d # ds)) (advance e) (scheduled_urls db)"
      unfolding adv_def by (subst update_where_twice) (auto simp: advance_def)
    then show ?case
      using Cons.IH [OF rest] ob wf out by auto
  qed
  then show "scheduled_urls db' = update_where (\<lambda>r. su_id r \<in> su_id ` set ds) (advance e) (scheduled_urls db)"
    "scheduler_outbox db' = scheduler_outbox db @ due_outbox e k ds"
    "processed_force_commands db' = processed_force_commands db"
    "ob_wf (scheduler_outbox db) \<Longrightarrow> ob_wf (scheduler_outbox db')"
    "ob_keyed (scheduler_outbox db) \<Longrightarrow> ob_keyed (scheduler_outbox db')"
    by auto
qed

lemma EnqueueDue_Inl: "EnqueueDue e db = (db', Inl err) \<Longrightarrow> db' = db"
  by (auto simp: EnqueueDue_def Let_def split: if_splits option.splits)

lemma EnqueueDue_Inr: "EnqueueDue e db = (db', Inr n) \<Longrightarrow>
    due_loop e 0 (due_rows e (scheduled_urls db)) db = Some db' \<and> n = length (due_rows e (scheduled_urls db))"
  by (auto simp: EnqueueDue_def Let_def split: if_splits option.splits)

text \<open>A dispatch either changes nothing or does the whole batch.\<close>

lemma dispatch_cases:
  obtains "dispatch e db = db"
  | "due_loop e 0 (due_rows e (scheduled_urls db)) db = Some (dispatch e db)"
proof (cases "EnqueueDue e db")
  case (Pair db' res)
  then show ?thesis using that EnqueueDue_Inl EnqueueDue_Inr by (cases res) (fastforce simp: dispatch_def)+
qed

lemma set_due_rows: "r \<in> set (due_rows e t) \<Longrightarrow> r \<in> set t \<and> su_active r \<and> su_next_check_at r \<le> se_now e"
  unfolding due_rows_def by (drule in_set_takeD) simp

section \<open>The invariant\<close>

definition url_ok :: "scheduled_url \<Rightarrow> bool" where
  "url_ok r \<longleftrightarrow> su_platform r = ''wb'' \<and> canonical (su_url r) \<and> 0 < su_check_interval_hours r
     \<and> 0 < su_monitor_version r"

fun scrapes_canonical :: "json \<Rightarrow> bool" where
  "scrapes_canonical (JScraper t) = (canonical (st_URL t) \<and> st_Platform t = ''wb'')"
| "scrapes_canonical _ = False"

definition sched_wf :: "sched_db \<Rightarrow> bool" where
  "sched_wf db \<longleftrightarrow>
     distinct (map su_id (scheduled_urls db)) \<and> distinct (map su_url (scheduled_urls db))
   \<and> distinct (map su_product_id (scheduled_urls db)) \<and> (\<forall>r \<in> set (scheduled_urls db). url_ok r)
   \<and> ob_wf (scheduler_outbox db) \<and> ob_keyed (scheduler_outbox db)
   \<and> (\<forall>r \<in> set (scheduler_outbox db). ob_queue r = QueueScraperTasks \<and> scrapes_canonical (ob_payload r))
   \<and> distinct (map fst (processed_force_commands db))
   \<and> (\<forall>tid. ''force:'' @ tid \<in> ob_event_key ` set (scheduler_outbox db)
        \<longleftrightarrow> tid \<in> fst ` set (processed_force_commands db))"

definition empty_sched :: sched_db where
  "empty_sched = \<lparr>scheduled_urls = [], scheduler_outbox = [], processed_force_commands = []\<rparr>"

lemma sched_wf_empty: "sched_wf empty_sched"
  by (simp add: sched_wf_def empty_sched_def ob_wf_def ob_keyed_def)

lemma sched_wf_outbox:
  assumes "sched_wf db" and "ob_static t = ob_static (scheduler_outbox db)"
  shows "sched_wf (db\<lparr>scheduler_outbox := t\<rparr>)"
proof -
  have keys: "ob_event_key ` set t = ob_event_key ` set (scheduler_outbox db)"
    using ob_static_cong(3) [OF assms(2)] by (metis set_map)
  show ?thesis using assms(1) keys ob_static_cong(1,2) [OF assms(2)]
      ob_static_cong(4) [OF assms(2), of "\<lambda>_ q p. q = QueueScraperTasks \<and> scrapes_canonical p"]
    by (simp add: sched_wf_def)
qed

lemma sched_wf_urls:
  assumes "sched_wf db" and "\<forall>r \<in> set t. url_ok r"
    and "distinct (map su_id t)" "distinct (map su_url t)" "distinct (map su_product_id t)"
  shows "sched_wf (db\<lparr>scheduled_urls := t\<rparr>)"
  using assms by (simp add: sched_wf_def)

lemma ApplySnapshot_wf: "sched_wf db \<Longrightarrow> ApplySnapshot S e m db = (db', Inr u) \<Longrightarrow> sched_wf db'"
proof (erule ApplySnapshot_Inr)
  fix pid t n
  assume wf: "sched_wf db" and m: "0 < tr_Version m" "0 < tr_IntervalHours m"
    "validWBIdentity (tr_URL m) (tr_Platform m)"
    and up: "upsert_url (se_uuid e 0) (se_now e) pid m (scheduled_urls db) = Some (t, n)"
    and db': "db' = db\<lparr>scheduled_urls := t\<rparr>"
  from m have plat: "tr_Platform m = ''wb''" "canonical (tr_URL m)" by (simp_all add: validWBIdentity_iff)
  from up show ?thesis
  proof (cases rule: upsert_url_cases)
    case inserted
    have "url_ok (fresh_row (se_uuid e 0) (se_now e) pid m)" using m plat by (simp add: url_ok_def)
    moreover have "\<forall>x \<in> set (scheduled_urls db). su_url x \<noteq> tr_URL m"
      using inserted(1) by (auto dest: find_NoneD)
    ultimately show ?thesis using wf inserted(2,3) unfolding db'
      by (intro sched_wf_urls) (auto simp: sched_wf_def)
  next
    case (updated r)
    have "url_ok (take_over m x)" if "url_ok x" for x using that m plat by (simp add: url_ok_def)
    then show ?thesis using wf updated(4) unfolding db'
      by (intro sched_wf_urls) (auto simp: sched_wf_def set_update_where map_update_where)
  next
    case kept
    then show ?thesis using wf db' by simp
  qed
qed

lemma EnqueueForce_wf: "sched_wf db \<Longrightarrow> EnqueueForce S e m db = (db', Inr u) \<Longrightarrow> sched_wf db'"
proof (erule EnqueueForce_Inr)
  fix pid tid
  assume wf: "sched_wf db" and m: "validWBIdentity (tr_URL m) (tr_Platform m)"
    and d: "tid \<in> fst ` set (processed_force_commands db) \<and> db' = db
     \<or> tid \<notin> fst ` set (processed_force_commands db)
       \<and> sc_insert (se_uuid e 0) (se_now e) (''force:'' @ tid) QueueScraperTasks
           (JScraper (force_task e tid pid m)) (scheduler_outbox db) = Some (scheduler_outbox db')
       \<and> processed_force_commands db' = processed_force_commands db @ [(tid, pid)]
       \<and> scheduled_urls db' = scheduled_urls db"
  from m have c: "scrapes_canonical (JScraper (force_task e tid pid m))"
    by (simp add: force_task_def validWBIdentity_iff)
  show ?thesis
  proof (cases "tid \<in> fst ` set (processed_force_commands db)")
    case True
    with d wf show ?thesis by blast
  next
    case False
    define x where "x = new_outbox_row (se_uuid e 0) (se_now e) (''force:'' @ tid) QueueScraperTasks
        (JScraper (force_task e tid pid m))"
    have out: "scheduler_outbox db' = scheduler_outbox db @ [x]"
      and new: "\<forall>r \<in> set (scheduler_outbox db). ob_event_key r \<noteq> ob_event_key x \<and> ob_id r \<noteq> ob_id x"
      and x: "ob_event_key x = ''force:'' @ tid" "ob_queue x = QueueScraperTasks" "scrapes_canonical (ob_payload x)"
      using d False c by (auto simp: sc_insert_cases x_def)
    have "ob_wf (scheduler_outbox db')" "ob_keyed (scheduler_outbox db')"
      using wf new by (auto simp: out sched_wf_def ob_wf_def ob_keyed_def)
    then show ?thesis using wf d False x unfolding sched_wf_def out by auto
  qed
qed

lemma periodic_not_force [simp]: "''force:'' @ a \<noteq> ''periodic:'' @ b" "''periodic:'' @ b \<noteq> ''force:'' @ a"
  by simp_all

lemma due_loop_wf:
  assumes "sched_wf db" and "due_loop e k ds db = Some db'" and "set ds \<subseteq> set (scheduled_urls db)"
  shows "sched_wf db'"
proof -
  note loop = due_loop_Some [OF assms(2)]
  have new: "ob_queue r = QueueScraperTasks \<and> scrapes_canonical (ob_payload r) \<and> (\<forall>a. ob_event_key r \<noteq> ''force:'' @ a)"
    if "r \<in> set (due_outbox e k ds)" for r
  proof -
    from that obtain j d where d: "(j, d) \<in> set (enumerate k ds)" and
      r: "r = new_outbox_row (se_uuid e (2 * j + 1)) (se_now e) (''periodic:'' @ se_uuid e (2 * j))
            QueueScraperTasks (JScraper (due_task e j d))"
      by (auto simp: due_outbox_def)
    from d have "d \<in> set ds" by (simp add: in_set_enumerate_eq) (metis nth_mem add_diff_inverse_nat less_diff_conv2)
    with assms(1,3) have "url_ok d" by (auto simp: sched_wf_def)
    then show ?thesis by (simp add: r due_task_def url_ok_def)
  qed
  have urls: "\<forall>r \<in> set (scheduled_urls db'). url_ok r"
    using assms(1) unfolding loop(1) by (auto simp: sched_wf_def set_update_where url_ok_def)
  have keys: "''force:'' @ tid \<in> ob_event_key ` set (scheduler_outbox db')
      \<longleftrightarrow> ''force:'' @ tid \<in> ob_event_key ` set (scheduler_outbox db)" for tid
  proof -
    have "''force:'' @ tid \<notin> ob_event_key ` set (due_outbox e k ds)"
    proof
      assume "''force:'' @ tid \<in> ob_event_key ` set (due_outbox e k ds)"
      then obtain r where "r \<in> set (due_outbox e k ds)" "''force:'' @ tid = ob_event_key r" by (rule imageE)
      with new show False by metis
    qed
    then show ?thesis by (simp only: loop(2) set_append image_Un Un_iff simp_thms)
  qed
  show ?thesis
    using assms(1) urls new loop(4,5) keys unfolding sched_wf_def loop(1,3)
    by (simp add: map_update_where) (auto simp: loop(2))
qed

lemma dispatch_wf: "sched_wf db \<Longrightarrow> sched_wf (dispatch e db)"
proof (rule dispatch_cases [of e db])
  assume "sched_wf db" and l: "due_loop e 0 (due_rows e (scheduled_urls db)) db = Some (dispatch e db)"
  then show "sched_wf (dispatch e db)" by (rule due_loop_wf) (use set_due_rows in blast)
qed simp

lemma sched_process_wf: "sched_wf db \<Longrightarrow> sched_wf (fst (sched_process S e m db))"
proof (cases "sched_process S e m db")
  case (Pair db' res)
  assume wf: "sched_wf db"
  show ?thesis
  proof (cases res)
    case (Inl err)
    then show ?thesis using Pair wf sched_process_Inl by fastforce
  next
    case (Inr u)
    with Pair consider "ApplySnapshot S e m db = (db', Inr u)" | "EnqueueForce S e m db = (db', Inr u)"
      by (cases "tr_Action m = ''set_state''"; cases "tr_Action m = ''force''") (simp_all add: sched_process_def)
    then show ?thesis using Pair ApplySnapshot_wf [OF wf] EnqueueForce_wf [OF wf] by cases simp_all
  qed
qed

lemma sched_own_wf: "sched_wf db \<Longrightarrow> sched_wf (sched_own x db)"
  by (cases x) (simp_all add: dispatch_wf sched_wf_outbox)

lemma sched_run_wf: "sched_wf db \<Longrightarrow> sched_wf (sched_run S xs db)"
  unfolding sched_run_def by (rule run_steps_invariant) (simp_all add: sched_process_wf sched_own_wf)

section \<open>Settled requests stay settled\<close>

lemma find_key_advance: "find (\<lambda>r. su_url r = u) (update_where P (advance e) t)
    = map_option (\<lambda>r. if P r then advance e r else r) (find (\<lambda>r. su_url r = u) t)"
  by (rule find_url_update) simp

lemma dispatch_mono:
  "url_le (scheduled_urls db) (scheduled_urls (dispatch e db))
   \<and> processed_force_commands (dispatch e db) = processed_force_commands db"
proof (rule dispatch_cases [of e db])
  assume "due_loop e 0 (due_rows e (scheduled_urls db)) db = Some (dispatch e db)"
  from due_loop_Some(1,3) [OF this] show ?thesis by (auto simp: url_le_def find_key_advance)
qed simp

lemma sched_own_settled: "sched_settled S m db \<Longrightarrow> sched_settled S m (sched_own x db)"
proof (cases x)
  case (WTick e)
  assume "sched_settled S m db"
  then show ?thesis using dispatch_mono [of db e] settled_mono [of S m db "dispatch e db"] by (simp add: WTick)
qed (simp_all add: sched_settled_def)

interpretation track: at_least_once "sched_process S" sched_own "sched_settled S" for S
proof unfold_locales
  show "s' = s" if "sched_process S e m s = (s', Inl err)" for e m s s' err
    using that by (rule sched_process_Inl)
  show "sched_settled S m s'" if p: "sched_process S e m s = (s', Inr u)" for e m s s' u
  proof (cases "tr_Action m = ''set_state''")
    case True
    then show ?thesis using p ApplySnapshot_settles by (simp add: sched_process_def)
  next
    case False
    then have "EnqueueForce S e m s = (s', Inr u)"
      using p by (simp add: sched_process_def split: if_splits)
    then show ?thesis using False
      by (elim EnqueueForce_Inr) (auto simp: sched_settled_def)
  qed
  show "sched_settled S m (fst (sched_process S e m' s))" if "sched_settled S m s" for m e m' s
    using that sched_process_mono [of s S e m'] settled_mono by blast
  show "sched_settled S m (sched_own x s)" if "sched_settled S m s" for m x s
    using that by (rule sched_own_settled)
  show "fst (sched_process S e m s) = s" if "sched_settled S m s" for m e s
    using that ApplySnapshot_settled_noop EnqueueForce_settled_noop by (simp add: sched_process_def)
qed

section \<open>Convergence of snapshots\<close>

definition valid_snapshot :: "services \<Rightarrow> uuid \<Rightarrow> TrackRequest \<Rightarrow> bool" where
  "valid_snapshot S pid m \<longleftrightarrow> tr_Action m = ''set_state'' \<and> 0 < tr_Version m \<and> 0 < tr_IntervalHours m
     \<and> tr_IntervalHours m < 2 ^ 31 \<and> uuid_parse S (tr_ProductID m) = Some pid
     \<and> uuid_parse S (tr_TaskID m) \<noteq> None \<and> validWBIdentity (tr_URL m) (tr_Platform m)"

text \<open>The state a snapshot describes, and the one a row holds.\<close>

definition snap_state :: "TrackRequest \<Rightarrow> int \<times> string \<times> int \<times> bool" where
  "snap_state m = (tr_Version m, tr_Platform m, tr_IntervalHours m, tr_Active m)"

definition row_state :: "scheduled_url \<Rightarrow> int \<times> string \<times> int \<times> bool" where
  "row_state r = (su_monitor_version r, su_platform r, su_check_interval_hours r, su_active r)"

text \<open>Not newer than the snapshot \<open>m\<close>, and equal to it when of its version.\<close>

definition not_newer :: "TrackRequest \<Rightarrow> int \<times> string \<times> int \<times> bool \<Rightarrow> bool" where
  "not_newer m x \<longleftrightarrow> fst x \<le> tr_Version m \<and> (fst x = tr_Version m \<longrightarrow> x = snap_state m)"

definition row_upto :: "uuid \<Rightarrow> TrackRequest \<Rightarrow> scheduled_url \<Rightarrow> bool" where
  "row_upto pid m r \<longleftrightarrow> (su_url r = tr_URL m \<or> su_product_id r = pid \<longrightarrow>
     su_url r = tr_URL m \<and> su_product_id r = pid \<and> not_newer m (row_state r))"

definition product_upto :: "uuid \<Rightarrow> TrackRequest \<Rightarrow> sched_db \<Rightarrow> bool" where
  "product_upto pid m db \<longleftrightarrow> (\<forall>r \<in> set (scheduled_urls db). row_upto pid m r)"

lemma product_upto_cong:
  "scheduled_urls db' = scheduled_urls db \<Longrightarrow> product_upto pid m db \<Longrightarrow> product_upto pid m db'"
  by (simp add: product_upto_def)

lemma product_upto_find:
  assumes "product_upto pid m db" and "find P (scheduled_urls db) = Some r"
  shows "row_upto pid m r" and "P r"
  using assms find_SomeD [OF assms(2)] by (auto simp: product_upto_def)

lemma row_state_simps [simp]:
  "row_state (fresh_row i now pid m) = snap_state m" "row_state (take_over m r) = snap_state m"
  "row_state (advance e r) = row_state r"
  by (simp_all add: row_state_def snap_state_def)

lemma row_upto_advance [simp]: "row_upto pid m (advance e r) = row_upto pid m r"
  by (simp add: row_upto_def)

definition same_product :: "services \<Rightarrow> uuid \<Rightarrow> TrackRequest \<Rightarrow> TrackRequest \<Rightarrow> bool" where
  "same_product S pid m m' \<longleftrightarrow> tr_Action m' = ''set_state'' \<and>
     (tr_URL m' = tr_URL m \<or> uuid_parse S (tr_ProductID m') = Some pid)"

lemma product_upto_process:
  assumes "product_upto pid m db"
    and m': "same_product S pid m m' \<longrightarrow> tr_URL m' = tr_URL m \<and> uuid_parse S (tr_ProductID m') = Some pid
      \<and> not_newer m (snap_state m')"
  shows "product_upto pid m (fst (sched_process S e m' db))"
proof (cases "sched_process S e m' db")
  case (Pair db' res)
  show ?thesis
  proof (cases res)
    case (Inl err)
    then show ?thesis using Pair assms(1) sched_process_Inl by fastforce
  next
    case (Inr u)
    with Pair consider (snap) "tr_Action m' = ''set_state''" "ApplySnapshot S e m' db = (db', Inr u)"
      | (force) "EnqueueForce S e m' db = (db', Inr u)"
      by (cases "tr_Action m' = ''set_state''"; cases "tr_Action m' = ''force''") (simp_all add: sched_process_def)
    then show ?thesis
    proof cases
      case force
      then show ?thesis using assms(1) Pair by (elim EnqueueForce_Inr)
          (metis fst_conv product_upto_cong)
    next
      case snap
      from snap(2) show ?thesis
      proof (rule ApplySnapshot_Inr)
        fix p t n
        assume p: "uuid_parse S (tr_ProductID m') = Some p"
          and up: "upsert_url (se_uuid e 0) (se_now e) p m' (scheduled_urls db) = Some (t, n)"
          and db': "db' = db\<lparr>scheduled_urls := t\<rparr>"
        have m'': "tr_URL m' = tr_URL m \<and> p = pid \<and> not_newer m (snap_state m')"
          if "tr_URL m' = tr_URL m \<or> p = pid"
          using m' that p snap(1) by (auto simp: same_product_def)
        from up show ?thesis
        proof (cases rule: upsert_url_cases)
          case inserted
          have "row_upto pid m (fresh_row (se_uuid e 0) (se_now e) p m')"
            using m'' by (cases "tr_URL m' = tr_URL m \<or> p = pid") (simp_all add: row_upto_def)
          then show ?thesis using assms(1) inserted(3) by (auto simp: Pair db' product_upto_def)
        next
          case (updated r)
          have "row_upto pid m (take_over m' y)"
            if "row_upto pid m y" "su_url y = tr_URL m'" for y
          proof (cases "tr_URL m' = tr_URL m \<or> su_product_id y = pid")
            case True
            with that have "tr_URL m' = tr_URL m" "su_product_id y = pid" by (auto simp: row_upto_def)
            with that m'' show ?thesis by (simp add: row_upto_def)
          next
            case False
            with that show ?thesis by (simp add: row_upto_def)
          qed
          then have "\<forall>x \<in> set (update_where (\<lambda>x. su_url x = tr_URL m') (take_over m') (scheduled_urls db)). row_upto pid m x"
            using assms(1) unfolding product_upto_def by (intro ball_update_where) blast+
          then show ?thesis by (simp add: product_upto_def Pair db' updated(4))
        next
          case kept
          then show ?thesis using assms(1) by (simp add: Pair db')
        qed
      qed
    qed
  qed
qed

lemma product_upto_own: "product_upto pid m db \<Longrightarrow> product_upto pid m (sched_own x db)"
proof (cases x)
  case (WTick e)
  assume p: "product_upto pid m db"
  have "product_upto pid m (dispatch e db)"
  proof (rule dispatch_cases [of e db])
    assume "due_loop e 0 (due_rows e (scheduled_urls db)) db = Some (dispatch e db)"
    then have "scheduled_urls (dispatch e db) = update_where
        (\<lambda>r. su_id r \<in> su_id ` set (due_rows e (scheduled_urls db))) (advance e) (scheduled_urls db)"
      by (rule due_loop_Some(1))
    with p show ?thesis unfolding product_upto_def
      by (simp only:) (rule ball_update_where, simp_all)
  qed (simp add: p)
  then show ?thesis by (simp add: WTick)
qed (simp_all add: product_upto_def)

text \<open>A valid snapshot succeeds where no statement fails and the identities agree.\<close>

lemma ApplySnapshot_ok:
  assumes v: "valid_snapshot S pid m" and f: "\<forall>k. \<not> se_flt e k"
    and up: "product_upto pid m db" and i: "se_uuid e 0 \<notin> su_id ` set (scheduled_urls db)"
  shows "snd (ApplySnapshot S e m db) = Inr ()"
proof -
  have byid: "su_url r = tr_URL m" if "find (\<lambda>r. su_product_id r = pid) (scheduled_urls db) = Some r" for r
    using product_upto_find [OF up that] by (simp add: row_upto_def)
  have byurl: "su_product_id r = pid" if "find (\<lambda>r. su_url r = tr_URL m) (scheduled_urls db) = Some r" for r
    using product_upto_find [OF up that] by (simp add: row_upto_def)
  obtain t n where t: "upsert_url (se_uuid e 0) (se_now e) pid m (scheduled_urls db) = Some (t, n)"
    and n: "n = 0 \<longrightarrow> (\<exists>r. find (\<lambda>r. su_url r = tr_URL m) t = Some r \<and> su_product_id r = pid)"
  proof (cases "find (\<lambda>r. su_url r = tr_URL m) (scheduled_urls db)")
    case None
    have "su_product_id x \<noteq> pid \<and> su_id x \<noteq> se_uuid e 0" if x: "x \<in> set (scheduled_urls db)" for x
    proof -
      have "su_url x \<noteq> tr_URL m" using find_NoneD [OF None x] by simp
      moreover have "row_upto pid m x" using up x by (simp add: product_upto_def)
      ultimately have "su_product_id x \<noteq> pid" by (simp add: row_upto_def)
      moreover have "su_id x \<noteq> se_uuid e 0" using i x by (metis image_eqI)
      ultimately show ?thesis by blast
    qed
    then have "\<not> exists_where (\<lambda>x. su_product_id x = pid \<or> su_id x = se_uuid e 0) (scheduled_urls db)"
      by (auto simp: exists_where_iff)
    with None that show ?thesis by (simp add: upsert_url_def)
  next
    case (Some r)
    with that byurl show ?thesis by (cases "su_monitor_version r < tr_Version m") (auto simp: upsert_url_def)
  qed
  then show ?thesis
    using v f byid by (auto simp: valid_snapshot_def ApplySnapshot_def split: option.splits)
qed

lemma product_upto_run:
  assumes "product_upto pid m db"
    and "\<forall>e m'. Deliver e m' \<in> set xs \<and> same_product S pid m m' \<longrightarrow>
      tr_URL m' = tr_URL m \<and> uuid_parse S (tr_ProductID m') = Some pid \<and> not_newer m (snap_state m')"
  shows "product_upto pid m (sched_run S xs db)"
  unfolding sched_run_def
  by (rule run_steps_invariant [where I = "product_upto pid m", OF assms(1)])
    (rule product_upto_process, assumption, use assms(2) in blast, rule product_upto_own)

lemma settled_at_version:
  assumes s: "sched_settled S m db" and up: "product_upto pid m db" and v: "valid_snapshot S pid m"
  obtains r where "find (\<lambda>r. su_url r = tr_URL m) (scheduled_urls db) = Some r"
    "su_product_id r = pid" "row_state r = snap_state m"
proof -
  from s v obtain r where r: "find (\<lambda>r. su_url r = tr_URL m) (scheduled_urls db) = Some r"
    "su_product_id r = pid" "tr_Version m \<le> su_monitor_version r"
    by (auto simp: sched_settled_def valid_snapshot_def)
  from product_upto_find [OF up r(1)] r(2,3) have "row_state r = snap_state m"
    by (auto simp: row_upto_def not_newer_def row_state_def)
  with r that show ?thesis by blast
qed

lemma product_upto_converges:
  assumes v: "valid_snapshot S pid m"
    and up: "product_upto pid m db"
    and others: "\<forall>e m'. Deliver e m' \<in> set (xs @ ys) \<and> same_product S pid m m' \<longrightarrow>
      tr_URL m' = tr_URL m \<and> uuid_parse S (tr_ProductID m') = Some pid \<and> not_newer m (snap_state m')"
    and ok: "\<forall>k. \<not> se_flt e k"
    and fresh: "se_uuid e 0 \<notin> su_id ` set (scheduled_urls (sched_run S xs db))"
  shows "\<exists>r. find (\<lambda>r. su_url r = tr_URL m) (scheduled_urls (sched_run S (xs @ Deliver e m # ys) db)) = Some r
    \<and> su_product_id r = pid \<and> row_state r = snap_state m"
proof -
  define db1 where "db1 = sched_run S xs db"
  define db2 where "db2 = fst (sched_process S e m db1)"
  have up1: "product_upto pid m db1"
    unfolding db1_def using others by (intro product_upto_run [OF up]) auto
  have a: "tr_Action m = ''set_state''" using v by (simp add: valid_snapshot_def)
  have "snd (sched_process S e m db1) = Inr ()"
    using ApplySnapshot_ok [OF v ok up1] fresh a by (simp add: sched_process_def db1_def)
  then have p: "sched_process S e m db1 = (db2, Inr ())" by (simp add: db2_def prod_eq_iff)
  have up2: "product_upto pid m db2"
    unfolding db2_def by (rule product_upto_process [OF up1])
      (use v in \<open>auto simp: valid_snapshot_def not_newer_def snap_state_def\<close>)
  have final: "sched_run S (xs @ Deliver e m # ys) db = sched_run S ys db2"
    by (simp add: sched_run_def run_steps_append db1_def db2_def)
  have "sched_settled S m (sched_run S ys db2)"
    unfolding sched_run_def by (rule track.settled_run) (rule track.settles [OF p])
  moreover have "product_upto pid m (sched_run S ys db2)"
    using others by (intro product_upto_run [OF up2]) auto
  ultimately obtain r where "find (\<lambda>r. su_url r = tr_URL m) (scheduled_urls (sched_run S ys db2)) = Some r"
    "su_product_id r = pid" "row_state r = snap_state m"
    by (rule settled_at_version [OF _ _ v])
  then show ?thesis unfolding final by blast
qed

text \<open>
  The scheduler's monitoring state converges to the newest snapshot of the product,
  whatever the order, the repetitions and the failures of the deliveries and whatever ticks,
  force requests and outbox work happen in between: once the newest one was delivered without
  a fault, the product's row is the only one with its URL and holds exactly its state.
\<close>

theorem snapshot_convergence:
  assumes v: "valid_snapshot S pid m"
    and up: "product_upto pid m db"
    and others: "\<forall>e m'. Deliver e m' \<in> set (xs @ ys) \<and> same_product S pid m m' \<longrightarrow>
      tr_URL m' = tr_URL m \<and> uuid_parse S (tr_ProductID m') = Some pid \<and> not_newer m (snap_state m')"
    and ok: "\<forall>k. \<not> se_flt e k"
    and fresh: "se_uuid e 0 \<notin> su_id ` set (scheduled_urls (sched_run S xs db))"
  shows "\<exists>r. find (\<lambda>r. su_url r = tr_URL m) (scheduled_urls (sched_run S (xs @ Deliver e m # ys) db)) = Some r
    \<and> su_product_id r = pid \<and> row_state r = snap_state m"
  using assms by (rule product_upto_converges)

definition demo_senv :: "time \<Rightarrow> string \<Rightarrow> senv" where
  "demo_senv now s = \<lparr>se_now = now, se_flt = no_faults, se_uuid = (\<lambda>k. s @ show_nat k), se_clock = (\<lambda>_. now),
     se_locked = (\<lambda>_. False)\<rparr>"

definition demo_snapshot :: "int \<Rightarrow> bool \<Rightarrow> TrackRequest" where
  "demo_snapshot v a = \<lparr>tr_TaskID = ''s'' @ show_int v, tr_Action = ''set_state'', tr_Version = v, tr_Active = a,
     tr_ProductID = ''p'', tr_URL = canonical_url ''42'', tr_Platform = ''wb'', tr_IntervalHours = 2, tr_ChatID = 0\<rparr>"

definition demo_force :: TrackRequest where
  "demo_force = \<lparr>tr_TaskID = ''f'', tr_Action = ''force'', tr_Version = 0, tr_Active = False,
     tr_ProductID = ''p'', tr_URL = canonical_url ''42'', tr_Platform = ''wb'', tr_IntervalHours = 0, tr_ChatID = 7\<rparr>"

lemma canonical_demo: "canonical (canonical_url ''42'')"
  unfolding canonical_def by (intro exI [of _ "''42''"]) (simp add: is_digit_def)

text \<open>The newest snapshot first, an older one and a force request after it.\<close>

theorem snapshot_convergence_witness:
  "\<exists>r. find (\<lambda>r. su_url r = canonical_url ''42'') (scheduled_urls (sched_run demo
       ([] @ Deliver (demo_senv 5 ''a'') (demo_snapshot 2 False) # [Deliver (demo_senv 6 ''b'') (demo_snapshot 1 True),
          Local (WTick (demo_senv 7 ''c'')), Deliver (demo_senv 8 ''d'') demo_force]) empty_sched)) = Some r
    \<and> su_product_id r = ''p'' \<and> row_state r = (2, ''wb'', 2, False)"
proof -
  let ?ys = "[Deliver (demo_senv 6 ''b'') (demo_snapshot 1 True), Local (WTick (demo_senv 7 ''c'')),
     Deliver (demo_senv 8 ''d'') demo_force]"
  have "valid_snapshot demo ''p'' (demo_snapshot 2 False)"
    by (simp add: valid_snapshot_def demo_snapshot_def validWBIdentity_iff canonical_demo demo_uuid_def)
  moreover have "product_upto ''p'' (demo_snapshot 2 False) empty_sched"
    by (simp add: product_upto_def empty_sched_def)
  moreover have "\<forall>e m'. Deliver e m' \<in> set ([] @ ?ys) \<and> same_product demo ''p'' (demo_snapshot 2 False) m' \<longrightarrow>
      tr_URL m' = tr_URL (demo_snapshot 2 False) \<and> uuid_parse demo (tr_ProductID m') = Some ''p''
      \<and> not_newer (demo_snapshot 2 False) (snap_state m')"
    by (auto simp: same_product_def demo_snapshot_def demo_force_def not_newer_def snap_state_def demo_uuid_def)
  moreover have "\<forall>k. \<not> se_flt (demo_senv 5 ''a'') k" by (simp add: demo_senv_def)
  moreover have "se_uuid (demo_senv 5 ''a'') 0 \<notin> su_id ` set (scheduled_urls (sched_run demo [] empty_sched))"
    by (simp add: sched_run_def empty_sched_def)
  ultimately have "\<exists>r. find (\<lambda>r. su_url r = tr_URL (demo_snapshot 2 False))
      (scheduled_urls (sched_run demo ([] @ Deliver (demo_senv 5 ''a'') (demo_snapshot 2 False) # ?ys) empty_sched)) = Some r
    \<and> su_product_id r = ''p'' \<and> row_state r = snap_state (demo_snapshot 2 False)"
    by (rule snapshot_convergence)
  moreover have "tr_URL (demo_snapshot 2 False) = canonical_url ''42''"
    "snap_state (demo_snapshot 2 False) = (2, ''wb'', 2, False)"
    by (simp_all add: demo_snapshot_def snap_state_def)
  ultimately show ?thesis by simp
qed

text \<open>
  C13: the scheduler's tables stay consistent under every sequence of deliveries, ticks and
  outbox calls: ids, URLs and products are unique, every monitored URL is a canonical
  Wildberries URL with a positive interval and version, every outbox event is a scraper task
  for such a URL under its own key, and a force command is recorded as processed exactly
  when its event is in the outbox.
\<close>

theorem scheduler_invariant:
  "sched_wf db \<Longrightarrow> sched_wf (sched_run S xs db)"
  by (rule sched_run_wf)

theorem scheduler_invariant_witness:
  "sched_wf (sched_run demo [Deliver (demo_senv 5 ''a'') (demo_snapshot 2 True),
     Local (WTick (demo_senv 7 ''c'')), Deliver (demo_senv 8 ''d'') demo_force] empty_sched)"
  by (rule scheduler_invariant) (rule sched_wf_empty)

text \<open>
  Redelivery is harmless: after a track request was processed once, all its later
  deliveries can be struck from the run without changing the result, and a delivery whose
  processing failed left the database unchanged and was given back to the queue, or dropped
  when the request is invalid.
\<close>

theorem track_redelivery:
  "(\<forall>db'. sched_process S e m db = (db', Inr ()) \<longrightarrow>
      sched_run S (Deliver e m # xs) db = sched_run S (Deliver e m # filter (\<lambda>x. \<not> delivers m x) xs) db)
   \<and> (\<forall>db' a. sched_handle S (e, Some m) db = (db', a) \<and> a \<noteq> Ack \<longrightarrow> db' = db \<and>
        a = (if snd (sched_process S e m db) = Inl ErrInvalidRequest then NackDrop else NackRequeue))"
proof (intro conjI allI impI)
  fix db'
  assume "sched_process S e m db = (db', Inr ())"
  then show "sched_run S (Deliver e m # xs) db = sched_run S (Deliver e m # filter (\<lambda>x. \<not> delivers m x) xs) db"
    unfolding sched_run_def by (rule track.redelivery)
next
  fix db' a
  assume h: "sched_handle S (e, Some m) db = (db', a) \<and> a \<noteq> Ack"
  obtain db1 res where p: "sched_process S e m db = (db1, res)" by fastforce
  with h obtain err where err: "res = Inl err"
    by (cases res) (auto simp: sched_handle_def settle_by_def)
  with p have "db1 = db" using track.atomic by blast
  with h p err show "db' = db"
    and "a = (if snd (sched_process S e m db) = Inl ErrInvalidRequest then NackDrop else NackRequeue)"
    by (auto simp: sched_handle_def settle_by_def)
qed

theorem track_redelivery_witness:
  "sched_run demo [Deliver (demo_senv 5 ''a'') (demo_snapshot 2 True), Deliver (demo_senv 6 ''b'') (demo_snapshot 2 True)] empty_sched
   = sched_run demo [Deliver (demo_senv 5 ''a'') (demo_snapshot 2 True)] empty_sched"
proof -
  have "snd (sched_process demo (demo_senv 5 ''a'') (demo_snapshot 2 True) empty_sched) = Inr ()"
    by (simp add: sched_process_def ApplySnapshot_def demo_snapshot_def validWBIdentity_iff canonical_demo
        demo_uuid_def demo_senv_def empty_sched_def upsert_url_def exists_where_def)
  then obtain db' where "sched_process demo (demo_senv 5 ''a'') (demo_snapshot 2 True) empty_sched = (db', Inr ())"
    by (metis prod.collapse)
  with track_redelivery [of demo "demo_senv 5 ''a''" "demo_snapshot 2 True" empty_sched
      "[Deliver (demo_senv 6 ''b'') (demo_snapshot 2 True)]"]
  show ?thesis by simp
qed

section \<open>Dispatching due URLs\<close>

lemma due_rows_props:
  shows "length (due_rows e t) \<le> dueBatchSize"
    and "set (due_rows e t) \<subseteq> {r \<in> set t. su_active r \<and> su_next_check_at r \<le> se_now e \<and> \<not> se_locked e (su_id r)}"
    and "length (due_rows e t) < dueBatchSize \<Longrightarrow> r \<in> set t \<Longrightarrow> su_active r \<Longrightarrow>
      su_next_check_at r \<le> se_now e \<Longrightarrow> \<not> se_locked e (su_id r) \<Longrightarrow> r \<in> set (due_rows e t)"
    and "distinct (map k t) \<Longrightarrow> distinct (map k (due_rows e t))"
proof -
  let ?s = "sort_key (\<lambda>r. (su_next_check_at r, su_id r))
     (filter (\<lambda>r. su_active r \<and> su_next_check_at r \<le> se_now e \<and> \<not> se_locked e (su_id r)) t)"
  show "length (due_rows e t) \<le> dueBatchSize" by (simp add: due_rows_def)
  show "set (due_rows e t) \<subseteq> {r \<in> set t. su_active r \<and> su_next_check_at r \<le> se_now e \<and> \<not> se_locked e (su_id r)}"
    unfolding due_rows_def by (auto dest!: in_set_takeD)
  show "r \<in> set (due_rows e t)" if "length (due_rows e t) < dueBatchSize" "r \<in> set t" "su_active r"
      "su_next_check_at r \<le> se_now e" "\<not> se_locked e (su_id r)"
  proof -
    have "due_rows e t = ?s" using that(1) unfolding due_rows_def by simp
    then show ?thesis using that by simp
  qed
  assume "distinct (map k t)"
  then have "distinct (map k (filter (\<lambda>r. su_active r \<and> su_next_check_at r \<le> se_now e \<and> \<not> se_locked e (su_id r)) t))"
    by (rule distinct_map_filter)
  then have "distinct (map k ?s)" by (simp add: distinct_map)
  then show "distinct (map k (due_rows e t))"
    unfolding due_rows_def by (simp add: take_map [symmetric] distinct_take)
qed

lemma due_outbox_payloads: "map ob_payload (due_outbox e k ds) = map (\<lambda>(j, d). JScraper (due_task e j d)) (enumerate k ds)"
  by (simp add: due_outbox_def new_outbox_row_def comp_def case_prod_beta)

text \<open>
  C14: a tick is atomic and queues each due URL once: on an error nothing changed; otherwise
  it took at most 100 active, due, unlocked rows of distinct products, all of them unless the
  batch is full, appended one task per row in that order to the outbox, unpublished, and
  moved exactly these rows' next check to their interval from now.
\<close>

theorem enqueue_due_spec:
  assumes "sched_wf db" and "EnqueueDue e db = (db', res)"
  shows "(case res of
      Inl _ \<Rightarrow> db' = db
    | Inr n \<Rightarrow> \<exists>batch. n = length batch \<and> n \<le> 100 \<and> distinct (map su_product_id batch)
        \<and> set batch \<subseteq> {r \<in> set (scheduled_urls db). su_active r \<and> su_next_check_at r \<le> se_now e}
        \<and> (n < 100 \<longrightarrow> (\<forall>r \<in> set (scheduled_urls db). su_active r \<and> su_next_check_at r \<le> se_now e
              \<and> \<not> se_locked e (su_id r) \<longrightarrow> r \<in> set batch))
        \<and> (\<exists>new. scheduler_outbox db' = scheduler_outbox db @ new \<and> (\<forall>x \<in> set new. ob_published_at x = None)
              \<and> map ob_payload new = map (\<lambda>(j, d). JScraper (due_task e j d)) (enumerate 0 batch))
        \<and> scheduled_urls db' = map (\<lambda>r. if r \<in> set batch then
              r\<lparr>su_next_check_at := se_now e + su_check_interval_hours r * hour\<rparr> else r) (scheduled_urls db)
        \<and> processed_force_commands db' = processed_force_commands db)"
proof (cases res)
  case (Inl err)
  then show ?thesis using EnqueueDue_Inl assms(2) by simp
next
  case (Inr n)
  define batch where "batch = due_rows e (scheduled_urls db)"
  have wf: "distinct (map su_id (scheduled_urls db))" "distinct (map su_product_id (scheduled_urls db))"
    using assms(1) by (auto simp: sched_wf_def)
  have l: "due_loop e 0 batch db = Some db'" and n: "n = length batch"
    using EnqueueDue_Inr assms(2) unfolding Inr batch_def by blast+
  note loop = due_loop_Some [OF l]
  have sub: "set batch \<subseteq> set (scheduled_urls db)" unfolding batch_def using due_rows_props(2) by blast
  have "su_id r \<in> su_id ` set batch \<longleftrightarrow> r \<in> set batch" if "r \<in> set (scheduled_urls db)" for r
    using that sub wf(1) distinct_key_eq [of su_id] by (smt (verit) image_iff subsetD)
  then have urls: "scheduled_urls db' = map (\<lambda>r. if r \<in> set batch then
      r\<lparr>su_next_check_at := se_now e + su_check_interval_hours r * hour\<rparr> else r) (scheduled_urls db)"
    unfolding loop(1) update_where_def advance_def by simp
  have "\<forall>x \<in> set (due_outbox e 0 batch). ob_published_at x = None" by (auto simp: due_outbox_def)
  then have out: "\<exists>new. scheduler_outbox db' = scheduler_outbox db @ new \<and> (\<forall>x \<in> set new. ob_published_at x = None)
      \<and> map ob_payload new = map (\<lambda>(j, d). JScraper (due_task e j d)) (enumerate 0 batch)"
    using loop(2) due_outbox_payloads by blast
  have "n \<le> 100" and all: "n < 100 \<longrightarrow> (\<forall>r \<in> set (scheduled_urls db). su_active r \<and> su_next_check_at r \<le> se_now e
      \<and> \<not> se_locked e (su_id r) \<longrightarrow> r \<in> set batch)"
    using due_rows_props(1,3) by (simp_all add: n batch_def dueBatchSize_def)
  moreover have "distinct (map su_product_id batch)"
    unfolding batch_def by (rule due_rows_props(4) [OF wf(2)])
  moreover have "set batch \<subseteq> {r \<in> set (scheduled_urls db). su_active r \<and> su_next_check_at r \<le> se_now e}"
    unfolding batch_def using due_rows_props(2) by blast
  ultimately show ?thesis
    unfolding Inr sum.case using n urls out loop(3) by (intro exI [of _ batch] conjI) assumption+
qed

definition demo_url :: "string \<Rightarrow> time \<Rightarrow> scheduled_url" where
  "demo_url i next = \<lparr>su_id = i, su_product_id = ''p'' @ i, su_url = canonical_url ''42'', su_platform = ''wb'',
     su_next_check_at = next, su_check_interval_hours = 2, su_active = True, su_monitor_version = 1\<rparr>"

definition demo_sched :: sched_db where
  "demo_sched = empty_sched\<lparr>scheduled_urls := [demo_url ''u'' 3]\<rparr>"

lemma demo_sched_wf: "sched_wf demo_sched"
  using sched_wf_empty
  by (simp add: demo_sched_def sched_wf_def demo_url_def url_ok_def canonical_demo empty_sched_def)

lemma demo_tick:
  "EnqueueDue (demo_senv 5 ''a'') demo_sched = (dispatch (demo_senv 5 ''a'') demo_sched, Inr 1)"
  "due_rows (demo_senv 5 ''a'') (scheduled_urls demo_sched) = [demo_url ''u'' 3]"
  by (simp_all add: EnqueueDue_def dispatch_def demo_sched_def demo_url_def due_rows_def dueBatchSize_def
      demo_senv_def empty_sched_def sc_insert_def exists_where_def due_task_def)

theorem enqueue_due_spec_witness:
  "\<exists>n. snd (EnqueueDue (demo_senv 5 ''a'') demo_sched) = Inr n \<and> n \<le> 100
     \<and> processed_force_commands (dispatch (demo_senv 5 ''a'') demo_sched) = []"
  using enqueue_due_spec [OF demo_sched_wf demo_tick(1)] demo_tick(1)
  by (auto simp: demo_sched_def empty_sched_def)

text \<open>The next check of a dispatched row is never pulled back below the hour.\<close>

definition not_before :: "uuid \<Rightarrow> time \<Rightarrow> sched_db \<Rightarrow> bool" where
  "not_before i T db \<longleftrightarrow> sched_wf db \<and> i \<in> su_id ` set (scheduled_urls db)
     \<and> (\<forall>r \<in> set (scheduled_urls db). su_id r = i \<longrightarrow> T \<le> su_next_check_at r)"

lemma not_before_update:
  assumes "not_before i T db" and "sched_wf (db\<lparr>scheduled_urls := update_where P f (scheduled_urls db)\<rparr>)"
    and "\<And>r. su_id (f r) = su_id r"
    and "\<And>r. r \<in> set (scheduled_urls db) \<Longrightarrow> P r \<Longrightarrow> su_id r = i \<Longrightarrow> T \<le> su_next_check_at (f r)"
  shows "not_before i T (db\<lparr>scheduled_urls := update_where P f (scheduled_urls db)\<rparr>)"
proof -
  have "su_id ` set (update_where P f (scheduled_urls db)) = su_id ` set (scheduled_urls db)"
    using map_update_where [of "scheduled_urls db" P su_id f] assms(3) by (metis set_map)
  moreover have "\<forall>r \<in> set (update_where P f (scheduled_urls db)). su_id r = i \<longrightarrow> T \<le> su_next_check_at r"
    using assms(1,3,4) by (intro ball_update_where) (auto simp: not_before_def)
  ultimately show ?thesis using assms(1,2) by (simp add: not_before_def)
qed

lemma not_before_cong:
  "not_before i T db \<Longrightarrow> scheduled_urls db' = scheduled_urls db \<Longrightarrow> sched_wf db' \<Longrightarrow> not_before i T db'"
  by (simp add: not_before_def)

lemma not_before_process: "not_before i T db \<Longrightarrow> not_before i T (fst (sched_process S e m db))"
proof (cases "sched_process S e m db")
  case (Pair db' res)
  assume nb: "not_before i T db"
  then have wf: "sched_wf db'" using sched_process_wf [of db S e m] Pair by (simp add: not_before_def)
  show ?thesis
  proof (cases res)
    case (Inl err)
    then show ?thesis using Pair nb sched_process_Inl by fastforce
  next
    case (Inr u)
    with Pair consider (snap) "ApplySnapshot S e m db = (db', Inr u)"
      | (force) "EnqueueForce S e m db = (db', Inr u)"
      by (cases "tr_Action m = ''set_state''"; cases "tr_Action m = ''force''") (simp_all add: sched_process_def)
    then show ?thesis
    proof cases
      case force
      then have "scheduled_urls db' = scheduled_urls db" by (elim EnqueueForce_Inr) auto
      with nb wf show ?thesis by (simp add: Pair not_before_cong)
    next
      case snap
      then show ?thesis
      proof (rule ApplySnapshot_Inr)
        fix p t n
        assume up: "upsert_url (se_uuid e 0) (se_now e) p m (scheduled_urls db) = Some (t, n)"
          and db': "db' = db\<lparr>scheduled_urls := t\<rparr>"
        from up show ?thesis
        proof (cases rule: upsert_url_cases)
          case inserted
          then show ?thesis using nb wf by (auto simp: Pair db' not_before_def)
        next
          case (updated r)
          have "not_before i T (db\<lparr>scheduled_urls := update_where (\<lambda>x. su_url x = tr_URL m) (take_over m) (scheduled_urls db)\<rparr>)"
            using nb wf by (intro not_before_update) (auto simp: db' updated(4) not_before_def)
          then show ?thesis by (simp add: Pair db' updated(4))
        next
          case kept
          then show ?thesis using nb by (simp add: Pair db')
        qed
      qed
    qed
  qed
qed

lemma due_loop_urls:
  "due_loop e k ds db = Some db' \<Longrightarrow> scheduled_urls db'
     = scheduled_urls (db\<lparr>scheduled_urls := update_where (\<lambda>r. su_id r \<in> su_id ` set ds) (advance e) (scheduled_urls db)\<rparr>)"
  by (simp add: due_loop_Some(1))

lemma interval_hour: "url_ok r \<Longrightarrow> se_now e + hour \<le> su_next_check_at (advance e r)"
proof -
  assume "url_ok r"
  then have "1 * hour \<le> su_check_interval_hours r * hour"
    by (intro mult_right_mono) (auto simp: url_ok_def duration_defs)
  then show ?thesis by simp
qed

lemma not_before_advance:
  assumes nb: "not_before i T db" and l: "due_loop e 0 (due_rows e (scheduled_urls db)) db = Some db'"
  shows "not_before i T db'"
proof -
  let ?t = "update_where (\<lambda>r. su_id r \<in> su_id ` set (due_rows e (scheduled_urls db))) (advance e) (scheduled_urls db)"
  have wf: "sched_wf db" using nb by (simp add: not_before_def)
  then have wf': "sched_wf db'" by (rule due_loop_wf [OF _ l]) (use set_due_rows in blast)
  have ok: "\<forall>r \<in> set (scheduled_urls db). url_ok r" using wf by (simp add: sched_wf_def)
  have wft: "sched_wf (db\<lparr>scheduled_urls := ?t\<rparr>)"
    using wf ok by (intro sched_wf_urls ball_update_where) (auto simp: map_update_where sched_wf_def url_ok_def)
  have "T \<le> su_next_check_at (advance e r)"
    if r: "r \<in> set (scheduled_urls db)" "su_id r = i" and d: "su_id r \<in> su_id ` set (due_rows e (scheduled_urls db))" for r
  proof -
    from d obtain d where d: "d \<in> set (due_rows e (scheduled_urls db))" "su_id d = i" using r(2) by auto
    then have "T \<le> su_next_check_at d" "su_next_check_at d \<le> se_now e"
      using nb set_due_rows [OF d(1)] by (auto simp: not_before_def)
    moreover have "se_now e + hour \<le> su_next_check_at (advance e r)" using ok r(1) by (intro interval_hour) blast
    moreover have "0 \<le> hour" by (simp add: duration_defs)
    ultimately show ?thesis by linarith
  qed
  then have "not_before i T (db\<lparr>scheduled_urls := ?t\<rparr>)"
    by (intro not_before_update [OF nb wft]) auto
  then show ?thesis using wf' due_loop_Some(1) [OF l] by (auto intro: not_before_cong)
qed

lemma not_before_own: "not_before i T db \<Longrightarrow> not_before i T (sched_own x db)"
proof (cases x)
  case (WTick e)
  assume "not_before i T db"
  then show ?thesis using not_before_advance by (cases rule: dispatch_cases [of e db]) (auto simp: WTick)
qed (use sched_own_wf [of db x] in \<open>auto intro: not_before_cong simp: not_before_def\<close>)

text \<open>
  No URL is scraped twice within the hour by the schedule: once a tick at time \<open>now\<close> queued a
  row, no later tick before \<open>now\<close> plus one hour takes that row again, whatever snapshots,
  force commands, ticks and outbox calls come in between.
\<close>

theorem no_double_dispatch:
  assumes wf: "sched_wf db" and tick: "EnqueueDue e db = (db1, Inr n)"
    and r: "r \<in> set (due_rows e (scheduled_urls db))" and early: "se_now e' < se_now e + hour"
  shows "su_id r \<notin> su_id ` set (due_rows e' (scheduled_urls (sched_run S xs db1)))"
proof -
  have l: "due_loop e 0 (due_rows e (scheduled_urls db)) db = Some db1" using EnqueueDue_Inr [OF tick] by simp
  have ok: "\<forall>r \<in> set (scheduled_urls db). url_ok r" using wf by (simp add: sched_wf_def)
  have "sched_wf db1" by (rule due_loop_wf [OF wf l]) (use set_due_rows in blast)
  moreover have mem: "r \<in> set (scheduled_urls db)" using set_due_rows [OF r] by simp
  then have "su_id r \<in> su_id ` set (scheduled_urls db1)"
    using due_loop_Some(1) [OF l] by (metis advance_simps(1) image_eqI map_update_where set_map)
  moreover have "se_now e + hour \<le> su_next_check_at x" if x: "x \<in> set (scheduled_urls db1)" "su_id x = su_id r" for x
  proof -
    from x(1) obtain y where y: "y \<in> set (scheduled_urls db)"
      "x = (if su_id y \<in> su_id ` set (due_rows e (scheduled_urls db)) then advance e y else y)"
      unfolding due_loop_Some(1) [OF l] set_update_where by blast
    with x(2) have "su_id y = su_id r" by (auto split: if_splits)
    with r y(2) have "x = advance e y" by auto
    with y(1) ok show ?thesis using interval_hour by simp
  qed
  ultimately have "not_before (su_id r) (se_now e + hour) db1" by (simp add: not_before_def)
  then have "not_before (su_id r) (se_now e + hour) (sched_run S xs db1)"
    unfolding sched_run_def
    by (rule run_steps_invariant) (simp_all add: not_before_process not_before_own)
  then show ?thesis using early set_due_rows by (fastforce simp: not_before_def)
qed

theorem no_double_dispatch_witness:
  "''u'' \<notin> su_id ` set (due_rows (demo_senv 1000 ''b'')
     (scheduled_urls (sched_run demo [Local (WTick (demo_senv 6 ''c''))] (dispatch (demo_senv 5 ''a'') demo_sched))))"
proof -
  have "demo_url ''u'' 3 \<in> set (due_rows (demo_senv 5 ''a'') (scheduled_urls demo_sched))"
    by (simp add: demo_tick(2))
  from no_double_dispatch [OF demo_sched_wf demo_tick(1) this, of "demo_senv 1000 ''b''"]
  show ?thesis by (simp add: demo_senv_def demo_url_def duration_defs)
qed

text \<open>
  C15: a force command becomes exactly one outbox event: if one of its deliveries succeeded,
  the outbox holds exactly one event under its key ever after, however often the command is
  delivered before and after.
\<close>

theorem force_exactly_once:
  assumes "sched_wf db" and "tr_Action m = ''force''" and "uuid_parse S (tr_TaskID m) = Some tid"
    and "sched_process S e m (sched_run S xs db) = (db1, Inr ())"
  shows "count_where (\<lambda>r. ob_event_key r = ''force:'' @ tid) (scheduler_outbox (sched_run S ys db1)) = 1"
proof -
  have "sched_wf db1"
    using sched_process_wf [OF sched_run_wf [OF assms(1)], of S e m S xs] assms(4) by simp
  then have wf: "sched_wf (sched_run S ys db1)" by (rule sched_run_wf)
  have "sched_settled S m (sched_run S ys db1)"
    unfolding sched_run_def by (rule track.settled_run) (rule track.settles [OF assms(4)])
  then have "tid \<in> fst ` set (processed_force_commands (sched_run S ys db1))"
    using assms(2,3) by (simp add: sched_settled_def)
  then have "''force:'' @ tid \<in> ob_event_key ` set (scheduler_outbox (sched_run S ys db1))"
    using wf by (simp add: sched_wf_def)
  then obtain r where "r \<in> set (scheduler_outbox (sched_run S ys db1))" "''force:'' @ tid = ob_event_key r"
    by (rule imageE)
  with filter_key_single [of ob_event_key, OF _ this(1)] wf show ?thesis
    by (simp add: count_where_def sched_wf_def ob_keyed_def)
qed

theorem force_exactly_once_witness:
  "count_where (\<lambda>r. ob_event_key r = ''force:'' @ ''f'')
     (scheduler_outbox (sched_run demo [Deliver (demo_senv 9 ''b'') demo_force]
        (fst (sched_process demo (demo_senv 8 ''a'') demo_force (sched_run demo [] empty_sched))))) = 1"
proof -
  have "snd (sched_process demo (demo_senv 8 ''a'') demo_force (sched_run demo [] empty_sched)) = Inr ()"
    by (simp add: sched_process_def EnqueueForce_def demo_force_def validWBIdentity_iff canonical_demo sched_run_def
        demo_uuid_def demo_senv_def empty_sched_def sc_insert_def exists_where_def)
  then have p: "sched_process demo (demo_senv 8 ''a'') demo_force (sched_run demo [] empty_sched)
      = (fst (sched_process demo (demo_senv 8 ''a'') demo_force (sched_run demo [] empty_sched)), Inr ())"
    by (simp add: prod_eq_iff)
  have a: "tr_Action demo_force = ''force''" "uuid_parse demo (tr_TaskID demo_force) = Some ''f''"
    by (simp_all add: demo_force_def demo_uuid_def)
  show ?thesis by (rule force_exactly_once [OF sched_wf_empty a p])
qed

end
