(* ===== verification/Notifier.thy ===== *)
theory Notifier
  imports Consumer
begin

text \<open>
  The notifier service. \<open>Send\<close> is \<open>TelegramSender.Send\<close> of
  \<open>notifier/internal/alert/alert.go\<close> with \<open>wait\<close> and \<open>sendOnce\<close>; \<open>notify_handle\<close>,
  \<open>transfer\<close> and \<open>notify_Run\<close> are the consumer of \<open>notifier/internal/consumer/consumer.go\<close>.
  Time is explicit: every function takes the clock reading at its start and returns the one
  at its end, and the context is cancelled at a given time or never. The HTTP client is a
  parameter: for each attempt and request it says how long the call took and how it ended.
\<close>

section \<open>The Telegram sender\<close>

definition requestTimeout :: duration where "requestTimeout = 10 * second"

datatype send_error =
    ErrPermanent string          \<comment> \<open>wraps \<open>alert.ErrPermanent\<close>\<close>
  | RetryError duration string   \<comment> \<open>\<open>After\<close> and the message of \<open>Err\<close>\<close>
  | CtxErr                       \<comment> \<open>\<open>ctx.Err()\<close>\<close>
  | OtherErr string

text \<open>What Telegram answers: \<open>ok\<close>, \<open>description\<close> and \<open>parameters.retry_after\<close>.\<close>

record tg_response =
  tg_OK :: bool
  tg_Description :: string
  tg_RetryAfter :: int

record tg_request =
  rq_endpoint :: string
  rq_chat_id :: int
  rq_text :: string

datatype http_outcome =
    RequestFailed string         \<comment> \<open>\<open>http.NewRequestWithContext\<close> fails\<close>
  | TransportFailed string       \<comment> \<open>\<open>client.Do\<close> fails, the message inside the \<open>url.Error\<close>\<close>
  | ReadFailed string            \<comment> \<open>reading the body fails\<close>
  | Response int string          \<comment> \<open>status code and body\<close>

record http_call =
  hc_took :: duration
  hc_outcome :: http_outcome

record sender =
  se_token :: string
  se_client :: "nat \<Rightarrow> tg_request \<Rightarrow> http_call"
  se_unmarshal :: "string \<Rightarrow> tg_response option"

text \<open>A context is the time of its cancellation, if any.\<close>

type_synonym ctx = "time option"

definition ctx_done :: "ctx \<Rightarrow> time \<Rightarrow> bool" where
  "ctx_done c t = (case c of None \<Rightarrow> False | Some u \<Rightarrow> u \<le> t)"

definition wait :: "ctx \<Rightarrow> duration \<Rightarrow> time \<Rightarrow> send_error option \<times> time" where
  "wait c delay t =
     (if ctx_done c t then (Some CtxErr, t)
      else if delay \<le> 0 then (None, t)
      else if ctx_done c (t + delay) then (Some CtxErr, the c)
      else (None, t + delay))"

definition sanitize :: "string \<Rightarrow> string \<Rightarrow> string" where
  "sanitize message token =
     (if token \<noteq> [] then replace_all message token ''[redacted]'' else message)"

definition safeTransportError :: "string \<Rightarrow> string \<Rightarrow> string" where
  "safeTransportError err token = ''telegram transport: '' @ sanitize err token"

definition permanent :: "string \<Rightarrow> send_error" where
  "permanent apiErr = ErrPermanent (''permanent telegram error: '' @ apiErr)"

definition response_error :: "sender \<Rightarrow> int \<Rightarrow> string \<Rightarrow> send_error option" where
  "response_error S status body =
     (case se_unmarshal S (take 4096 body) of
        None \<Rightarrow>
          let apiErr = ''invalid telegram response (HTTP '' @ show_int status @ '')''
          in Some (if status \<ge> 400 \<and> status < 500 \<and> status \<noteq> 429 then permanent apiErr
                   else RetryError 0 apiErr)
      | Some result \<Rightarrow>
          if status = 200 \<and> tg_OK result then None
          else
            let d = sanitize (tg_Description result) (se_token S);
                description = (if d = [] then ''telegram request rejected'' else d);
                apiErr = ''telegram API HTTP '' @ show_int status @ '': '' @ description
            in Some (if status = 429 then RetryError (wrap64 (tg_RetryAfter result * second)) apiErr
                     else if status \<ge> 500 \<or> status < 400 then RetryError 0 apiErr
                     else permanent apiErr))"

definition sendOnce ::
  "sender \<Rightarrow> ctx \<Rightarrow> nat \<Rightarrow> int \<Rightarrow> string \<Rightarrow> time \<Rightarrow> send_error option \<times> time" where
  "sendOnce S c k chatID text t =
     (let req = \<lparr>rq_endpoint = ''https://api.telegram.org/bot'' @ se_token S @ ''/sendMessage'',
                 rq_chat_id = chatID, rq_text = text\<rparr>;
          call = se_client S k req; t' = t + hc_took call
      in case hc_outcome call of
           RequestFailed m \<Rightarrow>
             (Some (OtherErr (''create telegram request: '' @ sanitize m (se_token S))), t)
         | TransportFailed m \<Rightarrow> (Some (RetryError 0 (safeTransportError m (se_token S))), t')
         | ReadFailed m \<Rightarrow>
             (Some (if ctx_done c t' then CtxErr
                    else RetryError 0 (''read telegram response: '' @ sanitize m (se_token S))), t')
         | Response status body \<Rightarrow> (response_error S status body, t'))"

text \<open>One attempt of \<open>Send\<close>, as it is recorded for the theorems.\<close>

record attempt =
  at_start :: time
  at_end :: time
  at_error :: "send_error option"

fun After :: "send_error option \<Rightarrow> duration" where
  "After (Some (RetryError a _)) = a"
| "After _ = 0"

fun is_permanent :: "send_error option \<Rightarrow> bool" where
  "is_permanent (Some (ErrPermanent _)) = True"
| "is_permanent _ = False"

fun send_loop ::
  "sender \<Rightarrow> ctx \<Rightarrow> int \<Rightarrow> string \<Rightarrow> nat \<Rightarrow> duration list \<Rightarrow> send_error option \<Rightarrow> time \<Rightarrow>
   send_error option \<times> time \<times> attempt list" where
  "send_loop S c chatID text attempt [] lastErr t = (lastErr, t, [])"
| "send_loop S c chatID text attempt (delay # ds) lastErr t =
     (case wait c delay t of
        (Some err, t1) \<Rightarrow> (Some err, t1, [])
      | (None, t1) \<Rightarrow>
          let (e, t2) = sendOnce S c attempt chatID text t1;
              a = \<lparr>at_start = t1, at_end = t2, at_error = e\<rparr>
          in if e = None \<or> is_permanent e \<or> After e > 30 * second then (e, t2, [a])
             else
               let (w, t3) = (if After e > 0 \<and> ds \<noteq> [] \<and> After e > hd ds
                              then wait c (After e - hd ds) t2 else (None, t2))
               in if w \<noteq> None then (w, t3, [a])
                  else let (r, t4, as) = send_loop S c chatID text (Suc attempt) ds e t3
                       in (r, t4, a # as))"

definition send_delays :: "duration list" where
  "send_delays = [0, 3 * second, 6 * second, 12 * second]"

definition Send :: "sender \<Rightarrow> ctx \<Rightarrow> int \<Rightarrow> string \<Rightarrow> time \<Rightarrow> send_error option \<times> time \<times> attempt list" where
  "Send S c chatID text t = send_loop S c chatID text 0 send_delays None t"

section \<open>The consumer of \<open>notify.tasks\<close>\<close>

record notify_env =
  ne_sender :: sender
  ne_ctx :: ctx
  ne_pub_took :: duration     \<comment> \<open>how long the one publication takes\<close>
  ne_pub_ok :: bool           \<comment> \<open>and whether the broker confirms it\<close>
  ne_quote :: "char \<Rightarrow> string"

definition transferPause :: duration where "transferPause = 250 * millisecond"

definition safeError :: "string \<Rightarrow> string" where
  "safeError m = replace_all m [CHR 0x0A] '' ''"

text \<open>\<open>err.Error()\<close>.\<close>

fun error_text :: "send_error \<Rightarrow> string" where
  "error_text (ErrPermanent m) = m"
| "error_text (RetryError _ m) = m"
| "error_text CtxErr = ''context canceled''"
| "error_text (OtherErr m) = m"

text \<open>
  The result of handling a delivery: the message a confirmed publication moved, what became
  of the delivery, and the attempts of the sender.
\<close>

record outcome =
  oc_moved :: "(string \<times> json) option"
  oc_settle :: settle
  oc_error :: "send_error option"
  oc_attempts :: "attempt list"
  oc_end :: time

definition transfer :: "notify_env \<Rightarrow> string \<Rightarrow> json \<Rightarrow> time \<Rightarrow> (string \<times> json) option \<times> settle \<times> time" where
  "transfer E queue message t =
     (if ctx_done (ne_ctx E) t then (None, Unsettled, t)
      else
        let t1 = t + ne_pub_took E
        in if \<not> ne_pub_ok E then
             (let (w, t2) = wait (ne_ctx E) transferPause t1
              in (None, if w = None \<and> \<not> ctx_done (ne_ctx E) t2 then NackRequeue else Unsettled, t2))
           else (Some (queue, message), if ctx_done (ne_ctx E) t1 then Unsettled else Ack, t1))"

definition sendTelegram ::
  "notify_env \<Rightarrow> NotifyTask \<Rightarrow> time \<Rightarrow> send_error option \<times> time \<times> attempt list" where
  "sendTelegram E task t =
     (if ctx_done (ne_ctx E) t then (Some CtxErr, t, [])
      else case parse_int64 (nt_Target task) of
        None \<Rightarrow> (Some (ErrPermanent ''invalid telegram target: permanent telegram error''), t, [])
      | Some chatID \<Rightarrow> Send (ne_sender E) (ne_ctx E) chatID (nt_Text task) t)"

definition deliver ::
  "notify_env \<Rightarrow> NotifyTask \<Rightarrow> time \<Rightarrow> send_error option \<times> time \<times> attempt list" where
  "deliver E task t =
     (if nt_Channel task = ''telegram'' then sendTelegram E task t
      else (Some (ErrPermanent (''unknown notification channel '' @
              go_quote (ne_quote E) (nt_Channel task) @ '': permanent telegram error'')), t, []))"

definition moved_outcome ::
  "(string \<times> json) option \<times> settle \<times> time \<Rightarrow> send_error option \<Rightarrow> attempt list \<Rightarrow> outcome" where
  "moved_outcome r e as =
     (case r of (m, a, t) \<Rightarrow>
        \<lparr>oc_moved = m, oc_settle = a, oc_error = e, oc_attempts = as, oc_end = t\<rparr>)"

text \<open>Where a task goes after a failed delivery that ended at time \<open>t\<close>.\<close>

definition failed_transfer :: "NotifyTask \<Rightarrow> send_error \<Rightarrow> time \<Rightarrow> string \<times> json" where
  "failed_transfer task e t =
     (if is_permanent (Some e) then (QueueNotifyDead, JDead task (safeError (error_text e)))
      else if After (Some e) > NotifyRetryDelay
        then (QueueNotifyRetry, JNotify (task\<lparr>nt_NotBefore := t + After (Some e)\<rparr>))
      else (QueueNotifyRetry, JNotify task))"

text \<open>A delivery is the raw bytes when they do not decode, else the task they decode to.\<close>

definition notify_handle :: "notify_env \<Rightarrow> string + NotifyTask \<Rightarrow> time \<Rightarrow> outcome" where
  "notify_handle E d t =
     (case d of
        Inl body \<Rightarrow>
          moved_outcome (transfer E QueueNotifyDead (JMalformed body ''malformed notification JSON'') t) None []
      | Inr task \<Rightarrow>
          if nt_NotBefore task \<noteq> 0 \<and> t < nt_NotBefore task then
            moved_outcome (transfer E QueueNotifyRetry (JNotify task) t) None []
          else
            (case deliver E task t of
               (None, t', as) \<Rightarrow>
                 \<lparr>oc_moved = None, oc_settle = (if ctx_done (ne_ctx E) t' then Unsettled else Ack),
                  oc_error = None, oc_attempts = as, oc_end = t'\<rparr>
             | (Some e, t', as) \<Rightarrow>
                 (case failed_transfer task e t' of
                    (queue, message) \<Rightarrow> moved_outcome (transfer E queue message t') (Some e) as)))"

text \<open>
  The service's effects: the messages Telegram accepted, the publications the broker
  confirmed, and the clock.
\<close>

record notifier =
  nf_clock :: time
  nf_sent :: "(int \<times> string) list"
  nf_queues :: "(string \<times> json) list"

definition sent_message :: "string + NotifyTask \<Rightarrow> outcome \<Rightarrow> (int \<times> string) list" where
  "sent_message d r =
     (case d of Inl _ \<Rightarrow> []
      | Inr task \<Rightarrow>
          if oc_attempts r \<noteq> [] \<and> at_error (last (oc_attempts r)) = None
          then [(the (parse_int64 (nt_Target task)), nt_Text task)] else [])"

definition notify_step ::
  "notify_env \<times> time \<times> (string + NotifyTask) \<Rightarrow> notifier \<Rightarrow> notifier \<times> settle" where
  "notify_step x s =
     (case x of (E, idle, d) \<Rightarrow>
        let r = notify_handle E d (nf_clock s + idle)
        in (s\<lparr>nf_clock := oc_end r, nf_sent := nf_sent s @ sent_message d r,
              nf_queues := nf_queues s @ (case oc_moved r of None \<Rightarrow> [] | Some m \<Rightarrow> [m])\<rparr>,
            oc_settle r))"

text \<open>\<open>Consumer.Run\<close>: the deliveries with how long the loop waited for each of them.\<close>

definition notify_Run ::
  "bool \<Rightarrow> (notify_env \<times> time \<times> (string + NotifyTask)) channel_event list \<Rightarrow> notifier \<Rightarrow>
   (notifier \<times> settle list) \<times> run_end" where
  "notify_Run consume_ok es s =
     (if consume_ok then consume_loop notify_step es s else ((s, []), ReturnedError))"

end
