(* ===== verification/NotifierLaws.thy ===== *)
theory NotifierLaws
  imports Notifier
begin

text \<open>
  The theorems of the notifier: how the sender paces and bounds its attempts, that no error
  text carries the bot token, and what the consumer does with every delivery.
\<close>

section \<open>The sender's loop\<close>

definition stops :: "send_error option \<Rightarrow> bool" where
  "stops e \<longleftrightarrow> e = None \<or> is_permanent e \<or> After e > 30 * second"

definition attempted :: "sender \<Rightarrow> ctx \<Rightarrow> int \<Rightarrow> string \<Rightarrow> nat \<Rightarrow> attempt \<Rightarrow> bool" where
  "attempted S c chatID text k a \<longleftrightarrow>
     sendOnce S c k chatID text (at_start a) = (at_error a, at_end a)"

lemma wait_ok: "wait c d t = (None, t') \<Longrightarrow> t' = t + max 0 d"
  by (auto simp: wait_def split: if_splits)

lemma wait_err: "wait c d t = (Some e, t') \<Longrightarrow> e = CtxErr \<and> ctx_done c t' \<and> t' \<le> t + max 0 d"
  by (auto simp: wait_def ctx_done_def split: if_splits option.splits)

lemma send_loop_Cons:
  assumes run: "send_loop S c chatID text k (d # ds) lastErr t = (r, t', as)"
    and d: "\<forall>x \<in> set (d # ds). 0 \<le> x"
  obtains (cancelled) "as = []" "r = Some CtxErr" "t' \<le> t + d"
  | (stopped) a where "as = [a]" "attempted S c chatID text k a" "at_start a = t + d"
      "stops (at_error a)" "r = at_error a" "t' = at_end a"
  | (interrupted) a where "as = [a]" "attempted S c chatID text k a" "at_start a = t + d"
      "\<not> stops (at_error a)" "r = Some CtxErr" "t' \<le> at_end a + 30 * second" "ds \<noteq> []"
  | (again) a as' u where "as = a # as'" "attempted S c chatID text k a" "at_start a = t + d"
      "\<not> stops (at_error a)"
      "send_loop S c chatID text (Suc k) ds (at_error a) u = (r, t', as')"
      "u = at_end a + (if ds = [] then 0 else max 0 (After (at_error a) - hd ds))"
proof -
  have hd_ds: "ds \<noteq> [] \<Longrightarrow> 0 \<le> hd ds" and d0: "0 \<le> d" using d by (cases ds; simp)+
  obtain w t1 where w: "wait c d t = (w, t1)" by fastforce
  show thesis
  proof (cases w)
    case (Some e)
    with run w have "as = []" "r = Some e" "t' = t1" by simp_all
    with wait_err [of c d t e t1] w Some d0 show thesis using cancelled by simp
  next
    case None
    with w d0 have t1: "t1 = t + d" using wait_ok by fastforce
    obtain e t2 where s: "sendOnce S c k chatID text t1 = (e, t2)" by fastforce
    define a where "a = \<lparr>at_start = t1, at_end = t2, at_error = e\<rparr>"
    have a: "attempted S c chatID text k a" "at_start a = t + d" "at_error a = e" "at_end a = t2"
      using s t1 by (simp_all add: a_def attempted_def)
    show thesis
    proof (cases "stops e")
      case True
      with run w None s have "as = [a]" "r = e" "t' = t2"
        by (auto simp: stops_def a_def)
      with a True show thesis using stopped by simp
    next
      case go: False
      then obtain e' where e': "e = Some e'" by (auto simp: stops_def)
      let ?p = "After e > 0 \<and> ds \<noteq> [] \<and> After e > hd ds"
      obtain w' t3 where w': "(if ?p then wait c (After e - hd ds) t2 else (None, t2)) = (w', t3)"
        by fastforce
      show thesis
      proof (cases w')
        case (Some x)
        with run w None s go w' [unfolded e'] e' have r: "as = [a]" "r = w'" "t' = t3"
          by (simp_all add: stops_def a_def Let_def)
        have p: ?p and x: "wait c (After e - hd ds) t2 = (Some x, t3)"
          using w' Some by (auto split: if_splits)
        have "t3 \<le> t2 + 30 * second" "x = CtxErr"
          using wait_err [OF x] p hd_ds go by (auto simp: stops_def)
        with r Some a go p show thesis using interrupted by simp
      next
        case none: None
        obtain r' t4 as' where l: "send_loop S c chatID text (Suc k) ds e t3 = (r', t4, as')"
          using prod_cases3 by blast
        have r: "as = a # as'" "r = r'" "t' = t4"
          using run w None s go w' [unfolded e'] none l [unfolded e'] e' by (simp_all add: stops_def a_def Let_def)
        have t3: "t3 = t2 + (if ds = [] then 0 else max 0 (After e - hd ds))"
          using w' none wait_ok [of c "After e - hd ds" t2 t3] hd_ds by (auto split: if_splits)
        have g: "\<not> stops (at_error a)" using go a(3) by simp
        have l': "send_loop S c chatID text (Suc k) ds (at_error a) t3 = (r, t', as')"
          using l a(3) r by simp
        have u: "t3 = at_end a + (if ds = [] then 0 else max 0 (After (at_error a) - hd ds))"
          using t3 a(3,4) by (simp only:)
        show thesis by (rule again [OF r(1) a(1,2) g l' u])
      qed
    qed
  qed
qed

text \<open>
  What a run of the loop did: attempt \<open>i\<close> is the \<open>i\<close>-th call of the client; it starts
  after its delay and after the time Telegram asked for; only transient errors with a short
  delay are followed by another attempt.
\<close>

definition paced :: "duration list \<Rightarrow> attempt list \<Rightarrow> bool" where
  "paced ds as \<longleftrightarrow> length as \<le> length ds \<and>
     (\<forall>i. Suc i < length as \<longrightarrow>
        \<not> stops (at_error (as ! i)) \<and>
        at_start (as ! Suc i) = at_end (as ! i) + max (After (at_error (as ! i))) (ds ! Suc i))"

definition concluded :: "duration list \<Rightarrow> send_error option \<Rightarrow> attempt list \<Rightarrow> bool" where
  "concluded ds r as \<longleftrightarrow>
     r = Some CtxErr \<and> (as = [] \<or> \<not> stops (at_error (last as))) \<or>
     as \<noteq> [] \<and> r = at_error (last as) \<and> (stops r \<or> length as = length ds)"

lemma paced_Cons:
  assumes "paced ds as" and "\<not> stops (at_error a)" and "ds \<noteq> []"
    and "as \<noteq> [] \<Longrightarrow> at_start (hd as) = at_end a + max (After (at_error a)) (hd ds)"
  shows "paced (d # ds) (a # as)"
  unfolding paced_def
proof (intro conjI allI impI)
  show "length (a # as) \<le> length (d # ds)" using assms(1) by (simp add: paced_def)
  fix i assume i: "Suc i < length (a # as)"
  show "\<not> stops (at_error ((a # as) ! i))"
    using assms(1,2) i by (cases i) (auto simp: paced_def)
  show "at_start ((a # as) ! Suc i)
    = at_end ((a # as) ! i) + max (After (at_error ((a # as) ! i))) ((d # ds) ! Suc i)"
    using assms(1,3,4) i by (cases i) (auto simp: paced_def hd_conv_nth)
qed

lemma send_loop_spec:
  assumes "send_loop S c chatID text k ds lastErr t = (r, t', as)" and "ds \<noteq> []"
    and "\<forall>x \<in> set ds. 0 \<le> x"
  shows "paced ds as \<and> concluded ds r as \<and> (as \<noteq> [] \<longrightarrow> at_start (hd as) = t + hd ds) \<and>
    (\<forall>i < length as. attempted S c chatID text (k + i) (as ! i))"
  using assms
proof (induction ds arbitrary: k lastErr t as)
  case (Cons d ds)
  from Cons.prems(1,3) show ?case
  proof (cases rule: send_loop_Cons)
    case (again a as' u)
    show ?thesis
    proof (cases "ds = []")
      case True
      with again(5) have "as' = []" "r = at_error a" by auto
      with again True show ?thesis by (simp add: paced_def concluded_def)
    next
      case False
      with Cons.IH [OF again(5) False] Cons.prems(3)
      have ih: "paced ds as'" "concluded ds r as'" "as' \<noteq> [] \<Longrightarrow> at_start (hd as') = u + hd ds"
        "\<forall>i < length as'. attempted S c chatID text (Suc k + i) (as' ! i)" by auto
      have "paced (d # ds) (a # as')"
        using paced_Cons [OF ih(1) again(4) False] ih(3) again(6) False by (simp add: max_def)
      moreover have "concluded (d # ds) r (a # as')"
        using ih(2) again(4) by (auto simp: concluded_def)
      moreover have "attempted S c chatID text (k + i) ((a # as') ! i)" if "i < length (a # as')" for i
        using that ih(4) again(2) by (cases i) auto
      ultimately show ?thesis using again(1,3) by simp
    qed
  qed (auto simp: paced_def concluded_def stops_def)
qed simp

lemma send_loop_end:
  assumes "send_loop S c chatID text k ds lastErr t = (r, t', as)" and "ds \<noteq> []"
    and "\<forall>x \<in> set ds. 0 \<le> x" and "r \<noteq> Some CtxErr"
  shows "as \<noteq> [] \<and> t' = at_end (last as)"
  using assms
proof (induction ds arbitrary: k lastErr t as)
  case (Cons d ds)
  from Cons.prems(1,3) show ?case
  proof (cases rule: send_loop_Cons)
    case (again a as' u)
    show ?thesis
    proof (cases "ds = []")
      case False
      then show ?thesis using Cons.IH [OF again(5) False] Cons.prems(3,4) again(1) by simp
    qed (use again in auto)
  qed (use Cons.prems(4) in auto)
qed simp

lemma sendOnce_time:
  assumes "sendOnce S c k chatID text t = (e, t')"
    and "\<And>req. 0 \<le> hc_took (se_client S k req) \<and> hc_took (se_client S k req) \<le> requestTimeout"
  shows "t \<le> t' \<and> t' \<le> t + requestTimeout"
proof -
  have "0 \<le> requestTimeout" by (simp add: requestTimeout_def second_def)
  with assms show ?thesis
    by (auto simp: sendOnce_def Let_def split: http_outcome.splits)
qed

lemma send_loop_time:
  assumes "send_loop S c chatID text k ds lastErr t = (r, t', as)" and "ds \<noteq> []"
    and "\<forall>x \<in> set ds. 0 \<le> x \<and> x \<le> 30 * second"
    and took: "\<And>i req. 0 \<le> hc_took (se_client S i req) \<and> hc_took (se_client S i req) \<le> requestTimeout"
  shows "t' \<le> t + hd ds + 10 * second + int (length ds - 1) * (40 * second)"
  using assms(1-3)
proof (induction ds arbitrary: k lastErr t as)
  case (Cons d ds)
  have nonneg: "\<forall>x \<in> set (d # ds). 0 \<le> x" using Cons.prems(3) by simp
  have s: "0 \<le> second" by (simp add: second_def)
  have end_le: "at_end a \<le> t + d + 10 * second"
    if "attempted S c chatID text k a" "at_start a = t + d" for a
    using sendOnce_time [OF that(1) [unfolded attempted_def]] took that(2)
    by (simp add: requestTimeout_def)
  define n where "n = int (length ds) * (40 * second)"
  have n: "0 \<le> n" using s by (simp add: n_def)
  have rest: "ds \<noteq> [] \<Longrightarrow> int (length ds - 1) * (40 * second) = n - 40 * second"
    by (cases ds) (simp_all add: n_def algebra_simps)
  have goal: "t' \<le> t + d + 10 * second + n"
    using Cons.prems(1) nonneg
  proof (cases rule: send_loop_Cons)
    case cancelled
    with s n show ?thesis by simp
  next
    case (stopped a)
    with end_le [of a] n show ?thesis by simp
  next
    case (interrupted a)
    have "40 * second \<le> n" using interrupted(7) s by (cases ds) (simp_all add: n_def algebra_simps)
    with interrupted end_le [of a] s show ?thesis by simp
  next
    case (again a as' u)
    show ?thesis
    proof (cases "ds = []")
      case True
      with again end_le [of a] n show ?thesis by simp
    next
      case False
      have "u + hd ds \<le> at_end a + 30 * second"
        using again(4,6) False Cons.prems(3) by (simp add: stops_def max_def)
      moreover have "t' \<le> u + hd ds + 10 * second + int (length ds - 1) * (40 * second)"
        using Cons.IH [OF again(5) False] Cons.prems(3) by simp
      ultimately show ?thesis using end_le [of a] again(2,3) rest [OF False] by simp
    qed
  qed
  then show ?case by (simp add: n_def)
qed simp

lemma send_delays_simps: "length send_delays = 4" "send_delays \<noteq> []" "hd send_delays = 0"
  "\<forall>x \<in> set send_delays. 0 \<le> x \<and> x \<le> 30 * second" "\<forall>x \<in> set send_delays. 0 \<le> x"
  by (simp_all add: send_delays_def second_def)

lemma Send_spec:
  assumes "Send S c chatID text t = (r, t', as)"
  shows "paced send_delays as" and "concluded send_delays r as"
    and "as \<noteq> [] \<Longrightarrow> at_start (hd as) = t"
    and "i < length as \<Longrightarrow> attempted S c chatID text i (as ! i)"
  using send_loop_spec [OF assms [unfolded Send_def]] by (simp_all add: send_delays_simps)

lemma Send_end:
  assumes "Send S c chatID text t = (r, t', as)" and "r \<noteq> Some CtxErr"
  shows "as \<noteq> [] \<and> t' = at_end (last as) \<and> at_error (last as) = r"
  using send_loop_end [OF assms(1) [unfolded Send_def] _ _ assms(2)] Send_spec(2) [OF assms(1)] assms(2)
  by (auto simp: send_delays_simps concluded_def)

text \<open>Every error \<open>Send\<close> returns comes from an attempt or from the context.\<close>

lemma Send_error:
  assumes "Send S c chatID text t = (Some e, t', as)"
  shows "e = CtxErr \<or> (\<exists>k u u'. sendOnce S c k chatID text u = (Some e, u'))"
proof -
  have "e = CtxErr \<or> as \<noteq> [] \<and> at_error (last as) = Some e"
    using Send_spec(2) [OF assms] by (auto simp: concluded_def)
  then show ?thesis
  proof
    assume "as \<noteq> [] \<and> at_error (last as) = Some e"
    then have "sendOnce S c (length as - 1) chatID text (at_start (last as)) = (Some e, at_end (last as))"
      using Send_spec(4) [OF assms, of "length as - 1"] by (auto simp: attempted_def last_conv_nth)
    then show ?thesis by blast
  qed simp
qed

section \<open>The bot token\<close>

text \<open>A bot token: an identifier, a colon and a secret, without spaces or brackets.\<close>

definition bot_token :: "string \<Rightarrow> bool" where
  "bot_token tok \<longleftrightarrow> CHR '':'' \<in> set (butlast tok) \<and> CHR '' '' \<notin> set tok \<and>
     CHR ''['' \<notin> set tok \<and> CHR '']'' \<notin> set tok"

lemma bot_token_nonempty: "bot_token tok \<Longrightarrow> tok \<noteq> []"
  by (auto simp: bot_token_def)

lemma contains_append_sep:
  assumes "contains (a @ [s] @ b) p" and "s \<notin> set p"
  shows "contains a p \<or> contains b p"
proof -
  obtain x y where eq: "a @ [s] @ b = x @ p @ y" using assms(1) by (auto simp: contains_iff)
  show ?thesis
  proof (cases "length x + length p \<le> length a")
    case True
    then have "take (length x + length p) a = x @ p"
      using arg_cong [OF eq, of "take (length x + length p)"] by simp
    then have "a = x @ p @ drop (length x + length p) a"
      by (metis append_assoc append_take_drop_id)
    then show ?thesis unfolding contains_iff by blast
  next
    case long: False
    have "length a < length x"
    proof (rule ccontr)
      assume "\<not> length a < length x"
      with long have i: "length a - length x < length p" by linarith
      moreover have "(a @ [s] @ b) ! length a = p ! (length a - length x)"
        using i \<open>\<not> length a < length x\<close> unfolding eq by (simp add: nth_append)
      ultimately show False using assms(2) by (auto simp: nth_append)
    qed
    then have "drop (length a + 1) (x @ p @ y) = drop (length a + 1) x @ p @ y" by simp
    moreover have "drop (length a + 1) (a @ [s] @ b) = b" by simp
    ultimately show ?thesis using eq by (metis contains_iff)
  qed
qed

lemma contains_word: "contains w tok \<Longrightarrow> set (butlast tok) \<subseteq> set (butlast w)"
proof -
  assume "contains w tok"
  then obtain x y where w: "w = x @ tok @ y" by (auto simp: contains_iff)
  show ?thesis
  proof (cases "tok = []")
    case False
    then have "butlast w = x @ (if y = [] then butlast tok else tok @ butlast y)"
      by (simp add: w butlast_append)
    then show ?thesis using in_set_butlastD by (auto split: if_splits)
  qed simp
qed

lemma clean_word: "bot_token tok \<Longrightarrow> CHR '':'' \<notin> set (butlast w) \<Longrightarrow> \<not> contains w tok"
  using contains_word by (auto simp: bot_token_def)

lemma clean_sep:
  "bot_token tok \<Longrightarrow> \<not> contains a tok \<Longrightarrow> \<not> contains b tok \<Longrightarrow> \<not> contains (a @ '' '' @ b) tok"
  using contains_append_sep [of a "CHR '' ''" b tok] by (auto simp: bot_token_def)

lemma clean_words:
  assumes "bot_token tok" and "\<not> contains b tok" and "\<forall>w \<in> set ws. CHR '':'' \<notin> set (butlast w)"
  shows "\<not> contains (concat (map (\<lambda>w. w @ '' '') ws) @ b) tok"
  using assms(3)
proof (induction ws)
  case (Cons w ws)
  then show ?case
    using clean_sep [OF assms(1) clean_word [OF assms(1), of w], of "concat (map (\<lambda>w. w @ '' '') ws) @ b"]
    by simp
qed (simp add: assms(2))

lemma prefix_replace_all:
  assumes "prefix p (replace_all m old (c # new))" and "c \<notin> set p"
  shows "prefix p m"
  using assms
proof (induction m old "c # new" arbitrary: p rule: replace_all.induct)
  case (1 s old)
  show ?case
  proof (cases "old = [] \<or> s = []")
    case True
    with "1.prems" show ?thesis by (subst (asm) replace_all.simps) simp
  next
    case False
    show ?thesis
    proof (cases "has_prefix s old")
      case True
      with "1.prems" False have "p = []"
        by (subst (asm) replace_all.simps) (cases p; auto)
      then show ?thesis by simp
    next
      case no: False
      with "1.prems"(1) False have "prefix p (hd s # replace_all (tl s) old (c # new))"
        by (subst (asm) replace_all.simps) simp
      then show ?thesis
        using "1.hyps"(2) [OF False no] "1.prems"(2) False
        by (cases p; cases s) auto
    qed
  qed
qed

lemma replace_all_clean:
  assumes "bot_token tok"
  shows "\<not> contains (replace_all m tok ''[redacted]'') tok"
  using assms
proof (induction m tok "''[redacted]''" rule: replace_all.induct)
  case (1 s tok)
  note tok = "1.prems"
  have ne: "tok \<noteq> []" using tok by (rule bot_token_nonempty)
  show ?case
  proof (cases "s = []")
    case True
    with ne show ?thesis by (subst replace_all.simps) (auto simp: contains_iff)
  next
    case False
    show ?thesis
    proof (cases "has_prefix s tok")
      case True
      have "\<not> contains (''[redacted'' @ '']'' @ replace_all (drop (length tok) s) tok ''[redacted]'') tok"
      proof
        assume "contains (''[redacted'' @ '']'' @ replace_all (drop (length tok) s) tok ''[redacted]'') tok"
        then have "contains ''[redacted'' tok"
          using contains_append_sep [of "''[redacted''" "CHR '']''" _ tok] "1.hyps"(1) [OF _ True tok] False ne tok
          by (auto simp: bot_token_def)
        then show False using clean_word [OF tok, of "''[redacted''"] by simp
      qed
      with False ne True show ?thesis by (subst replace_all.simps) simp
    next
      case no: False
      have eq: "replace_all s tok ''[redacted]'' = hd s # replace_all (tl s) tok ''[redacted]''"
        using False ne no by (subst replace_all.simps) simp
      show ?thesis
      proof
        assume "contains (replace_all s tok ''[redacted]'') tok"
        then obtain x y where xy: "replace_all s tok ''[redacted]'' = x @ tok @ y"
          by (auto simp: contains_iff)
        show False
        proof (cases x)
          case Nil
          with xy have "prefix tok s"
            using prefix_replace_all [of tok s tok "CHR ''[''" "''redacted]''"] tok
            by (auto simp: bot_token_def)
          with no show False by (simp add: has_prefix_prefix)
        next
          case (Cons h x')
          with xy eq have "contains (replace_all (tl s) tok ''[redacted]'') tok"
            by (auto simp: contains_iff)
          with "1.hyps"(2) [OF _ no tok] False ne show False by blast
        qed
      qed
    qed
  qed
qed


lemma sanitize_clean: "bot_token tok \<Longrightarrow> \<not> contains (sanitize m tok) tok"
  using bot_token_nonempty [of tok] replace_all_clean [of tok m] by (simp add: sanitize_def)

lemma show_int_clean: "bot_token tok \<Longrightarrow> \<not> contains (show_int i @ s) tok" if "CHR '':'' \<notin> set s \<or> s = '':''"
  by (rule clean_word, assumption) (use that show_int_no_colon [of i] in \<open>auto simp: butlast_append dest: in_set_butlastD\<close>)

lemma response_error_clean:
  assumes tok: "bot_token (se_token S)" and e: "response_error S status body = Some e"
  shows "\<not> contains (error_text e) (se_token S)"
proof -
  note words = clean_words [OF tok]
  have api: "\<not> contains (''telegram API HTTP '' @ show_int status @ '': '' @ d) (se_token S)"
    if "\<not> contains d (se_token S)" for d
    using words [of d "[''telegram'', ''API'', ''HTTP'', show_int status @ '':'']"] that
      show_int_no_colon [of status] by (simp add: butlast_append)
  have bad: "\<not> contains (''invalid telegram response (HTTP '' @ show_int status @ '')'') (se_token S)"
    using words [of "show_int status @ '')''" "[''invalid'', ''telegram'', ''response'', ''(HTTP'']"]
      show_int_clean [of "'')''" "se_token S" status] tok by simp
  have perm: "\<not> contains (''permanent telegram error: '' @ d) (se_token S)"
    if "\<not> contains d (se_token S)" for d
    using words [of d "[''permanent'', ''telegram'', ''error:'']"] that by simp
  have rejected: "\<not> contains ''telegram request rejected'' (se_token S)"
    using clean_word [OF tok, of "''telegram request rejected''"] by simp
  have desc: "\<not> contains (if sanitize d (se_token S) = [] then ''telegram request rejected''
      else sanitize d (se_token S)) (se_token S)" for d
    using rejected sanitize_clean [OF tok, of d] by simp
  have api_desc: "\<not> contains (''telegram API HTTP '' @ show_int status @ '': '' @
      (if sanitize d (se_token S) = [] then ''telegram request rejected''
       else sanitize d (se_token S))) (se_token S)" for d
    by (rule api [OF desc])
  show ?thesis
  proof (cases "se_unmarshal S (take 4096 body)")
    case None
    define m where "m = ''invalid telegram response (HTTP '' @ show_int status @ '')''"
    have "e = permanent m \<or> e = RetryError 0 m"
      using e None by (simp add: response_error_def Let_def m_def split: if_splits)
    then show ?thesis using bad perm [OF bad] by (auto simp: permanent_def m_def)
  next
    case (Some r)
    define m where "m = ''telegram API HTTP '' @ show_int status @ '': '' @
      (if sanitize (tg_Description r) (se_token S) = [] then ''telegram request rejected''
       else sanitize (tg_Description r) (se_token S))"
    have m: "\<not> contains m (se_token S)" unfolding m_def by (rule api_desc)
    have "e = permanent m \<or> (\<exists>a. e = RetryError a m)"
      using e Some by (auto simp: response_error_def Let_def m_def permanent_def split: if_splits)
    then show ?thesis using m perm [OF m] by (auto simp: permanent_def)
  qed
qed

lemma sendOnce_clean:
  assumes tok: "bot_token (se_token S)" and e: "sendOnce S c k chatID text t = (Some e, t')"
  shows "\<not> contains (error_text e) (se_token S)"
proof -
  note words = clean_words [OF tok sanitize_clean [OF tok]]
  have "\<not> contains (''create telegram request: '' @ sanitize m (se_token S)) (se_token S)" for m
    using words [of "[''create'', ''telegram'', ''request:'']"] by simp
  moreover have "\<not> contains (safeTransportError m (se_token S)) (se_token S)" for m
    using words [of "[''telegram'', ''transport:'']"] by (simp add: safeTransportError_def)
  moreover have "\<not> contains (''read telegram response: '' @ sanitize m (se_token S)) (se_token S)" for m
    using words [of "[''read'', ''telegram'', ''response:'']"] by simp
  moreover have "\<not> contains ''context canceled'' (se_token S)"
    by (rule clean_word [OF tok]) simp
  ultimately show ?thesis using e response_error_clean [OF tok]
    by (auto simp: sendOnce_def Let_def split: http_outcome.splits if_splits)
qed

lemma safeError_map: "safeError m = map (\<lambda>c. if c = CHR 0x0A then CHR '' '' else c) m"
proof -
  have "replace_all m [CHR 0x0A] '' '' = map (\<lambda>c. if c = CHR 0x0A then CHR '' '' else c) m"
  proof (induction m)
    case Nil
    show ?case by (subst replace_all.simps) simp
  next
    case (Cons c m)
    then show ?case by (subst replace_all.simps) (auto simp: has_prefix_def)
  qed
  then show ?thesis by (simp add: safeError_def)
qed

lemma safeError_clean:
  assumes "CHR '' '' \<notin> set tok" and "\<not> contains m tok"
  shows "\<not> contains (safeError m) tok"
proof
  assume "contains (safeError m) tok"
  then obtain a b where ab: "safeError m = a @ tok @ b" by (auto simp: contains_iff)
  let ?f = "\<lambda>c. if c = CHR 0x0A then CHR '' '' else c"
  obtain x y z where m: "m = x @ y @ z" and y: "map ?f y = tok"
    using ab unfolding safeError_map by (auto simp: map_eq_append_conv append_eq_map_conv)
  have "map ?f y = y"
  proof (rule map_idI)
    fix c assume "c \<in> set y"
    with y have "?f c \<in> set tok" by auto
    with assms(1) show "?f c = c" by (auto split: if_splits)
  qed
  with y m assms(2) show False by (auto simp: contains_iff)
qed


section \<open>The consumer\<close>

lemma transfer_cases:
  assumes "transfer E q m t = (mv, a, t')"
  shows "a \<noteq> NackDrop" "a = Ack \<Longrightarrow> mv = Some (q, m)" "mv = None \<or> mv = Some (q, m)"
    "ne_ctx E = None \<Longrightarrow> ne_pub_ok E \<Longrightarrow> a = Ack \<and> mv = Some (q, m)"
    "ne_ctx E = None \<Longrightarrow> \<not> ne_pub_ok E \<Longrightarrow> a = NackRequeue \<and> mv = None"
  using assms by (auto simp: transfer_def wait_def ctx_done_def Let_def split: if_splits prod.splits)

definition postponed :: "NotifyTask \<Rightarrow> time \<Rightarrow> bool" where
  "postponed task t \<longleftrightarrow> nt_NotBefore task \<noteq> 0 \<and> t < nt_NotBefore task"

lemma handle_malformed:
  "notify_handle E (Inl body) t =
     moved_outcome (transfer E QueueNotifyDead (JMalformed body ''malformed notification JSON'') t) None []"
  by (simp add: notify_handle_def)

lemma handle_postponed:
  "postponed task t \<Longrightarrow>
   notify_handle E (Inr task) t = moved_outcome (transfer E QueueNotifyRetry (JNotify task) t) None []"
  by (simp add: notify_handle_def postponed_def)

lemma handle_sent:
  "\<not> postponed task t \<Longrightarrow> deliver E task t = (None, t', as) \<Longrightarrow>
   notify_handle E (Inr task) t =
     \<lparr>oc_moved = None, oc_settle = (if ctx_done (ne_ctx E) t' then Unsettled else Ack),
      oc_error = None, oc_attempts = as, oc_end = t'\<rparr>"
  by (auto simp: notify_handle_def postponed_def)

lemma handle_failed:
  "\<not> postponed task t \<Longrightarrow> deliver E task t = (Some e, t', as) \<Longrightarrow> failed_transfer task e t' = (q, m) \<Longrightarrow>
   notify_handle E (Inr task) t = moved_outcome (transfer E q m t') (Some e) as"
  by (auto simp: notify_handle_def postponed_def)

lemmas handle_cases = handle_malformed handle_postponed handle_sent handle_failed

lemma deliver_sent:
  assumes "deliver E task t = (None, t', as)"
  obtains chat where "nt_Channel task = ''telegram''" "parse_int64 (nt_Target task) = Some chat"
    "Send (ne_sender E) (ne_ctx E) chat (nt_Text task) t = (None, t', as)"
    "as \<noteq> []" "at_error (last as) = None"
proof -
  from assms obtain chat where chat: "nt_Channel task = ''telegram''" "parse_int64 (nt_Target task) = Some chat"
    "Send (ne_sender E) (ne_ctx E) chat (nt_Text task) t = (None, t', as)"
    by (auto simp: deliver_def sendTelegram_def split: if_splits option.splits)
  moreover have "as \<noteq> [] \<and> at_error (last as) = None"
    using Send_spec(2) [OF chat(3)] by (auto simp: concluded_def)
  ultimately show thesis using that by blast
qed

lemma deliver_failed:
  assumes "deliver E task t = (Some e, t', as)"
  obtains (channel) "nt_Channel task \<noteq> ''telegram''" "as = []"
      "e = ErrPermanent (''unknown notification channel '' @ go_quote (ne_quote E) (nt_Channel task) @
        '': permanent telegram error'')"
  | (cancelled) "nt_Channel task = ''telegram''" "ctx_done (ne_ctx E) t" "e = CtxErr" "as = []"
  | (target) "nt_Channel task = ''telegram''" "parse_int64 (nt_Target task) = None" "as = []"
      "e = ErrPermanent ''invalid telegram target: permanent telegram error''"
  | (sender) chat where "nt_Channel task = ''telegram''" "parse_int64 (nt_Target task) = Some chat"
      "Send (ne_sender E) (ne_ctx E) chat (nt_Text task) t = (Some e, t', as)"
  using assms by (auto simp: deliver_def sendTelegram_def split: if_splits option.splits)

text \<open>Where the effect of an acknowledged delivery is found.\<close>

definition accounted :: "string + NotifyTask \<Rightarrow> notifier \<Rightarrow> bool" where
  "accounted d s =
     (case d of
        Inl body \<Rightarrow> (QueueNotifyDead, JMalformed body ''malformed notification JSON'') \<in> set (nf_queues s)
      | Inr task \<Rightarrow>
          list_ex (\<lambda>(chat, text). parse_int64 (nt_Target task) = Some chat \<and> text = nt_Text task) (nf_sent s) \<or>
          list_ex (\<lambda>(q, m). q = QueueNotifyDead \<and> (case m of JDead task' _ \<Rightarrow> task' = task | _ \<Rightarrow> False) \<or>
             q = QueueNotifyRetry \<and> (case m of JNotify task' \<Rightarrow>
                task' = task\<lparr>nt_NotBefore := nt_NotBefore task'\<rparr> | _ \<Rightarrow> False)) (nf_queues s))"

lemma notify_step_accounts:
  assumes "notify_step (E, idle, d) s = (s', a)"
  shows "a \<noteq> NackDrop" and "a = Ack \<Longrightarrow> accounted d s'"
    and "\<exists>xs. nf_sent s' = nf_sent s @ xs" and "\<exists>xs. nf_queues s' = nf_queues s @ xs"
proof -
  define t where "t = nf_clock s + idle"
  define r where "r = notify_handle E d t"
  have s': "s' = s\<lparr>nf_clock := oc_end r, nf_sent := nf_sent s @ sent_message d r,
      nf_queues := nf_queues s @ (case oc_moved r of None \<Rightarrow> [] | Some m \<Rightarrow> [m])\<rparr>" and a: "a = oc_settle r"
    using assms by (simp_all add: notify_step_def Let_def r_def t_def)
  then show "\<exists>xs. nf_sent s' = nf_sent s @ xs" "\<exists>xs. nf_queues s' = nf_queues s @ xs" by simp_all
  have moved: "oc_settle r \<noteq> NackDrop \<and> (oc_settle r = Ack \<longrightarrow> accounted d s')"
    if r: "r = moved_outcome (transfer E q m u) e as" and acc: "\<And>s. (q, m) \<in> set (nf_queues s) \<Longrightarrow> accounted d s"
    for q m u e as
  proof -
    obtain mv b u' where tr: "transfer E q m u = (mv, b, u')" using prod_cases3 by blast
    then have "oc_settle r = b" "oc_moved r = mv" using r by (simp_all add: moved_outcome_def)
    then show ?thesis using transfer_cases(1,2) [OF tr] acc [of s'] s' by auto
  qed
  have both: "oc_settle r \<noteq> NackDrop \<and> (oc_settle r = Ack \<longrightarrow> accounted d s')"
  proof (cases d)
    case (Inl body)
    show ?thesis
      by (rule moved) (use Inl in \<open>auto simp: r_def handle_malformed accounted_def\<close>)
  next
    case (Inr task)
    show ?thesis
    proof (cases "postponed task t")
      case True
      show ?thesis
        by (rule moved, use Inr True in \<open>simp add: r_def handle_postponed\<close>)
          (use Inr in \<open>force simp: accounted_def list_ex_iff\<close>)
    next
      case False
      obtain e u as where dl: "deliver E task t = (e, u, as)" using prod_cases3 by blast
      show ?thesis
      proof (cases e)
        case None
        with dl obtain chat where "parse_int64 (nt_Target task) = Some chat" "as \<noteq> []" "at_error (last as) = None"
          using deliver_sent by blast
        with handle_sent [OF False dl [unfolded None]] Inr s' show ?thesis
          by (auto simp: r_def accounted_def sent_message_def)
      next
        case (Some x)
        obtain q m where ft: "failed_transfer task x u = (q, m)" by fastforce
        have acc: "accounted (Inr task) s" if "(q, m) \<in> set (nf_queues s)" for s
          using that ft by (force simp: accounted_def list_ex_iff failed_transfer_def split: if_splits)
        show ?thesis
          by (rule moved, use handle_failed [OF False dl [unfolded Some] ft] Inr in \<open>simp add: r_def\<close>)
            (use acc Inr in simp)
      qed
    qed
  qed
  then show "a \<noteq> NackDrop" "a = Ack \<Longrightarrow> accounted d s'" using a by simp_all
qed

lemma accounted_task:
  assumes "accounted (Inr task) s"
  shows "(\<exists>chat. parse_int64 (nt_Target task) = Some chat \<and> (chat, nt_Text task) \<in> set (nf_sent s)) \<or>
    (\<exists>why. (QueueNotifyDead, JDead task why) \<in> set (nf_queues s)) \<or>
    (\<exists>nb. (QueueNotifyRetry, JNotify (task\<lparr>nt_NotBefore := nb\<rparr>)) \<in> set (nf_queues s))"
proof -
  have moved: "(\<exists>why. m = JDead task why) \<and> q = QueueNotifyDead \<or>
      (\<exists>nb. m = JNotify (task\<lparr>nt_NotBefore := nb\<rparr>)) \<and> q = QueueNotifyRetry"
    if "q = QueueNotifyDead \<and> (case m of JDead task' _ \<Rightarrow> task' = task | _ \<Rightarrow> False) \<or>
      q = QueueNotifyRetry \<and> (case m of JNotify task' \<Rightarrow>
        task' = task\<lparr>nt_NotBefore := nt_NotBefore task'\<rparr> | _ \<Rightarrow> False)" for q m
    using that by (cases m) auto
  from assms consider chat where "parse_int64 (nt_Target task) = Some chat" "(chat, nt_Text task) \<in> set (nf_sent s)"
    | q m where "(q, m) \<in> set (nf_queues s)" "q = QueueNotifyDead \<and> (case m of JDead task' _ \<Rightarrow> task' = task | _ \<Rightarrow> False) \<or>
      q = QueueNotifyRetry \<and> (case m of JNotify task' \<Rightarrow>
        task' = task\<lparr>nt_NotBefore := nt_NotBefore task'\<rparr> | _ \<Rightarrow> False)"
    by (auto simp: accounted_def list_ex_iff)
  then show ?thesis
  proof cases
    case (2 q m)
    with moved [OF 2(2)] show ?thesis by (elim disjE) auto
  qed blast
qed

lemma accounted_mono:
  "accounted d s \<Longrightarrow> nf_sent s' = nf_sent s @ xs \<Longrightarrow> nf_queues s' = nf_queues s @ ys \<Longrightarrow> accounted d s'"
  by (auto simp: accounted_def split: sum.splits)


lemma notify_loop_accounts:
  assumes "consume_loop notify_step es s = ((s', as), r)"
  shows "NackDrop \<notin> set as \<and> length as \<le> length es \<and>
    (\<exists>xs. nf_sent s' = nf_sent s @ xs) \<and> (\<exists>xs. nf_queues s' = nf_queues s @ xs) \<and>
    (\<forall>i < length as. as ! i = Ack \<longrightarrow> (\<exists>E idle d. es ! i = Delivered (E, idle, d) \<and> accounted d s'))"
  using assms
proof (induction es arbitrary: s as)
  case (Cons e es)
  show ?case
  proof (cases e)
    case (Delivered x)
    obtain E idle d where x: "x = (E, idle, d)" using prod_cases3 by blast
    obtain u a where u: "notify_step x s = (u, a)" by fastforce
    obtain bs where as: "as = a # bs" and rest: "consume_loop notify_step es u = ((s', bs), r)"
      using Cons.prems Delivered u by (auto split: prod.splits)
    note step = notify_step_accounts [OF u [unfolded x]] and ih = Cons.IH [OF rest]
    have acc: "a = Ack \<Longrightarrow> accounted d s'"
      using step(2) ih accounted_mono by blast
    have "\<exists>E idle d. (e # es) ! i = Delivered (E, idle, d) \<and> accounted d s'"
      if "i < length as" "as ! i = Ack" for i
      using that as ih acc Delivered x by (cases i) auto
    moreover have "\<exists>xs. nf_sent s' = nf_sent s @ xs" "\<exists>xs. nf_queues s' = nf_queues s @ xs"
      using step(3,4) ih by (metis append_assoc)+
    ultimately show ?thesis using step(1) ih as by auto
  qed (use Cons.prems in auto)
qed simp

lemma notify_run_accounts:
  assumes "notify_Run ok es s = ((s', as), r)"
  shows "NackDrop \<notin> set as \<and> length as \<le> length es \<and>
    (\<exists>xs. nf_sent s' = nf_sent s @ xs) \<and> (\<exists>xs. nf_queues s' = nf_queues s @ xs) \<and>
    (\<forall>i < length as. as ! i = Ack \<longrightarrow> (\<exists>E idle d. es ! i = Delivered (E, idle, d) \<and> accounted d s'))"
  using assms notify_loop_accounts by (auto simp: notify_Run_def split: if_splits)

section \<open>An instance\<close>

fun demo_unmarshal :: "string \<Rightarrow> tg_response option" where
  "demo_unmarshal b =
     (if b = ''ok'' then Some \<lparr>tg_OK = True, tg_Description = [], tg_RetryAfter = 0\<rparr>
      else if b = ''slow'' then Some \<lparr>tg_OK = False, tg_Description = ''bot1:ab is slow'', tg_RetryAfter = 5\<rparr>
      else if b = ''wait'' then Some \<lparr>tg_OK = False, tg_Description = ''wait'', tg_RetryAfter = 100\<rparr>
      else None)"

definition demo_sender :: "http_outcome list \<Rightarrow> sender" where
  "demo_sender os = \<lparr>se_token = ''1:ab'',
     se_client = (\<lambda>k _. \<lparr>hc_took = second, hc_outcome = os ! min k (length os - 1)\<rparr>),
     se_unmarshal = demo_unmarshal\<rparr>"

definition demo_notify :: "http_outcome list \<Rightarrow> notify_env" where
  "demo_notify os = \<lparr>ne_sender = demo_sender os, ne_ctx = None, ne_pub_took = second,
     ne_pub_ok = True, ne_quote = (\<lambda>c. [c])\<rparr>"

definition demo_task :: NotifyTask where
  "demo_task = \<lparr>nt_TaskID = ''t'', nt_Channel = ''telegram'', nt_Target = ''42'', nt_Text = ''hi'',
     nt_Direction = ''down'', nt_NotBefore = 0\<rparr>"

lemmas notify_demo_simps = demo_sender_def demo_notify_def demo_task_def Send_def send_delays_def
  sendOnce_def response_error_def wait_def ctx_done_def Let_def sanitize_def wrap64_def second_def
  permanent_def

section \<open>Properties\<close>

text \<open>
  C18: \<open>Send\<close> makes at most four attempts and, when every request respects its ten second
  bound, ends within 130 seconds. Each attempt is one call of the client; an attempt is
  followed by another only after a transient error whose requested delay is at most thirty
  seconds, and that other attempt starts exactly after the larger of the requested delay and
  the scheduled one. \<open>Send\<close> succeeds exactly when its last attempt did. That a request ends within
  ten seconds is the \<open>Timeout\<close> of the \<open>http.Client\<close>, the library's promise: it is a hypothesis on the
  client here, not a part of \<open>sendOnce\<close>.
\<close>

theorem send_schedule:
  assumes "Send S c chatID text t = (r, t', as)"
    and "\<And>i req. 0 \<le> hc_took (se_client S i req) \<and> hc_took (se_client S i req) \<le> requestTimeout"
  shows "length as \<le> 4 \<and> t' \<le> t + 130 * second \<and>
    (r = None \<longleftrightarrow> as \<noteq> [] \<and> at_error (last as) = None) \<and>
    (\<forall>i < length as. sendOnce S c i chatID text (at_start (as ! i)) = (at_error (as ! i), at_end (as ! i))) \<and>
    (\<forall>i. Suc i < length as \<longrightarrow> at_error (as ! i) \<noteq> None \<and> \<not> is_permanent (at_error (as ! i)) \<and>
       After (at_error (as ! i)) \<le> 30 * second \<and>
       at_start (as ! Suc i) = at_end (as ! i) + max (After (at_error (as ! i))) (send_delays ! Suc i))"
proof (intro conjI)
  note spec = Send_spec [OF assms(1)]
  show "length as \<le> 4" using spec(1) by (simp add: paced_def send_delays_simps)
  show "t' \<le> t + 130 * second"
    using send_loop_time [OF assms(1) [unfolded Send_def]] assms(2) by (simp add: send_delays_simps)
  show "r = None \<longleftrightarrow> as \<noteq> [] \<and> at_error (last as) = None"
    using spec(2) by (auto simp: concluded_def stops_def)
  show "\<forall>i < length as. sendOnce S c i chatID text (at_start (as ! i)) = (at_error (as ! i), at_end (as ! i))"
    using spec(4) by (simp add: attempted_def)
  show "\<forall>i. Suc i < length as \<longrightarrow> at_error (as ! i) \<noteq> None \<and> \<not> is_permanent (at_error (as ! i)) \<and>
       After (at_error (as ! i)) \<le> 30 * second \<and>
       at_start (as ! Suc i) = at_end (as ! i) + max (After (at_error (as ! i))) (send_delays ! Suc i)"
    using spec(1) by (auto simp: paced_def stops_def)
qed

theorem send_schedule_witness:
  "\<exists>r t' as. Send (demo_sender [Response 429 ''slow'', Response 200 ''ok'']) None 42 ''hi'' 0 = (r, t', as) \<and>
     length as = 2 \<and> t' \<le> 0 + 130 * second \<and> r = None"
proof -
  let ?S = "demo_sender [Response 429 ''slow'', Response 200 ''ok'']"
  obtain r t' as where run: "Send ?S None 42 ''hi'' 0 = (r, t', as)" using prod_cases3 by blast
  have "0 \<le> hc_took (se_client ?S i req) \<and> hc_took (se_client ?S i req) \<le> requestTimeout" for i req
    by (simp add: demo_sender_def requestTimeout_def second_def)
  note spec = send_schedule [OF run this]
  have "length as = 2" using run by (auto simp: notify_demo_simps)
  moreover have "r = None" using run by (auto simp: notify_demo_simps)
  ultimately show ?thesis using run spec by blast
qed

text \<open>
  C19: the bot token never leaves the sender inside an error: whatever Telegram or the
  transport put into their messages, no error that \<open>Send\<close> returns, and no dead letter made
  from it, contains the token.
\<close>

theorem token_never_leaks:
  assumes "bot_token (se_token S)" and "Send S c chatID text t = (Some e, t', as)"
  shows "\<not> contains (error_text e) (se_token S) \<and> \<not> contains (safeError (error_text e)) (se_token S)"
proof -
  have "\<not> contains ''context canceled'' (se_token S)" by (rule clean_word [OF assms(1)]) simp
  then have clean: "\<not> contains (error_text e) (se_token S)"
    using Send_error [OF assms(2)] sendOnce_clean [OF assms(1)] by auto
  moreover have "CHR '' '' \<notin> set (se_token S)" using assms(1) by (simp add: bot_token_def)
  ultimately show ?thesis by (simp add: safeError_clean)
qed

theorem token_never_leaks_witness:
  "\<exists>e t' as. Send (demo_sender [TransportFailed ''dial bot1:ab'']) None 42 ''hi'' 0 = (Some e, t', as) \<and>
     \<not> contains (safeError (error_text e)) ''1:ab''"
proof -
  let ?S = "demo_sender [TransportFailed ''dial bot1:ab'']"
  have tok: "bot_token (se_token ?S)" by (simp add: bot_token_def demo_sender_def)
  have "fst (Send ?S None 42 ''hi'' 0) \<noteq> None" by (simp add: notify_demo_simps)
  then obtain e t' as where run: "Send ?S None 42 ''hi'' 0 = (Some e, t', as)" by (metis prod.collapse option.exhaust)
  then show ?thesis using token_never_leaks [OF tok run] by (auto simp: demo_sender_def)
qed


text \<open>
  C17: no notification is lost. In every run of the consumer, with any deliveries, failures
  and cancellation, an acknowledged delivery has left its trace: Telegram accepted its text
  for its chat, or the broker confirmed the task on the retry queue (unchanged up to its
  \<open>NotBefore\<close>) or on the dead letter queue; nothing is ever dropped by a negative
  acknowledgement, and what was sent or moved before stays.
\<close>

theorem notifications_accounted:
  assumes "notify_Run ok es s = ((s', as), r)"
  shows "NackDrop \<notin> set as \<and>
    (\<exists>xs. nf_sent s' = nf_sent s @ xs) \<and> (\<exists>ys. nf_queues s' = nf_queues s @ ys) \<and>
    (\<forall>i < length as. as ! i = Ack \<longrightarrow>
       (\<exists>E idle d. es ! i = Delivered (E, idle, d) \<and>
          (case d of
             Inl body \<Rightarrow> (QueueNotifyDead, JMalformed body ''malformed notification JSON'') \<in> set (nf_queues s')
           | Inr task \<Rightarrow>
               (\<exists>chat. parse_int64 (nt_Target task) = Some chat \<and> (chat, nt_Text task) \<in> set (nf_sent s')) \<or>
               (\<exists>why. (QueueNotifyDead, JDead task why) \<in> set (nf_queues s')) \<or>
               (\<exists>nb. (QueueNotifyRetry, JNotify (task\<lparr>nt_NotBefore := nb\<rparr>)) \<in> set (nf_queues s')))))"
proof -
  have "case d of
      Inl body \<Rightarrow> (QueueNotifyDead, JMalformed body ''malformed notification JSON'') \<in> set (nf_queues s')
    | Inr task \<Rightarrow>
        (\<exists>chat. parse_int64 (nt_Target task) = Some chat \<and> (chat, nt_Text task) \<in> set (nf_sent s')) \<or>
        (\<exists>why. (QueueNotifyDead, JDead task why) \<in> set (nf_queues s')) \<or>
        (\<exists>nb. (QueueNotifyRetry, JNotify (task\<lparr>nt_NotBefore := nb\<rparr>)) \<in> set (nf_queues s'))"
    if "accounted d s'" for d
    using that by (cases d) (simp add: accounted_def, simp, rule accounted_task)
  with notify_run_accounts [OF assms] show ?thesis by meson
qed

theorem notifications_accounted_witness:
  "\<exists>s'. notify_Run True [Delivered (demo_notify [Response 429 ''slow'', Response 200 ''ok''], 0, Inr demo_task)]
       \<lparr>nf_clock = 1, nf_sent = [], nf_queues = []\<rparr> = ((s', [Ack]), StillRunning) \<and>
     (\<exists>ys. nf_queues s' = [] @ ys)"
proof -
  let ?es = "[Delivered (demo_notify [Response 429 ''slow'', Response 200 ''ok''], 0, Inr demo_task)]"
  let ?s = "\<lparr>nf_clock = 1, nf_sent = [], nf_queues = []\<rparr>"
  have "\<exists>u as. deliver (demo_notify [Response 429 ''slow'', Response 200 ''ok'']) demo_task 1 = (None, u, as)"
    by (simp add: deliver_def sendTelegram_def notify_demo_simps parse_int64_def int64_def
        digits_val_def digit_val_def is_digit_def)
  then obtain u atts where "deliver (demo_notify [Response 429 ''slow'', Response 200 ''ok'']) demo_task 1
      = (None, u, atts)" by blast
  note h = handle_sent [OF _ this]
  obtain s' as r where run: "notify_Run True ?es ?s = ((s', as), r)" by (metis prod.exhaust)
  moreover have "as = [Ack]" "r = StillRunning"
    using run h by (auto simp: notify_Run_def notify_step_def postponed_def Let_def demo_task_def ctx_done_def
        demo_notify_def)
  ultimately show ?thesis using notifications_accounted [OF run] by auto
qed

section \<open>Rate limits\<close>

text \<open>
  A task on its way through the queue: each handling takes what the last one moved back to the
  retry queue, or the same task again when its delivery was not acknowledged. The calls of
  Telegram on the way and the task at the end, \<open>None\<close> when it is gone.
\<close>

fun redeliveries :: "(notify_env \<times> time) list \<Rightarrow> NotifyTask \<Rightarrow> attempt list \<times> NotifyTask option" where
  "redeliveries [] task = ([], Some task)"
| "redeliveries ((E, t) # xs) task =
     (let r = notify_handle E (Inr task) t;
          rest = (case oc_moved r of
              Some (q, JNotify task') \<Rightarrow> if q = QueueNotifyRetry then redeliveries xs task' else ([], None)
            | Some _ \<Rightarrow> ([], None)
            | None \<Rightarrow> if oc_settle r = Ack then ([], None) else redeliveries xs task)
      in (oc_attempts r @ fst rest, snd rest))"

lemma postponed_waits:
  assumes "\<forall>x \<in> set xs. postponed task (snd x)"
  shows "redeliveries xs task = ([], Some task)"
  using assms
proof (induction xs)
  case (Cons x xs)
  obtain E t where x: "x = (E, t)" by (cases x)
  then have h: "notify_handle E (Inr task) t = moved_outcome (transfer E QueueNotifyRetry (JNotify task) t) None []"
    using Cons.prems by (intro handle_postponed) simp
  obtain mv b v where tr: "transfer E QueueNotifyRetry (JNotify task) t = (mv, b, v)" using prod_cases3 by blast
  show ?case
    using Cons x h tr transfer_cases(1-3) [OF tr] by (auto simp: moved_outcome_def Let_def)
qed simp

text \<open>
  C20: A long rate limit is respected across redeliveries. When Telegram asked for more than
  thirty seconds, the task that goes back to the retry queue carries a \<open>NotBefore\<close> exactly that
  long after the failed attempt ended. However often the queue delivers it again before that time,
  and whatever the broker and the shutdown do meanwhile, Telegram is not called and the task stays
  in the queues, unchanged.
\<close>

theorem rate_limit_respected:
  assumes "oc_moved (notify_handle E (Inr task) t) = Some (QueueNotifyRetry, JNotify task')"
    and "oc_error (notify_handle E (Inr task) t) = Some (RetryError a m)" and "a > 30 * second"
    and attempts: "oc_attempts (notify_handle E (Inr task) t) = as"
    and later: "0 < at_end (last as)" "\<forall>x \<in> set xs. snd x < at_end (last as) + a"
  shows "at_error (last as) = Some (RetryError a m) \<and>
    nt_NotBefore task' = at_end (last as) + a \<and>
    redeliveries xs task' = ([], Some task')"
proof -
  have np: "\<not> postponed task t"
    using assms(2) by (auto simp: handle_postponed moved_outcome_def split: prod.splits)
  obtain e u as' where dl: "deliver E task t = (e, u, as')" using prod_cases3 by blast
  have "e \<noteq> None" using assms(2) handle_sent [OF np, of E u as'] dl by (cases e) simp_all
  then obtain x where e: "e = Some x" by blast
  obtain q j where ft: "failed_transfer task x u = (q, j)" by fastforce
  have h: "notify_handle E (Inr task) t = moved_outcome (transfer E q j u) (Some x) as'"
    by (rule handle_failed [OF np dl [unfolded e] ft])
  obtain mv b u' where tr: "transfer E q j u = (mv, b, u')" using prod_cases3 by blast
  have x: "x = RetryError a m" and as: "as' = as" and "mv = Some (QueueNotifyRetry, JNotify task')"
    using assms(1,2) attempts h tr by (simp_all add: moved_outcome_def)
  then have "j = JNotify task'" using transfer_cases(3) [OF tr] by auto
  then have task': "task' = task\<lparr>nt_NotBefore := u + a\<rparr>"
    using ft x assms(3) by (auto simp: failed_transfer_def NotifyRetryDelay_def)
  have send: "as \<noteq> [] \<and> at_error (last as) = Some (RetryError a m) \<and> u = at_end (last as)"
    using dl [unfolded e x]
  proof (cases rule: deliver_failed)
    case (sender chat)
    then show ?thesis using Send_end [OF sender(3)] as by simp
  qed (use x in auto)
  have "\<forall>x \<in> set xs. postponed task' (snd x)"
    using task' send later assms(3) by (simp add: postponed_def second_def)
  with send task' show ?thesis by (simp add: postponed_waits)
qed

text \<open>
  Telegram answers 429 with a delay of a hundred seconds; the task is handled twice within that
  time, the second time with a broker that does not confirm.
\<close>

theorem rate_limit_respected_witness:
  "let r = notify_handle (demo_notify [Response 429 ''wait'']) (Inr demo_task) 1;
       waiting = demo_task\<lparr>nt_NotBefore := 1 + 101 * second\<rparr>;
       E = demo_notify [Response 200 ''ok'']
   in oc_moved r = Some (QueueNotifyRetry, JNotify waiting) \<and> length (oc_attempts r) = 1 \<and>
      redeliveries [(E, 1 + 50 * second), (E\<lparr>ne_pub_ok := False\<rparr>, 1 + 100 * second)] waiting = ([], Some waiting)"
proof -
  let ?E = "demo_notify [Response 429 ''wait'']"
  let ?as = "[\<lparr>at_start = 1, at_end = 1 + second, at_error =
      Some (RetryError (100 * second) (''telegram API HTTP '' @ show_int 429 @ '': wait''))\<rparr>]"
  have san: "replace_all ''wait'' ''1:ab'' ''[redacted]'' = ''wait''"
    by (simp add: replace_all.simps has_prefix_def)
  have "deliver ?E demo_task 1 = (at_error (hd ?as), 1 + second, ?as)"
    by (simp add: deliver_def sendTelegram_def notify_demo_simps parse_int64_def int64_def
        digits_val_def digit_val_def is_digit_def san)
  then have dl: "deliver ?E demo_task 1 = (Some (RetryError (100 * second)
      (''telegram API HTTP '' @ show_int 429 @ '': wait'')), 1 + second, ?as)" by simp
  have np: "\<not> postponed demo_task 1" by (simp add: postponed_def demo_task_def)
  let ?task = "demo_task\<lparr>nt_NotBefore := 1 + second + 100 * second\<rparr>"
  have "failed_transfer demo_task (RetryError (100 * second)
      (''telegram API HTTP '' @ show_int 429 @ '': wait'')) (1 + second) = (QueueNotifyRetry, JNotify ?task)"
    by (simp add: failed_transfer_def NotifyRetryDelay_def second_def)
  note h = handle_failed [OF np dl this]
  have tr: "transfer ?E QueueNotifyRetry (JNotify ?task) (1 + second)
      = (Some (QueueNotifyRetry, JNotify ?task), Ack, 1 + second + second)"
    by (simp add: transfer_def demo_notify_def ctx_done_def)
  have hundred: "1 + second + 100 * second = 1 + 101 * second" by simp
  let ?E' = "demo_notify [Response 200 ''ok'']"
  let ?xs = "[(?E', 1 + 50 * second), (?E'\<lparr>ne_pub_ok := False\<rparr>, 1 + 100 * second)]"
  have r: "notify_handle ?E (Inr demo_task) 1 = \<lparr>oc_moved = Some (QueueNotifyRetry, JNotify ?task), oc_settle = Ack,
      oc_error = Some (RetryError (100 * second) (''telegram API HTTP '' @ show_int 429 @ '': wait'')),
      oc_attempts = ?as, oc_end = 1 + second + second\<rparr>"
    unfolding h tr by (simp add: moved_outcome_def)
  have "redeliveries ?xs ?task = ([], Some ?task)"
    using rate_limit_respected [where E = ?E and task = demo_task and t = 1 and task' = ?task
        and a = "100 * second" and m = "''telegram API HTTP '' @ show_int 429 @ '': wait''"
        and as = ?as and xs = ?xs]
    unfolding r by (simp add: second_def)
  then have waits: "redeliveries ?xs (demo_task\<lparr>nt_NotBefore := 1 + 101 * second\<rparr>)
      = ([], Some (demo_task\<lparr>nt_NotBefore := 1 + 101 * second\<rparr>))"
    unfolding hundred .
  show ?thesis unfolding Let_def r hundred waits by simp
qed

end
