(* ===== verification/Marketplace.thy ===== *)
theory Marketplace
  imports Platform
begin

text \<open>
  \<open>shared/pkg/marketplace/wb.go\<close>: reading a product's name and price from its Wildberries
  page. The headless browser (\<open>chromedp\<close>) and the JSON decoder of its answer are parameters:
  for a page they say how the navigation ended and what the page's script returned.
\<close>

record Product =
  mp_Name :: string
  mp_Price :: float64
  mp_Currency :: string

section \<open>The price\<close>

text \<open>
  \<open>strconv.ParseFloat\<close> of decimal digits: exact up to \<open>2 ^ 53\<close>; beyond, the correctly rounded
  value (\<open>+Inf\<close> when out of range) is the parameter \<open>big\<close>.
\<close>

definition ParseDigits :: "(nat \<Rightarrow> float64) \<Rightarrow> string \<Rightarrow> float64" where
  "ParseDigits big ds = (if digits_val ds \<le> 2 ^ 53 then Fin (of_nat (digits_val ds)) else big (digits_val ds))"

definition nbsp :: string where "nbsp = utf8 [194, 160]"

text \<open>
  The loop of \<open>parseWBPrice\<close> with the digits written so far. Runes other than digits and
  the two spaces only matter once a digit was seen, so they can be skipped byte by byte.
\<close>

function scan_price :: "(nat \<Rightarrow> float64) \<Rightarrow> string \<Rightarrow> string \<Rightarrow> float64" where
  "scan_price big digits s =
     (if s = [] then (if digits = [] then f_zero else ParseDigits big digits)
      else if is_digit (hd s) then scan_price big (digits @ [hd s]) (tl s)
      else if hd s = CHR '' '' then scan_price big digits (tl s)
      else if has_prefix s nbsp then scan_price big digits (drop 2 s)
      else if digits \<noteq> [] then ParseDigits big digits
      else scan_price big digits (tl s))"
  by pat_completeness auto
termination
  by (relation "measure (\<lambda>(_, _, s). length s)") auto

declare scan_price.simps [simp del]

definition parseWBPrice :: "(nat \<Rightarrow> float64) \<Rightarrow> string \<Rightarrow> float64" where
  "parseWBPrice big s = scan_price big [] s"

section \<open>The name\<close>

definition txt_buy_for :: string where \<comment> \<open>buy for\<close>
  "txt_buy_for = utf8 [208, 186, 209, 131, 208, 191, 208, 184, 209, 130, 209, 140, 32, 208, 183, 208, 176]"

definition txt_wb_product :: string where \<comment> \<open>WB product\<close>
  "txt_wb_product = utf8 [87, 66, 32, 209, 130, 208, 190, 208, 178, 208, 176, 209, 128]"

definition before :: "string \<Rightarrow> string \<Rightarrow> string option" where
  "before title sub =
     (case str_index title sub of
        None \<Rightarrow> None | Some i \<Rightarrow> if i > 0 then Some (TrimSpace (take i title)) else None)"

definition extractWBName :: "string \<Rightarrow> string \<Rightarrow> string" where
  "extractWBName title nmID =
     (case before title ('' '' @ nmID) of
        Some n \<Rightarrow> n
      | None \<Rightarrow> (case before title ('' '' @ txt_buy_for @ '' '') of Some n \<Rightarrow> n | None \<Rightarrow> []))"

section \<open>FetchProduct\<close>

record page_data =
  pg_Price :: string
  pg_Name :: string
  pg_Title :: string
  pg_URL :: string

text \<open>How the browser run ended; cancelled and timed out runs are those with \<open>ctx.Err()\<close>.\<close>

datatype browser_run =
    BrowserCancelled
  | BrowserTimedOut
  | BrowserFailed string
  | BrowserDone string

record browser =
  br_run :: "string \<Rightarrow> browser_run"
  br_unmarshal :: "string \<Rightarrow> string + page_data"
  br_big :: "nat \<Rightarrow> float64"
  br_quote :: "char \<Rightarrow> string"

definition page_product :: "browser \<Rightarrow> string \<Rightarrow> page_data \<Rightarrow> string + Product" where
  "page_product B nmID data =
     (if \<not> contains (pg_Title data) nmID \<and> \<not> contains (pg_Title data) txt_buy_for
      then Inl (''product page not found, got main page (nmID='' @ nmID @ '' title='' @
             go_quote (br_quote B) (pg_Title data) @ '')'')
      else
        let price = parseWBPrice (br_big B) (pg_Price data)
        in if f_eq price f_zero
           then Inl (''price not found on page (title='' @ go_quote (br_quote B) (pg_Title data) @ '' url='' @
                  go_quote (br_quote B) (pg_URL data) @ '')'')
           else
             let name = extractWBName (pg_Title data) nmID;
                 name = (if name = [] then TrimSpace (pg_Name data) else name);
                 name = (if name = [] then txt_wb_product else name)
             in Inr \<lparr>mp_Name = name, mp_Price = price, mp_Currency = ''RUB''\<rparr>)"

definition fetchPage :: "browser \<Rightarrow> bool \<Rightarrow> string \<Rightarrow> string \<Rightarrow> string + Product" where
  "fetchPage B ctx_err pageURL nmID =
     (if ctx_err then Inl ''context canceled''
      else case br_run B pageURL of
        BrowserCancelled \<Rightarrow> Inl ''context canceled''
      | BrowserTimedOut \<Rightarrow> Inl ''context deadline exceeded''
      | BrowserFailed m \<Rightarrow> Inl (''wb fetch: '' @ m)
      | BrowserDone js \<Rightarrow>
          (case br_unmarshal B js of
             Inl m \<Rightarrow> Inl (''parse wb result: '' @ m)
           | Inr data \<Rightarrow> page_product B nmID data))"

text \<open>\<open>ctx_err\<close> and \<open>ctx_err'\<close> are the two checks of the caller's context.\<close>

definition FetchProduct :: "browser \<Rightarrow> bool \<Rightarrow> bool \<Rightarrow> string \<Rightarrow> string + Product" where
  "FetchProduct B ctx_err ctx_err' rawURL =
     (if ctx_err then Inl ''context canceled''
      else case wbProductIDRe rawURL of
        None \<Rightarrow> Inl ''invalid wildberries url''
      | Some nmID \<Rightarrow> fetchPage B ctx_err' (canonical_url nmID) nmID)"

section \<open>Prices as they are displayed\<close>

text \<open>A number with its thousands separated: digits, spaces and no-break spaces, a digit first.\<close>

inductive grouped :: "string \<Rightarrow> string \<Rightarrow> bool" where
  grouped_Nil: "grouped [] []"
| grouped_digit: "is_digit c \<Longrightarrow> grouped ds s \<Longrightarrow> grouped (c # ds) (c # s)"
| grouped_space: "grouped ds s \<Longrightarrow> grouped ds (CHR '' '' # s)"
| grouped_nbsp: "grouped ds s \<Longrightarrow> grouped ds (nbsp @ s)"

definition stops_price :: "string \<Rightarrow> bool" where
  "stops_price s \<longleftrightarrow> s = [] \<or> \<not> is_digit (hd s) \<and> hd s \<noteq> CHR '' '' \<and> \<not> has_prefix s nbsp"

lemma nbsp_simps: "nbsp = [CHR 0xC2, CHR 0xA0]" "\<not> is_digit (CHR 0xC2)" "length nbsp = 2"
proof -
  have "char_of (194 :: nat) = CHR 0xC2" "char_of (160 :: nat) = CHR 0xA0" by code_simp+
  then show "nbsp = [CHR 0xC2, CHR 0xA0]" by (simp add: nbsp_def utf8_def)
  show "length nbsp = 2" by (simp add: nbsp_def utf8_def)
  show "\<not> is_digit (CHR 0xC2)" by (simp add: is_digit_def)
qed

lemma grouped_empty: "grouped ds s \<Longrightarrow> s = [] \<Longrightarrow> ds = []"
  by (induction rule: grouped.induct) (simp_all add: nbsp_simps)

lemma scan_grouped:
  "grouped ds s \<Longrightarrow> stops_price rest \<Longrightarrow> acc @ ds \<noteq> [] \<Longrightarrow>
   scan_price big acc (s @ rest) = ParseDigits big (acc @ ds)"
proof (induction ds s arbitrary: acc rule: grouped.induct)
  case grouped_Nil
  then show ?case by (subst scan_price.simps) (auto simp: stops_price_def)
next
  case (grouped_digit c ds s)
  then show ?case by (subst scan_price.simps) simp
next
  case (grouped_space ds s)
  then show ?case by (subst scan_price.simps) (simp add: is_digit_def)
next
  case (grouped_nbsp ds s)
  then show ?case by (subst scan_price.simps) (simp add: nbsp_simps has_prefix_def)
qed

lemma scan_skip:
  "\<forall>c \<in> set junk. \<not> is_digit c \<Longrightarrow> s \<noteq> [] \<Longrightarrow> is_digit (hd s) \<Longrightarrow>
   scan_price big [] (junk @ s) = scan_price big [] s"
proof (induction "length junk" arbitrary: junk rule: less_induct)
  case less
  show ?case
  proof (cases junk)
    case (Cons c junk')
    have c: "\<not> is_digit c" using less.prems(1) Cons by simp
    show ?thesis
    proof (cases "has_prefix (junk @ s) nbsp")
      case False
      with c Cons less.hyps [of junk'] less.prems show ?thesis
        by (subst scan_price.simps) auto
    next
      case True
      have two: "\<exists>d junk''. junk' = d # junk''"
        using True Cons less.prems(2,3) by (cases junk'; cases s) (auto simp: nbsp_simps has_prefix_def is_digit_def)
      then obtain d junk'' where d: "junk' = d # junk''" by blast
      have "c = CHR 0xC2" using True Cons d by (simp add: nbsp_simps has_prefix_def)
      with c Cons d True less.hyps [of junk''] less.prems show ?thesis
        by (subst scan_price.simps) auto
    qed
  qed simp
qed

end
