(* ===== verification/Extractor.thy ===== *)
theory Extractor
  imports Marketplace Consumer
begin

text \<open>
  The extractor service, \<open>services/extractor/internal/consumer/consumer.go\<close>: two consumers,
  of \<open>lookup.tasks\<close> and of \<open>scraper.tasks\<close>, that fetch a product page and publish a price
  result. The environment of a delivery says what \<open>ctx.Err()\<close> returns at each check, how
  the browser behaves, what the clock shows and whether the broker confirms.
\<close>

record xenv =
  xe_done :: "nat \<Rightarrow> bool"
  xe_browser :: browser
  xe_now :: time
  xe_confirm :: bool

text \<open>\<open>fetch\<close>: checks 1 and 2 of the context are those of \<open>FetchProduct\<close>.\<close>

definition fetch :: "xenv \<Rightarrow> string \<Rightarrow> string \<Rightarrow> string + Product" where
  "fetch E plat url =
     (if plat = ''wb'' then FetchProduct (xe_browser E) (xe_done E 1) (xe_done E 2) url
      else Inl (''unknown platform: '' @ plat))"

text \<open>
  Publishing a result to a queue and settling the delivery: \<open>Publish\<close> fails when the result
  does not marshal or is not confirmed. What was published comes with its queue.
\<close>

definition publish_result :: "xenv \<Rightarrow> string \<Rightarrow> PriceResult \<Rightarrow> (string \<times> PriceResult) option \<times> settle" where
  "publish_result E queue result =
     (if \<not> (json_Marshal_ok (JResult result) \<and> xe_confirm E)
      then (None, if xe_done E 4 then Unsettled else NackRequeue)
      else (Some (queue, result), if xe_done E 4 then Unsettled else Ack))"

definition lookup_result :: "LookupTask \<Rightarrow> time \<Rightarrow> string + Product \<Rightarrow> PriceResult" where
  "lookup_result task now r =
     (let result = \<lparr>pr_TaskID = lt_TaskID task, pr_LookupID = lt_LookupID task, pr_ProductID = [],
        pr_URL = lt_URL task, pr_Name = [], pr_Price = f_zero, pr_Currency = [], pr_ScrapedAt = now,
        pr_Success = False, pr_Error = [], pr_Force = False, pr_ChatID = 0\<rparr>
      in case r of
           Inl err \<Rightarrow> result\<lparr>pr_Success := False, pr_Error := err\<rparr>
         | Inr product \<Rightarrow> result\<lparr>pr_Success := True, pr_Name := mp_Name product, pr_Price := mp_Price product,
             pr_Currency := mp_Currency product\<rparr>)"

definition handleLookup :: "xenv \<Rightarrow> LookupTask option \<Rightarrow> (string \<times> PriceResult) option \<times> settle" where
  "handleLookup E d =
     (if xe_done E 0 then (None, Unsettled)
      else case d of
        None \<Rightarrow> (None, NackDrop)
      | Some task \<Rightarrow>
          (let product = fetch E (lt_Platform task) (lt_URL task)
           in if xe_done E 3 then (None, Unsettled)
              else publish_result E QueuePriceResults (lookup_result task (xe_now E) product)))"

definition scraper_result :: "ScraperTask \<Rightarrow> time \<Rightarrow> string + Product \<Rightarrow> PriceResult" where
  "scraper_result task now r =
     (let result = \<lparr>pr_TaskID = st_TaskID task, pr_LookupID = [], pr_ProductID = st_ProductID task,
        pr_URL = st_URL task, pr_Name = [], pr_Price = f_zero, pr_Currency = [], pr_ScrapedAt = now,
        pr_Success = False, pr_Error = [], pr_Force = st_Force task, pr_ChatID = st_ChatID task\<rparr>
      in case r of
           Inl err \<Rightarrow> result\<lparr>pr_Success := False, pr_Error := err\<rparr>
         | Inr product \<Rightarrow> result\<lparr>pr_Success := True, pr_Price := mp_Price product, pr_Currency := mp_Currency product\<rparr>)"

definition handleScraper :: "xenv \<Rightarrow> ScraperTask option \<Rightarrow> (string \<times> PriceResult) option \<times> settle" where
  "handleScraper E d =
     (if xe_done E 0 then (None, Unsettled)
      else case d of
        None \<Rightarrow> (None, NackDrop)
      | Some task \<Rightarrow>
          (let product = fetch E (st_Platform task) (st_URL task)
           in if xe_done E 3 then (None, Unsettled)
              else publish_result E QueuePriceResults (scraper_result task (xe_now E) product)))"

section \<open>The loops\<close>

text \<open>
  \<open>runQueue\<close> for either handler: the channel's events with what \<open>ctx.Err()\<close> says right after.
  The state is the list of published results, each with the queue it went to.
\<close>

datatype 'd queue_event = QCtxDone | QClosed bool | QDelivered bool xenv "'d option"

fun queue_loop ::
  "(xenv \<Rightarrow> 'd option \<Rightarrow> (string \<times> PriceResult) option \<times> settle) \<Rightarrow> 'd queue_event list \<Rightarrow> (string \<times> PriceResult) list \<times> settle list \<times> run_end" where
  "queue_loop handler [] = ([], [], StillRunning)"
| "queue_loop handler (QCtxDone # es) = ([], [], ReturnedNil)"
| "queue_loop handler (QClosed ctx_err # es) = ([], [], if ctx_err then ReturnedNil else ReturnedError)"
| "queue_loop handler (QDelivered ctx_err E d # es) =
     (if ctx_err then ([], [], ReturnedNil)
      else
        let (r, a) = handler E d; (rs, as, e) = queue_loop handler es
        in ((case r of None \<Rightarrow> rs | Some x \<Rightarrow> x # rs), a # as, e))"

definition runQueue ::
  "(xenv \<Rightarrow> 'd option \<Rightarrow> (string \<times> PriceResult) option \<times> settle) \<Rightarrow> bool \<Rightarrow> 'd queue_event list \<Rightarrow> (string \<times> PriceResult) list \<times> settle list \<times> run_end" where
  "runQueue handler consume_ok es = (if consume_ok then queue_loop handler es else ([], [], ReturnedError))"

text \<open>
  What \<open>Run\<close> returns once both goroutines ended: \<open>errs\<close> are their errors in the order of
  \<open>errCh\<close>, \<open>ctx_err\<close> the state of the caller's context.
\<close>

definition Run_result :: "bool \<Rightarrow> string list \<Rightarrow> string option" where
  "Run_result ctx_err errs = (if ctx_err then None else case errs of [] \<Rightarrow> None | e # _ \<Rightarrow> Some e)"

end
