(* ===== verification/Handler.thy ===== *)
theory Handler
  imports GatewayLaws
begin

text \<open>
  The gateway's HTTP API, \<open>services/gateway/internal/handler/handler.go\<close>: one definition per
  handler, the middleware \<open>Auth\<close>, and \<open>serve\<close>, the routes of \<open>Register\<close> behind it. A body is
  the struct \<open>ShouldBindJSON\<close> decodes, \<open>None\<close> when it does not decode (or exceeds the limit
  of \<open>BodyLimit\<close>); fields tagged \<open>binding:"required"\<close> must not be zero. A handler makes its
  store calls one after the other, each a transaction of its own; what other clients of the
  database do before the \<open>k\<close>-th call is the run \<open>he_other k\<close>.
\<close>

section \<open>Requests and responses\<close>

record postLookupRequest =
  plr_URL :: string

record postSubscriptionRequest =
  psr_ChatID :: int
  psr_LookupID :: string
  psr_MinPrice :: float64
  psr_MaxPrice :: float64

record patchSubscriptionRequest =
  pat_ChatID :: int
  pat_Action :: string
  pat_MinPrice :: "float64 option"
  pat_MaxPrice :: "float64 option"

record chatIDBody =
  cb_ChatID :: int

datatype body =
    NoBody
  | ErrorBody string
  | LookupBody uuid
  | PendingBody
  | DoneBody string float64 string
  | FailedBody string
  | CreatedBody uuid uuid
  | SubscriptionsBody "Subscription list"
  | PointsBody "PricePoint list"
  | ScheduledBody

record response =
  rs_status :: nat
  rs_body :: body

definition reply :: "nat \<Rightarrow> body \<Rightarrow> response" where
  "reply status b = \<lparr>rs_status = status, rs_body = b\<rparr>"

definition internal_error :: response where
  "internal_error = reply 500 (ErrorBody ''internal error'')"

definition subscription_not_found :: response where
  "subscription_not_found = reply 404 (ErrorBody ''subscription not found'')"

text \<open>
  The environment of a request: its \<open>k\<close>-th store call, what the others do before it, the older
  state the unlocked read of that call may see, and the UUIDs the handler draws itself.
\<close>

record henv =
  he_call :: "nat \<Rightarrow> genv"
  he_other :: "nat \<Rightarrow> gw_steps"
  he_seen :: "nat \<Rightarrow> sub_row \<Rightarrow> sub_row option"
  he_uuid :: "nat \<Rightarrow> uuid"

definition others :: "services \<Rightarrow> henv \<Rightarrow> nat \<Rightarrow> gw_db \<Rightarrow> gw_db" where
  "others S h k db = gw_run S (he_other h k) db"

section \<open>Helpers\<close>

definition maxPendingLookups :: nat where "maxPendingLookups = 25"

definition normalizeURL :: "string \<Rightarrow> string \<Rightarrow> string + string" where
  "normalizeURL plat rawURL =
     (if plat = ''wb'' then NormalizeWB rawURL else Inl (''unsupported platform: '' @ plat))"

text \<open>The price check of \<open>postSubscription\<close> and \<open>patchSubscription\<close>.\<close>

definition bad_range :: "float64 \<Rightarrow> float64 \<Rightarrow> bool" where
  "bad_range minPrice maxPrice \<longleftrightarrow> f_lt minPrice f_zero \<or> f_le maxPrice minPrice"

definition price_message :: string where
  "price_message = ''prices must be non-negative and max_price greater than min_price''"

text \<open>\<open>strconv.ParseInt(c.Query("chat_id"), 10, 64)\<close>, and not zero.\<close>

definition query_chat_id :: "string \<Rightarrow> int option" where
  "query_chat_id q = (case parse_int64 q of None \<Rightarrow> None | Some c \<Rightarrow> if c = 0 then None else Some c)"

text \<open>\<open>userIDOr404\<close>: the response to write, or the user.\<close>

definition userIDOr404 :: "genv \<Rightarrow> int \<Rightarrow> gw_db \<Rightarrow> response + uuid" where
  "userIDOr404 e chatID db =
     (case UserIDByChatID e chatID db of
        Inl err \<Rightarrow> Inl (if err = ErrNotFound then subscription_not_found else internal_error)
      | Inr userID \<Rightarrow> Inr userID)"

text \<open>The response of the handlers that end with one store call on a subscription.\<close>

definition finish :: "gw_db \<times> (store_error + 'a) \<Rightarrow> response \<Rightarrow> gw_db \<times> response" where
  "finish r good =
     (fst r, case snd r of
        Inl err \<Rightarrow> if err = ErrNotFound then subscription_not_found else internal_error
      | Inr _ \<Rightarrow> good)"

section \<open>Lookups\<close>

definition postLookup :: "services \<Rightarrow> henv \<Rightarrow> postLookupRequest option \<Rightarrow> gw_db \<Rightarrow> gw_db \<times> response" where
  "postLookup S h body db =
     (case body of
        None \<Rightarrow> (db, reply 400 (ErrorBody ''url is required''))
      | Some req \<Rightarrow>
         if plr_URL req = [] then (db, reply 400 (ErrorBody ''url is required''))
         else let db0 = others S h 0 db
         in case PendingLookupCount (he_call h 0) db0 of
           Inl _ \<Rightarrow> (db0, internal_error)
         | Inr pending \<Rightarrow>
            if pending \<ge> maxPendingLookups
            then (db0, reply 429 (ErrorBody ''too many lookups in progress, try again later''))
            else case Detect (plr_URL req) of
              Inl err \<Rightarrow> (db0, reply 400 (ErrorBody err))
            | Inr plat \<Rightarrow>
               (case normalizeURL plat (plr_URL req) of
                  Inl _ \<Rightarrow> (db0, reply 400 (ErrorBody ''cannot parse product url''))
                | Inr normalURL \<Rightarrow>
                   (let lookupID = he_uuid h 0
                    in case CreateLookup (he_call h 1) lookupID normalURL (others S h 1 db0) of
                         (db1, Inl _) \<Rightarrow> (db1, internal_error)
                       | (db1, Inr _) \<Rightarrow> (db1, reply 202 (LookupBody lookupID)))))"

definition getLookup :: "services \<Rightarrow> henv \<Rightarrow> string \<Rightarrow> gw_db \<Rightarrow> gw_db \<times> response" where
  "getLookup S h i db =
     (let db0 = others S h 0 db
      in case GetLookup S (he_call h 0) i db0 of
           Inl err \<Rightarrow> (db0, if err = ErrNotFound then reply 404 (ErrorBody ''lookup not found'') else internal_error)
         | Inr r \<Rightarrow> (db0, case lr_Status r of
               LookupPending \<Rightarrow> reply 202 PendingBody
             | LookupDone \<Rightarrow> reply 200 (DoneBody (lr_Name r) (lr_Price r) (lr_URL r))
             | LookupFailed \<Rightarrow> reply 200 (FailedBody (lr_Error r))))"

section \<open>Subscriptions\<close>

definition postSubscription :: "services \<Rightarrow> henv \<Rightarrow> postSubscriptionRequest option \<Rightarrow> gw_db \<Rightarrow> gw_db \<times> response" where
  "postSubscription S h body db =
     (case body of
        None \<Rightarrow> (db, reply 400 (ErrorBody ''chat_id and lookup_id are required''))
      | Some req \<Rightarrow>
         if psr_ChatID req = 0 \<or> psr_LookupID req = []
         then (db, reply 400 (ErrorBody ''chat_id and lookup_id are required''))
         else if bad_range (psr_MinPrice req) (psr_MaxPrice req) then (db, reply 400 (ErrorBody price_message))
         else let db0 = others S h 0 db
         in case GetLookup S (he_call h 0) (psr_LookupID req) db0 of
           Inl err \<Rightarrow> (db0, if err = ErrNotFound then reply 400 (ErrorBody ''lookup not found or not completed'')
                            else internal_error)
         | Inr lookup \<Rightarrow>
            if lr_Status lookup \<noteq> LookupDone
            then (db0, reply 400 (ErrorBody ''lookup not found or not completed''))
            else case UpsertUser (he_call h 1) (psr_ChatID req) (others S h 1 db0) of
              (db1, Inl _) \<Rightarrow> (db1, internal_error)
            | (db1, Inr userID) \<Rightarrow>
               (let plat = (case Detect (lr_URL lookup) of Inl _ \<Rightarrow> [] | Inr p \<Rightarrow> p)
                in case EnsureProduct (he_call h 2) (he_uuid h 0) (lr_Name lookup) (lr_URL lookup) plat
                          (others S h 2 db1) of
                     (db2, Inl _) \<Rightarrow> (db2, internal_error)
                   | (db2, Inr productID) \<Rightarrow>
                      (case CreateSubscription S (he_call h 3) userID productID (psr_MinPrice req)
                              (psr_MaxPrice req) (others S h 3 db2) of
                         (db3, Inl _) \<Rightarrow> (db3, internal_error)
                       | (db3, Inr subID) \<Rightarrow> (db3, reply 200 (CreatedBody subID productID)))))"

definition listSubscriptions :: "services \<Rightarrow> henv \<Rightarrow> string \<Rightarrow> gw_db \<Rightarrow> gw_db \<times> response" where
  "listSubscriptions S h query db =
     (case query_chat_id query of
        None \<Rightarrow> (db, reply 400 (ErrorBody ''invalid chat_id''))
      | Some chatID \<Rightarrow>
         let db0 = others S h 0 db
         in case UserIDByChatID (he_call h 0) chatID db0 of
              Inl err \<Rightarrow> (db0, if err = ErrNotFound then reply 200 (SubscriptionsBody []) else internal_error)
            | Inr userID \<Rightarrow>
               (let db1 = others S h 1 db0
                in case UserSubscriptions (he_call h 1) userID db1 of
                     Inl _ \<Rightarrow> (db1, internal_error)
                   | Inr subs \<Rightarrow> (db1, reply 200 (SubscriptionsBody subs))))"

definition patchSubscription ::
  "services \<Rightarrow> henv \<Rightarrow> string \<Rightarrow> patchSubscriptionRequest option \<Rightarrow> gw_db \<Rightarrow> gw_db \<times> response" where
  "patchSubscription S h subID body db =
     (case body of
        None \<Rightarrow> (db, reply 400 (ErrorBody ''chat_id and action are required''))
      | Some req \<Rightarrow>
         if pat_ChatID req = 0 \<or> pat_Action req = []
         then (db, reply 400 (ErrorBody ''chat_id and action are required''))
         else let db0 = others S h 0 db
         in case userIDOr404 (he_call h 0) (pat_ChatID req) db0 of
           Inl r \<Rightarrow> (db0, r)
         | Inr userID \<Rightarrow>
            (let db1 = others S h 1 db0; e = he_call h 1; seen = older (he_seen h 1) (subscriptions db1)
             in if pat_Action req = ''pause'' then finish (PauseSubscription S e seen subID userID db1) (reply 204 NoBody)
                else if pat_Action req = ''resume'' then finish (ResumeSubscription S e seen subID userID db1) (reply 204 NoBody)
                else if pat_Action req = ''edit'' then
                  (case (pat_MinPrice req, pat_MaxPrice req) of
                     (Some mn, Some mx) \<Rightarrow>
                       if bad_range mn mx then (db0, reply 400 (ErrorBody price_message))
                       else finish (UpdateThresholds S e seen subID userID mn mx db1) (reply 204 NoBody)
                   | _ \<Rightarrow> (db0, reply 400 (ErrorBody ''min_price and max_price are required for edit'')))
                else (db0, reply 400 (ErrorBody ''action must be pause, resume, or edit''))))"

definition deleteSubscription :: "services \<Rightarrow> henv \<Rightarrow> string \<Rightarrow> chatIDBody option \<Rightarrow> gw_db \<Rightarrow> gw_db \<times> response" where
  "deleteSubscription S h subID body db =
     (case body of
        None \<Rightarrow> (db, reply 400 (ErrorBody ''chat_id is required''))
      | Some req \<Rightarrow>
         if cb_ChatID req = 0 then (db, reply 400 (ErrorBody ''chat_id is required''))
         else let db0 = others S h 0 db
         in case userIDOr404 (he_call h 0) (cb_ChatID req) db0 of
           Inl r \<Rightarrow> (db0, r)
         | Inr userID \<Rightarrow>
            (let db1 = others S h 1 db0
             in finish (DeleteSubscription S (he_call h 1) (older (he_seen h 1) (subscriptions db1)) subID userID db1)
                  (reply 204 NoBody)))"

definition getHistory :: "services \<Rightarrow> henv \<Rightarrow> string \<Rightarrow> string \<Rightarrow> gw_db \<Rightarrow> gw_db \<times> response" where
  "getHistory S h subID query db =
     (case query_chat_id query of
        None \<Rightarrow> (db, reply 400 (ErrorBody ''invalid chat_id''))
      | Some chatID \<Rightarrow>
         let db0 = others S h 0 db
         in case userIDOr404 (he_call h 0) chatID db0 of
           Inl r \<Rightarrow> (db0, r)
         | Inr userID \<Rightarrow>
            (let db1 = others S h 1 db0
             in case GetSubscription S (he_call h 1) subID userID db1 of
                  Inl err \<Rightarrow> (db1, if err = ErrNotFound then subscription_not_found else internal_error)
                | Inr sub \<Rightarrow>
                   (let db2 = others S h 2 db1
                    in case PriceHistory (he_call h 2) (ss_ProductID sub) 50 db2 of
                         Inl _ \<Rightarrow> (db2, internal_error)
                       | Inr points \<Rightarrow> (db2, reply 200 (PointsBody points)))))"

definition postCheck :: "services \<Rightarrow> henv \<Rightarrow> string \<Rightarrow> chatIDBody option \<Rightarrow> gw_db \<Rightarrow> gw_db \<times> response" where
  "postCheck S h subID body db =
     (case body of
        None \<Rightarrow> (db, reply 400 (ErrorBody ''chat_id is required''))
      | Some req \<Rightarrow>
         if cb_ChatID req = 0 then (db, reply 400 (ErrorBody ''chat_id is required''))
         else let db0 = others S h 0 db
         in case userIDOr404 (he_call h 0) (cb_ChatID req) db0 of
           Inl r \<Rightarrow> (db0, r)
         | Inr userID \<Rightarrow>
            finish (QueueForce S (he_call h 1) subID userID (cb_ChatID req) (others S h 1 db0))
              (reply 202 ScheduledBody))"

section \<open>The routes\<close>

datatype request =
    PostLookup "postLookupRequest option"
  | GetLookupById string
  | PostSubscription "postSubscriptionRequest option"
  | ListSubscriptions string
  | PatchSubscription string "patchSubscriptionRequest option"
  | DeleteSubscriptionById string "chatIDBody option"
  | GetHistory string string
  | PostCheck string "chatIDBody option"

fun Register :: "services \<Rightarrow> henv \<Rightarrow> request \<Rightarrow> gw_db \<Rightarrow> gw_db \<times> response" where
  "Register S h (PostLookup b) = postLookup S h b"
| "Register S h (GetLookupById i) = getLookup S h i"
| "Register S h (PostSubscription b) = postSubscription S h b"
| "Register S h (ListSubscriptions q) = listSubscriptions S h q"
| "Register S h (PatchSubscription i b) = patchSubscription S h i b"
| "Register S h (DeleteSubscriptionById i b) = deleteSubscription S h i b"
| "Register S h (GetHistory i q) = getHistory S h i q"
| "Register S h (PostCheck i b) = postCheck S h i b"

text \<open>
  \<open>Auth\<close>: \<open>subtle.ConstantTimeCompare\<close> is 1 exactly for equal byte strings. \<open>got\<close> is the value
  of the header, empty when it is missing.
\<close>

definition Auth :: "string \<Rightarrow> string \<Rightarrow> (gw_db \<Rightarrow> gw_db \<times> response) \<Rightarrow> gw_db \<Rightarrow> gw_db \<times> response" where
  "Auth token got handler db =
     (if got \<noteq> token then (db, reply 401 (ErrorBody ''unauthorized'')) else handler db)"

definition serve :: "services \<Rightarrow> string \<Rightarrow> henv \<Rightarrow> string \<Rightarrow> request \<Rightarrow> gw_db \<Rightarrow> gw_db \<times> response" where
  "serve S token h got req db = Auth token got (Register S h req) db"

end
