(* ===== verification/GatewayProps.thy ===== *)
theory GatewayProps
  imports GatewayResults
begin

text \<open>The properties of the gateway's store.\<close>

section \<open>A small database\<close>

definition demo_genv :: "time \<Rightarrow> string \<Rightarrow> genv" where
  "demo_genv now s = \<lparr>ge_now = now, ge_flt = no_faults, ge_uuid = (\<lambda>k. s @ show_nat k)\<rparr>"

definition demo_sub :: sub_row where
  "demo_sub = \<lparr>sb_id = ''s'', sb_user_id = ''u'', sb_product_id = ''p'', sb_min_price = Some (Fin 100),
     sb_max_price = Some (Fin 200), sb_paused = False, sb_active = True, sb_alert_state = [],
     sb_alert_version = 0, sb_created_at = 0\<rparr>"

definition demo_product :: product where
  "demo_product = \<lparr>pd_id = ''p'', pd_name = ''Tea'', pd_url = canonical_url ''42'', pd_platform = ''wb'',
     pd_monitor_version = 1, pd_latest_result_at = None\<rparr>"

definition demo_event :: outbox_row where
  "demo_event = new_outbox_row ''o'' 0 (track_key ''p'' 1) QueueTrackRequests
     (JTrack \<lparr>tr_TaskID = ''t'', tr_Action = ''set_state'', tr_Version = 1, tr_Active = True, tr_ProductID = ''p'',
        tr_URL = canonical_url ''42'', tr_Platform = ''wb'', tr_IntervalHours = 1, tr_ChatID = 0\<rparr>)"

definition demo_gw :: gw_db where
  "demo_gw = \<lparr>users = [\<lparr>us_id = ''u'', us_chat_id = 7\<rparr>], products = [demo_product], subscriptions = [demo_sub],
     price_history = [], processed_price_results = [], force_requests = [], gateway_outbox = [demo_event],
     lookup_requests = []\<rparr>"

definition demo_result :: "rat \<Rightarrow> PriceResult" where
  "demo_result q = \<lparr>pr_TaskID = ''r'', pr_LookupID = [], pr_ProductID = ''p'', pr_URL = canonical_url ''42'',
     pr_Name = ''Tea'', pr_Price = Fin q, pr_Currency = ''RUB'', pr_ScrapedAt = 5000, pr_Success = True, pr_Error = [],
     pr_Force = False, pr_ChatID = 0\<rparr>"

lemma canonical_42: "canonical (canonical_url ''42'')"
  unfolding canonical_def by (intro exI [of _ "''42''"]) (simp add: is_digit_def)

lemma demo_gw_wf: "gw_wf 1 demo_gw"
  by (simp add: gw_wf_def demo_gw_def mon_wf_def rows_ok_def track_ok_def snap_ok_def latest_ok_def monitored_def
      exists_where_def demo_product_def demo_sub_def demo_event_def new_outbox_row_def canonical_42 ob_wf_def
      ob_keyed_def subs_wf_def alert_wf_def history_wf_def force_wf_def lookup_wf_def)

lemmas demo_gw_defs = demo_gw_def demo_product_def demo_sub_def demo_event_def demo_result_def demo_genv_def

section \<open>Monitoring\<close>

text \<open>The newest snapshot of a product, and that all others are older.\<close>

definition announces :: "gw_db \<Rightarrow> product \<Rightarrow> outbox_row \<Rightarrow> TrackRequest \<Rightarrow> bool" where
  "announces db p r m \<longleftrightarrow> ob_payload r = JTrack m \<and> ob_queue r = QueueTrackRequests
     \<and> tr_Action m = ''set_state'' \<and> tr_ProductID m = pd_id p \<and> tr_Version m = pd_monitor_version p
     \<and> tr_URL m = pd_url p \<and> tr_Platform m = ''wb'' \<and> canonical (tr_URL m) \<and> tr_IntervalHours m = 1
     \<and> tr_Active m = monitored (pd_id p) (subscriptions db)"

lemma snapshot_row:
  assumes "rows_ok ps ob" and "r \<in> set ob" and "ob_event_key r = track_key i v" and "ob_payload r = JTrack m"
  shows "tr_Action m = ''set_state''" and "snap_ok ps (track_key i v) (ob_queue r) m"
    and "tr_ProductID m = i" and "tr_Version m = v"
proof -
  have "track_ok ps (track_key i v) (ob_queue r) (JTrack m)" using assms by (auto simp: rows_ok_def)
  then show a: "tr_Action m = ''set_state''" and s: "snap_ok ps (track_key i v) (ob_queue r) m"
    by (auto simp: track_ok_def split: if_splits)
  then show "tr_ProductID m = i" "tr_Version m = v" by (simp_all add: snap_ok_def track_key_inj)
qed

lemma snapshot_key:
  assumes "rows_ok ps ob" and "r \<in> set ob" and "ob_payload r = JTrack m" and "tr_Action m = ''set_state''"
  shows "snap_ok ps (ob_event_key r) (ob_queue r) m"
proof -
  have "track_ok ps (ob_event_key r) (ob_queue r) (JTrack m)" using assms(1-3) by (auto simp: rows_ok_def)
  with assms(4) show ?thesis by (simp add: track_ok_def)
qed

lemma newest_snapshot:
  assumes wf: "gw_wf n db" and p: "p \<in> set (products db)" and v: "pd_monitor_version p \<noteq> 0"
  obtains r m where "r \<in> set (gateway_outbox db)" "announces db p r m"
proof -
  note d = gw_wfD(1) [OF wf]
  have plat: "pd_platform p = ''wb''" "canonical (pd_url p)" and latest: "latest_ok (subscriptions db) (gateway_outbox db) p"
    and rows: "rows_ok (products db) (gateway_outbox db)" and ids: "distinct (map pd_id (products db))"
    using d p by (auto simp: mon_wf_def)
  from latest v obtain r m where r: "r \<in> set (gateway_outbox db)"
    "ob_event_key r = track_key (pd_id p) (pd_monitor_version p)" "ob_payload r = JTrack m"
    "tr_Active m = monitored (pd_id p) (subscriptions db)"
    by (auto simp: latest_ok_def)
  note s = snapshot_row [OF rows r(1-3)]
  from s(2) obtain q where q: "q \<in> set (products db)" "pd_id q = tr_ProductID m" "pd_url q = tr_URL m"
    "pd_platform q = tr_Platform m" and sq: "ob_queue r = QueueTrackRequests" "tr_IntervalHours m = 1"
    by (auto simp: snap_ok_def)
  have "q = p" using distinct_key_eq [OF ids q(1) p] q(2) s(3) by simp
  then have "announces db p r m" using r s q sq plat by (simp add: announces_def)
  with r(1) show ?thesis by (rule that)
qed

lemma others_older:
  assumes wf: "gw_wf n db" and p: "p \<in> set (products db)"
    and r: "r \<in> set (gateway_outbox db)" "announces db p r m"
    and r': "r' \<in> set (gateway_outbox db)" "ob_payload r' = JTrack m'" "tr_Action m' = ''set_state''"
      "tr_ProductID m' = pd_id p" "r' \<noteq> r"
  shows "tr_Version m' < tr_Version m"
proof -
  note d = gw_wfD [OF wf]
  have rows: "rows_ok (products db) (gateway_outbox db)" and ids: "distinct (map pd_id (products db))"
    using d(1) by (auto simp: mon_wf_def)
  have k: "ob_event_key r = track_key (pd_id p) (tr_Version m)"
    using snapshot_key [OF rows r(1)] r(2) by (auto simp: announces_def snap_ok_def)
  have k': "ob_event_key r' = track_key (pd_id p) (tr_Version m')"
    using snapshot_key [OF rows r'(1-3)] r'(4) by (simp add: snap_ok_def)
  have "tr_Version m' \<le> tr_Version m"
    using track_key_bound [OF rows ids r'(1) k' p] r(2) by (simp add: announces_def)
  moreover have "tr_Version m' \<noteq> tr_Version m"
  proof
    assume "tr_Version m' = tr_Version m"
    then have "ob_event_key r' = ob_event_key r" using k k' by simp
    moreover have "distinct (map ob_event_key (gateway_outbox db))" using d(3) by (simp add: ob_keyed_def)
    ultimately show False using distinct_key_eq r(1) r'(1,5) by metis
  qed
  ultimately show ?thesis by simp
qed

text \<open>
  C1: the monitoring protocol of the gateway: after any sequence of requests, results,
  reconciliations, cleanups and outbox calls, with any failures, a product that was never
  announced has no running subscription, and otherwise its newest snapshot is in the outbox,
  under the product's canonical URL and version, says that monitoring is on exactly when an
  active, unpaused subscription exists, and every other snapshot of the product is older.
\<close>

theorem monitoring_invariant:
  assumes wf: "gw_wf n db" and bound: "0 \<le> n" "n + int (length xs) < 2 ^ 63"
    and ok: "\<forall>x \<in> set xs. step_ok x"
    and p: "p \<in> set (products (gw_run S xs db))"
  shows "if pd_monitor_version p = 0 then \<not> monitored (pd_id p) (subscriptions (gw_run S xs db))
   else \<exists>r \<in> set (gateway_outbox (gw_run S xs db)). \<exists>m. announces (gw_run S xs db) p r m
     \<and> (\<forall>r' \<in> set (gateway_outbox (gw_run S xs db)). \<forall>m'. ob_payload r' = JTrack m' \<and> tr_Action m' = ''set_state''
          \<and> tr_ProductID m' = pd_id p \<and> r' \<noteq> r \<longrightarrow> tr_Version m' < tr_Version m)"
proof -
  have wf': "gw_wf (n + int (length xs)) (gw_run S xs db)" by (rule gw_run_wf [OF wf bound ok])
  show ?thesis
  proof (cases "pd_monitor_version p = 0")
    case True
    have "latest_ok (subscriptions (gw_run S xs db)) (gateway_outbox (gw_run S xs db)) p"
      using gw_wfD(1) [OF wf'] p by (simp add: mon_wf_def)
    with True show ?thesis by (simp add: latest_ok_def)
  next
    case False
    obtain r m where rm: "r \<in> set (gateway_outbox (gw_run S xs db))" "announces (gw_run S xs db) p r m"
      by (rule newest_snapshot [OF wf' p False])
    show ?thesis using others_older [OF wf' p rm] rm False by auto
  qed
qed

theorem monitoring_invariant_witness:
  "\<exists>r \<in> set (gateway_outbox (gw_run demo [Local (WUpsertUser (demo_genv 3 ''n'') 8)] demo_gw)).
     \<exists>m. ob_payload r = JTrack m \<and> tr_Version m = 1 \<and> tr_Active m"
proof -
  let ?db = "gw_run demo [Local (WUpsertUser (demo_genv 3 ''n'') 8)] demo_gw"
  have p: "products ?db = [demo_product]" and s: "subscriptions ?db = [demo_sub]"
    by (simp_all add: gw_run_def UpsertUser_def demo_genv_def demo_gw_def exists_where_def)
  have mem: "demo_product \<in> set (products ?db)" by (simp add: p)
  have "monitored ''p'' (subscriptions ?db)" by (simp add: s demo_sub_def monitored_def exists_where_def)
  moreover have "pd_monitor_version demo_product = 1" "pd_id demo_product = ''p''" by (simp_all add: demo_product_def)
  ultimately show ?thesis
    using monitoring_invariant [OF demo_gw_wf _ _ _ mem] by (force simp: announces_def)
qed

section \<open>Results\<close>

text \<open>
  C9: price results are idempotent: after a result was processed once, all its later
  deliveries can be struck from the run without changing the result, whatever else the
  gateway does in between, and a delivery whose processing failed left the database unchanged
  and was given back to the queue, or dropped when the result is malformed.
\<close>

theorem result_redelivery:
  "(\<forall>db'. ProcessPriceResult S e m db = (db', Inr ()) \<longrightarrow>
      gw_run S (Deliver e m # xs) db = gw_run S (Deliver e m # filter (\<lambda>x. \<not> delivers m x) xs) db)
   \<and> (\<forall>db' a. gw_handle S (e, Some m) db = (db', a) \<and> a \<noteq> Ack \<longrightarrow> db' = db \<and>
        a = (if snd (ProcessPriceResult S e m db) = Inl ErrInvalidResult then NackDrop else NackRequeue))"
proof (intro conjI allI impI)
  fix db'
  assume "ProcessPriceResult S e m db = (db', Inr ())"
  then show "gw_run S (Deliver e m # xs) db = gw_run S (Deliver e m # filter (\<lambda>x. \<not> delivers m x) xs) db"
    unfolding gw_run_def by (rule results.redelivery)
next
  fix db' a
  assume h: "gw_handle S (e, Some m) db = (db', a) \<and> a \<noteq> Ack"
  obtain db1 res where p: "ProcessPriceResult S e m db = (db1, res)" by fastforce
  with h obtain err where err: "res = Inl err"
    by (cases res) (auto simp: gw_handle_def settle_by_def)
  with p have "db1 = db" using results.atomic by blast
  with h p err show "db' = db"
    and "a = (if snd (ProcessPriceResult S e m db) = Inl ErrInvalidResult then NackDrop else NackRequeue)"
    by (auto simp: gw_handle_def settle_by_def)
qed

lemma demo_result_ok: "snd (ProcessPriceResult demo (demo_genv 9 ''g'') (demo_result 90) demo_gw) = Inr ()"
proof -
  have "ge_flt (demo_genv 9 ''g'') k = False" for k by (simp add: demo_genv_def)
  moreover have "numcol demo (Fin 90) = Some (Fin 90)" by (simp add: Let_def floor_eq_iff)
  ultimately show ?thesis
    by (simp add: ProcessPriceResult_def process_product_def record_result_def demo_gw_defs demo_uuid_def bad_price_def
        alert_rows_def map_filter_simps classify_def gw_enqueue_def exists_where_def alert_key_def track_key_def
        new_outbox_row_def Let_def)
qed

theorem result_redelivery_witness:
  "gw_run demo [Deliver (demo_genv 9 ''g'') (demo_result 90), Deliver (demo_genv 10 ''h'') (demo_result 90)] demo_gw
   = gw_run demo [Deliver (demo_genv 9 ''g'') (demo_result 90)] demo_gw"
proof -
  obtain db' where "ProcessPriceResult demo (demo_genv 9 ''g'') (demo_result 90) demo_gw = (db', Inr ())"
    using demo_result_ok by (metis prod.collapse)
  with result_redelivery [of demo "demo_genv 9 ''g''" "demo_result 90" demo_gw "[Deliver (demo_genv 10 ''h'') (demo_result 90)]"]
  show ?thesis by simp
qed

text \<open>The notification a subscription gets when its alert state changes to \<open>next_state\<close>.\<close>

definition alert_for :: "PriceResult \<Rightarrow> product \<Rightarrow> user list \<Rightarrow> sub_row \<Rightarrow> outbox_row \<Rightarrow> bool" where
  "alert_for m p us s r \<longleftrightarrow> ob_event_key r = alert_key (sb_id s) (sb_alert_version s + 1)
     \<and> ob_queue r = QueueNotifyTasks \<and> ob_published_at r = None
     \<and> (\<exists>u \<in> set us. us_id u = sb_user_id s \<and> (\<exists>t. ob_payload r = JNotify t
          \<and> nt_Channel t = ''telegram'' \<and> nt_Target t = show_int (us_chat_id u) \<and> nt_Direction t = next_state m s
          \<and> nt_NotBefore t = 0
          \<and> nt_Text t = alertText (pd_name p) (pd_url p) (pr_Price m) (pr_Currency m) (next_state m s)
              (price_of (sb_min_price s)) (price_of (sb_max_price s))))"

definition alarmed :: "PriceResult \<Rightarrow> uuid \<Rightarrow> sub_row \<Rightarrow> bool" where
  "alarmed m pid s \<longleftrightarrow> watching pid s \<and> next_state m s \<noteq> sb_alert_state s \<and> next_state m s \<noteq> []"

lemma alert_events_for:
  assumes wf: "gw_wf n db" and n: "n < 2 ^ 63 - 1"
  shows "r \<in> set (alert_events e k (pd_name p) (pd_url p) m (alert_rows pid db)) \<Longrightarrow>
      \<exists>s \<in> set (subscriptions db). alarmed m pid s \<and> alert_for m p (users db) s r"
    and "s \<in> set (subscriptions db) \<Longrightarrow> alarmed m pid s \<Longrightarrow>
      \<exists>r \<in> set (alert_events e k (pd_name p) (pd_url p) m (alert_rows pid db)). alert_for m p (users db) s r"
proof -
  note d = gw_wfD [OF wf]
  have for_row: "alert_for m p (users db) s (alert_event e (pd_name p) (pd_url p) m j (row_of s u))"
    if "s \<in> set (subscriptions db)" "u \<in> set (users db)" "us_id u = sb_user_id s" for s u j
  proof -
    have "0 \<le> sb_alert_version s \<and> sb_alert_version s \<le> n" using d(5) that(1) by (simp add: alert_wf_def)
    then have "incr64 (sb_alert_version s) = sb_alert_version s + 1" using n by (simp add: incr64_less)
    then show ?thesis unfolding alert_for_def
      using that(2,3) by (intro conjI bexI [of _ u] exI [of _ "alert_task e (pd_name p) (pd_url p) m j (row_of s u)"])
        (simp_all add: alert_task_def)
  qed
  show "\<exists>s \<in> set (subscriptions db). alarmed m pid s \<and> alert_for m p (users db) s r"
    if r: "r \<in> set (alert_events e k (pd_name p) (pd_url p) m (alert_rows pid db))"
  proof -
    from alert_events_mem [OF r] obtain a j where a: "a \<in> set (alert_rows pid db)" "fires m a" "direction m a \<noteq> []"
      "r = alert_event e (pd_name p) (pd_url p) m j a" by blast
    from a(1) obtain s u where s: "s \<in> set (subscriptions db)" "u \<in> set (users db)" "watching pid s"
      "us_id u = sb_user_id s" "a = row_of s u" by (auto simp: alert_rows_mem [OF d(4)])
    then show ?thesis using a(2-4) for_row [OF s(1,2,4)]
      by (intro bexI [of _ s]) (auto simp: alarmed_def fires_def)
  qed
  show "\<exists>r \<in> set (alert_events e k (pd_name p) (pd_url p) m (alert_rows pid db)). alert_for m p (users db) s r"
    if s: "s \<in> set (subscriptions db)" "alarmed m pid s"
  proof -
    have "sb_user_id s \<in> us_id ` set (users db)" using d(4) s(1) by (simp add: subs_wf_def)
    then obtain u where u: "u \<in> set (users db)" "sb_user_id s = us_id u" by (rule imageE)
    have "row_of s u \<in> set (alert_rows pid db)" unfolding alert_rows_mem [OF d(4)]
      using s u by (intro bexI [OF _ s(1)] bexI [OF _ u(1)]) (simp add: alarmed_def)
    moreover have "fires m (row_of s u)" "direction m (row_of s u) \<noteq> []" using s(2) by (auto simp: alarmed_def fires_def)
    ultimately obtain j where "alert_event e (pd_name p) (pd_url p) m j (row_of s u)
        \<in> set (alert_events e k (pd_name p) (pd_url p) m (alert_rows pid db))"
      using alert_events_complete by blast
    with for_row [OF s(1) u(1)] u(2) show ?thesis by auto
  qed
qed

text \<open>The result of a task nobody asked to force, first processed in this call.\<close>

definition fresh_result :: "services \<Rightarrow> PriceResult \<Rightarrow> gw_db \<Rightarrow> product \<Rightarrow> bool" where
  "fresh_result S m db p \<longleftrightarrow> pr_LookupID m = [] \<and> \<not> pr_Force m
     \<and> (\<exists>tid. pg_uuid S (pr_TaskID m) = Some tid \<and> tid \<notin> set (processed_price_results db) \<and> force_of tid db = None)
     \<and> (\<exists>pid. pg_uuid S (pr_ProductID m) = Some pid \<and> find (\<lambda>p. pd_id p = pid) (products db) = Some p)"

lemma fresh_result_recorded:
  assumes "fresh_result S m db p" and "ProcessPriceResult S e m db = (db', Inr u)"
  obtains tid price where "pg_uuid S (pr_TaskID m) = Some tid" "tid \<notin> set (processed_price_results db)"
    "pr_Success m \<Longrightarrow> numcol S (pr_Price m) = Some price
      \<and> (\<forall>r \<in> set (price_history db). ph_task_id r \<noteq> tid \<and> ph_id r \<noteq> ge_uuid e 0)"
    "if \<not> pr_Success m \<or> stale m p then db' = recorded S e m tid p price db
     else alert_loop e 0 (pd_name p) (pd_url p) m (alert_rows (pd_id p) (recorded S e m tid p price db))
       (recorded S e m tid p price db) = Some db'"
proof -
  from assms(1) obtain tid pid where t: "pg_uuid S (pr_TaskID m) = Some tid" "tid \<notin> set (processed_price_results db)"
    "force_of tid db = None" "pg_uuid S (pr_ProductID m) = Some pid" "find (\<lambda>p. pd_id p = pid) (products db) = Some p"
    "\<not> pr_Force m" "pr_LookupID m = []"
    by (auto simp: fresh_result_def)
  have "process_product S e m db = (db', Inr u)" using ProcessPriceResult_Inr [OF assms(2)] t(7) by simp
  then have "record_result S e m tid p None db = Some db'"
    by (rule process_product_Inr) (use t in auto)
  then show ?thesis by (rule record_result_Some) (use that [OF t(1,2)] in auto)
qed

text \<open>
  C6: alerts follow the thresholds exactly: processing a successful, not outdated result of
  a scheduled check moves every running subscription of the product to the state the price
  has for its thresholds, counts the change, leaves all other subscriptions alone, and adds
  to the outbox exactly one notification, to the subscriber's own chat, for each subscription
  that changed to 'down' or 'up', and nothing for those that did not change or recovered; the
  price is recorded once.
\<close>

theorem alerts_follow_thresholds:
  assumes wf: "gw_wf n db" and n: "n < 2 ^ 63 - 1" and fresh: "fresh_result S m db p"
    and ok: "ProcessPriceResult S e m db = (db', Inr ())" and m: "pr_Success m" "\<not> stale m p"
  shows "subscriptions db' = map (\<lambda>s. if watching (pd_id p) s \<and> next_state m s \<noteq> sb_alert_state s
        then s\<lparr>sb_alert_state := next_state m s, sb_alert_version := sb_alert_version s + 1\<rparr> else s) (subscriptions db)
    \<and> (\<exists>new. gateway_outbox db' = gateway_outbox db @ new \<and> distinct (map ob_event_key new)
        \<and> (\<forall>r \<in> set new. \<exists>s \<in> set (subscriptions db). alarmed m (pd_id p) s \<and> alert_for m p (users db) s r)
        \<and> (\<forall>s \<in> set (subscriptions db). alarmed m (pd_id p) s \<longrightarrow> (\<exists>r \<in> set new. alert_for m p (users db) s r)))
    \<and> (\<exists>row. price_history db' = price_history db @ [row] \<and> ph_product_id row = pd_id p
        \<and> Some (ph_price row) = numcol S (pr_Price m) \<and> Some (ph_task_id row) = pg_uuid S (pr_TaskID m))"
  using fresh ok
proof (rule fresh_result_recorded)
  fix tid price
  assume t: "pg_uuid S (pr_TaskID m) = Some tid" "tid \<notin> set (processed_price_results db)"
    and h: "pr_Success m \<Longrightarrow> numcol S (pr_Price m) = Some price
      \<and> (\<forall>r \<in> set (price_history db). ph_task_id r \<noteq> tid \<and> ph_id r \<noteq> ge_uuid e 0)"
    and c: "if \<not> pr_Success m \<or> stale m p then db' = recorded S e m tid p price db
     else alert_loop e 0 (pd_name p) (pd_url p) m (alert_rows (pd_id p) (recorded S e m tid p price db))
       (recorded S e m tid p price db) = Some db'"
  let ?rec = "recorded S e m tid p price db"
  let ?new = "alert_events e 0 (pd_name p) (pd_url p) m (alert_rows (pd_id p) db)"
  have rec: "gw_wf n ?rec" using h by (intro recorded_wf [OF wf t(2)]) blast
  have l: "alert_loop e 0 (pd_name p) (pd_url p) m (alert_rows (pd_id p) ?rec) ?rec = Some db'" using c m by simp
  note spec = alert_loop_wf [OF rec n l]
  have db': "subscriptions db' = map (alert_sub m (pd_id p)) (subscriptions db)"
    "gateway_outbox db' = gateway_outbox db @ ?new" "price_history db' = price_history ?rec"
    using spec(1) by simp_all
  have "alert_sub m (pd_id p) s = (if watching (pd_id p) s \<and> next_state m s \<noteq> sb_alert_state s
        then s\<lparr>sb_alert_state := next_state m s, sb_alert_version := sb_alert_version s + 1\<rparr> else s)"
    if "s \<in> set (subscriptions db)" for s
  proof -
    have "0 \<le> sb_alert_version s \<and> sb_alert_version s \<le> n" using gw_wfD(5) [OF wf] that by (simp add: alert_wf_def)
    then show ?thesis using n by (simp add: alert_sub_def incr64_less)
  qed
  moreover have "distinct (map ob_event_key ?new)"
    using gw_wfD(3) [OF spec(2)] by (simp add: db'(2) ob_keyed_def)
  moreover have "\<exists>row. price_history db' = price_history db @ [row] \<and> ph_product_id row = pd_id p
        \<and> Some (ph_price row) = numcol S (pr_Price m) \<and> Some (ph_task_id row) = pg_uuid S (pr_TaskID m)"
    using m h t(1) by (simp add: db'(3) recorded_def Let_def)
  ultimately show ?thesis
    using alert_events_for [OF wf n] by (auto simp: db'(1,2) simp del: alert_events.simps)
qed

theorem alerts_follow_thresholds_witness:
  "\<exists>r \<in> set (gateway_outbox (fst (ProcessPriceResult demo (demo_genv 9 ''g'') (demo_result 90) demo_gw))).
     alert_for (demo_result 90) demo_product (users demo_gw) demo_sub r"
proof -
  have p: "ProcessPriceResult demo (demo_genv 9 ''g'') (demo_result 90) demo_gw
      = (fst (ProcessPriceResult demo (demo_genv 9 ''g'') (demo_result 90) demo_gw), Inr ())"
    using demo_result_ok by (simp add: prod_eq_iff)
  have f: "fresh_result demo (demo_result 90) demo_gw demo_product" "pr_Success (demo_result 90)"
    "\<not> stale (demo_result 90) demo_product"
    by (simp_all add: fresh_result_def stale_def demo_gw_defs demo_uuid_def force_of_def)
  have "alarmed (demo_result 90) ''p'' demo_sub" "demo_sub \<in> set (subscriptions demo_gw)" "pd_id demo_product = ''p''"
    by (simp_all add: alarmed_def watching_def next_state_def threshold_def price_of_def demo_gw_defs)
  note a = this
  from alerts_follow_thresholds [OF demo_gw_wf _ f(1) p f(2,3)] obtain new where
    "gateway_outbox (fst (ProcessPriceResult demo (demo_genv 9 ''g'') (demo_result 90) demo_gw)) = gateway_outbox demo_gw @ new"
    "\<forall>s \<in> set (subscriptions demo_gw). alarmed (demo_result 90) (pd_id demo_product) s \<longrightarrow>
       (\<exists>r \<in> set new. alert_for (demo_result 90) demo_product (users demo_gw) s r)" by auto
  with a show ?thesis by (metis Un_iff set_append)
qed

text \<open>
  No alert without news: a failed result, a result scraped before the newest one known,
  and one that claims to be forced without a recorded request change no subscription, no
  product and nothing in the outbox.
\<close>

theorem quiet_results:
  assumes "ProcessPriceResult S e m db = (db', Inr ())" and "pr_LookupID m = []"
    and "pg_uuid S (pr_TaskID m) = Some tid" and "force_of tid db = None"
    and "pg_uuid S (pr_ProductID m) = Some pid" and "find (\<lambda>p. pd_id p = pid) (products db) = Some p"
    and quiet: "\<not> pr_Success m \<or> stale m p \<or> pr_Force m"
  shows "subscriptions db' = subscriptions db \<and> products db' = products db \<and> gateway_outbox db' = gateway_outbox db"
proof -
  have "process_product S e m db = (db', Inr ())" using ProcessPriceResult_Inr [OF assms(1)] assms(2) by simp
  then show ?thesis
  proof (rule process_product_Inr)
    fix tid' pid' p'
    assume "pg_uuid S (pr_TaskID m) = Some tid'" "pg_uuid S (pr_ProductID m) = Some pid'"
      "find (\<lambda>p. pd_id p = pid') (products db) = Some p'"
      and c: "tid' \<in> set (processed_price_results db) \<and> db' = db
     \<or> tid' \<notin> set (processed_price_results db) \<and> force_of tid' db = None \<and> pr_Force m \<and> db' = mark_done tid' db
     \<or> tid' \<notin> set (processed_price_results db) \<and> (force_of tid' db = None \<longrightarrow> \<not> pr_Force m)
       \<and> (\<forall>f. force_of tid' db = Some f \<longrightarrow> fr_product_id f = pr_ProductID m)
       \<and> (pr_Success m \<longrightarrow> pr_ScrapedAt m \<noteq> 0)
       \<and> record_result S e m tid' p' (map_option fr_chat_id (force_of tid' db)) db = Some db'"
    then have eq: "tid' = tid" "p' = p" using assms(3,5,6) by auto
    from c consider "db' = db" | "db' = mark_done tid db"
      | "\<not> pr_Force m" "record_result S e m tid p None db = Some db'"
      using assms(4) unfolding eq by auto
    then show ?thesis
    proof cases
      case 3
      then show ?thesis using quiet
        by (elim record_result_Some) (auto simp: recorded_def mark_done_def Let_def split: if_splits)
    qed (simp_all add: mark_done_def)
  qed
qed

definition demo_failed :: PriceResult where
  "demo_failed = (demo_result 90)\<lparr>pr_Success := False, pr_Error := ''gone''\<rparr>"

theorem quiet_results_witness:
  "gateway_outbox (fst (ProcessPriceResult demo (demo_genv 9 ''g'') demo_failed demo_gw)) = gateway_outbox demo_gw"
proof -
  have f: "ge_flt (demo_genv 9 ''g'') k = False" for k by (simp add: demo_genv_def)
  have "snd (ProcessPriceResult demo (demo_genv 9 ''g'') demo_failed demo_gw) = Inr ()"
    by (simp add: f ProcessPriceResult_def process_product_def record_result_def demo_failed_def demo_gw_def
        demo_product_def demo_result_def demo_uuid_def bad_price_def Let_def)
  then have p: "ProcessPriceResult demo (demo_genv 9 ''g'') demo_failed demo_gw
      = (fst (ProcessPriceResult demo (demo_genv 9 ''g'') demo_failed demo_gw), Inr ())" by (simp add: prod_eq_iff)
  have "pr_LookupID demo_failed = []" "pg_uuid demo (pr_TaskID demo_failed) = Some ''r''" "force_of ''r'' demo_gw = None"
    "pg_uuid demo (pr_ProductID demo_failed) = Some ''p''" "find (\<lambda>p. pd_id p = ''p'') (products demo_gw) = Some demo_product"
    "\<not> pr_Success demo_failed \<or> stale demo_failed demo_product \<or> pr_Force demo_failed"
    by (simp_all add: demo_failed_def demo_gw_def demo_product_def demo_result_def demo_uuid_def force_of_def)
  from quiet_results [OF p this] show ?thesis by simp
qed

text \<open>
  C12: the answer to a forced check goes to the chat that asked and to no other: processing
  it moves no subscription's alert state, its product is the one of the request, and the only
  event it may add to the outbox is the notification under the task's own key, addressed to
  the recorded chat, which is the chat of the user that asked.
\<close>

theorem force_answer_private:
  assumes wf: "gw_wf n db" and ok: "ProcessPriceResult S e m db = (db', Inr ())" and l: "pr_LookupID m = []"
    and t: "pg_uuid S (pr_TaskID m) = Some tid" "tid \<notin> set (processed_price_results db)"
    and f: "force_of tid db = Some f"
  shows "subscriptions db' = subscriptions db \<and> fr_product_id f = pr_ProductID m
    \<and> (\<exists>u \<in> set (users db). us_id u = fr_user_id f \<and> us_chat_id u = fr_chat_id f)
    \<and> (\<forall>r \<in> set (gateway_outbox db') - set (gateway_outbox db). ob_event_key r = ''force-result:'' @ pr_TaskID m
        \<and> ob_queue r = QueueNotifyTasks
        \<and> (\<exists>nt. ob_payload r = JNotify nt \<and> nt_Target nt = show_int (fr_chat_id f) \<and> nt_Direction nt = []))
    \<and> (''force-result:'' @ pr_TaskID m \<in> ob_event_key ` set (gateway_outbox db'))"
proof -
  have "process_product S e m db = (db', Inr ())" using ProcessPriceResult_Inr [OF ok] l by simp
  then obtain p where rec: "record_result S e m tid p (Some (fr_chat_id f)) db = Some db'" "fr_product_id f = pr_ProductID m"
    by (rule process_product_Inr) (use t f in auto)
  have "f \<in> set (force_requests db)" using find_SomeD f unfolding force_of_def by fastforce
  then have u: "\<exists>u \<in> set (users db). us_id u = fr_user_id f \<and> us_chat_id u = fr_chat_id f"
    using gw_wfD(7) [OF wf] by (simp add: force_wf_def)
  from rec(1) show ?thesis
    by (rule record_result_Some) (use rec(2) u in \<open>auto simp: gw_enqueue_cases new_outbox_row_def\<close>)
qed

definition demo_forced :: gw_db where
  "demo_forced = demo_gw\<lparr>force_requests := [\<lparr>fr_task_id = ''r'', fr_product_id = ''p'', fr_user_id = ''u'', fr_chat_id = 7\<rparr>]\<rparr>"

theorem force_answer_private_witness:
  "subscriptions (fst (ProcessPriceResult demo (demo_genv 9 ''g'') demo_failed demo_forced)) = [demo_sub]"
proof -
  have f: "ge_flt (demo_genv 9 ''g'') k = False" for k by (simp add: demo_genv_def)
  have "snd (ProcessPriceResult demo (demo_genv 9 ''g'') demo_failed demo_forced) = Inr ()"
    by (simp add: f ProcessPriceResult_def process_product_def record_result_def demo_failed_def demo_forced_def demo_gw_def
        demo_product_def demo_result_def demo_uuid_def bad_price_def Let_def gw_enqueue_def exists_where_def demo_event_def
        track_key_def demo_genv_def)
  then have p: "ProcessPriceResult demo (demo_genv 9 ''g'') demo_failed demo_forced
      = (fst (ProcessPriceResult demo (demo_genv 9 ''g'') demo_failed demo_forced), Inr ())" by (simp add: prod_eq_iff)
  have wf: "gw_wf 1 demo_forced"
    using demo_gw_wf by (simp add: gw_wf_def demo_forced_def force_wf_def demo_gw_def demo_product_def)
  have "pr_LookupID demo_failed = []" "pg_uuid demo (pr_TaskID demo_failed) = Some ''r''"
    "''r'' \<notin> set (processed_price_results demo_forced)" "force_of ''r'' demo_forced = Some \<lparr>fr_task_id = ''r'', fr_product_id = ''p'', fr_user_id = ''u'', fr_chat_id = 7\<rparr>"
    by (simp_all add: demo_failed_def demo_gw_def demo_forced_def demo_result_def demo_uuid_def force_of_def)
  from force_answer_private [OF wf p this]
  have "subscriptions (fst (ProcessPriceResult demo (demo_genv 9 ''g'') demo_failed demo_forced)) = subscriptions demo_forced"
    by blast
  moreover have "subscriptions demo_forced = [demo_sub]" by (simp add: demo_forced_def demo_gw_def)
  ultimately show ?thesis by simp
qed

section \<open>Changing a subscription\<close>

definition op_effect :: "services \<Rightarrow> operation \<Rightarrow> sub_row \<Rightarrow> sub_row" where
  "op_effect S op s = (case op of
      OpPause \<Rightarrow> s\<lparr>sb_paused := True\<rparr>
    | OpResume \<Rightarrow> s\<lparr>sb_paused := False\<rparr>
    | OpDelete \<Rightarrow> s\<lparr>sb_active := False\<rparr>
    | OpThresholds mn mx \<Rightarrow>
        (if sb_min_price s = Some mn \<and> sb_max_price s = Some mx then s
         else s\<lparr>sb_min_price := numcol S mn, sb_max_price := numcol S mx, sb_alert_state := [],
                sb_alert_version := sb_alert_version s + 1\<rparr>))"

lemma mutate_rows_effect:
  assumes "mutate_rows S op i u t = Some t'" and d: "distinct (map sb_id t)"
    and r: "r \<in> set t" "is_sub i u r" "op \<noteq> OpDelete \<longrightarrow> sb_active r"
  shows "t' = map (\<lambda>s. if sb_id s = i then op_effect S op s else s) t"
proof -
  have one: "s = r" if "s \<in> set t" "sb_id s = i" for s
    using distinct_key_eq [OF d that(1) r(1)] that(2) r(2) by (simp add: is_sub_def)
  have i: "sb_id r = i" using r(2) by (simp add: is_sub_def)
  have upd: "update_where P f t = map (\<lambda>s. if sb_id s = i then op_effect S op s else s) t"
    if "\<And>s. P s \<Longrightarrow> sb_id s = i" and "(if P r then f r else r) = op_effect S op r" for P f
  proof -
    have "(if P s then f s else s) = (if sb_id s = i then op_effect S op s else s)" if s: "s \<in> set t" for s
    proof (cases "sb_id s = i")
      case True
      then have "s = r" using one [OF s] by blast
      with True \<open>(if P r then f r else r) = op_effect S op r\<close> show ?thesis by (auto split: if_splits)
    next
      case False
      then show ?thesis using \<open>\<And>s. P s \<Longrightarrow> sb_id s = i\<close> by auto
    qed
    then show ?thesis by (simp add: update_where_def)
  qed
  show ?thesis
  proof (cases op)
    case OpPause
    then have t': "t' = update_where (\<lambda>s. is_sub i u s \<and> sb_active s) (\<lambda>s. s\<lparr>sb_paused := True\<rparr>) t"
      using assms(1) by (simp add: mutate_rows_def)
    show ?thesis unfolding t' by (rule upd) (use r OpPause i in \<open>auto simp: is_sub_def op_effect_def\<close>)
  next
    case OpResume
    then have t': "t' = update_where (\<lambda>s. is_sub i u s \<and> sb_active s) (\<lambda>s. s\<lparr>sb_paused := False\<rparr>) t"
      using assms(1) by (simp add: mutate_rows_def)
    show ?thesis unfolding t' by (rule upd) (use r OpResume i in \<open>auto simp: is_sub_def op_effect_def\<close>)
  next
    case OpDelete
    then have t': "t' = update_where (\<lambda>s. sb_id s = i) (\<lambda>s. s\<lparr>sb_active := False\<rparr>) t"
      using assms(1) by (simp add: mutate_rows_def)
    show ?thesis unfolding t' by (rule upd) (use r OpDelete i in \<open>auto simp: is_sub_def op_effect_def\<close>)
  next
    case (OpThresholds mn mx)
    let ?hit = "\<lambda>s. is_sub i u s \<and> (sb_min_price s \<noteq> Some mn \<or> sb_max_price s \<noteq> Some mx)"
    show ?thesis
    proof (cases "exists_where ?hit t")
      case False
      then have "t' = t" using assms(1) OpThresholds by (simp add: mutate_rows_def)
      moreover have same: "op_effect S op r = r"
        using False r(1,2) OpThresholds by (auto simp: exists_where_iff op_effect_def)
      have "map (\<lambda>s. if sb_id s = i then op_effect S op s else s) t = t"
        using one same by (intro map_idI) auto
      ultimately show ?thesis by simp
    next
      case True
      then obtain a b where ab: "numcol S mn = Some a" "numcol S mx = Some b"
        and t': "t' = update_where ?hit (\<lambda>s. s\<lparr>sb_min_price := Some a, sb_max_price := Some b,
              sb_alert_state := [], sb_alert_version := sb_alert_version s + 1\<rparr>) t"
        using assms(1) OpThresholds by (auto simp: mutate_rows_def Let_def split: option.splits)
      show ?thesis unfolding t' by (rule upd) (use r ab OpThresholds i in \<open>auto simp: is_sub_def op_effect_def\<close>)
    qed
  qed
qed

text \<open>One event more: the snapshot of the product's next version, with the state that now holds.\<close>

definition next_snapshot :: "gw_db \<Rightarrow> gw_db \<Rightarrow> product \<Rightarrow> bool" where
  "next_snapshot db db' p \<longleftrightarrow> (\<exists>x m. gateway_outbox db' = gateway_outbox db @ [x]
     \<and> ob_payload x = JTrack m \<and> ob_queue x = QueueTrackRequests \<and> ob_published_at x = None
     \<and> tr_Action m = ''set_state'' \<and> tr_ProductID m = pd_id p \<and> tr_URL m = pd_url p
     \<and> tr_Version m = pd_monitor_version p + 1 \<and> tr_Active m = monitored (pd_id p) (subscriptions db'))"

lemma bump_announces:
  assumes wf: "gw_wf n db" and n: "n < 2 ^ 63 - 1" and p: "p \<in> set (products db)"
    and b: "bump e k u (pd_id p) (pd_monitor_version p) (pd_url p) (pd_platform p) (db\<lparr>subscriptions := t\<rparr>) = Some db'"
  shows "next_snapshot db db' p" and "subscriptions db' = t"
proof -
  note d = gw_wfD(1) [OF wf]
  have ver: "0 \<le> pd_monitor_version p" "pd_monitor_version p \<le> n" using d p by (auto simp: mon_wf_def)
  then have v1: "incr64 (pd_monitor_version p) = pd_monitor_version p + 1" using n by (simp add: incr64_less)
  have key: "track_key (pd_id p) (pd_monitor_version p + 1) \<notin> ob_event_key ` set (gateway_outbox db)"
  proof
    assume "track_key (pd_id p) (pd_monitor_version p + 1) \<in> ob_event_key ` set (gateway_outbox db)"
    then obtain x where "x \<in> set (gateway_outbox db)" "ob_event_key x = track_key (pd_id p) (pd_monitor_version p + 1)" by auto
    then show False using track_key_bound [OF _ _ _ _ p] d by (fastforce simp: mon_wf_def)
  qed
  from b show "next_snapshot db db' p" and "subscriptions db' = t"
    using key by (elim bump_Some; auto simp: gw_enqueue_cases v1 set_version_def new_outbox_row_def next_snapshot_def)+
qed

lemma mutate_effect:
  assumes wf: "gw_wf n db" and n: "n < 2 ^ 63 - 1" and i: "pg_uuid S raw = Some i"
    and res: "mutateSubscription S e (older v (subscriptions db)) raw u op db = (db', res)"
  shows "case res of Inl _ \<Rightarrow> db' = db
    | Inr _ \<Rightarrow> (\<exists>r \<in> set (subscriptions db). sb_id r = i \<and> sb_user_id r = u \<and>
        (if op = OpDelete \<and> \<not> sb_active r then db' = db
         else sb_active r \<and> subscriptions db' = map (\<lambda>s. if sb_id s = i then op_effect S op s else s) (subscriptions db)
          \<and> (\<exists>p \<in> set (products db). pd_id p = sb_product_id r \<and> next_snapshot db db' p)))"
proof (cases res)
  case (Inl err)
  then show ?thesis using mutate_Inl res by simp
next
  case (Inr y)
  have "mutateSubscription S e (older v (subscriptions db)) raw u op db = (db', Inr y)" using res Inr by simp
  then show ?thesis
  proof (rule mutate_Inr)
    fix i' r0 r
    assume i': "pg_uuid S raw = Some i'" and r0: "find (is_sub i' u) (older v (subscriptions db)) = Some r0"
      and r: "find (is_sub i' u) (subscriptions db) = Some r" and act: "op \<noteq> OpDelete \<Longrightarrow> sb_active r"
      and c: "op = OpDelete \<and> db' = db \<and> (\<exists>y. find (\<lambda>y. sb_id y = i') (subscriptions db) = Some y \<and> \<not> sb_active y)
          \<or> (\<exists>p t. find (\<lambda>p. pd_id p = sb_product_id r0) (products db) = Some p
          \<and> mutate_rows S op i' u (subscriptions db) = Some t
          \<and> (op = OpDelete \<longrightarrow> (\<exists>y. find (\<lambda>y. sb_id y = i') (subscriptions db) = Some y \<and> sb_user_id y = u \<and> sb_active y))
          \<and> bump e 6 0 (sb_product_id r0) (pd_monitor_version p) (pd_url p) (pd_platform p) (db\<lparr>subscriptions := t\<rparr>) = Some db')"
    have [simp]: "i' = i" using i i' by simp
    note d = gw_wfD [OF wf]
    have ids: "distinct (map sb_id (subscriptions db))" using d(4) by (simp add: subs_wf_def)
    have rr: "r \<in> set (subscriptions db)" "is_sub i u r" "sb_id r = i" using find_SomeD [OF r] by (auto simp: is_sub_def)
    have byid: "find (\<lambda>y. sb_id y = i) (subscriptions db) = Some r" using find_key [OF ids rr(1)] rr(3) by simp
    have prod: "sb_product_id r0 = sb_product_id r"
    proof -
      obtain r1 where r1: "r1 \<in> set (subscriptions db)" "sb_id r1 = sb_id r" "sb_product_id r1 = sb_product_id r0"
        using find_older [OF r0] rr(3) by (auto simp: is_sub_def)
      from distinct_key_eq [OF ids r1(1) rr(1) r1(2)] r1(3) show ?thesis by simp
    qed
    from c consider (gone) "op = OpDelete" "db' = db" "\<not> sb_active r"
      | (did) p t where "find (\<lambda>p. pd_id p = sb_product_id r) (products db) = Some p" "sb_active r"
          "mutate_rows S op i u (subscriptions db) = Some t"
          "bump e 6 0 (sb_product_id r) (pd_monitor_version p) (pd_url p) (pd_platform p) (db\<lparr>subscriptions := t\<rparr>) = Some db'"
      using byid act prod by auto
    then show ?thesis
    proof cases
      case gone
      then show ?thesis using rr Inr by (auto simp: is_sub_def)
    next
      case did
      have p: "p \<in> set (products db)" "pd_id p = sb_product_id r" using find_SomeD [OF did(1)] by auto
      have t: "t = map (\<lambda>s. if sb_id s = i then op_effect S op s else s) (subscriptions db)"
        using act by (intro mutate_rows_effect [OF did(3) ids rr(1,2)]) blast
      note b = bump_announces [OF wf n p(1) did(4) [folded p(2)]]
      show ?thesis using rr did(2) p Inr t b
        by (auto simp: is_sub_def intro!: bexI [of _ r] bexI [of _ p])
    qed
  qed
qed

text \<open>When nothing is in the way, the change is made.\<close>

lemma mutate_succeeds:
  assumes wf: "gw_wf n db" and i: "pg_uuid S raw = Some i" and flt: "\<And>k. \<not> ge_flt e k"
    and seen: "find (is_sub i u) seen = Some r0" "op = OpDelete \<or> sb_active r0"
      "sb_product_id r0 \<in> sb_product_id ` set (subscriptions db)"
    and r: "r \<in> set (subscriptions db)" "sb_id r = i" "sb_user_id r = u" "op = OpDelete \<or> sb_active r"
    and fits: "\<And>mn mx. op = OpThresholds mn mx \<Longrightarrow> numcol S mn \<noteq> None \<and> numcol S mx \<noteq> None"
    and fresh: "\<forall>x \<in> set (gateway_outbox db). ob_id x \<noteq> ge_uuid e 1"
  shows "snd (mutateSubscription S e seen raw u op db) = Inr ()"
proof -
  note d = gw_wfD [OF wf]
  have ids: "distinct (map sb_id (subscriptions db))" using d(4) by (simp add: subs_wf_def)
  have byid: "find (\<lambda>y. sb_id y = i) (subscriptions db) = Some r" using find_key [OF ids r(1)] r(2) by simp
  have now: "find (is_sub i u) (subscriptions db) = Some r"
  proof (cases "find (is_sub i u) (subscriptions db)")
    case None
    with r show ?thesis by (auto simp: find_None_iff is_sub_def)
  next
    case (Some r')
    from find_SomeD [OF Some] have r': "r' \<in> set (subscriptions db)" "sb_id r' = i" by (auto simp: is_sub_def)
    with Some r(2) distinct_key_eq [OF ids r'(1) r(1)] show ?thesis by simp
  qed
  have "sb_product_id r0 \<in> pd_id ` set (products db)" using seen(3) d(4) by (auto simp: subs_wf_def)
  then obtain p where p: "find (\<lambda>p. pd_id p = sb_product_id r0) (products db) = Some p"
    by (cases "find (\<lambda>p. pd_id p = sb_product_id r0) (products db)") (auto simp: find_None_iff)
  have "mutate_rows S op i u (subscriptions db) \<noteq> None"
    using fits by (cases op) (auto simp: mutate_rows_def Let_def split: option.splits)
  then obtain t where rows: "mutate_rows S op i u (subscriptions db) = Some t" by blast
  have "bump e 6 0 (sb_product_id r0) (pd_monitor_version p) (pd_url p) (pd_platform p) (db\<lparr>subscriptions := t\<rparr>) \<noteq> None"
    using flt fresh by (auto simp: bump_def snapshot_def set_version_def gw_enqueue_def exists_where_def list_ex_iff Let_def)
  then obtain db' where bumps: "bump e 6 0 (sb_product_id r0) (pd_monitor_version p) (pd_url p) (pd_platform p)
      (db\<lparr>subscriptions := t\<rparr>) = Some db'" by blast
  show ?thesis
    using seen(2) r(3,4) rows by (auto simp: mutateSubscription_def lockProduct_def flt i seen(1) now p byid bumps)
qed

text \<open>
  C10: A change of a subscription is done by its owner only, has its effect and is announced
  once: when \<open>mutateSubscription\<close> succeeds, the subscription is the caller's, exactly this row
  changed, as the operation says, and exactly one event was added, the snapshot of the
  product's next version with the monitoring state that now holds; deleting a deleted
  subscription changes nothing. When it fails, nothing changed. And it does succeed when no
  statement fails, the caller's row is there (active, unless it is deleted) both now and in the
  state the first, unlocked read sees, new thresholds fit their column and the drawn event id is
  not taken. The older state that the unlocked read may have seen plays no other role.
\<close>

theorem mutate_spec:
  assumes wf: "gw_wf n db" and n: "n < 2 ^ 63 - 1" and i: "pg_uuid S raw = Some i"
    and res: "mutateSubscription S e (older v (subscriptions db)) raw u op db = (db', res)"
  shows "(case res of Inl _ \<Rightarrow> db' = db
    | Inr _ \<Rightarrow> (\<exists>r \<in> set (subscriptions db). sb_id r = i \<and> sb_user_id r = u \<and>
        (if op = OpDelete \<and> \<not> sb_active r then db' = db
         else sb_active r \<and> subscriptions db' = map (\<lambda>s. if sb_id s = i then op_effect S op s else s) (subscriptions db)
          \<and> (\<exists>p \<in> set (products db). pd_id p = sb_product_id r \<and> next_snapshot db db' p))))
    \<and> ((\<forall>k. \<not> ge_flt e k)
        \<and> (\<exists>r0. find (is_sub i u) (older v (subscriptions db)) = Some r0 \<and> (op = OpDelete \<or> sb_active r0))
        \<and> (\<exists>r \<in> set (subscriptions db). sb_id r = i \<and> sb_user_id r = u \<and> (op = OpDelete \<or> sb_active r))
        \<and> (\<forall>mn mx. op = OpThresholds mn mx \<longrightarrow> numcol S mn \<noteq> None \<and> numcol S mx \<noteq> None)
        \<and> (\<forall>x \<in> set (gateway_outbox db). ob_id x \<noteq> ge_uuid e 1)
      \<longrightarrow> res = Inr ())"
proof -
  have "res = Inr ()"
    if ok: "\<forall>k. \<not> ge_flt e k"
      "\<exists>r0. find (is_sub i u) (older v (subscriptions db)) = Some r0 \<and> (op = OpDelete \<or> sb_active r0)"
      "\<exists>r \<in> set (subscriptions db). sb_id r = i \<and> sb_user_id r = u \<and> (op = OpDelete \<or> sb_active r)"
      "\<forall>mn mx. op = OpThresholds mn mx \<longrightarrow> numcol S mn \<noteq> None \<and> numcol S mx \<noteq> None"
      "\<forall>x \<in> set (gateway_outbox db). ob_id x \<noteq> ge_uuid e 1"
  proof -
    obtain r0 where r0: "find (is_sub i u) (older v (subscriptions db)) = Some r0" "op = OpDelete \<or> sb_active r0"
      using ok(2) by blast
    obtain r where r: "r \<in> set (subscriptions db)" "sb_id r = i" "sb_user_id r = u" "op = OpDelete \<or> sb_active r"
      using ok(3) by blast
    have "sb_product_id r0 \<in> sb_product_id ` set (subscriptions db)"
      using find_older [OF r0(1)] by (metis image_eqI)
    from mutate_succeeds [where e = e, OF wf i _ r0 this r _ ok(5)] ok(1,4) res show ?thesis by simp
  qed
  with mutate_effect [OF wf n i res] show ?thesis by blast
qed

text \<open>The demo subscription is paused: the call succeeds, the row is paused, and one event follows.\<close>

theorem mutate_spec_witness:
  "let (db', res) = mutateSubscription demo (demo_genv 9 ''g'') (older Some (subscriptions demo_gw)) ''s'' ''u'' OpPause demo_gw
   in res = Inr () \<and> subscriptions db' = [demo_sub\<lparr>sb_paused := True\<rparr>] \<and> length (gateway_outbox db') = 2"
proof -
  obtain db' res where r: "mutateSubscription demo (demo_genv 9 ''g'') (older Some (subscriptions demo_gw)) ''s'' ''u'' OpPause demo_gw
      = (db', res)" by fastforce
  have o: "older Some (subscriptions demo_gw) = [demo_sub]" by (simp add: older_def demo_gw_def demo_sub_def map_filter_simps)
  have here: "find (is_sub ''s'' ''u'') (older Some (subscriptions demo_gw)) = Some demo_sub"
    "\<exists>r \<in> set (subscriptions demo_gw). sb_id r = ''s'' \<and> sb_user_id r = ''u'' \<and> sb_active r"
    "\<forall>x \<in> set (gateway_outbox demo_gw). ob_id x \<noteq> ge_uuid (demo_genv 9 ''g'') 1"
    unfolding o by (simp_all add: is_sub_def demo_gw_def demo_sub_def demo_event_def demo_genv_def)
  note spec = mutate_spec [OF demo_gw_wf _ _ r, of "''s''"]
  have res: "res = Inr ()"
    by (rule spec [THEN conjunct2, THEN mp])
      (use here in \<open>auto simp: demo_uuid_def demo_genv_def demo_sub_def\<close>)
  from spec [THEN conjunct1] res
  obtain p where "subscriptions db' = map (\<lambda>s. if sb_id s = ''s'' then op_effect demo OpPause s else s) (subscriptions demo_gw)"
      "next_snapshot demo_gw db' p"
    by (auto simp: demo_uuid_def)
  then show ?thesis using r res
    by (auto simp: demo_gw_def demo_sub_def op_effect_def next_snapshot_def)
qed

lemma CreateSubscription_effect:
  assumes wf: "gw_wf n db" and n: "0 \<le> n" "n < 2 ^ 63 - 1"
    and res: "CreateSubscription S e u pid mn mx db = (db', res)"
  shows "case res of Inl _ \<Rightarrow> db' = db
    | Inr i \<Rightarrow> (\<exists>p \<in> set (products db). pd_id p = pid)
      \<and> filter (\<lambda>s. sb_id s \<noteq> i) (subscriptions db') = filter (\<lambda>s. sb_id s \<noteq> i) (subscriptions db)
      \<and> (\<exists>s. filter (\<lambda>s. sb_user_id s = u \<and> sb_product_id s = pid) (subscriptions db') = [s] \<and> sb_id s = i
          \<and> sb_active s \<and> \<not> sb_paused s
          \<and> numcol S mn \<noteq> None \<and> sb_min_price s = numcol S mn \<and> numcol S mx \<noteq> None \<and> sb_max_price s = numcol S mx
          \<and> ((\<exists>p. next_snapshot db db' p \<and> pd_id p = pid)
              \<or> gateway_outbox db' = gateway_outbox db \<and> (\<exists>r \<in> set (subscriptions db). sb_id r = i \<and> sb_active r
                  \<and> \<not> sb_paused r \<and> \<not> reset_needed mn mx r \<and> sb_alert_state s = sb_alert_state r)))"
proof (cases res)
  case (Inl err)
  then show ?thesis using CreateSubscription_Inl res by simp
next
  case (Inr i)
  have "CreateSubscription S e u pid mn mx db = (db', Inr i)" using res Inr by simp
  then show ?thesis
  proof (rule CreateSubscription_Inr)
    fix p t changed
    assume p: "find (\<lambda>p. pd_id p = pid) (products db) = Some p"
      and up: "upsert_sub S e u pid mn mx db = Some (t, i, changed)"
      and b: "(if changed then bump e 4 0 pid (pd_monitor_version p) (pd_url p) (pd_platform p) (db\<lparr>subscriptions := t\<rparr>)
          else Some (db\<lparr>subscriptions := t\<rparr>)) = Some db'"
    have pp: "p \<in> set (products db)" "pd_id p = pid" using find_SomeD [OF p] by auto
    have eff: "subscriptions db' = t \<and> (if changed then next_snapshot db db' p else gateway_outbox db' = gateway_outbox db)"
    proof (cases changed)
      case True
      then have "bump e 4 0 (pd_id p) (pd_monitor_version p) (pd_url p) (pd_platform p) (db\<lparr>subscriptions := t\<rparr>) = Some db'"
        using b pp(2) by simp
      from bump_announces [OF wf n(2) pp(1) this] True show ?thesis by simp
    qed (use b in auto)
    have wft: "subs_wf (users db) (products db) t" by (rule upsert_sub_wf(1) [OF wf n(1) pp(1) up [folded pp(2)]])
    have single: "filter (\<lambda>x. sb_user_id x = sb_user_id s \<and> sb_product_id x = sb_product_id s) t = [s]" if "s \<in> set t" for s
      using filter_key_single [of "\<lambda>s. (sb_user_id s, sb_product_id s)" t s] wft that by (simp add: subs_wf_def)
    have ids: "distinct (map sb_id (subscriptions db))" using gw_wfD(4) [OF wf] by (simp add: subs_wf_def)
    from up show ?thesis
    proof (cases rule: upsert_sub_cases)
      case (inserted row)
      have "row \<in> set t" by (simp add: inserted(4))
      from single [OF this] inserted pp eff show ?thesis unfolding Inr sum.case
        by (intro conjI exI [of _ row] bexI [OF _ pp(1)]) (auto simp: filter_id_conv)
    next
      case (updated r f)
      have r: "r \<in> set (subscriptions db)" "sb_user_id r = u" "sb_product_id r = pid"
        using find_SomeD [OF updated(1)] by auto
      have one: "x = r" if "x \<in> set (subscriptions db)" "sb_id x = i" for x
        using distinct_key_eq [OF ids that(1) r(1)] that(2) updated(2) by simp
      have key: "sb_id (f x) = sb_id x" "sb_user_id (f x) = sb_user_id x" "sb_product_id (f x) = sb_product_id x" for x
        using updated(4) [of x] by (simp_all add: sub_evolves_def)
      have mem: "f r \<in> set t" using r(1) unfolding updated(3) set_update_where by (intro image_eqI [of _ _ r]) simp_all
      have others: "filter (\<lambda>s. sb_id s \<noteq> i) t = filter (\<lambda>s. sb_id s \<noteq> i) (subscriptions db)"
        unfolding updated(3) by (rule filter_update_where) (simp add: updated(2) key)
      have kept: "changed \<or> (\<exists>q \<in> set (subscriptions db). sb_id q = i \<and> sb_active q \<and> \<not> sb_paused q \<and> \<not> reset_needed mn mx q
          \<and> sb_alert_state (f r) = sb_alert_state q)"
        using updated(2,5,8) r(1) by (auto simp: reset_needed_def)
      have snap: "(\<exists>p. next_snapshot db db' p \<and> pd_id p = pid)
          \<or> gateway_outbox db' = gateway_outbox db \<and> (\<exists>q \<in> set (subscriptions db). sb_id q = i \<and> sb_active q
              \<and> \<not> sb_paused q \<and> \<not> reset_needed mn mx q \<and> sb_alert_state (f r) = sb_alert_state q)"
        using kept eff pp(2) by (cases changed) auto
      have "filter (\<lambda>s. sb_user_id s = u \<and> sb_product_id s = pid) (subscriptions db') = [f r]"
        using single [OF mem] eff r(2,3) by (simp add: key)
      moreover have "sb_id (f r) = i" "sb_active (f r)" "\<not> sb_paused (f r)" "sb_min_price (f r) = numcol S mn"
        "sb_max_price (f r) = numcol S mx" using updated(2,4,8) key by auto
      ultimately show ?thesis unfolding Inr sum.case
        using others eff snap updated(6,7) pp by (intro conjI exI [of _ "f r"] bexI [OF _ pp(1)]) simp_all
    qed
  qed
qed

text \<open>
  C11: subscribing: when \<open>CreateSubscription\<close> returns an id, it is the one of the only row of
  this user and product, which is active, not paused and has the stored thresholds; all
  other rows are as they were; and the product's next snapshot was added to the outbox,
  unless the row was running with these thresholds already: then nothing was added and its
  alert state was kept. When it fails, nothing changed.
\<close>

theorem create_subscription_spec:
  assumes wf: "gw_wf n db" and n: "0 \<le> n" "n < 2 ^ 63 - 1"
    and res: "CreateSubscription S e u pid mn mx db = (db', res)"
  shows "case res of Inl _ \<Rightarrow> db' = db
    | Inr i \<Rightarrow> (\<exists>p \<in> set (products db). pd_id p = pid)
      \<and> filter (\<lambda>s. sb_id s \<noteq> i) (subscriptions db') = filter (\<lambda>s. sb_id s \<noteq> i) (subscriptions db)
      \<and> (\<exists>s. filter (\<lambda>s. sb_user_id s = u \<and> sb_product_id s = pid) (subscriptions db') = [s] \<and> sb_id s = i
          \<and> sb_active s \<and> \<not> sb_paused s
          \<and> numcol S mn \<noteq> None \<and> sb_min_price s = numcol S mn \<and> numcol S mx \<noteq> None \<and> sb_max_price s = numcol S mx
          \<and> ((\<exists>p. next_snapshot db db' p \<and> pd_id p = pid)
              \<or> gateway_outbox db' = gateway_outbox db \<and> (\<exists>r \<in> set (subscriptions db). sb_id r = i \<and> sb_active r
                  \<and> \<not> sb_paused r \<and> \<not> reset_needed mn mx r \<and> sb_alert_state s = sb_alert_state r)))"
  by (rule CreateSubscription_effect [OF wf n res])

theorem create_subscription_spec_witness:
  "filter (\<lambda>s. sb_id s \<noteq> ''s'') (subscriptions (fst (CreateSubscription demo (demo_genv 9 ''g'') ''u'' ''p'' (Fin 100) (Fin 300) demo_gw)))
   = filter (\<lambda>s. sb_id s \<noteq> ''s'') (subscriptions demo_gw)"
proof -
  have f: "ge_flt (demo_genv 9 ''g'') k = False" for k by (simp add: demo_genv_def)
  have q: "numcol demo (Fin 100) = Some (Fin 100)" "numcol demo (Fin 300) = Some (Fin 300)"
    by (simp_all add: Let_def floor_eq_iff)
  let ?r = "CreateSubscription demo (demo_genv 9 ''g'') ''u'' ''p'' (Fin 100) (Fin 300) demo_gw"
  have "incr64 1 = 2" by (simp add: incr64_less)
  then have "snd ?r = Inr ''s''"
    using q by (simp add: f CreateSubscription_def upsert_sub_def demo_gw_def demo_sub_def lockProduct_def demo_product_def
        reset_needed_def bump_def snapshot_def set_version_def gw_enqueue_def exists_where_def demo_event_def
        track_key_inj Let_def del: demo_numcol.simps) (simp add: demo_genv_def)
  then have "?r = (fst ?r, Inr ''s'')" by (simp add: prod_eq_iff)
  from create_subscription_spec [OF demo_gw_wf _ _ this] show ?thesis by simp
qed

end
