(* ===== verification/HandlerLaws.thy ===== *)
theory HandlerLaws
  imports Handler GatewayProps
begin

text \<open>
  The theorems of the HTTP API: every request is a sequence of the store's transactions, so
  the invariants of \<open>GatewayLaws\<close> hold whatever is requested; requests without the token do
  nothing; subscriptions of others look as if they did not exist; the lookup queue is
  bounded; and the path from a lookup to a running subscription.
\<close>

section \<open>Requests as transactions\<close>

definition via :: "services \<Rightarrow> nat \<Rightarrow> gw_db \<Rightarrow> gw_db \<Rightarrow> bool" where
  "via S m db db' \<longleftrightarrow> (\<exists>xs. (\<forall>x \<in> set xs. step_ok x) \<and> length xs \<le> m \<and> db' = gw_run S xs db)"

definition others_ok :: "henv \<Rightarrow> bool" where
  "others_ok h \<longleftrightarrow> (\<forall>k < 4. \<forall>x \<in> set (he_other h k). step_ok x)"

text \<open>The most transactions a request can see: its own and those of the others.\<close>

definition budget :: "henv \<Rightarrow> nat" where
  "budget h = 3 + length (he_other h 0) + length (he_other h 1) + length (he_other h 2) + length (he_other h 3)"

lemma via_refl: "via S m db db"
  by (auto simp: via_def gw_run_def intro!: exI [of _ "[]"])

lemma via_mono: "via S m db db' \<Longrightarrow> m \<le> m' \<Longrightarrow> via S m' db db'"
  by (force simp: via_def)

lemma via_trans:
  assumes "via S m db db1" and "via S m' db1 db2"
  shows "via S (m + m') db db2"
proof -
  from assms obtain xs ys where "\<forall>x \<in> set xs. step_ok x" "length xs \<le> m" "db1 = gw_run S xs db"
    "\<forall>x \<in> set ys. step_ok x" "length ys \<le> m'" "db2 = gw_run S ys db1" by (auto simp: via_def)
  then show ?thesis
    unfolding via_def by (intro exI [of _ "xs @ ys"]) (auto simp: gw_run_def run_steps_append)
qed

lemma via_own: "work_ok x \<Longrightarrow> via S 1 db (gw_own S x db)"
  unfolding via_def by (intro exI [of _ "[Local x]"]) (simp add: gw_run_def)

lemma via_others: "others_ok h \<Longrightarrow> k < 4 \<Longrightarrow> via S (length (he_other h k)) db (others S h k db)"
  unfolding via_def others_def by (intro exI [of _ "he_other h k"]) (simp add: others_ok_def)

lemma via_wf:
  assumes "via S m db db'" and "gw_wf n db" and "0 \<le> n" and "n + int m < 2 ^ 63"
  shows "gw_wf (n + int m) db'"
proof -
  from assms(1) obtain xs where xs: "\<forall>x \<in> set xs. step_ok x" "length xs \<le> m" "db' = gw_run S xs db"
    by (auto simp: via_def)
  with gw_run_wf [OF assms(2,3) _ xs(1), of S] assms(4) have "gw_wf (n + int (length xs)) db'" by simp
  then show ?thesis by (rule gw_wf_mono) (use xs(2) in simp)
qed

lemma via_mutate: "via S 1 db (fst (mutateSubscription S e (older v (subscriptions db)) i u op db))"
  using via_own [of "WMutate e v i u op" S db] by simp

lemmas subscription_calls = PauseSubscription_def ResumeSubscription_def UpdateThresholds_def DeleteSubscription_def

lemma finish_fst [simp]: "fst (finish r good) = fst r"
  by (simp add: finish_def)

text \<open>The requests that make at most two calls.\<close>

lemma two_calls:
  assumes ok: "others_ok h" and f: "\<And>d. via S 1 d (f d)"
  shows "via S (budget h) db (others S h 0 db)"
    and "via S (budget h) db (others S h 1 (others S h 0 db))"
    and "via S (budget h) db (f (others S h 1 (others S h 0 db)))"
proof -
  have 0: "via S (length (he_other h 0)) db (others S h 0 db)" using via_others [OF ok, of 0] by simp
  have 1: "via S (length (he_other h 0) + length (he_other h 1)) db (others S h 1 (others S h 0 db))"
    by (rule via_trans [OF 0]) (use via_others [OF ok, of 1] in simp)
  from via_trans [OF 1 f] show "via S (budget h) db (f (others S h 1 (others S h 0 db)))"
    by (rule via_mono) (simp add: budget_def)
  show "via S (budget h) db (others S h 0 db)" "via S (budget h) db (others S h 1 (others S h 0 db))"
    using 0 1 via_mono by (force simp: budget_def)+
qed

lemma three_reads:
  assumes ok: "others_ok h"
  shows "via S (budget h) db (others S h 2 (others S h 1 (others S h 0 db)))"
proof -
  have 0: "via S (length (he_other h 0)) db (others S h 0 db)" using via_others [OF ok, of 0] by simp
  have 1: "via S (length (he_other h 0) + length (he_other h 1)) db (others S h 1 (others S h 0 db))"
    by (rule via_trans [OF 0]) (use via_others [OF ok, of 1] in simp)
  show ?thesis by (rule via_mono [OF via_trans [OF 1 via_others [OF ok, of 2]]]) (simp_all add: budget_def)
qed

lemma normalizeURL_canonical: "normalizeURL plat raw = Inr u \<Longrightarrow> canonical u"
  using NormalizeWB_InrD by (simp add: normalizeURL_def split: if_splits)

lemma postLookup_via:
  assumes "others_ok h"
  shows "via S (budget h) db (fst (postLookup S h body db))"
proof -
  have f: "via S 1 d (if canonical u then fst (CreateLookup e i u d) else d)" for d e i u
    using via_own [of "WCreateLookup e i u" S d] via_refl by simp
  have create: "via S (budget h) db (fst (CreateLookup e i u (others S h 1 (others S h 0 db))))"
    if "canonical u" for e i u
    using two_calls(3) [OF assms, of S "\<lambda>d. if canonical u then fst (CreateLookup e i u d) else d" db, OF f] that by simp
  show ?thesis
    using via_refl two_calls(1) [OF assms via_refl, of S db] create [OF normalizeURL_canonical]
    by (auto simp: postLookup_def Let_def split: option.splits sum.splits prod.splits) (metis fst_conv)+
qed

lemma getLookup_via: "others_ok h \<Longrightarrow> via S (budget h) db (fst (getLookup S h i db))"
  using two_calls(1) [of h S "\<lambda>d. d" db] via_refl by (auto simp: getLookup_def Let_def split: sum.splits)

lemma listSubscriptions_via: "others_ok h \<Longrightarrow> via S (budget h) db (fst (listSubscriptions S h q db))"
  using two_calls(1,2) [of h S "\<lambda>d. d" db] via_refl
  by (auto simp: listSubscriptions_def Let_def split: option.splits sum.splits)

lemma patchSubscription_via:
  assumes "others_ok h"
  shows "via S (budget h) db (fst (patchSubscription S h i body db))"
proof -
  note two = two_calls [OF assms via_mutate]
  show ?thesis
    using via_refl two [where ?db = db]
    by (auto simp: patchSubscription_def Let_def subscription_calls split: option.splits sum.splits)
qed

lemma deleteSubscription_via:
  assumes "others_ok h"
  shows "via S (budget h) db (fst (deleteSubscription S h i body db))"
  using via_refl two_calls [OF assms via_mutate, where db = db]
  by (auto simp: deleteSubscription_def Let_def subscription_calls split: option.splits sum.splits)

lemma getHistory_via:
  assumes "others_ok h"
  shows "via S (budget h) db (fst (getHistory S h i q db))"
  using via_refl two_calls(1,2) [OF assms, of S "\<lambda>d. d" db] three_reads [OF assms]
  by (auto simp: getHistory_def Let_def split: option.splits sum.splits)

lemma postCheck_via:
  assumes "others_ok h"
  shows "via S (budget h) db (fst (postCheck S h i body db))"
proof -
  have "via S 1 d (fst (QueueForce S e i u chat d))" for d e u chat
    using via_own [of "WQueueForce e i u chat" S d] by simp
  note two = two_calls [OF assms this]
  show ?thesis using via_refl two
    by (auto simp: postCheck_def Let_def split: option.splits sum.splits)
qed


lemma GetLookup_Inr:
  assumes "GetLookup S e i db = Inr r"
  obtains row where "row \<in> set (lookup_requests db)" "pg_uuid S i = Some (lk_id row)" "lr_ID r = lk_id row"
    "lr_URL r = lk_url row" "lr_Status r = lk_status row" "lr_Name r = (case lk_name row of None \<Rightarrow> [] | Some n \<Rightarrow> n)"
proof -
  from assms obtain j row where j: "pg_uuid S i = Some j"
    and f: "find (\<lambda>r. lk_id r = j) (lookup_requests db) = Some row"
    and r: "r = \<lparr>lr_ID = lk_id row, lr_URL = lk_url row, lr_Status = lk_status row,
      lr_Name = (case lk_name row of None \<Rightarrow> [] | Some n \<Rightarrow> n), lr_Price = (case lk_price row of None \<Rightarrow> f_zero | Some p \<Rightarrow> p),
      lr_Error = (case lk_error row of None \<Rightarrow> [] | Some x \<Rightarrow> x)\<rparr>"
    by (auto simp: GetLookup_def split: if_splits option.splits)
  from find_SomeD [OF f] j r show thesis by (intro that) auto
qed

lemma GetLookup_canonical: "gw_wf n db \<Longrightarrow> GetLookup S e i db = Inr r \<Longrightarrow> canonical (lr_URL r)"
  by (erule GetLookup_Inr) (auto simp: gw_wf_def lookup_wf_def)

text \<open>The calls of \<open>postSubscription\<close> one after the other.\<close>

lemma postSubscription_via:
  assumes ok: "others_ok h" and wf: "gw_wf n db" "0 \<le> n" "n + int (budget h) < 2 ^ 63"
  shows "via S (budget h) db (fst (postSubscription S h body db))"
proof -
  define l where "l k = length (he_other h k)" for k
  have budget: "budget h = 3 + l 0 + l 1 + l 2 + l 3" by (simp add: budget_def l_def)
  have oth: "via S (l k) d (others S h k d)" if "k < 4" for k d
    unfolding l_def by (rule via_others [OF ok that])
  define db0 where "db0 = others S h 0 db"
  have 0: "via S (l 0) db db0" using oth [of 0] by (simp add: db0_def)
  have wf0: "gw_wf (n + int (l 0)) db0" by (rule via_wf [OF 0 wf(1,2)]) (use wf(3) budget in simp)
  show ?thesis
  proof (cases "\<exists>req r. body = Some req \<and> psr_ChatID req \<noteq> 0 \<and> psr_LookupID req \<noteq> [] \<and>
      \<not> bad_range (psr_MinPrice req) (psr_MaxPrice req) \<and>
      GetLookup S (he_call h 0) (psr_LookupID req) db0 = Inr r \<and> lr_Status r = LookupDone")
    case False
    then have "fst (postSubscription S h body db) \<in> {db, db0}"
      by (auto simp: postSubscription_def Let_def db0_def split: option.splits sum.splits)
    then show ?thesis using via_refl via_mono [OF 0] budget by auto
  next
    case True
    then obtain req r where req: "body = Some req" "psr_ChatID req \<noteq> 0" "psr_LookupID req \<noteq> []"
      "\<not> bad_range (psr_MinPrice req) (psr_MaxPrice req)"
      and look: "GetLookup S (he_call h 0) (psr_LookupID req) db0 = Inr r" "lr_Status r = LookupDone" by blast
    have canon: "canonical (lr_URL r)" by (rule GetLookup_canonical [OF wf0 look(1)])
    have plat: "Detect (lr_URL r) = Inr ''wb''" by (rule Detect_canonical [OF canon])
    obtain db1 u where u: "UpsertUser (he_call h 1) (psr_ChatID req) (others S h 1 db0) = (db1, u)" by fastforce
    have 1: "via S (l 0 + (l 1 + 1)) db db1"
      by (rule via_trans [OF 0 via_trans [OF oth]])
        (use via_own [of "WUpsertUser (he_call h 1) (psr_ChatID req)" S "others S h 1 db0"] u in simp_all)
    obtain db2 p where p: "EnsureProduct (he_call h 2) (he_uuid h 0) (lr_Name r) (lr_URL r) ''wb'' (others S h 2 db1) = (db2, p)"
      by fastforce
    have 2: "via S (l 0 + (l 1 + 1) + (l 2 + 1)) db db2"
      by (rule via_trans [OF 1 via_trans [OF oth]])
        (use via_own [of "WEnsureProduct (he_call h 2) (he_uuid h 0) (lr_Name r) (lr_URL r) ''wb''" S "others S h 2 db1"]
          p canon in simp_all)
    have 3: "via S (l 0 + (l 1 + 1) + (l 2 + 1) + (l 3 + 1)) db
        (fst (CreateSubscription S (he_call h 3) uid pid (psr_MinPrice req) (psr_MaxPrice req) (others S h 3 db2)))" for uid pid
      by (rule via_trans [OF 2 via_trans [OF oth]])
        (use via_own [of "WSubscribe (he_call h 3) uid pid (psr_MinPrice req) (psr_MaxPrice req)" S "others S h 3 db2"] in simp_all)
    have "via S (budget h) db db1" "via S (budget h) db db2"
      "via S (budget h) db (fst (CreateSubscription S (he_call h 3) uid pid (psr_MinPrice req) (psr_MaxPrice req) (others S h 3 db2)))"
      for uid pid
      by (rule via_mono [OF 1] via_mono [OF 2] via_mono [OF 3]; simp add: budget)+
    then show ?thesis
      using req look u p plat
      by (auto simp: postSubscription_def Let_def db0_def [symmetric] split: sum.splits prod.splits) (metis fst_conv)+
  qed
qed

lemma Register_via:
  assumes "others_ok h" and "gw_wf n db" "0 \<le> n" "n + int (budget h) < 2 ^ 63"
  shows "via S (budget h) db (fst (Register S h req db))"
  using assms
  by (cases req) (simp_all add: postLookup_via getLookup_via postSubscription_via listSubscriptions_via
      patchSubscription_via deleteSubscription_via getHistory_via postCheck_via)

lemma serve_via:
  assumes "others_ok h" and "gw_wf n db" "0 \<le> n" "n + int (budget h) < 2 ^ 63"
  shows "via S (budget h) db (fst (serve S token h got req db))"
  using Register_via [OF assms] via_refl by (simp add: serve_def Auth_def)

section \<open>Properties\<close>

definition demo_henv :: henv where
  "demo_henv = \<lparr>he_call = (\<lambda>k. demo_genv 9 (''e'' @ show_nat k)), he_other = (\<lambda>_. []), he_seen = (\<lambda>_ r. Some r),
     he_uuid = (\<lambda>k. ''h'' @ show_nat k)\<rparr>"

lemma demo_henv_simps [simp]:
  "he_call demo_henv k = demo_genv 9 (''e'' @ show_nat k)" "he_other demo_henv k = []"
  "he_seen demo_henv k r = Some r" "he_uuid demo_henv k = ''h'' @ show_nat k"
  "others_ok demo_henv" "budget demo_henv = 3"
  by (simp_all add: demo_henv_def others_ok_def budget_def)

lemma others_demo [simp]: "others S demo_henv k db = db"
  by (simp add: others_def gw_run_def)

text \<open>
  C21: the HTTP API changes the database only through the store's transactions: whatever
  request comes in, with or without the token, with whatever failures and whatever other
  clients do between its calls, its whole effect is that of a sequence of those transactions,
  at most three of them its own, each with arguments the store's invariant allows. So the
  invariant of the tables holds after every request.
\<close>

theorem requests_are_transactions:
  assumes wf: "gw_wf n db" and n: "0 \<le> n" "n + int (budget h) < 2 ^ 63"
    and others: "\<forall>k < 4. \<forall>x \<in> set (he_other h k). step_ok x"
    and res: "serve S token h got req db = (db', r)"
  shows "(\<exists>xs. (\<forall>x \<in> set xs. step_ok x) \<and> length xs \<le> budget h \<and> db' = gw_run S xs db) \<and>
    gw_wf (n + int (budget h)) db'"
proof -
  have v: "via S (budget h) db db'"
    using serve_via [OF _ wf n, of S token got req] others res by (simp add: others_ok_def)
  then show ?thesis using via_wf [OF v wf n] by (simp add: via_def)
qed

theorem requests_are_transactions_witness:
  "gw_wf 4 (fst (serve demo ''tok'' demo_henv ''tok'' (DeleteSubscriptionById ''s'' (Some \<lparr>cb_ChatID = 7\<rparr>)) demo_gw))"
proof -
  obtain db' r where res: "serve demo ''tok'' demo_henv ''tok'' (DeleteSubscriptionById ''s'' (Some \<lparr>cb_ChatID = 7\<rparr>)) demo_gw
      = (db', r)" by fastforce
  from requests_are_transactions [OF demo_gw_wf _ _ _ res] res show ?thesis by simp
qed

text \<open>
  Without the shared token every request gets the same answer, 401, which reveals
  nothing of the database, and changes nothing.
\<close>

theorem unauthorized_rejected:
  assumes "got \<noteq> token"
  shows "serve S token h got req db = (db, \<lparr>rs_status = 401, rs_body = ErrorBody ''unauthorized''\<rparr>)"
  using assms by (simp add: serve_def Auth_def reply_def)

theorem unauthorized_rejected_witness:
  "serve demo ''tok'' demo_henv [] (PostCheck ''s'' (Some \<lparr>cb_ChatID = 7\<rparr>)) demo_gw
    = (demo_gw, \<lparr>rs_status = 401, rs_body = ErrorBody ''unauthorized''\<rparr>)"
  by (rule unauthorized_rejected) simp


text \<open>A well-formed request of chat \<open>c\<close> about subscription \<open>i\<close>.\<close>

fun concerns :: "string \<Rightarrow> int \<Rightarrow> request \<Rightarrow> bool" where
  "concerns i c (PatchSubscription j (Some p)) = (j = i \<and> pat_ChatID p = c \<and>
     (pat_Action p = ''pause'' \<or> pat_Action p = ''resume'' \<or>
      pat_Action p = ''edit'' \<and> (case (pat_MinPrice p, pat_MaxPrice p) of (Some mn, Some mx) \<Rightarrow> \<not> bad_range mn mx | _ \<Rightarrow> False)))"
| "concerns i c (DeleteSubscriptionById j (Some b)) = (j = i \<and> cb_ChatID b = c)"
| "concerns i c (GetHistory j q) = (j = i \<and> query_chat_id q = Some c)"
| "concerns i c (PostCheck j (Some b)) = (j = i \<and> cb_ChatID b = c)"
| "concerns i c _ = False"

definition alone :: "henv \<Rightarrow> bool" where
  "alone h \<longleftrightarrow> (\<forall>k. he_other h k = [])"

lemma alone_others: "alone h \<Longrightarrow> others S h k db = db"
  by (simp add: alone_def others_def gw_run_def)

lemma find_None_iff_ball: "find P t = None \<longleftrightarrow> (\<forall>x \<in> set t. \<not> P x)"
  by (auto simp: find_None_iff)

lemma find_older_None: "find (is_sub i u) t = None \<Longrightarrow> find (is_sub i u) (older v t) = None"
  using find_older [of i u v t] by (cases "find (is_sub i u) (older v t)") (auto simp: find_None_iff_ball)

lemma mutate_not_found:
  assumes "\<And>k. \<not> ge_flt e k" and "pg_uuid S i = Some j" and "find (is_sub j u) (subscriptions db) = None"
  shows "mutateSubscription S e (older v (subscriptions db)) i u op db = (db, Inl ErrNotFound)"
  using assms find_older_None [OF assms(3), of v] by (simp add: mutateSubscription_def)

text \<open>
  Any request of chat \<open>c\<close> about subscription \<open>i\<close>, well-formed or not; and that the chat does not
  own it (no row of that id belongs to a user with this chat).
\<close>

fun about_subscription :: "string \<Rightarrow> int \<Rightarrow> request \<Rightarrow> bool" where
  "about_subscription i c (PatchSubscription j b) = (j = i \<and> (b = None \<or> pat_ChatID (the b) = c))"
| "about_subscription i c (DeleteSubscriptionById j b) = (j = i \<and> (b = None \<or> cb_ChatID (the b) = c))"
| "about_subscription i c (GetHistory j q) = (j = i \<and> (query_chat_id q = None \<or> query_chat_id q = Some c))"
| "about_subscription i c (PostCheck j b) = (j = i \<and> (b = None \<or> cb_ChatID (the b) = c))"
| "about_subscription i c _ = False"

definition has_account :: "int \<Rightarrow> gw_db \<Rightarrow> bool" where
  "has_account c db \<longleftrightarrow> (\<exists>u \<in> set (users db). us_chat_id u = c)"

definition not_owner :: "services \<Rightarrow> string \<Rightarrow> int \<Rightarrow> gw_db \<Rightarrow> bool" where
  "not_owner S i c db \<longleftrightarrow> (\<forall>s \<in> set (subscriptions db). pg_uuid S i = Some (sb_id s) \<longrightarrow>
     (\<forall>u \<in> set (users db). us_id u = sb_user_id s \<longrightarrow> us_chat_id u \<noteq> c))"

text \<open>What such a request is answered: a function of the request and of whether the chat has an account.\<close>

definition unowned :: "services \<Rightarrow> faults \<Rightarrow> bool \<Rightarrow> string \<Rightarrow> response" where
  "unowned S flt tx i =
     (if flt 0 \<or> (tx \<and> flt 1) \<or> pg_uuid S i = None then internal_error else subscription_not_found)"

definition after_account :: "henv \<Rightarrow> bool \<Rightarrow> response \<Rightarrow> response" where
  "after_account h account r =
     (if ge_flt (he_call h 0) 0 then internal_error else if account then r else subscription_not_found)"

fun refusal :: "services \<Rightarrow> henv \<Rightarrow> bool \<Rightarrow> request \<Rightarrow> response" where
  "refusal S h account (PatchSubscription i b) =
     (case b of
        None \<Rightarrow> reply 400 (ErrorBody ''chat_id and action are required'')
      | Some p \<Rightarrow>
         if pat_ChatID p = 0 \<or> pat_Action p = [] then reply 400 (ErrorBody ''chat_id and action are required'')
         else after_account h account
           (if pat_Action p = ''pause'' \<or> pat_Action p = ''resume'' then unowned S (ge_flt (he_call h 1)) True i
            else if pat_Action p \<noteq> ''edit'' then reply 400 (ErrorBody ''action must be pause, resume, or edit'')
            else case (pat_MinPrice p, pat_MaxPrice p) of
              (Some mn, Some mx) \<Rightarrow> if bad_range mn mx then reply 400 (ErrorBody price_message)
                 else unowned S (ge_flt (he_call h 1)) True i
            | _ \<Rightarrow> reply 400 (ErrorBody ''min_price and max_price are required for edit'')))"
| "refusal S h account (DeleteSubscriptionById i b) =
     (if b = None \<or> cb_ChatID (the b) = 0 then reply 400 (ErrorBody ''chat_id is required'')
      else after_account h account (unowned S (ge_flt (he_call h 1)) True i))"
| "refusal S h account (GetHistory i q) =
     (if query_chat_id q = None then reply 400 (ErrorBody ''invalid chat_id'')
      else after_account h account (unowned S (ge_flt (he_call h 1)) False i))"
| "refusal S h account (PostCheck i b) =
     (if b = None \<or> cb_ChatID (the b) = 0 then reply 400 (ErrorBody ''chat_id is required'')
      else after_account h account (unowned S (ge_flt (he_call h 1)) True i))"
| "refusal S h account _ = internal_error"

lemma finish_unowned:
  assumes "x = (if flt 0 then (db, Inl ErrDB) else if tx \<and> flt 1 then (db, Inl ErrDB)
      else if pg_uuid S i = None then (db, Inl ErrDB) else (db, Inl ErrNotFound))"
  shows "finish x good = (db, unowned S flt tx i)"
  using assms by (simp add: finish_def unowned_def)

lemma foreign_subscription:
  assumes "alone h" and foreign: "not_owner S i c db" and req: "about_subscription i c req"
  shows "Register S h req db = (db, refusal S h (has_account c db) req)"
proof (cases "find (\<lambda>u. us_chat_id u = c) (users db)")
  case None
  then have "\<not> has_account c db" by (simp add: has_account_def find_None_iff_ball)
  moreover have "userIDOr404 e c db = Inl (if ge_flt e 0 then internal_error else subscription_not_found)" for e
    using None by (simp add: userIDOr404_def UserIDByChatID_def)
  ultimately show ?thesis using req
    by (cases req) (auto simp: patchSubscription_def deleteSubscription_def getHistory_def postCheck_def Let_def
        after_account_def alone_others [OF assms(1)] split: option.splits)
next
  case (Some u)
  then have u: "u \<in> set (users db)" "us_chat_id u = c" using find_SomeD by fastforce+
  then have acc: "has_account c db" by (auto simp: has_account_def)
  have user: "userIDOr404 e c db = (if ge_flt e 0 then Inl internal_error else Inr (us_id u))" for e
    using Some by (simp add: userIDOr404_def UserIDByChatID_def)
  have none: "find (is_sub j (us_id u)) (subscriptions db) = None" if "pg_uuid S i = Some j" for j
    using foreign u that unfolding find_None_iff_ball is_sub_def not_owner_def by metis
  then have act: "find (\<lambda>r. is_sub j (us_id u) r \<and> sb_active r) (subscriptions db) = None" if "pg_uuid S i = Some j" for j
    using that by (auto simp: find_None_iff_ball)
  have mutate: "finish (mutateSubscription S e (older v (subscriptions db)) i (us_id u) op db) good
      = (db, unowned S (ge_flt e) True i)" for e v op good
    using find_older_None [OF none] by (intro finish_unowned) (auto simp: mutateSubscription_def split: option.splits)
  have force: "finish (QueueForce S e i (us_id u) c db) good = (db, unowned S (ge_flt e) True i)" for e good
    using act by (intro finish_unowned) (auto simp: QueueForce_def split: option.splits)
  have get: "GetSubscription S e i (us_id u) db = Inl (if ge_flt e 0 \<or> pg_uuid S i = None then ErrDB else ErrNotFound)" for e
    using act by (auto simp: GetSubscription_def split: option.splits)
  note go = Let_def user mutate force get after_account_def subscription_calls alone_others [OF assms(1)]
  show ?thesis
  proof (cases req)
    case (PatchSubscription j b)
    show ?thesis
    proof (cases b)
      case None
      with PatchSubscription show ?thesis by (simp add: patchSubscription_def)
    next
      case (Some p)
      with PatchSubscription req have "j = i" "pat_ChatID p = c" by simp_all
      then show ?thesis using PatchSubscription Some acc
        by (simp add: patchSubscription_def go split: option.split)
    qed
  next
    case (DeleteSubscriptionById j b)
    then show ?thesis using req acc by (cases b) (simp_all add: deleteSubscription_def go)
  next
    case (GetHistory j q)
    then show ?thesis using req acc by (auto simp: getHistory_def go unowned_def)
  next
    case (PostCheck j b)
    then show ?thesis using req acc by (cases b) (simp_all add: postCheck_def go)
  qed (use req in simp_all)
qed

text \<open>
  C24: Subscriptions of others are invisible. Take two databases in which a chat does not own
  the subscription it asks about, and that agree on whether the chat has an account. Any request of
  the chat to pause, resume, edit, delete, read or check it, well-formed or not, with or without store
  failures, served alone, changes neither and gets the same answer in both: it depends on nothing
  else in the database, so not on whether the subscription exists, whose it is, or who else has an
  account. A well-formed request without failures is answered 404 even when the chat has no account.
\<close>

theorem foreign_subscriptions_hidden:
  assumes "\<forall>k. he_other h k = []" and req: "about_subscription i c req"
    and "not_owner S i c db1" and "not_owner S i c db2" and "has_account c db1 = has_account c db2"
  shows "\<exists>r. serve S token h token req db1 = (db1, r) \<and> serve S token h token req db2 = (db2, r) \<and>
    ((\<forall>k j. \<not> ge_flt (he_call h k) j) \<and> c \<noteq> 0 \<and> concerns i c req \<and> pg_uuid S i \<noteq> None \<longrightarrow>
      r = \<lparr>rs_status = 404, rs_body = ErrorBody ''subscription not found''\<rparr>)"
proof -
  have alone: "alone h" using assms(1) by (simp add: alone_def)
  have "refusal S h a req = subscription_not_found"
    if "\<forall>k j. \<not> ge_flt (he_call h k) j" "c \<noteq> 0" "concerns i c req" "pg_uuid S i \<noteq> None" for a
    using that by (cases "(i, c, req)" rule: concerns.cases) (auto simp: after_account_def unowned_def split: option.splits)
  then show ?thesis
    using foreign_subscription [OF alone assms(3) req] foreign_subscription [OF alone assms(4) req] assms(5)
    by (simp add: serve_def Auth_def subscription_not_found_def reply_def)
qed

text \<open>
  A chat with an account asks to check another chat's subscription, and the same id in a database
  without subscriptions.
\<close>

definition demo_two :: gw_db where
  "demo_two = demo_gw\<lparr>users := users demo_gw @ [\<lparr>us_id = ''w'', us_chat_id = 8\<rparr>]\<rparr>"

theorem foreign_subscriptions_hidden_witness:
  "\<exists>r. serve demo ''tok'' demo_henv ''tok'' (PostCheck ''s'' (Some \<lparr>cb_ChatID = 8\<rparr>)) demo_two = (demo_two, r) \<and>
    serve demo ''tok'' demo_henv ''tok'' (PostCheck ''s'' (Some \<lparr>cb_ChatID = 8\<rparr>)) (demo_two\<lparr>subscriptions := []\<rparr>)
      = (demo_two\<lparr>subscriptions := []\<rparr>, r) \<and> rs_status r = 404"
proof -
  have "not_owner demo ''s'' 8 demo_two" "not_owner demo ''s'' 8 (demo_two\<lparr>subscriptions := []\<rparr>)"
    by (auto simp: not_owner_def demo_two_def demo_gw_def demo_sub_def)
  from foreign_subscriptions_hidden [of demo_henv "''s''" 8 "PostCheck ''s'' (Some \<lparr>cb_ChatID = 8\<rparr>)" demo demo_two
      "demo_two\<lparr>subscriptions := []\<rparr>" "''tok''", OF _ _ this]
  show ?thesis by (auto simp: has_account_def demo_genv_def demo_uuid_def)
qed

text \<open>
  What probing does tell is whether a chat has an account: \<open>userIDOr404\<close> runs before the action of a
  PATCH and the id are looked at, so a request that is malformed there is answered 400 or 500 for a
  chat with an account and 404 for one without.
\<close>

lemma probing_tells_accounts:
  assumes "alone h" and "\<forall>k j. \<not> ge_flt (he_call h k) j" and "c \<noteq> 0" and "not_owner S i c db"
  shows "rs_status (snd (Register S h (PatchSubscription i (Some \<lparr>pat_ChatID = c, pat_Action = ''?'', pat_MinPrice = None,
      pat_MaxPrice = None\<rparr>)) db)) = (if has_account c db then 400 else 404)"
    and "pg_uuid S i = None \<Longrightarrow> rs_status (snd (Register S h (PostCheck i (Some \<lparr>cb_ChatID = c\<rparr>)) db))
      = (if has_account c db then 500 else 404)"
  using assms(2,3)
  by (subst foreign_subscription [OF assms(1,4)];
      simp add: after_account_def unowned_def reply_def subscription_not_found_def internal_error_def)+

section \<open>The bound on lookups\<close>

definition pending :: "gw_db \<Rightarrow> nat" where
  "pending db = count_where (\<lambda>r. lk_status r = LookupPending) (lookup_requests db)"

lemma mutate_lookups: "lookup_requests (fst (mutateSubscription S e seen i u op db)) = lookup_requests db"
proof (cases "snd (mutateSubscription S e seen i u op db)")
  case (Inl err)
  then have "mutateSubscription S e seen i u op db = (fst (mutateSubscription S e seen i u op db), Inl err)"
    by (simp add: prod_eq_iff)
  from mutate_Inl [OF this] show ?thesis by simp
next
  case (Inr x)
  then have "mutateSubscription S e seen i u op db = (fst (mutateSubscription S e seen i u op db), Inr x)"
    by (simp add: prod_eq_iff)
  then show ?thesis by (rule mutate_Inr) (auto elim!: bump_Some simp: set_version_def)
qed

lemma create_lookups:
  assumes "CreateSubscription S e u p mn mx db = (db', r)"
  shows "lookup_requests db' = lookup_requests db"
proof (cases r)
  case (Inl err)
  with assms have "CreateSubscription S e u p mn mx db = (db', Inl err)" by simp
  from CreateSubscription_Inl [OF this] show ?thesis by simp
next
  case (Inr x)
  with assms have "CreateSubscription S e u p mn mx db = (db', Inr x)" by simp
  then show ?thesis
    by (rule CreateSubscription_Inr) (auto elim!: bump_Some simp: set_version_def split: if_splits)
qed

lemma other_lookups:
  "lookup_requests (fst (UpsertUser e c db)) = lookup_requests db"
  "lookup_requests (fst (EnsureProduct e i n u p db)) = lookup_requests db"
  "lookup_requests (fst (QueueForce S e raw uid c db)) = lookup_requests db"
  by (auto simp: UpsertUser_def EnsureProduct_def QueueForce_def Let_def split: option.splits)

lemma CreateLookup_pending: "pending (fst (CreateLookup e i url db)) \<le> Suc (pending db)"
  by (auto simp: CreateLookup_def pending_def count_where_def Let_def split: option.splits)

lemma lookups_pending: "lookup_requests db' = lookup_requests db \<Longrightarrow> pending db' = pending db"
  by (simp add: pending_def)

lemma postLookup_pending:
  assumes "alone h"
  shows "pending (fst (postLookup S h b db)) \<le> max 25 (pending db)"
proof -
  have "fst (postLookup S h b db) = db \<or>
      pending db < 25 \<and> (\<exists>e i u. fst (postLookup S h b db) = fst (CreateLookup e i u db))"
    by (auto simp: postLookup_def PendingLookupCount_def pending_def [symmetric] maxPendingLookups_def Let_def
        alone_others [OF assms] split: option.splits sum.splits prod.splits) (metis fst_conv not_le)+
  then show ?thesis using CreateLookup_pending [of _ _ _ db] by (metis Suc_leI le_trans max.cobounded1 max.cobounded2)
qed

lemma postSubscription_lookups:
  assumes "alone h"
  shows "lookup_requests (fst (postSubscription S h b db)) = lookup_requests db"
proof (cases "\<exists>req l. b = Some req \<and> psr_ChatID req \<noteq> 0 \<and> psr_LookupID req \<noteq> [] \<and>
    \<not> bad_range (psr_MinPrice req) (psr_MaxPrice req) \<and>
    GetLookup S (he_call h 0) (psr_LookupID req) db = Inr l \<and> lr_Status l = LookupDone")
  case False
  then have "fst (postSubscription S h b db) = db"
    by (auto simp: postSubscription_def Let_def alone_others [OF assms] split: option.splits sum.splits)
  then show ?thesis by simp
next
  case True
  then obtain req l where req: "b = Some req" "psr_ChatID req \<noteq> 0" "psr_LookupID req \<noteq> []"
      "\<not> bad_range (psr_MinPrice req) (psr_MaxPrice req)"
    and l: "GetLookup S (he_call h 0) (psr_LookupID req) db = Inr l" "lr_Status l = LookupDone" by blast
  define plat where "plat = (case Detect (lr_URL l) of Inl _ \<Rightarrow> [] | Inr p \<Rightarrow> p)"
  obtain db1 u where u: "UpsertUser (he_call h 1) (psr_ChatID req) db = (db1, u)" by fastforce
  obtain db2 p where p: "EnsureProduct (he_call h 2) (he_uuid h 0) (lr_Name l) (lr_URL l) plat db1 = (db2, p)" by fastforce
  have 1: "lookup_requests db1 = lookup_requests db" using other_lookups(1) u by (metis fst_conv)
  have 2: "lookup_requests db2 = lookup_requests db" using other_lookups(2) p 1 by (metis fst_conv)
  have 3: "lookup_requests (fst (CreateSubscription S e uid pid mn mx db2)) = lookup_requests db" for e uid pid mn mx
    using create_lookups [of S e uid pid mn mx db2] 2 by (metis prod.collapse)
  have "fst (postSubscription S h b db) \<in> {db1, db2} \<or>
      (\<exists>uid pid. fst (postSubscription S h b db) =
         fst (CreateSubscription S (he_call h 3) uid pid (psr_MinPrice req) (psr_MaxPrice req) db2))"
    using req l u p
    by (cases u; cases p)
      (auto simp: postSubscription_def Let_def alone_others [OF assms] plat_def [symmetric]
        split: sum.splits prod.splits, (metis fst_conv)+)
  then show ?thesis using 1 2 3 by auto
qed

lemma other_requests_lookups:
  assumes "alone h"
  shows "lookup_requests (fst (getLookup S h i db)) = lookup_requests db"
    and "lookup_requests (fst (listSubscriptions S h q db)) = lookup_requests db"
    and "lookup_requests (fst (patchSubscription S h i p db)) = lookup_requests db"
    and "lookup_requests (fst (deleteSubscription S h i b db)) = lookup_requests db"
    and "lookup_requests (fst (getHistory S h i q db)) = lookup_requests db"
    and "lookup_requests (fst (postCheck S h i b db)) = lookup_requests db"
  by (auto simp: getLookup_def listSubscriptions_def patchSubscription_def deleteSubscription_def getHistory_def
      postCheck_def Let_def alone_others [OF assms] subscription_calls mutate_lookups other_lookups
      split: option.splits sum.splits)

lemma Register_pending:
  assumes "alone h"
  shows "pending (fst (Register S h req db)) \<le> max 25 (pending db)"
  using postLookup_pending [OF assms] lookups_pending [OF postSubscription_lookups [OF assms]]
    other_requests_lookups [OF assms, THEN lookups_pending]
  by (cases req) simp_all

text \<open>Requests served one after another.\<close>

fun serve_all :: "services \<Rightarrow> string \<Rightarrow> (henv \<times> string \<times> request) list \<Rightarrow> gw_db \<Rightarrow> gw_db" where
  "serve_all S token [] db = db"
| "serve_all S token ((h, got, req) # rs) db = serve_all S token rs (fst (serve S token h got req db))"

text \<open>
  C25: the lookup queue is bounded: requests handled one after another never bring the number
  of pending lookups above 25, whatever they are and whatever fails.
\<close>

theorem pending_lookups_bounded:
  assumes "\<forall>(h, got, req) \<in> set rs. \<forall>k. he_other h k = []"
    and "count_where (\<lambda>r. lk_status r = LookupPending) (lookup_requests db) \<le> 25"
  shows "count_where (\<lambda>r. lk_status r = LookupPending) (lookup_requests (serve_all S token rs db)) \<le> 25"
  using assms
proof (induction rs arbitrary: db)
  case (Cons x rs)
  obtain h got req where x: "x = (h, got, req)" using prod_cases3 by blast
  have "pending (fst (serve S token h got req db)) \<le> max 25 (pending db)"
    using Register_pending [of h S req db] Cons.prems(1) x by (simp add: serve_def Auth_def alone_def)
  then have "count_where (\<lambda>r. lk_status r = LookupPending) (lookup_requests (fst (serve S token h got req db))) \<le> 25"
    using Cons.prems(2) by (simp add: pending_def)
  with Cons.IH [OF _ this] Cons.prems(1) x show ?case by simp
qed simp

theorem pending_lookups_bounded_witness:
  "count_where (\<lambda>r. lk_status r = LookupPending) (lookup_requests (serve_all demo ''tok''
     [(demo_henv, ''tok'', PostLookup (Some \<lparr>plr_URL = canonical_url ''42''\<rparr>))] demo_gw)) \<le> 25"
  by (rule pending_lookups_bounded) (simp_all add: demo_gw_def count_where_def)


section \<open>Subscribing\<close>

lemma UpsertUser_Inr:
  assumes "UpsertUser e c db = (db', Inr u)"
  shows "(\<exists>x \<in> set (users db'). us_id x = u \<and> us_chat_id x = c)"
    and "products db' = products db" "subscriptions db' = subscriptions db" "gateway_outbox db' = gateway_outbox db"
proof -
  show "products db' = products db" "subscriptions db' = subscriptions db" "gateway_outbox db' = gateway_outbox db"
    using assms by (auto simp: UpsertUser_def split: if_splits option.splits)
  show "\<exists>x \<in> set (users db'). us_id x = u \<and> us_chat_id x = c"
  proof (cases "find (\<lambda>u. us_chat_id u = c) (users db)")
    case None
    then show ?thesis using assms by (auto simp: UpsertUser_def split: if_splits)
  next
    case (Some x)
    from find_SomeD [OF Some] show ?thesis using assms Some by (auto simp: UpsertUser_def split: if_splits)
  qed
qed

lemma EnsureProduct_Inr:
  assumes "EnsureProduct e i name url plat db = (db', Inr pid)"
  shows "(\<exists>x \<in> set (products db'). pd_id x = pid \<and> pd_url x = url)"
    and "users db' = users db" "subscriptions db' = subscriptions db" "gateway_outbox db' = gateway_outbox db"
proof -
  show "users db' = users db" "subscriptions db' = subscriptions db" "gateway_outbox db' = gateway_outbox db"
    using assms by (auto simp: EnsureProduct_def split: if_splits option.splits)
  show "\<exists>x \<in> set (products db'). pd_id x = pid \<and> pd_url x = url"
  proof (cases "find (\<lambda>p. pd_url p = url) (products db)")
    case None
    then show ?thesis using assms by (auto simp: EnsureProduct_def split: if_splits)
  next
    case (Some x)
    from find_SomeD [OF Some] have x: "x \<in> set (products db)" "pd_url x = url" by simp_all
    then have "x\<lparr>pd_name := name\<rparr> \<in> set (update_where (\<lambda>x. pd_url x = url) (\<lambda>x. x\<lparr>pd_name := name\<rparr>) (products db))"
      unfolding set_update_where by (intro image_eqI [of _ _ x]) simp_all
    moreover have "products db' = update_where (\<lambda>x. pd_url x = url) (\<lambda>x. x\<lparr>pd_name := name\<rparr>) (products db)" "pid = pd_id x"
      using assms Some by (auto simp: EnsureProduct_def split: if_splits)
    ultimately show ?thesis using x by (intro bexI [of _ "x\<lparr>pd_name := name\<rparr>"]) simp_all
  qed
qed

lemma create_keeps:
  assumes "CreateSubscription S e u p mn mx db = (db', Inr i)" and "x \<in> set (products db)"
  shows "users db' = users db" and "\<exists>y \<in> set (products db'). pd_id y = pd_id x \<and> pd_url y = pd_url x"
proof -
  have put: "\<exists>y \<in> set (products (set_version q v d)). pd_id y = pd_id x \<and> pd_url y = pd_url x"
    if "products d = products db" for q v d
    using assms(2) that
    by (intro bexI [of _ "if pd_id x = q then x\<lparr>pd_monitor_version := v\<rparr> else x"])
      (auto simp: set_version_def set_update_where)
  from assms(1) show "users db' = users db"
    by (rule CreateSubscription_Inr) (auto elim!: bump_Some simp: set_version_def split: if_splits)
  from assms(1) show "\<exists>y \<in> set (products db'). pd_id y = pd_id x \<and> pd_url y = pd_url x"
    by (rule CreateSubscription_Inr) (use put assms(2) in \<open>auto elim!: bump_Some split: if_splits\<close>)
qed

text \<open>What a successful \<open>POST /subscriptions\<close> leaves behind.\<close>

definition subscribed :: "services \<Rightarrow> postSubscriptionRequest \<Rightarrow> uuid \<Rightarrow> uuid \<Rightarrow> gw_db \<Rightarrow> gw_db \<Rightarrow> bool" where
  "subscribed S req sub pid db db' \<longleftrightarrow>
     (\<exists>l \<in> set (lookup_requests db). pg_uuid S (psr_LookupID req) = Some (lk_id l) \<and> lk_status l = LookupDone \<and>
        (\<exists>p \<in> set (products db'). pd_id p = pid \<and> pd_url p = lk_url l)) \<and>
     (\<exists>u \<in> set (users db'). us_chat_id u = psr_ChatID req \<and>
        (\<exists>s. filter (\<lambda>s. sb_user_id s = us_id u \<and> sb_product_id s = pid) (subscriptions db') = [s] \<and> sb_id s = sub \<and>
           sb_active s \<and> \<not> sb_paused s \<and> sb_min_price s = numcol S (psr_MinPrice req) \<and>
           sb_max_price s = numcol S (psr_MaxPrice req) \<and> sb_min_price s \<noteq> None \<and> sb_max_price s \<noteq> None))"

lemma postSubscription_effect:
  assumes wf: "gw_wf n db" and n: "0 \<le> n" "n < 2 ^ 63 - 1" and "alone h"
    and res: "postSubscription S h (Some req) db = (db', r)"
  shows "if rs_status r = 200
    then psr_ChatID req \<noteq> 0 \<and> \<not> bad_range (psr_MinPrice req) (psr_MaxPrice req) \<and>
      (\<exists>sub pid. rs_body r = CreatedBody sub pid \<and> subscribed S req sub pid db db')
    else subscriptions db' = subscriptions db \<and> gateway_outbox db' = gateway_outbox db"
proof (cases "\<exists>l. psr_ChatID req \<noteq> 0 \<and> psr_LookupID req \<noteq> [] \<and> \<not> bad_range (psr_MinPrice req) (psr_MaxPrice req) \<and>
    GetLookup S (he_call h 0) (psr_LookupID req) db = Inr l \<and> lr_Status l = LookupDone")
  case False
  then have "db' = db \<and> rs_status r \<noteq> 200"
    using res by (auto simp: postSubscription_def Let_def alone_others [OF assms(4)] reply_def internal_error_def
        split: sum.splits if_splits)
  then show ?thesis by simp
next
  case True
  then obtain l where req: "psr_ChatID req \<noteq> 0" "psr_LookupID req \<noteq> []"
      "\<not> bad_range (psr_MinPrice req) (psr_MaxPrice req)"
    and l: "GetLookup S (he_call h 0) (psr_LookupID req) db = Inr l" "lr_Status l = LookupDone" by blast
  have canon: "canonical (lr_URL l)" by (rule GetLookup_canonical [OF wf l(1)])
  have plat: "Detect (lr_URL l) = Inr ''wb''" by (rule Detect_canonical [OF canon])
  obtain db1 u where u: "UpsertUser (he_call h 1) (psr_ChatID req) db = (db1, u)" by fastforce
  obtain db2 p where p: "EnsureProduct (he_call h 2) (he_uuid h 0) (lr_Name l) (lr_URL l) ''wb'' db1 = (db2, p)" by fastforce
  note unfold = postSubscription_def Let_def alone_others [OF assms(4)] reply_def internal_error_def
  have same1: "subscriptions db1 = subscriptions db \<and> gateway_outbox db1 = gateway_outbox db"
    using u by (auto simp: UpsertUser_def split: if_splits option.splits)
  have same2: "subscriptions db2 = subscriptions db1 \<and> gateway_outbox db2 = gateway_outbox db1"
    using p by (auto simp: EnsureProduct_def split: if_splits option.splits)
  show ?thesis
  proof (cases u)
    case (Inl err)
    with res req l u same1 show ?thesis by (auto simp: unfold)
  next
    case uid: (Inr uid)
    show ?thesis
    proof (cases p)
      case (Inl err)
      with res req l u uid p plat same1 same2 show ?thesis by (auto simp: unfold)
    next
      case pid: (Inr pid)
      obtain db3 s where s: "CreateSubscription S (he_call h 3) uid pid (psr_MinPrice req) (psr_MaxPrice req) db2 = (db3, s)"
        by fastforce
      have wf2: "gw_wf n db2"
        using EnsureProduct_wf [OF UpsertUser_wf [OF wf, of "he_call h 1" "psr_ChatID req"] canon _ n(1),
            of "''wb''" "he_call h 2" "he_uuid h 0" "lr_Name l"] u p by simp
      note eff = CreateSubscription_effect [OF wf2 n s]
      show ?thesis
      proof (cases s)
        case (Inl err)
        with res req l u uid p pid plat s eff same1 same2 show ?thesis by (auto simp: unfold)
      next
        case (Inr sub)
        have r: "db' = db3" "r = \<lparr>rs_status = 200, rs_body = CreatedBody sub pid\<rparr>"
          using res req l u uid p pid plat s Inr by (auto simp: unfold)
        obtain x where x: "x \<in> set (products db2)" "pd_id x = pid" "pd_url x = lr_URL l"
          using EnsureProduct_Inr(1) p pid by blast
        obtain w where w: "w \<in> set (users db1)" "us_id w = uid" "us_chat_id w = psr_ChatID req"
          using UpsertUser_Inr(1) u uid by blast
        note keeps = create_keeps [OF s [unfolded Inr] x(1)]
        have w': "w \<in> set (users db3)" using w(1) keeps(1) EnsureProduct_Inr(2) [OF p [unfolded pid]] by simp
        obtain row where row: "row \<in> set (lookup_requests db)" "pg_uuid S (psr_LookupID req) = Some (lk_id row)"
          "lr_URL l = lk_url row" "lk_status row = LookupDone"
          using GetLookup_Inr [OF l(1)] l(2) by metis
        have "subscribed S req sub pid db db3"
          unfolding subscribed_def
          using row keeps(2) x w w' eff [unfolded Inr] by (intro conjI bexI [of _ row] bexI [of _ w]) auto
        then show ?thesis using r req by simp
      qed
    qed
  qed
qed


text \<open>
  C22: subscribing over the API: \<open>POST /subscriptions\<close>, served alone, answers 200 only for sensible prices
  and a completed lookup, and then the chat has a user, the lookup's URL a product, and the
  two exactly one subscription, the one returned, which is running with the stored
  thresholds. With any other answer no subscription and no announcement changed.
\<close>

theorem subscribe_spec:
  assumes wf: "gw_wf n db" and n: "0 \<le> n" "n < 2 ^ 63 - 1" and alone: "\<forall>k. he_other h k = []"
    and res: "serve S token h token (PostSubscription (Some req)) db = (db', r)"
  shows "if rs_status r = 200
    then psr_ChatID req \<noteq> 0 \<and> \<not> f_lt (psr_MinPrice req) f_zero \<and> \<not> f_le (psr_MaxPrice req) (psr_MinPrice req) \<and>
      (\<exists>sub pid. rs_body r = CreatedBody sub pid \<and>
        (\<exists>l \<in> set (lookup_requests db). pg_uuid S (psr_LookupID req) = Some (lk_id l) \<and> lk_status l = LookupDone \<and>
          (\<exists>p \<in> set (products db'). pd_id p = pid \<and> pd_url p = lk_url l)) \<and>
        (\<exists>u \<in> set (users db'). us_chat_id u = psr_ChatID req \<and>
          (\<exists>s. filter (\<lambda>s. sb_user_id s = us_id u \<and> sb_product_id s = pid) (subscriptions db') = [s] \<and> sb_id s = sub \<and>
             sb_active s \<and> \<not> sb_paused s \<and> sb_min_price s = numcol S (psr_MinPrice req) \<and>
             sb_max_price s = numcol S (psr_MaxPrice req) \<and> sb_min_price s \<noteq> None \<and> sb_max_price s \<noteq> None)))
    else subscriptions db' = subscriptions db \<and> gateway_outbox db' = gateway_outbox db"
proof -
  have "postSubscription S h (Some req) db = (db', r)" using res by (simp add: serve_def Auth_def)
  moreover have "alone h" using alone by (simp add: alone_def)
  ultimately show ?thesis using postSubscription_effect [OF wf n]
    unfolding bad_range_def subscribed_def de_Morgan_disj by (simp only: conj_assoc)
qed

definition demo_done :: lookup_row where
  "demo_done = \<lparr>lk_id = ''l'', lk_url = canonical_url ''42'', lk_status = LookupDone, lk_name = Some ''Tea'',
     lk_price = Some (Fin 90), lk_error = None, lk_created_at = 1, lk_expires_at = 99\<rparr>"

definition demo_req :: postSubscriptionRequest where
  "demo_req = \<lparr>psr_ChatID = 7, psr_LookupID = ''l'', psr_MinPrice = Fin 100, psr_MaxPrice = Fin 300\<rparr>"

lemma demo_done_wf: "gw_wf 1 (demo_gw\<lparr>lookup_requests := [demo_done]\<rparr>)"
  using demo_gw_wf canonical_42 by (simp add: gw_wf_def lookup_wf_def demo_done_def)

lemma demo_subscribes:
  "\<exists>db'. serve demo ''tok'' demo_henv ''tok'' (PostSubscription (Some demo_req)) (demo_gw\<lparr>lookup_requests := [demo_done]\<rparr>)
      = (db', \<lparr>rs_status = 200, rs_body = CreatedBody ''s'' ''p''\<rparr>)"
proof -
  let ?db = "demo_gw\<lparr>lookup_requests := [demo_done]\<rparr>"
  have f: "ge_flt (demo_genv 9 s) k = False" for s k by (simp add: demo_genv_def)
  have q: "numcol demo (Fin 100) = Some (Fin 100)" "numcol demo (Fin 300) = Some (Fin 300)"
    by (simp_all add: Let_def floor_eq_iff)
  have v: "incr64 1 = 2" by (simp add: incr64_less)
  have plat: "Detect (canonical_url ''42'') = Inr ''wb''" by (rule Detect_canonical [OF canonical_42])
  have ensure: "EnsureProduct (demo_genv 9 s) i ''Tea'' (canonical_url ''42'') ''wb'' ?db = (?db, Inr ''p'')" for s i
    by (simp add: EnsureProduct_def f demo_gw_def demo_product_def update_where_def)
  have "\<exists>db'. CreateSubscription demo (demo_genv 9 (''e'' @ s)) ''u'' ''p'' (Fin 100) (Fin 300) ?db = (db', Inr ''s'')" for s
    using q v by (simp add: f CreateSubscription_def upsert_sub_def demo_gw_def demo_sub_def lockProduct_def demo_product_def
        reset_needed_def bump_def snapshot_def set_version_def gw_enqueue_def exists_where_def demo_event_def
        track_key_inj Let_def del: demo_numcol.simps) (simp add: demo_genv_def)
  then obtain db' where create: "CreateSubscription demo (demo_genv 9 (''e'' @ show_nat 3)) ''u'' ''p'' (Fin 100) (Fin 300) ?db = (db', Inr ''s'')"
    by blast
  have look: "GetLookup demo (demo_genv 9 s) ''l'' ?db = Inr \<lparr>lr_ID = ''l'', lr_URL = canonical_url ''42'', lr_Status = LookupDone,
      lr_Name = ''Tea'', lr_Price = Fin 90, lr_Error = []\<rparr>" for s
    by (simp add: GetLookup_def f demo_uuid_def demo_done_def)
  have user: "UpsertUser (demo_genv 9 s) 7 ?db = (?db, Inr ''u'')" for s
    by (simp add: UpsertUser_def f demo_gw_def)
  show ?thesis
    using create by (auto simp: serve_def Auth_def postSubscription_def demo_req_def bad_range_def Let_def look user plat ensure reply_def)
qed

theorem subscribe_spec_witness:
  "\<exists>db' r. serve demo ''tok'' demo_henv ''tok'' (PostSubscription (Some demo_req)) (demo_gw\<lparr>lookup_requests := [demo_done]\<rparr>)
      = (db', r) \<and> rs_status r = 200 \<and> (\<exists>s \<in> set (subscriptions db'). sb_active s \<and> sb_max_price s = Some (Fin 300))"
proof -
  obtain db' where res: "serve demo ''tok'' demo_henv ''tok'' (PostSubscription (Some demo_req)) (demo_gw\<lparr>lookup_requests := [demo_done]\<rparr>)
      = (db', \<lparr>rs_status = 200, rs_body = CreatedBody ''s'' ''p''\<rparr>)" using demo_subscribes by blast
  have q: "numcol demo (Fin 300) = Some (Fin 300)" by (simp add: Let_def floor_eq_iff)
  from subscribe_spec [OF demo_done_wf _ _ _ res] obtain u :: user and s :: sub_row where
    "filter (\<lambda>s. sb_user_id s = us_id u \<and> sb_product_id s = ''p'') (subscriptions db') = [s]" "sb_active s"
    "sb_max_price s = Some (Fin 300)"
    using q by (simp add: demo_req_def del: demo_numcol.simps) blast
  then have "s \<in> set (subscriptions db')" "sb_active s" "sb_max_price s = Some (Fin 300)"
    by (metis (no_types, lifting) filter_is_subset list.set_intros(1) subsetD)+
  with res show ?thesis by auto
qed

text \<open>
  C23: the life of a lookup: after \<open>POST /lookup\<close> answered 202 with an id, the outbox has one
  event more, the task to scrape the canonical URL for that id; \<open>GET /lookup/:id\<close> answers
  that it is pending; and once a successful result for the id was processed it answers with
  the scraped name, the stored price and the canonical URL.
\<close>

theorem lookup_lifecycle:
  assumes post: "serve S token h token (PostLookup (Some \<lparr>plr_URL = url\<rparr>)) db = (db1, \<lparr>rs_status = 202, rs_body = LookupBody i\<rparr>)"
    and h: "\<forall>k. he_other h k = []" and g: "\<forall>k. he_other g k = []" "\<not> ge_flt (he_call g 0) 0"
    and i: "pg_uuid S i = Some i" "uuid_parse S i \<noteq> None" "i \<noteq> []"
    and fresh: "''lookup:'' @ ge_uuid (he_call h 1) 0 \<notin> ob_event_key ` set (gateway_outbox db)"
    and m: "pr_LookupID m = i" "pr_ProductID m = []" "uuid_parse S (pr_TaskID m) \<noteq> None" "pg_uuid S (pr_TaskID m) = Some tid"
      "tid \<notin> set (processed_price_results db1)" "pr_Success m" "pr_Price m = Fin q" "0 \<le> q" "numcol S (Fin q) = Some q'"
    and e: "\<forall>k. \<not> ge_flt e k"
  shows "\<exists>u. NormalizeWB url = Inr u \<and>
     (\<exists>x. gateway_outbox db1 = gateway_outbox db @ [x] \<and> ob_queue x = QueueLookupTasks \<and>
        (\<exists>t. ob_payload x = JLookup t \<and> lt_LookupID t = i \<and> lt_URL t = u)) \<and>
     serve S token g token (GetLookupById i) db1 = (db1, \<lparr>rs_status = 202, rs_body = PendingBody\<rparr>) \<and>
     (\<exists>db2. ProcessPriceResult S e m db1 = (db2, Inr ()) \<and>
        serve S token g token (GetLookupById i) db2 = (db2, \<lparr>rs_status = 200, rs_body = DoneBody (pr_Name m) q' u\<rparr>))"
proof -
  have alone: "alone h" "alone g" using h g by (simp_all add: alone_def)
  have "Detect url \<noteq> Inl x" and pend: "\<exists>plat u. Detect url = Inr plat \<and> normalizeURL plat url = Inr u \<and>
      CreateLookup (he_call h 1) i u db = (db1, Inr ())" for x
    using post alone_others [OF alone(1), of S]
    by (auto simp: serve_def Auth_def postLookup_def Let_def reply_def internal_error_def
        split: if_splits sum.splits prod.splits)
  then obtain plat u where u: "Detect url = Inr plat" "normalizeURL plat url = Inr u"
    and create: "CreateLookup (he_call h 1) i u db = (db1, Inr ())" by blast
  have norm: "NormalizeWB url = Inr u" using u(2) by (simp add: normalizeURL_def split: if_splits)
  define row where "row = \<lparr>lk_id = i, lk_url = u, lk_status = LookupPending, lk_name = None, lk_price = None,
    lk_error = None, lk_created_at = ge_now (he_call h 1), lk_expires_at = ge_now (he_call h 1) + 10 * minute\<rparr>"
  have absent: "\<forall>r \<in> set (lookup_requests db). lk_id r \<noteq> i"
    and rows: "lookup_requests db1 = lookup_requests db @ [row]"
    and ob: "\<exists>x. gateway_outbox db1 = gateway_outbox db @ [x] \<and> ob_queue x = QueueLookupTasks \<and>
        (\<exists>t. ob_payload x = JLookup t \<and> lt_LookupID t = i \<and> lt_URL t = u)"
    using create fresh
    by (auto simp: CreateLookup_def Let_def row_def exists_where_iff gw_enqueue_cases new_outbox_row_def
        split: if_splits option.splits)
  have find1: "find (\<lambda>r. lk_id r = i) (lookup_requests db) = None"
    using absent by (simp add: find_None_iff_ball)
  have pending: "serve S token g token (GetLookupById i) db1 = (db1, \<lparr>rs_status = 202, rs_body = PendingBody\<rparr>)"
    using g(2) i rows find1
    by (simp add: serve_def Auth_def getLookup_def alone_others [OF alone(2)] GetLookup_def find_append row_def reply_def)
  let ?f = "\<lambda>r. r\<lparr>lk_status := LookupDone, lk_name := Some (pr_Name m), lk_price := Some q', lk_expires_at := ge_now e + hour\<rparr>"
  define db2 where "db2 = db1\<lparr>processed_price_results := processed_price_results db1 @ [tid],
      lookup_requests := update_where (\<lambda>r. lk_id r = i) ?f (lookup_requests db1)\<rparr>"
  have proc: "ProcessPriceResult S e m db1 = (db2, Inr ())"
    using m i e by (simp add: ProcessPriceResult_def bad_price_def process_lookup_def db2_def)
  have "find (\<lambda>r. lk_id r = i) (lookup_requests db2) = Some (?f row)"
    using find1 by (simp add: db2_def rows find_update_where find_append) (simp add: row_def)
  then have fin: "serve S token g token (GetLookupById i) db2 = (db2, \<lparr>rs_status = 200, rs_body = DoneBody (pr_Name m) q' u\<rparr>)"
    using g(2) i by (simp add: serve_def Auth_def getLookup_def alone_others [OF alone(2)] GetLookup_def row_def reply_def)
  show ?thesis using norm ob pending proc fin by blast
qed

theorem lookup_lifecycle_witness:
  "\<exists>db1 db2. fst (serve demo ''tok'' demo_henv ''tok'' (PostLookup (Some \<lparr>plr_URL = canonical_url ''42''\<rparr>)) demo_gw) = db1 \<and>
     serve demo ''tok'' demo_henv ''tok'' (GetLookupById (''h'' @ show_nat 0)) db2
       = (db2, \<lparr>rs_status = 200, rs_body = DoneBody ''Tea'' (Fin 90) (canonical_url ''42'')\<rparr>)"
proof -
  let ?m = "(demo_result 90)\<lparr>pr_LookupID := ''h'' @ show_nat 0, pr_ProductID := []\<rparr>"
  have f: "ge_flt (demo_genv 9 s) k = False" for s k by (simp add: demo_genv_def)
  have q: "numcol demo (Fin 90) = Some (Fin 90)" by (simp add: Let_def floor_eq_iff)
  have key: "''lookup:'' @ k \<noteq> track_key p v" for k p v
  proof
    assume "''lookup:'' @ k = track_key p v"
    then have "key_kind (''lookup:'' @ k) = key_kind (track_key p v)" by (rule arg_cong)
    then show False by (simp only: key_kinds) simp
  qed
  have plat: "Detect (canonical_url ''42'') = Inr ''wb''" by (rule Detect_canonical [OF canonical_42])
  have norm: "NormalizeWB (canonical_url ''42'') = Inr (canonical_url ''42'')" by (rule NormalizeWB_canonical [OF canonical_42])
  obtain db1 r where post: "serve demo ''tok'' demo_henv ''tok'' (PostLookup (Some \<lparr>plr_URL = canonical_url ''42''\<rparr>)) demo_gw = (db1, r)"
    by fastforce
  have "canonical_url ''42'' \<noteq> []" by (simp add: canonical_url_def)
  with post have r: "r = \<lparr>rs_status = 202, rs_body = LookupBody (''h'' @ show_nat 0)\<rparr> \<and> processed_price_results db1 = []"
    by (auto simp: serve_def Auth_def postLookup_def Let_def PendingLookupCount_def f demo_gw_def count_where_def
        maxPendingLookups_def plat norm normalizeURL_def CreateLookup_def exists_where_def gw_enqueue_def demo_event_def
        new_outbox_row_def key reply_def demo_genv_def split: if_splits)
  have fresh: "''lookup:'' @ ge_uuid (he_call demo_henv 1) 0 \<notin> ob_event_key ` set (gateway_outbox demo_gw)"
    using key by (simp add: demo_gw_def demo_event_def new_outbox_row_def)
  note life = lookup_lifecycle [where g = demo_henv and m = ?m and e = "demo_genv 9 ''z''" and tid = "''r''" and q = 90
      and q' = "Fin 90", OF post [unfolded conjunct1 [OF r]] _ _ _ _ _ _ fresh]
  have "pr_Success ?m" "pr_Price ?m = Fin 90" "pr_Name ?m = ''Tea''" "pr_TaskID ?m = ''r''" by (simp_all add: demo_result_def)
  with life norm r show ?thesis
    using q by (auto simp: f demo_uuid_def)
qed

end
