(* ===== verification/ExtractorLaws.thy ===== *)
theory ExtractorLaws
  imports Extractor HandlerLaws
begin

text \<open>
  The theorems of the extractor: prices are read back as they are displayed, only product
  pages give products, every acknowledged task has its result published, and the gateway
  accepts what is published.
\<close>

section \<open>Reading a page\<close>

text \<open>
  A displayed price is read back: a number printed with any grouping by spaces and
  no-break spaces, after a label without digits and before a currency sign, a line break or
  the end of the text, is read as that number; whatever follows (the old price) is ignored.
\<close>

theorem displayed_price_read_back:
  assumes "\<forall>c \<in> set label. \<not> is_digit c" and "grouped (show_nat n) body" and "is_digit (hd body)"
    and "stops_price rest" and "n \<le> 2 ^ 53"
  shows "parseWBPrice big (label @ body @ rest) = Fin (of_nat n)"
proof -
  have "body \<noteq> []" using grouped_empty [OF assms(2)] show_nat_nonempty [of n] by blast
  then have "parseWBPrice big (label @ body @ rest) = scan_price big [] (body @ rest)"
    using scan_skip [OF assms(1), of "body @ rest"] assms(3) by (simp add: parseWBPrice_def)
  also have "\<dots> = ParseDigits big (show_nat n)"
    using scan_grouped [OF assms(2,4), of "[]"] show_nat_nonempty [of n] by simp
  finally show ?thesis using assms(5) by (simp add: ParseDigits_def digits_val_show_nat)
qed

theorem displayed_price_read_back_witness:
  "parseWBPrice (\<lambda>_. PosInf) (''now: '' @ ''5 690'' @ ''R, was 7 000 R'') = Fin (of_nat 5690)"
proof -
  have "digit 5 = CHR ''5''" "digit 6 = CHR ''6''" "digit 9 = CHR ''9''" "digit 0 = CHR ''0''" by code_simp+
  then have "show_nat 5690 = ''5690''" by (simp add: show_nat.simps)
  moreover have "grouped ''5690'' ''5 690''" by (intro grouped_digit grouped_space grouped_Nil) (simp_all add: is_digit_def)
  ultimately have "grouped (show_nat 5690) ''5 690''" by simp
  moreover have "stops_price ''R, was 7 000 R''" by (simp add: stops_price_def is_digit_def nbsp_simps has_prefix_def)
  ultimately show ?thesis by (intro displayed_price_read_back) (simp_all add: is_digit_def)
qed

text \<open>
  The digits of the label count when it has any, and a number of the tail counts when only spaces
  stand before it.
\<close>

lemma discount_read_as_price: "parseWBPrice big ''-20% 5 690'' = Fin 20"
  by (simp add: parseWBPrice_def scan_price.simps is_digit_def has_prefix_def nbsp_simps ParseDigits_def digits_val_def digit_val_def)

lemma prices_run_together: "parseWBPrice big ''5 690 7 000'' = Fin 56907000"
  by (simp add: parseWBPrice_def scan_price.simps is_digit_def has_prefix_def nbsp_simps ParseDigits_def digits_val_def digit_val_def)

text \<open>What is known of \<open>ParseFloat\<close> beyond exact numbers: the result is positive.\<close>

definition big_ok :: "(nat \<Rightarrow> float64) \<Rightarrow> bool" where
  "big_ok big \<longleftrightarrow> (\<forall>v. f_lt f_zero (big v))"

lemma scan_price_nonneg: "big_ok big \<Longrightarrow> f_le f_zero (scan_price big acc s)"
  by (induction big acc s rule: scan_price.induct)
    (subst scan_price.simps, auto simp: ParseDigits_def big_ok_def f_le_def)

lemma FetchProduct_Inr:
  assumes "FetchProduct B c1 c2 url = Inr p"
  obtains ds js data where "wbProductIDRe url = Some ds" "br_run B (canonical_url ds) = BrowserDone js"
    "br_unmarshal B js = Inr data" "page_product B ds data = Inr p"
  using assms by (auto simp: FetchProduct_def fetchPage_def split: if_splits option.splits browser_run.splits sum.splits)

lemma page_product_Inr:
  assumes "page_product B ds data = Inr p"
  shows "contains (pg_Title data) ds \<or> contains (pg_Title data) txt_buy_for"
    and "mp_Price p = parseWBPrice (br_big B) (pg_Price data)" "\<not> f_eq (mp_Price p) f_zero"
    and "mp_Currency p = ''RUB''" "mp_Name p \<noteq> []"
proof -
  have "txt_wb_product \<noteq> []" by (simp add: txt_wb_product_def utf8_def)
  then show "contains (pg_Title data) ds \<or> contains (pg_Title data) txt_buy_for"
    "mp_Price p = parseWBPrice (br_big B) (pg_Price data)" "\<not> f_eq (mp_Price p) f_zero"
    "mp_Currency p = ''RUB''" "mp_Name p \<noteq> []"
    using assms by (auto simp: page_product_def Let_def split: if_splits)
qed

text \<open>
  Only product pages give products: a product is returned only when the canonical page
  of the number in the URL was loaded, its title names that number or offers the product for
  sale, and its price text has a positive price, which is the product's; the name is never
  empty and the currency is RUB.
\<close>

theorem products_from_product_pages:
  assumes "big_ok (br_big B)" and "FetchProduct B c1 c2 url = Inr p"
  shows "\<exists>ds js data. wbProductIDRe url = Some ds \<and> br_run B (canonical_url ds) = BrowserDone js \<and>
    br_unmarshal B js = Inr data \<and> (contains (pg_Title data) ds \<or> contains (pg_Title data) txt_buy_for) \<and>
    mp_Price p = parseWBPrice (br_big B) (pg_Price data) \<and> f_lt f_zero (mp_Price p) \<and>
    mp_Name p \<noteq> [] \<and> mp_Currency p = ''RUB''"
proof -
  obtain ds js data where d: "wbProductIDRe url = Some ds" "br_run B (canonical_url ds) = BrowserDone js"
    "br_unmarshal B js = Inr data" "page_product B ds data = Inr p" by (rule FetchProduct_Inr [OF assms(2)])
  note pp = page_product_Inr [OF d(4)]
  have "f_le f_zero (mp_Price p)"
    using scan_price_nonneg [OF assms(1)] pp(2) by (simp add: parseWBPrice_def)
  then have "f_lt f_zero (mp_Price p)" using pp(3) by (cases "mp_Price p") (auto simp: f_le_def)
  with d pp show ?thesis by blast
qed

definition demo_browser :: "string \<Rightarrow> browser" where
  "demo_browser price = \<lparr>br_run = BrowserDone,
     br_unmarshal = (\<lambda>js. Inr \<lparr>pg_Price = price, pg_Name = ''Tea'', pg_Title = ''Tea 42'', pg_URL = js\<rparr>),
     br_big = (\<lambda>_. PosInf), br_quote = (\<lambda>c. [c])\<rparr>"

lemma demo_fetch: "\<exists>p. FetchProduct (demo_browser ''90'') False False (canonical_url ''42'') = Inr p \<and> mp_Price p = Fin 90"
proof -
  have "wbProductIDRe (canonical_url ''42'') = Some ''42''" by (rule wbProductIDRe_canonical) (simp_all add: is_digit_def)
  moreover have "contains ''Tea 42'' ''42''" by (simp add: contains_def has_prefix_def)
  moreover have "scan_price big [] ''90'' = Fin 90" for big
    by (simp add: scan_price.simps is_digit_def ParseDigits_def digits_val_def digit_val_def)
  ultimately show ?thesis
    by (simp add: FetchProduct_def fetchPage_def demo_browser_def page_product_def Let_def parseWBPrice_def)
qed

theorem products_from_product_pages_witness:
  "\<exists>p. FetchProduct (demo_browser ''90'') False False (canonical_url ''42'') = Inr p \<and> mp_Name p \<noteq> []"
proof -
  obtain p where p: "FetchProduct (demo_browser ''90'') False False (canonical_url ''42'') = Inr p" using demo_fetch by blast
  have "big_ok (br_big (demo_browser ''90''))" by (simp add: big_ok_def demo_browser_def)
  from products_from_product_pages [OF this p] p show ?thesis by blast
qed


section \<open>Answering tasks\<close>

text \<open>What a consumer of tasks owes: an acknowledged task was answered, only malformed bodies are dropped.\<close>

locale task_queue =
  fixes handler :: "xenv \<Rightarrow> 'd option \<Rightarrow> (string \<times> PriceResult) option \<times> settle"
    and answer :: "xenv \<Rightarrow> 'd \<Rightarrow> PriceResult"
  assumes acked: "handler E d = (r, Ack) \<Longrightarrow> \<exists>task. d = Some task \<and> r = Some (QueuePriceResults, answer E task)"
    and published: "handler E d = (Some x, a) \<Longrightarrow> \<exists>task. d = Some task \<and> x = (QueuePriceResults, answer E task)"
    and dropped: "handler E d = (r, NackDrop) \<Longrightarrow> d = None"
begin

lemma queue_answers:
  assumes "queue_loop handler es = (rs, as, e)"
  shows "length as \<le> length es \<and>
    (\<forall>i < length as. \<exists>E d. es ! i = QDelivered False E d \<and>
       (as ! i = Ack \<longrightarrow> (\<exists>task. d = Some task \<and> (QueuePriceResults, answer E task) \<in> set rs)) \<and>
       (as ! i = NackDrop \<longrightarrow> d = None)) \<and>
    (\<forall>x \<in> set rs. \<exists>E task. QDelivered False E (Some task) \<in> set es \<and> x = (QueuePriceResults, answer E task))"
  using assms
proof (induction es arbitrary: rs as)
  case (Cons v es)
  show ?case
  proof (cases "\<exists>E d. v = QDelivered False E d")
    case False
    with Cons.prems show ?thesis by (cases v) (auto split: if_splits)
  next
    case True
    then obtain E d where v: "v = QDelivered False E d" by blast
    obtain r a where h: "handler E d = (r, a)" by fastforce
    obtain rs' as' where rest: "queue_loop handler es = (rs', as', e)"
      and eq: "rs = (case r of None \<Rightarrow> rs' | Some x \<Rightarrow> x # rs')" "as = a # as'"
      using Cons.prems v h by (auto split: prod.splits)
    note ih = Cons.IH [OF rest]
    have sub: "set rs' \<subseteq> set rs" using eq by (auto split: option.splits)
    have "\<exists>E d. (v # es) ! i = QDelivered False E d \<and>
        (as ! i = Ack \<longrightarrow> (\<exists>task. d = Some task \<and> (QueuePriceResults, answer E task) \<in> set rs)) \<and> (as ! i = NackDrop \<longrightarrow> d = None)"
      if i: "i < length as" for i
    proof (cases i)
      case 0
      then show ?thesis using v h eq acked [of E d r] dropped [of E d r] by (auto split: option.splits)
    next
      case (Suc k)
      with i eq have k: "k < length as'" by simp
      obtain E' d' where "es ! k = QDelivered False E' d'" "as' ! k = Ack \<longrightarrow> (\<exists>task. d' = Some task \<and> (QueuePriceResults, answer E' task) \<in> set rs')"
        "as' ! k = NackDrop \<longrightarrow> d' = None"
        using ih k by blast
      then show ?thesis using Suc eq sub by auto
    qed
    moreover have "\<exists>E task. QDelivered False E (Some task) \<in> set (v # es) \<and> x = (QueuePriceResults, answer E task)" if x: "x \<in> set rs" for x
    proof (cases "x \<in> set rs'")
      case True
      with ih obtain E' task where "QDelivered False E' (Some task) \<in> set es" "x = (QueuePriceResults, answer E' task)" by blast
      then show ?thesis by (intro exI [of _ E'] exI [of _ task]) simp
    next
      case False
      with x eq have "r = Some x" by (auto split: option.splits)
      then show ?thesis using published [of E d x a] h v by auto
    qed
    ultimately show ?thesis using ih eq by simp
  qed
qed simp

lemma run_answers:
  assumes "runQueue handler ok es = (rs, as, e)"
  shows "length as \<le> length es \<and>
    (\<forall>i < length as. \<exists>E d. es ! i = QDelivered False E d \<and>
       (as ! i = Ack \<longrightarrow> (\<exists>task. d = Some task \<and> (QueuePriceResults, answer E task) \<in> set rs)) \<and>
       (as ! i = NackDrop \<longrightarrow> d = None)) \<and>
    (\<forall>x \<in> set rs. \<exists>E task. QDelivered False E (Some task) \<in> set es \<and> x = (QueuePriceResults, answer E task))"
  using assms queue_answers by (auto simp: runQueue_def split: if_splits)

lemma run_queue: "\<forall>x \<in> set (fst (runQueue handler ok es)). fst x = QueuePriceResults"
  using run_answers by (cases "runQueue handler ok es") fastforce

end

definition lookup_answer :: "xenv \<Rightarrow> LookupTask \<Rightarrow> PriceResult" where
  "lookup_answer E task = lookup_result task (xe_now E) (fetch E (lt_Platform task) (lt_URL task))"

definition scraper_answer :: "xenv \<Rightarrow> ScraperTask \<Rightarrow> PriceResult" where
  "scraper_answer E task = scraper_result task (xe_now E) (fetch E (st_Platform task) (st_URL task))"

interpretation lookups: task_queue handleLookup lookup_answer
  by unfold_locales
    (auto simp: handleLookup_def publish_result_def lookup_answer_def Let_def split: if_splits option.splits)

interpretation scrapes: task_queue handleScraper scraper_answer
  by unfold_locales
    (auto simp: handleScraper_def publish_result_def scraper_answer_def Let_def split: if_splits option.splits)

text \<open>
  C27: every task is answered: in every run of the two consumers an acknowledged delivery is a
  task whose result was published to \<open>price.results\<close>, carrying its ids and what the page gave;
  every published result went to that queue and answers a delivered task; and only bodies that do not decode are dropped.
\<close>

theorem tasks_answered:
  assumes "runQueue handleLookup ok es = (rs, as, e)" and "runQueue handleScraper ok' es' = (rs', as', e')"
  shows "(\<forall>i < length as. \<exists>E d. es ! i = QDelivered False E d \<and>
       (as ! i = Ack \<longrightarrow> (\<exists>task. d = Some task \<and>
          (QueuePriceResults, lookup_result task (xe_now E) (fetch E (lt_Platform task) (lt_URL task))) \<in> set rs)) \<and>
       (as ! i = NackDrop \<longrightarrow> d = None)) \<and>
    (\<forall>x \<in> set rs. \<exists>E task. QDelivered False E (Some task) \<in> set es \<and>
       x = (QueuePriceResults, lookup_result task (xe_now E) (fetch E (lt_Platform task) (lt_URL task)))) \<and>
    (\<forall>i < length as'. \<exists>E d. es' ! i = QDelivered False E d \<and>
       (as' ! i = Ack \<longrightarrow> (\<exists>task. d = Some task \<and>
          (QueuePriceResults, scraper_result task (xe_now E) (fetch E (st_Platform task) (st_URL task))) \<in> set rs')) \<and>
       (as' ! i = NackDrop \<longrightarrow> d = None)) \<and>
    (\<forall>x \<in> set rs'. \<exists>E task. QDelivered False E (Some task) \<in> set es' \<and>
       x = (QueuePriceResults, scraper_result task (xe_now E) (fetch E (st_Platform task) (st_URL task))))"
  using lookups.run_answers [OF assms(1)] scrapes.run_answers [OF assms(2)]
  unfolding lookup_answer_def scraper_answer_def by (intro conjI) (elim conjE; assumption)+

definition demo_xenv :: xenv where
  "demo_xenv = \<lparr>xe_done = (\<lambda>_. False), xe_browser = demo_browser ''90'', xe_now = 5, xe_confirm = True\<rparr>"

definition demo_lookup :: LookupTask where
  "demo_lookup = \<lparr>lt_TaskID = ''r'', lt_LookupID = ''l'', lt_URL = canonical_url ''42'', lt_Platform = ''wb''\<rparr>"

lemma demo_handle: "\<exists>x. handleLookup demo_xenv (Some demo_lookup) = (Some (QueuePriceResults, x), Ack) \<and> pr_Price x = Fin 90 \<and> pr_Success x"
proof -
  obtain p where p: "FetchProduct (demo_browser ''90'') False False (canonical_url ''42'') = Inr p" "mp_Price p = Fin 90"
    using demo_fetch by blast
  then show ?thesis
    by (simp add: handleLookup_def demo_xenv_def demo_lookup_def fetch_def Let_def publish_result_def lookup_result_def)
qed

theorem tasks_answered_witness:
  "\<exists>rs. runQueue handleLookup True [QDelivered False demo_xenv (Some demo_lookup)] = (rs, [Ack], StillRunning) \<and>
     (QueuePriceResults, lookup_result demo_lookup 5 (fetch demo_xenv ''wb'' (canonical_url ''42''))) \<in> set rs"
proof -
  obtain rs as e where run: "runQueue handleLookup True [QDelivered False demo_xenv (Some demo_lookup)] = (rs, as, e)"
    using prod_cases3 by blast
  moreover have "as = [Ack]" "e = StillRunning" using run demo_handle by (auto simp: runQueue_def)
  moreover have "runQueue handleScraper True [] = ([], [], StillRunning)" by (simp add: runQueue_def)
  note tasks_answered [OF run this]
  ultimately show ?thesis by (auto simp: demo_xenv_def demo_lookup_def)
qed

section \<open>Extractor and gateway\<close>

lemma fetch_price:
  assumes "big_ok (br_big (xe_browser E))" and "fetch E plat url = Inr p"
  shows "f_lt f_zero (mp_Price p)"
proof -
  have f: "FetchProduct (xe_browser E) (xe_done E 1) (xe_done E 2) url = Inr p"
    using assms(2) by (simp add: fetch_def split: if_splits)
  obtain ds js data where d: "page_product (xe_browser E) ds data = Inr p"
    by (rule FetchProduct_Inr [OF f])
  note pp = page_product_Inr [OF d]
  have "f_le f_zero (mp_Price p)"
    using scan_price_nonneg [OF assms(1)] pp(2) by (simp add: parseWBPrice_def)
  then show ?thesis using pp(3) by (cases "mp_Price p") (auto simp: f_le_def)
qed

lemma finite_positive: "f_lt f_zero x \<Longrightarrow> f_finite x \<Longrightarrow> \<not> f_isNaN x \<and> \<not> f_isInf x \<and> \<not> f_lt x f_zero"
  by (cases x) auto

lemma published_price_ok:
  assumes big: "big_ok (br_big (xe_browser E))"
    and "publish_result E q r = (Some (q', x), a)" and "r = lookup_answer E t \<or> r = scraper_answer E t'"
  shows "x = r \<and> \<not> bad_price r"
proof -
  have fin: "x = r" "f_finite (pr_Price r)" using assms(2) by (auto simp: publish_result_def split: if_splits)
  have pos: "f_lt f_zero (pr_Price r)" if "pr_Success r"
    using assms(3) that fetch_price [OF big]
    by (auto simp: lookup_answer_def scraper_answer_def lookup_result_def scraper_result_def Let_def split: sum.splits)
  then show ?thesis using fin finite_positive by (auto simp: bad_price_def)
qed

lemma handler_publishes:
  "handleLookup E (Some t) = (Some x, a) \<Longrightarrow> publish_result E QueuePriceResults (lookup_answer E t) = (Some x, a)"
  "handleScraper E (Some t') = (Some x, a) \<Longrightarrow> publish_result E QueuePriceResults (scraper_answer E t') = (Some x, a)"
  by (auto simp: handleLookup_def handleScraper_def lookup_answer_def scraper_answer_def Let_def split: if_splits)

text \<open>
  C26: the gateway accepts what the extractor publishes: the result of a lookup task, and the
  result of a scraper task for a stored product (and, when forced, for the product of its
  force request), is never rejected as malformed, so it is never dropped unprocessed.
\<close>

theorem gateway_accepts_results:
  assumes "big_ok (br_big (xe_browser E))" and "xe_now E \<noteq> 0"
    and task: "handleLookup E (Some t) = (Some (q, x), a) \<and> lt_LookupID t \<noteq> [] \<and>
         uuid_parse S (lt_TaskID t) \<noteq> None \<and> uuid_parse S (lt_LookupID t) \<noteq> None
       \<or> handleScraper E (Some t') = (Some (q, x), a) \<and> uuid_parse S (st_TaskID t') \<noteq> None \<and>
         uuid_parse S (st_ProductID t') \<noteq> None \<and>
         (\<exists>p \<in> set (products db). pg_uuid S (st_ProductID t') = Some (pd_id p)) \<and>
         (\<forall>f \<in> set (force_requests db). pg_uuid S (st_TaskID t') = Some (fr_task_id f) \<longrightarrow> fr_product_id f = st_ProductID t')"
  shows "snd (ProcessPriceResult S e x db) \<noteq> Inl ErrInvalidResult"
  using task
proof
  assume l: "handleLookup E (Some t) = (Some (q, x), a) \<and> lt_LookupID t \<noteq> [] \<and>
    uuid_parse S (lt_TaskID t) \<noteq> None \<and> uuid_parse S (lt_LookupID t) \<noteq> None"
  then have x: "x = lookup_answer E t" "\<not> bad_price x"
    using published_price_ok [OF assms(1) handler_publishes(1)] by blast+
  moreover have "pr_TaskID x = lt_TaskID t" "pr_LookupID x = lt_LookupID t" "pr_ProductID x = []"
    unfolding x(1) by (simp_all add: lookup_answer_def lookup_result_def Let_def split: sum.splits)
  ultimately show ?thesis using l
    by (auto simp: ProcessPriceResult_def process_lookup_def Let_def split: option.splits)
next
  assume s: "handleScraper E (Some t') = (Some (q, x), a) \<and> uuid_parse S (st_TaskID t') \<noteq> None \<and>
    uuid_parse S (st_ProductID t') \<noteq> None \<and>
    (\<exists>p \<in> set (products db). pg_uuid S (st_ProductID t') = Some (pd_id p)) \<and>
    (\<forall>f \<in> set (force_requests db). pg_uuid S (st_TaskID t') = Some (fr_task_id f) \<longrightarrow> fr_product_id f = st_ProductID t')"
  then have x: "x = scraper_answer E t'" "\<not> bad_price x"
    using published_price_ok [OF assms(1) handler_publishes(2)] by blast+
  have ids: "pr_TaskID x = st_TaskID t'" "pr_LookupID x = []" "pr_ProductID x = st_ProductID t'" "pr_ScrapedAt x \<noteq> 0"
    unfolding x(1) using assms(2) by (simp_all add: scraper_answer_def scraper_result_def Let_def split: sum.splits)
  obtain p where p: "p \<in> set (products db)" "pg_uuid S (st_ProductID t') = Some (pd_id p)" using s by blast
  then obtain p' where p': "find (\<lambda>q. pd_id q = pd_id p) (products db) = Some p'"
    by (cases "find (\<lambda>q. pd_id q = pd_id p) (products db)") (auto simp: find_None_iff_ball)
  have force: "fr_product_id f = st_ProductID t'"
    if "find (\<lambda>f. fr_task_id f = tid) (force_requests db) = Some f" "pg_uuid S (st_TaskID t') = Some tid" for f tid
    using find_SomeD [OF that(1)] that(2) s by auto
  show ?thesis using s x ids p(2) p' force
    by (auto simp: ProcessPriceResult_def process_product_def Let_def split: option.splits)
qed

theorem gateway_accepts_results_witness:
  "\<exists>x. handleLookup demo_xenv (Some demo_lookup) = (Some (QueuePriceResults, x), Ack) \<and>
     snd (ProcessPriceResult demo (demo_genv 9 ''g'') x demo_gw) \<noteq> Inl ErrInvalidResult"
proof -
  obtain x where x: "handleLookup demo_xenv (Some demo_lookup) = (Some (QueuePriceResults, x), Ack)" using demo_handle by blast
  have "big_ok (br_big (xe_browser demo_xenv))" "xe_now demo_xenv \<noteq> 0" by (simp_all add: demo_xenv_def big_ok_def demo_browser_def)
  from gateway_accepts_results [OF this, of demo_lookup QueuePriceResults x Ack demo] x show ?thesis
    by (auto simp: demo_lookup_def demo_uuid_def)
qed

end
