(* ===== verification/StartupLaws.thy ===== *)
theory StartupLaws
  imports Startup GatewayResults SchedulerLaws NotifierLaws ExtractorLaws
begin

text \<open>
  The proofs on the start of the services: the interval of the scheduler's ticker, that whatever a
  service publishes goes to a queue it declared, and that polling hands the bot every update of
  Telegram once and in order.
\<close>

section \<open>The scheduler's interval\<close>

lemma check_interval_positive:
  assumes "\<And>n. parse_int64 (env ''CHECK_INTERVAL_MINUTES'') = Some n \<Longrightarrow> n * minute < 2 ^ 63"
  shows "0 < check_interval env"
proof (cases "parse_int64 (env ''CHECK_INTERVAL_MINUTES'')")
  case None
  then show ?thesis by (simp add: check_interval_def Let_def duration_defs)
next
  case (Some n)
  have "wrap64 (n * minute) = n * minute" if "0 < n"
    using assms [OF Some] that by (intro wrap64_id) (simp add: int64_def duration_defs)
  with Some show ?thesis by (auto simp: check_interval_def Let_def duration_defs)
qed

text \<open>Without the bound it may be negative, which \<open>time.NewTicker\<close> does not take.\<close>

lemma check_interval_overflow:
  assumes "env ''CHECK_INTERVAL_MINUTES'' = ''200000000''"
  shows "check_interval env = - 6446744073709551616"
proof -
  have "digits_val ''200000000'' = 200000000" by (simp add: digits_val_def digit_val_def)
  then have "parse_int64 ''200000000'' = Some 200000000" by (simp add: parse_int64_def Let_def is_digit_def int64_def)
  then show ?thesis using assms by (simp add: check_interval_def Let_def duration_defs wrap64_def)
qed

section \<open>The queues\<close>

lemma declare_queues_all: "declare_queues ok qs = (ds, None) \<Longrightarrow> ds = qs"
  by (induction ok qs arbitrary: ds rule: declare_queues.induct) (auto split: if_splits prod.splits)

lemma newBroker_all: "newBroker n qs connects ok = (ds, None) \<Longrightarrow> ds = qs"
  by (auto simp: newBroker_def dest: declare_queues_all split: option.splits)

definition in_queues :: "string set \<Rightarrow> outbox \<Rightarrow> bool" where
  "in_queues Q t \<longleftrightarrow> (\<forall>r \<in> set t. ob_queue r \<in> Q)"

lemma in_queues_enqueue: "gw_enqueue i now key q p t = Some t' \<Longrightarrow> q \<in> Q \<Longrightarrow> in_queues Q t \<Longrightarrow> in_queues Q t'"
  by (auto simp: gw_enqueue_cases in_queues_def)

lemma in_queues_static: "ob_static t' = ob_static t \<Longrightarrow> in_queues Q t' = in_queues Q t"
  unfolding in_queues_def by (rule ob_static_cong(4))

abbreviation gateway_queues :: "string set" where
  "gateway_queues \<equiv> {QueueLookupTasks, QueueTrackRequests, QueueNotifyTasks}"

definition gw_queued :: "gw_db \<Rightarrow> bool" where
  "gw_queued db \<longleftrightarrow> in_queues gateway_queues (gateway_outbox db)"

lemma bump_queued: "bump e k u pid v url plat db = Some db' \<Longrightarrow> gw_queued db \<Longrightarrow> gw_queued db'"
  by (auto simp: bump_def snapshot_def Let_def gw_queued_def set_version_def intro: in_queues_enqueue split: if_splits)

lemma reconcile_loop_queued: "reconcile_loop e k ps db = Some db' \<Longrightarrow> gw_queued db \<Longrightarrow> gw_queued db'"
  by (induction e k ps db rule: reconcile_loop.induct) (auto dest: bump_queued split: option.splits)

lemma gw_queued_update [simp]:
  "gw_queued (db\<lparr>subscriptions := t\<rparr>) = gw_queued db" "gw_queued (db\<lparr>products := p\<rparr>) = gw_queued db"
  "gw_queued (db\<lparr>users := u\<rparr>) = gw_queued db" "gw_queued (db\<lparr>lookup_requests := l\<rparr>) = gw_queued db"
  "gw_queued (db\<lparr>price_history := h\<rparr>) = gw_queued db" "gw_queued (db\<lparr>processed_price_results := r\<rparr>) = gw_queued db"
  "gw_queued (db\<lparr>force_requests := f\<rparr>) = gw_queued db"
  "gw_queued (db\<lparr>gateway_outbox := ob\<rparr>) = in_queues gateway_queues ob"
  by (simp_all add: gw_queued_def)

lemma gw_queued_enqueue:
  "gw_enqueue i now key q p (gateway_outbox db) = Some ob \<Longrightarrow> q \<in> gateway_queues \<Longrightarrow> gw_queued db \<Longrightarrow> in_queues gateway_queues ob"
  unfolding gw_queued_def by (rule in_queues_enqueue)

lemma CreateLookup_queued: "gw_queued db \<Longrightarrow> gw_queued (fst (CreateLookup e i url db))"
  by (auto simp: CreateLookup_def Let_def intro: gw_queued_enqueue split: option.splits)

lemma mutateSubscription_queued: "gw_queued db \<Longrightarrow> gw_queued (fst (mutateSubscription S e seen i u op db))"
proof (cases "mutateSubscription S e seen i u op db")
  case (Pair db' r)
  assume q: "gw_queued db"
  show ?thesis
  proof (cases r)
    case (Inl err)
    with q Pair mutate_Inl [of S e seen i u op db db' err] show ?thesis by simp
  next
    case (Inr x)
    with Pair have "mutateSubscription S e seen i u op db = (db', Inr x)" by simp
    then have "db' = db \<or> (\<exists>k v url plat t. bump e 6 0 k v url plat (db\<lparr>subscriptions := t\<rparr>) = Some db')"
      by (rule mutate_Inr) blast
    then have "gw_queued db'" by (elim disjE exE) (use q in \<open>auto dest: bump_queued\<close>)
    with Pair show ?thesis by simp
  qed
qed

lemma CreateSubscription_queued: "gw_queued db \<Longrightarrow> gw_queued (fst (CreateSubscription S e u p mn mx db))"
proof (cases "CreateSubscription S e u p mn mx db")
  case (Pair db' r)
  assume q: "gw_queued db"
  show ?thesis
  proof (cases r)
    case (Inl err)
    with q Pair CreateSubscription_Inl [of S e u p mn mx db db' err] show ?thesis by simp
  next
    case (Inr x)
    with Pair have "CreateSubscription S e u p mn mx db = (db', Inr x)" by simp
    then have "gw_queued db'"
      by (rule CreateSubscription_Inr) (use q in \<open>auto dest: bump_queued split: if_splits\<close>)
    with Pair show ?thesis by simp
  qed
qed

lemma QueueForce_queued: "gw_queued db \<Longrightarrow> gw_queued (fst (QueueForce S e i u chat db))"
  by (auto simp: QueueForce_def Let_def intro: gw_queued_enqueue split: option.splits)

lemma ReconcileMonitoring_queued: "gw_queued db \<Longrightarrow> gw_queued (fst (ReconcileMonitoring e db))"
  by (auto simp: ReconcileMonitoring_def Let_def dest: reconcile_loop_queued split: option.splits)

lemma small_queued:
  assumes "gw_queued db"
  shows "gw_queued (fst (UpsertUser e chat db))" and "gw_queued (fst (EnsureProduct e i name url plat db))"
    and "gw_queued (fst (DeleteExpiredLookups e db))" and "gw_queued (fst (DeleteOldPriceHistory e d db))"
  using assms
  by (auto simp: UpsertUser_def EnsureProduct_def DeleteExpiredLookups_def DeleteOldPriceHistory_def Let_def split: option.split)

lemma in_queues_worker: "gw_queued db \<Longrightarrow> in_queues gateway_queues (fst (gw_Claim e n d (gateway_outbox db))) \<and>
    in_queues gateway_queues (fst (gw_MarkPublished e i tok (gateway_outbox db))) \<and>
    in_queues gateway_queues (fst (gw_Retry e i tok er d (gateway_outbox db)))"
  by (simp add: gw_queued_def in_queues_static [OF ob_static_worker(1)] in_queues_static [OF ob_static_worker(3)]
      in_queues_static [OF ob_static_worker(5)])

lemma gw_own_queued: "gw_queued db \<Longrightarrow> gw_queued (gw_own S w db)"
  by (cases w)
    (simp_all add: CreateLookup_queued mutateSubscription_queued CreateSubscription_queued QueueForce_queued
      ReconcileMonitoring_queued small_queued in_queues_worker)

lemma alert_loop_queued: "alert_loop e k name url m subs db = Some db' \<Longrightarrow> gw_queued db \<Longrightarrow> gw_queued db'"
proof (induction e k name url m subs db rule: alert_loop.induct)
  case (2 e k name url m sub subs db)
  have ob: "in_queues gateway_queues ob"
    if "gw_enqueue i now key QueueNotifyTasks pl (gateway_outbox db) = Some ob" for i now key pl ob
    using that "2.prems"(2) by (auto intro: gw_queued_enqueue)
  from "2.prems" "2.IH" ob show ?case
    by (auto simp: Let_def split: if_splits option.splits)
qed simp

lemma record_result_queued:
  assumes "record_result S e m tid p chat db = Some db'" and q: "gw_queued db"
  shows "gw_queued db'"
  using assms(1)
proof (rule record_result_Some)
  fix price
  let ?r = "recorded S e m tid p price db"
  assume c: "case chat of
       Some c \<Rightarrow> (\<exists>ob. gw_enqueue (ge_uuid e 1) (ge_now e) (''force-result:'' @ pr_TaskID m) QueueNotifyTasks
           (JNotify \<lparr>nt_TaskID = pr_TaskID m, nt_Channel = ''telegram'', nt_Target = show_int c,
              nt_Text = forceText (pd_name p) (pd_url p) m, nt_Direction = [], nt_NotBefore = 0\<rparr>)
           (gateway_outbox db) = Some ob \<and> db' = ?r\<lparr>gateway_outbox := ob\<rparr>)
     | None \<Rightarrow> if \<not> pr_Success m \<or> stale m p then db' = ?r
         else alert_loop e 0 (pd_name p) (pd_url p) m (alert_rows (pd_id p) ?r) ?r = Some db'"
  have r: "gw_queued ?r" using q by (simp add: gw_queued_def)
  with c q show ?thesis
    by (cases chat) (auto intro: gw_queued_enqueue dest: alert_loop_queued split: if_splits)
qed

lemma ProcessPriceResult_queued:
  assumes q: "gw_queued db"
  shows "gw_queued (fst (ProcessPriceResult S e m db))"
proof (cases "ProcessPriceResult S e m db")
  case (Pair db' r)
  show ?thesis
  proof (cases r)
    case (Inl err)
    with q Pair ProcessPriceResult_Inl [of S e m db db' err] show ?thesis by simp
  next
    case (Inr x)
    with Pair have ok: "ProcessPriceResult S e m db = (db', Inr x)" by simp
    have m: "gw_queued (mark_done tid db0) = gw_queued db0" for tid db0 by (simp add: mark_done_def)
    consider "process_lookup S e m db = (db', Inr x)" | "process_product S e m db = (db', Inr x)"
      using ProcessPriceResult_Inr [OF ok] by argo
    then have "gw_queued db'"
    proof cases
      case 1
      then have "db' = db \<or> (\<exists>tid t. db' = mark_done tid (db\<lparr>lookup_requests := t\<rparr>))" by (rule process_lookup_Inr) blast
      with q show ?thesis by (auto simp: m)
    next
      case 2
      then have "db' = db \<or> (\<exists>tid. db' = mark_done tid db) \<or> (\<exists>tid p chat. record_result S e m tid p chat db = Some db')"
        by (rule process_product_Inr) blast
      with q show ?thesis by (auto simp: m intro: record_result_queued)
    qed
    with Pair show ?thesis by simp
  qed
qed

definition empty_gw :: gw_db where
  "empty_gw = \<lparr>users = [], products = [], subscriptions = [], price_history = [], processed_price_results = [],
     force_requests = [], gateway_outbox = [], lookup_requests = []\<rparr>"

lemma gw_run_queued: "gw_queued (gw_run S xs empty_gw)"
  unfolding gw_run_def
proof (rule run_steps_invariant [of gw_queued])
  show "gw_queued empty_gw" by (simp add: gw_queued_def in_queues_def empty_gw_def)
qed (simp_all add: ProcessPriceResult_queued gw_own_queued)

lemma transfer_queue: "transfer E queue message t = (Some (q, m), a, t') \<Longrightarrow> q = queue"
  by (auto simp: transfer_def Let_def split: if_splits prod.splits)

lemma notify_moves: "oc_moved (notify_handle E d t) = Some (q, m) \<Longrightarrow> q \<in> {QueueNotifyRetry, QueueNotifyDead}"
  by (auto simp: notify_handle_def moved_outcome_def failed_transfer_def split: sum.splits if_splits option.splits prod.splits
      dest!: transfer_queue)

lemma notifier_declares:
  assumes "notifier_newBroker connects flt = (ops, True)" and "q \<in> {QueueNotifyRetry, QueueNotifyDead}"
  shows "\<exists>args. QueueDeclare q args \<in> set ops"
  using assms by (auto simp: notifier_newBroker_def DeclareNotifyQueues_def split: option.splits if_splits prod.splits)

text \<open>
  C39: Whatever a service publishes goes to a queue it declared when it started, so that no mandatory
  publication comes back unroutable while the queues exist: every event the gateway's and the
  scheduler's transactions ever put in their outboxes, every result that either consumer of the
  extractor publishes in any run, and what the notifier moves to another queue.
\<close>

theorem published_queues_declared:
  shows "(\<forall>r \<in> set (gateway_outbox (gw_run S xs empty_gw)). \<forall>connects ok qs.
      gateway_newBroker connects ok = (qs, None) \<longrightarrow> ob_queue r \<in> set qs) \<and>
    (\<forall>r \<in> set (scheduler_outbox (sched_run S ys empty_sched)). \<forall>connects ok qs.
      scheduler_newBroker connects ok = (qs, None) \<longrightarrow> ob_queue r \<in> set qs) \<and>
    (\<forall>x \<in> set (fst (runQueue handleLookup consume_ok ls)) \<union> set (fst (runQueue handleScraper consume_ok' ss)).
      \<forall>connects ok qs. extractor_newBroker connects ok = (qs, None) \<longrightarrow> fst x \<in> set qs) \<and>
    (\<forall>q m connects flt ops. oc_moved (notify_handle E d t) = Some (q, m) \<longrightarrow>
      notifier_newBroker connects flt = (ops, True) \<longrightarrow> (\<exists>args. QueueDeclare q args \<in> set ops))"
proof (intro conjI)
  show "\<forall>r \<in> set (gateway_outbox (gw_run S xs empty_gw)). \<forall>connects ok qs.
      gateway_newBroker connects ok = (qs, None) \<longrightarrow> ob_queue r \<in> set qs"
    using gw_run_queued [of S xs]
    by (auto simp: gw_queued_def in_queues_def gateway_newBroker_def dest!: newBroker_all)
  have "sched_wf (sched_run S ys empty_sched)" by (rule sched_run_wf [OF sched_wf_empty])
  then show "\<forall>r \<in> set (scheduler_outbox (sched_run S ys empty_sched)). \<forall>connects ok qs.
      scheduler_newBroker connects ok = (qs, None) \<longrightarrow> ob_queue r \<in> set qs"
    by (auto simp: sched_wf_def scheduler_newBroker_def dest!: newBroker_all)
  show "\<forall>x \<in> set (fst (runQueue handleLookup consume_ok ls)) \<union> set (fst (runQueue handleScraper consume_ok' ss)).
      \<forall>connects ok qs. extractor_newBroker connects ok = (qs, None) \<longrightarrow> fst x \<in> set qs"
    using lookups.run_queue [of consume_ok ls] scrapes.run_queue [of consume_ok' ss]
    by (auto simp: extractor_newBroker_def dest!: newBroker_all)
  show "\<forall>q m connects flt ops. oc_moved (notify_handle E d t) = Some (q, m) \<longrightarrow>
      notifier_newBroker connects flt = (ops, True) \<longrightarrow> (\<exists>args. QueueDeclare q args \<in> set ops)"
    using notify_moves notifier_declares by blast
qed

section \<open>Polling\<close>

text \<open>
  Telegram, as its API documents \<open>getUpdates\<close>: \<open>arrived k\<close> are the updates it has received by the
  \<open>k\<close>-th call, with growing identifiers that are not negative, and a call that succeeds returns the
  first of those not below the offset, some number of them.
\<close>

definition telegram_ok :: "'u poll_env \<Rightarrow> (nat \<Rightarrow> 'u update list) \<Rightarrow> bool" where
  "telegram_ok E arrived \<longleftrightarrow>
     (\<forall>k. prefix (arrived k) (arrived (Suc k)) \<and> sorted_wrt (<) (map fst (arrived k)) \<and> (\<forall>u \<in> set (arrived k). 0 \<le> fst u)) \<and>
     (\<forall>k off us. pl_get E k off = Some us \<longrightarrow> prefix us (filter (\<lambda>u. off \<le> fst u) (arrived k)))"

text \<open>What was handed over and what is still above the offset make up what arrived.\<close>

definition poll_inv :: "'u update list \<Rightarrow> 'u poller \<Rightarrow> bool" where
  "poll_inv xs p \<longleftrightarrow> prefix (po_updates p) xs \<and>
     (\<not> po_ended p \<longrightarrow> po_updates p @ filter (\<lambda>u. po_offset p \<le> fst u) xs = xs \<and>
        po_offset p = (if po_updates p = [] then 0 else fst (last (po_updates p)) + 1))"

lemma filter_above:
  assumes "sorted_wrt (<) (map fst (ys @ u # zs))"
  shows "filter (\<lambda>v. fst u + 1 \<le> fst v) (ys @ u # zs) = (zs :: 'u update list)"
proof -
  have "filter (\<lambda>v. fst u + 1 \<le> fst v) ys = []" "filter (\<lambda>v. fst u + 1 \<le> fst v) zs = zs"
    using assms by (fastforce simp: sorted_wrt_append filter_empty_conv filter_id_conv)+
  then show ?thesis by simp
qed

lemma hand_over_inv:
  assumes "poll_inv xs p" and "\<not> po_ended p" and "sorted_wrt (<) (map fst xs)"
    and "prefix us (filter (\<lambda>u. po_offset p \<le> fst u) xs)"
  shows "poll_inv xs (hand_over E us p)"
  using assms
proof (induction us arbitrary: p)
  case (Cons u us)
  obtain zs where zs: "filter (\<lambda>u. po_offset p \<le> fst u) xs = u # us @ zs" using Cons.prems(4) by (auto elim: prefixE)
  have xs: "xs = po_updates p @ u # us @ zs" using Cons.prems(1,2) zs by (simp add: poll_inv_def)
  have off: "po_offset p \<le> fst u" using arg_cong [OF zs, of set] by auto
  let ?p = "p\<lparr>po_offset := fst u + 1, po_updates := po_updates p @ [u]\<rparr>"
  show ?case
  proof (cases "pl_done_send E (length (po_updates p))")
    case True
    then show ?thesis using off by (simp add: poll_inv_def xs)
  next
    case False
    have rest: "filter (\<lambda>v. fst u + 1 \<le> fst v) xs = us @ zs" using filter_above [of "po_updates p" u "us @ zs"] Cons.prems(3) xs by simp
    have "poll_inv xs ?p" using rest xs by (simp add: poll_inv_def)
    then have "poll_inv xs (hand_over E us ?p)"
      using Cons.prems(2,3) rest by (intro Cons.IH) simp_all
    then show ?thesis using False off by simp
  qed
qed simp

lemma poll_inv_more:
  assumes "poll_inv xs p" and "sorted_wrt (<) (map fst (xs @ ys))" and "\<forall>u \<in> set ys. 0 \<le> fst u"
  shows "poll_inv (xs @ ys) (p :: 'u poller)"
proof (cases "po_ended p")
  case False
  have "po_offset p \<le> fst u" if "u \<in> set ys" for u
  proof (cases "po_updates p = []")
    case True
    then show ?thesis using assms(1,3) False that by (simp add: poll_inv_def)
  next
    case nonempty: False
    then have "last (po_updates p) \<in> set xs" using assms(1) by (metis last_in_set poll_inv_def set_mono_prefix subsetD)
    then have "fst (last (po_updates p)) < fst u" using assms(2) that by (force simp: sorted_wrt_append)
    then show ?thesis using assms(1) False nonempty by (simp add: poll_inv_def)
  qed
  then have "filter (\<lambda>u. po_offset p \<le> fst u) ys = ys" by (simp add: filter_id_conv)
  then have "po_updates p @ filter (\<lambda>u. po_offset p \<le> fst u) (xs @ ys) =
      (po_updates p @ filter (\<lambda>u. po_offset p \<le> fst u) xs) @ ys" by simp
  also have "po_updates p @ filter (\<lambda>u. po_offset p \<le> fst u) xs = xs" using assms(1) False unfolding poll_inv_def by blast
  finally show ?thesis using assms(1) unfolding poll_inv_def by (metis prefix_prefix)
qed (use assms(1) in \<open>simp add: poll_inv_def prefix_prefix\<close>)

lemma poll_updates_inv: "telegram_ok E arrived \<Longrightarrow> poll_inv (arrived n) (poll_updates E n)"
proof (induction n)
  case 0
  then show ?case by (auto simp: poll_inv_def telegram_ok_def filter_id_conv)
next
  case (Suc n)
  let ?p = "poll_updates E n"
  have inv: "poll_inv (arrived n) ?p" using Suc by simp
  have "poll_inv (arrived n) (poll_once E n ?p)"
  proof (cases "pl_get E n (po_offset ?p)")
    case None
    with inv show ?thesis by (auto simp: poll_once_def poll_inv_def)
  next
    case (Some us)
    with Suc.prems have "prefix us (filter (\<lambda>u. po_offset ?p \<le> fst u) (arrived n))" "sorted_wrt (<) (map fst (arrived n))"
      by (auto simp: telegram_ok_def)
    then have "\<not> po_ended ?p \<Longrightarrow> poll_inv (arrived n) (hand_over E us ?p)" using inv by (intro hand_over_inv)
    with inv Some show ?thesis by (auto simp: poll_once_def poll_inv_def)
  qed
  moreover have "prefix (arrived n) (arrived (Suc n))" using Suc.prems by (simp add: telegram_ok_def)
  then obtain ys where "arrived (Suc n) = arrived n @ ys" by (auto elim: prefixE)
  moreover have "sorted_wrt (<) (map fst (arrived (Suc n)))" "\<forall>u \<in> set (arrived (Suc n)). 0 \<le> fst u"
    using Suc.prems by (simp_all add: telegram_ok_def)
  ultimately show ?case by (simp add: poll_inv_more)
qed

text \<open>
  C40: Polling hands the bot the updates of Telegram in the order of their identifiers, none twice and
  none left out, whatever calls fail in between: after any number of rounds what was handed over is
  the beginning of what arrived; as long as the context has not ended, the offset of the next call is
  one above the last update handed over, and a call that returns all it has leaves none behind.
\<close>

theorem updates_polled_in_order:
  assumes "telegram_ok E arrived"
  shows "let p = poll_updates E n; p' = poll_updates E (Suc n)
    in prefix (po_updates p) (arrived n) \<and>
      (\<not> po_ended p \<longrightarrow> po_offset p = (if po_updates p = [] then 0 else fst (last (po_updates p)) + 1)) \<and>
      (\<not> po_ended p' \<and> pl_get E n (po_offset p) = Some (filter (\<lambda>u. po_offset p \<le> fst u) (arrived n)) \<longrightarrow>
        po_updates p' = arrived n)"
proof -
  let ?p = "poll_updates E n"
  note inv = poll_updates_inv [OF assms, of n]
  have all: "po_updates (hand_over E us q) = po_updates q @ us" if "\<not> po_ended (hand_over E us q)" for us q
    using that by (induction us arbitrary: q) (auto simp: Let_def split: if_splits)
  have "po_updates (poll_updates E (Suc n)) = arrived n"
    if "\<not> po_ended (poll_updates E (Suc n))" "pl_get E n (po_offset ?p) = Some (filter (\<lambda>u. po_offset ?p \<le> fst u) (arrived n))"
  proof -
    have "\<not> po_ended ?p" using that(1) by (auto simp: poll_once_def)
    moreover have "poll_updates E (Suc n) = hand_over E (filter (\<lambda>u. po_offset ?p \<le> fst u) (arrived n)) ?p"
      using that calculation by (auto simp: poll_once_def split: if_splits)
    ultimately show ?thesis using all that(1) inv unfolding poll_inv_def by metis
  qed
  with inv show ?thesis unfolding poll_inv_def Let_def by blast
qed

text \<open>Two updates, the second after a call that failed.\<close>

definition demo_poll :: "string poll_env" where
  "demo_poll = \<lparr>pl_get = (\<lambda>k off. if k = 1 then None else Some (filter (\<lambda>u. off \<le> fst u) (if k = 0 then [(5, ''a'')] else [(5, ''a''), (8, ''b'')]))),
     pl_done = (\<lambda>_. False), pl_done_error = (\<lambda>_. False), pl_done_wait = (\<lambda>_. False), pl_done_send = (\<lambda>_. False)\<rparr>"

theorem updates_polled_in_order_witness:
  "po_updates (poll_updates demo_poll 3) = [(5, ''a''), (8, ''b'')]"
proof -
  have "telegram_ok demo_poll (\<lambda>k. if k = 0 then [(5, ''a'')] else [(5, ''a''), (8, ''b'')])"
    by (auto simp: telegram_ok_def demo_poll_def split: if_splits)
  from updates_polled_in_order [OF this, of 2] show ?thesis
    by (simp add: Let_def eval_nat_numeral poll_once_def demo_poll_def)
qed

lemma demo_brokers:
  "gateway_newBroker (\<lambda>_. True) (\<lambda>_. True) = ([QueueLookupTasks, QueuePriceResults, QueueTrackRequests, QueueNotifyTasks], None)"
  "extractor_newBroker (\<lambda>_. True) (\<lambda>_. True) = ([QueueLookupTasks, QueueScraperTasks, QueuePriceResults], None)"
  "\<exists>ops. notifier_newBroker (\<lambda>_. True) no_faults = (ops, True)"
  by (simp_all add: gateway_newBroker_def extractor_newBroker_def notifier_newBroker_def newBroker_def ConnectWithRetry_def
      connect_loop.simps [of _ "Suc 0"] DeclareNotifyQueues_def)

text \<open>
  All three kinds of publication at once: the task of a lookup, its result, and a malformed
  notification.
\<close>

theorem published_queues_declared_witness:
  "\<exists>r x ops.
     r \<in> set (gateway_outbox (gw_run demo [Local (WCreateLookup (demo_genv 5 ''e'') ''l'' (canonical_url ''42''))] empty_gw)) \<and>
     ob_queue r \<in> set (fst (gateway_newBroker (\<lambda>_. True) (\<lambda>_. True))) \<and>
     x \<in> set (fst (runQueue handleLookup True [QDelivered False demo_xenv (Some demo_lookup)])) \<and>
     fst x \<in> set (fst (extractor_newBroker (\<lambda>_. True) (\<lambda>_. True))) \<and>
     notifier_newBroker (\<lambda>_. True) no_faults = (ops, True) \<and> (\<exists>args. QueueDeclare QueueNotifyDead args \<in> set ops)"
proof -
  let ?xs = "[Local (WCreateLookup (demo_genv 5 ''e'') ''l'' (canonical_url ''42''))]"
  let ?ls = "[QDelivered False demo_xenv (Some demo_lookup)]"
  let ?E = "demo_notify []"
  obtain ops where n: "notifier_newBroker (\<lambda>_. True) no_faults = (ops, True)" using demo_brokers(3) by blast
  obtain r where r: "r \<in> set (gateway_outbox (gw_run demo ?xs empty_gw))"
    by (simp add: gw_run_def CreateLookup_def demo_genv_def empty_gw_def gw_enqueue_def exists_where_def Let_def)
  obtain x where x: "x \<in> set (fst (runQueue handleLookup True ?ls))"
    using demo_handle by (auto simp: runQueue_def)
  have m: "oc_moved (notify_handle ?E (Inl ''x'') 0) = Some (QueueNotifyDead, JMalformed ''x'' ''malformed notification JSON'')"
    by (simp add: notify_handle_def transfer_def demo_notify_def ctx_done_def moved_outcome_def)
  note all = published_queues_declared [where E = ?E and S = demo and xs = ?xs and ys = "[]" and consume_ok = True
      and ls = ?ls and consume_ok' = True and ss = "[]" and d = "Inl ''x''" and t = 0]
  have "ob_queue r \<in> set (fst (gateway_newBroker (\<lambda>_. True) (\<lambda>_. True)))"
    using all [THEN conjunct1] r demo_brokers(1) by force
  moreover have "fst x \<in> set (fst (extractor_newBroker (\<lambda>_. True) (\<lambda>_. True)))"
    using all [THEN conjunct2, THEN conjunct2, THEN conjunct1] x demo_brokers(2) by force
  moreover have "\<exists>args. QueueDeclare QueueNotifyDead args \<in> set ops"
    using all [THEN conjunct2, THEN conjunct2, THEN conjunct2] m n by blast
  ultimately show ?thesis using r x n by blast
qed

end
