(* ===== verification/Lifecycle.thy ===== *)
theory Lifecycle
  imports Startup
begin

text \<open>
  How the five services start and stop (\<open>main.go\<close> of each): the constructors given to
  \<open>fx.Provide\<close>, the functions given to \<open>fx.Invoke\<close> and the hooks both append, as scripts that a
  small state machine runs together with the goroutines they start. The container \<open>fx\<close> is not under
  \<open>src/\<close>: the order in which it calls the functions is a parameter, of which its documentation
  promises that a function runs once and after the constructors of its parameters.
\<close>

section \<open>Hooks\<close>

datatype part = Config | Pool | Conn | TheStore | TheHandler | TheConsumer | TheWorker | TheRouter
  | TheScheduler | TheWB | TheSender | Sessions | TheClient | TheBot

datatype job = JHTTP | JConsumer | JCleaner | JOutbox | JReconcile | JScheduler | JBot

datatype label = Closing part | Running job

text \<open>
  What \<open>OnStart\<close> does: \<open>done = make(chan struct{})\<close>, where it is not made before, and \<open>go func\<close>.
  What \<open>OnStop\<close> does: \<open>cancel()\<close>, \<open>if done == nil\<close>, the \<open>select\<close> on \<open>done\<close> and \<open>stopCtx.Done()\<close>, the two
  halves of \<open>http.Server.Shutdown\<close>, and the closing of a resource.
\<close>

datatype start_op = MakeDone | Go

datatype stop_op = Cancel | ReturnIfNil | AwaitDone | CloseListeners | AwaitIdle | CloseResource part

text \<open>When the goroutine asks for the end of the process with exit code 1, after an error of its \<open>Run\<close>.\<close>

datatype report = Never | OnError | OnErrorUnlessCancelled

record hook =
  hk_label :: label
  hk_start :: "start_op list"
  hk_stop :: "stop_op list"
  hk_report :: report

definition closing :: "part \<Rightarrow> hook" where
  "closing p = \<lparr>hk_label = Closing p, hk_start = [], hk_stop = [CloseResource p], hk_report = Never\<rparr>"

text \<open>A constructor with its parameters and the hooks it appends; a function of \<open>fx.Invoke\<close> with its one hook.\<close>

type_synonym maker = "part \<times> part list \<times> hook list"
type_synonym starter = "job \<times> part list \<times> hook"

record app =
  ap_provides :: "maker list"
  ap_invokes :: "starter list"

section \<open>The gateway\<close>

definition gateway_newDB :: maker where
  "gateway_newDB = (Pool, [Config], [closing Pool])"

definition gateway_conn :: maker where
  "gateway_conn = (Conn, [Config], [closing Conn])"

definition gateway_newHandler :: maker where
  "gateway_newHandler = (TheHandler, [TheStore], [])"

definition gateway_newOutboxWorker :: maker where
  "gateway_newOutboxWorker = (TheWorker, [TheStore, Conn], [])"

definition gateway_newConsumer :: maker where
  "gateway_newConsumer = (TheConsumer, [Conn, TheStore], [])"

definition gateway_newRouter :: maker where
  "gateway_newRouter = (TheRouter, [TheHandler, Config], [])"

definition gateway_runHTTP :: starter where
  "gateway_runHTTP = (JHTTP, [TheRouter, Config],
     \<lparr>hk_label = Running JHTTP, hk_start = [Go], hk_stop = [CloseListeners, AwaitIdle], hk_report = OnError\<rparr>)"

definition gateway_runConsumer :: starter where
  "gateway_runConsumer = (JConsumer, [TheConsumer],
     \<lparr>hk_label = Running JConsumer, hk_start = [Go], hk_stop = [Cancel, AwaitDone],
      hk_report = OnErrorUnlessCancelled\<rparr>)"

definition gateway_runCleaner :: starter where
  "gateway_runCleaner = (JCleaner, [TheStore],
     \<lparr>hk_label = Running JCleaner, hk_start = [Go], hk_stop = [Cancel, AwaitDone], hk_report = Never\<rparr>)"

definition gateway_runOutbox :: starter where
  "gateway_runOutbox = (JOutbox, [TheWorker],
     \<lparr>hk_label = Running JOutbox, hk_start = [Go], hk_stop = [Cancel, AwaitDone],
      hk_report = OnErrorUnlessCancelled\<rparr>)"

definition gateway_runReconciliation :: starter where
  "gateway_runReconciliation = (JReconcile, [TheStore],
     \<lparr>hk_label = Running JReconcile, hk_start = [Go], hk_stop = [Cancel, AwaitDone], hk_report = Never\<rparr>)"

definition gateway_app :: app where
  "gateway_app = \<lparr>
     ap_provides = [(Config, [], []), gateway_newDB, gateway_conn, (TheStore, [Pool], []), gateway_newHandler,
       gateway_newConsumer, gateway_newOutboxWorker, gateway_newRouter],
     ap_invokes = [gateway_runHTTP, gateway_runConsumer, gateway_runCleaner, gateway_runOutbox,
       gateway_runReconciliation]\<rparr>"

section \<open>The scheduler\<close>

definition scheduler_newDB :: maker where
  "scheduler_newDB = (Pool, [Config], [closing Pool])"

definition scheduler_conn :: maker where
  "scheduler_conn = (Conn, [Config], [closing Conn])"

definition scheduler_newConsumer :: maker where
  "scheduler_newConsumer = (TheConsumer, [Conn, TheStore], [])"

definition scheduler_newScheduler :: maker where
  "scheduler_newScheduler = (TheScheduler, [Conn, TheStore, Config], [])"

definition scheduler_newOutboxWorker :: maker where
  "scheduler_newOutboxWorker = (TheWorker, [TheStore, Conn], [])"

definition scheduler_runConsumer :: starter where
  "scheduler_runConsumer = (JConsumer, [TheConsumer],
     \<lparr>hk_label = Running JConsumer, hk_start = [MakeDone, Go], hk_stop = [Cancel, ReturnIfNil, AwaitDone],
      hk_report = OnError\<rparr>)"

definition scheduler_runScheduler :: starter where
  "scheduler_runScheduler = (JScheduler, [TheScheduler],
     \<lparr>hk_label = Running JScheduler, hk_start = [MakeDone, Go], hk_stop = [Cancel, ReturnIfNil, AwaitDone],
      hk_report = OnError\<rparr>)"

definition scheduler_runOutboxWorker :: starter where
  "scheduler_runOutboxWorker = (JOutbox, [TheWorker],
     \<lparr>hk_label = Running JOutbox, hk_start = [MakeDone, Go], hk_stop = [Cancel, ReturnIfNil, AwaitDone],
      hk_report = OnErrorUnlessCancelled\<rparr>)"

definition scheduler_app :: app where
  "scheduler_app = \<lparr>
     ap_provides = [(Config, [], []), scheduler_newDB, scheduler_conn, (TheStore, [Pool], []),
       scheduler_newConsumer, scheduler_newScheduler, scheduler_newOutboxWorker],
     ap_invokes = [scheduler_runConsumer, scheduler_runScheduler, scheduler_runOutboxWorker]\<rparr>"

section \<open>The extractor, the notifier and the bot\<close>

definition extractor_conn :: maker where
  "extractor_conn = (Conn, [Config], [closing Conn])"

definition extractor_newWBClient :: maker where
  "extractor_newWBClient = (TheWB, [], [closing TheWB])"

definition extractor_newConsumer :: maker where
  "extractor_newConsumer = (TheConsumer, [Conn, TheWB], [])"

definition extractor_runConsumer :: starter where
  "extractor_runConsumer = (JConsumer, [TheConsumer],
     \<lparr>hk_label = Running JConsumer, hk_start = [Go], hk_stop = [Cancel, AwaitDone], hk_report = OnError\<rparr>)"

definition extractor_app :: app where
  "extractor_app = \<lparr>
     ap_provides = [(Config, [], []), extractor_conn, extractor_newWBClient, extractor_newConsumer],
     ap_invokes = [extractor_runConsumer]\<rparr>"

definition notifier_conn :: maker where
  "notifier_conn = (Conn, [Config], [closing Conn])"

definition notifier_newTelegramSender :: maker where
  "notifier_newTelegramSender = (TheSender, [Config], [])"

definition notifier_newConsumer :: maker where
  "notifier_newConsumer = (TheConsumer, [Conn, TheSender], [])"

definition notifier_runConsumer :: starter where
  "notifier_runConsumer = (JConsumer, [TheConsumer],
     \<lparr>hk_label = Running JConsumer, hk_start = [Go], hk_stop = [Cancel, AwaitDone], hk_report = OnError\<rparr>)"

definition notifier_app :: app where
  "notifier_app = \<lparr>
     ap_provides = [(Config, [], []), notifier_conn, notifier_newTelegramSender, notifier_newConsumer],
     ap_invokes = [notifier_runConsumer]\<rparr>"

definition bot_runBot :: starter where
  "bot_runBot = (JBot, [TheBot],
     \<lparr>hk_label = Running JBot, hk_start = [Go], hk_stop = [Cancel, AwaitDone], hk_report = OnError\<rparr>)"

definition bot_app :: app where
  "bot_app = \<lparr>
     ap_provides = [(Config, [], []), (Sessions, [], []), (TheClient, [Config], []),
       (TheBot, [Config, Sessions, TheClient], [])],
     ap_invokes = [bot_runBot]\<rparr>"

definition services_of :: "app list" where
  "services_of = [gateway_app, scheduler_app, extractor_app, notifier_app, bot_app]"

section \<open>The order of the calls\<close>

datatype call = Construct part | Invoke job

fun params_of :: "app \<Rightarrow> call \<Rightarrow> part list" where
  "params_of a (Construct p) = (case map_of (ap_provides a) p of None \<Rightarrow> [] | Some (ps, _) \<Rightarrow> ps)"
| "params_of a (Invoke j) = (case map_of (ap_invokes a) j of None \<Rightarrow> [] | Some (ps, _) \<Rightarrow> ps)"

fun hooks_of :: "app \<Rightarrow> call \<Rightarrow> hook list" where
  "hooks_of a (Construct p) = (case map_of (ap_provides a) p of None \<Rightarrow> [] | Some (_, hs) \<Rightarrow> hs)"
| "hooks_of a (Invoke j) = (case map_of (ap_invokes a) j of None \<Rightarrow> [] | Some (_, h) \<Rightarrow> [h])"

text \<open>What \<open>fx\<close> promises: each call once, after the constructors of its parameters, and every \<open>fx.Invoke\<close>.\<close>

fun resolved :: "app \<Rightarrow> call list \<Rightarrow> call list \<Rightarrow> bool" where
  "resolved a seen [] = True"
| "resolved a seen (c # cs) =
     (c \<notin> set seen \<and> list_all (\<lambda>p. Construct p \<in> set seen) (params_of a c) \<and> resolved a (c # seen) cs)"

definition fx_calls :: "app \<Rightarrow> call list \<Rightarrow> bool" where
  "fx_calls a cs = (resolved a [] cs \<and> list_all (\<lambda>i. Invoke (fst i) \<in> set cs) (ap_invokes a))"

text \<open>What a goroutine uses: the parameters of the function that starts it, theirs, and so on.\<close>

primrec reach :: "app \<Rightarrow> nat \<Rightarrow> part list \<Rightarrow> part list" where
  "reach a 0 ps = ps"
| "reach a (Suc n) ps = reach a n (remdups (ps @ concat (map (\<lambda>p. params_of a (Construct p)) ps)))"

definition uses :: "app \<Rightarrow> job \<Rightarrow> part list" where
  "uses a j = reach a (length (ap_provides a)) (params_of a (Invoke j))"

section \<open>The process\<close>

text \<open>
  \<open>lf_left\<close>: hooks whose \<open>OnStart\<close> is still to run; \<open>lf_hooks\<close>: those whose \<open>OnStop\<close> is, the last one
  first, with \<open>lf_ops\<close> the rest of the one that runs. \<open>lf_conns\<close> counts the HTTP connections with a
  request. \<open>lf_failed\<close>: an \<open>OnStop\<close> gave up waiting. \<open>lf_exit\<close>: the goroutines that asked for exit code 1.
\<close>

record life =
  lf_left :: "hook list"
  lf_hooks :: "hook list"
  lf_stopping :: bool
  lf_ops :: "stop_op list"
  lf_made :: "job list"
  lf_started :: "(job \<times> report) list"
  lf_cancelled :: "job list"
  lf_ended :: "job list"
  lf_serving :: bool
  lf_conns :: nat
  lf_closed :: "part list"
  lf_failed :: bool
  lf_exit :: "job list"

definition boot :: "app \<Rightarrow> call list \<Rightarrow> life" where
  "boot a cs = \<lparr>lf_left = concat (map (hooks_of a) cs), lf_hooks = [], lf_stopping = False, lf_ops = [],
     lf_made = [], lf_started = [], lf_cancelled = [], lf_ended = [], lf_serving = False, lf_conns = 0,
     lf_closed = [], lf_failed = False, lf_exit = []\<rparr>"

fun start_step :: "hook \<Rightarrow> start_op \<Rightarrow> life \<Rightarrow> life" where
  "start_step h MakeDone l = (case hk_label h of Running j \<Rightarrow> l\<lparr>lf_made := j # lf_made l\<rparr> | Closing _ \<Rightarrow> l)"
| "start_step h Go l = (case hk_label h of
       Running j \<Rightarrow> l\<lparr>lf_started := (j, hk_report h) # lf_started l\<rparr> | Closing _ \<Rightarrow> l)"

definition next_hook :: "hook list \<Rightarrow> life \<Rightarrow> life" where
  "next_hook hs l = l\<lparr>lf_hooks := hs, lf_ops := (case hs of [] \<Rightarrow> [] | h # _ \<Rightarrow> hk_stop h)\<rparr>"

fun stop_step :: "hook \<Rightarrow> hook list \<Rightarrow> stop_op list \<Rightarrow> life \<Rightarrow> life" where
  "stop_step h hs [] l = next_hook hs l"
| "stop_step h hs (Cancel # ops) l = (case hk_label h of
       Running j \<Rightarrow> l\<lparr>lf_cancelled := j # lf_cancelled l, lf_ops := ops\<rparr> | Closing _ \<Rightarrow> l)"
| "stop_step h hs (ReturnIfNil # ops) l = (case hk_label h of
       Running j \<Rightarrow> if j \<in> set (lf_made l) then l\<lparr>lf_ops := ops\<rparr> else next_hook hs l | Closing _ \<Rightarrow> l)"
| "stop_step h hs (AwaitDone # ops) l = (case hk_label h of
       Running j \<Rightarrow> if j \<in> set (lf_ended l) then next_hook hs l else l | Closing _ \<Rightarrow> l)"
| "stop_step h hs (CloseListeners # ops) l =
     l\<lparr>lf_serving := False, lf_cancelled := JHTTP # lf_cancelled l, lf_ops := ops\<rparr>"
| "stop_step h hs (AwaitIdle # ops) l = (if lf_conns l = 0 then next_hook hs l else l)"
| "stop_step h hs (CloseResource p # ops) l = next_hook hs (l\<lparr>lf_closed := p # lf_closed l\<rparr>)"

text \<open>
  The function of a goroutine returns: \<open>done\<close> is closed, and with an error, unless it only reports its
  cancellation, the goroutine asks the application to stop.
\<close>

definition job_returns :: "job \<Rightarrow> bool \<Rightarrow> life \<Rightarrow> life" where
  "job_returns j err l =
     (if j \<in> set (lf_ended l) then l
      else case map_of (lf_started l) j of
        None \<Rightarrow> l
      | Some r \<Rightarrow>
          let asks = err \<and> (r = OnError \<or> r = OnErrorUnlessCancelled \<and> j \<notin> set (lf_cancelled l))
          in l\<lparr>lf_ended := j # lf_ended l, lf_serving := (lf_serving l \<and> j \<noteq> JHTTP),
               lf_exit := (if asks then j # lf_exit l else lf_exit l)\<rparr>)"

text \<open>
  What happens next: the next \<open>OnStart\<close>, or the end of the start and the first \<open>OnStop\<close> (on a signal, or
  because a goroutine asked for it), a step of the current \<open>OnStop\<close> or the end of its context; the HTTP
  goroutine listens, a connection gets a request (also one accepted before, until \<open>Shutdown\<close> finds
  none), a request ends; a goroutine's function returns, with or without an error. An event that
  cannot happen changes nothing. What the repository does not contain is the container itself: that
  fx runs the \<open>OnStart\<close> functions in the order in which the hooks were appended, one at a time, the
  \<open>OnStop\<close> functions in the reverse order, and goes on with the next one when one fails or its context
  ends, is its documented behaviour (the lifecycle of \<open>go.uber.org/fx\<close>), which this machine assumes.
\<close>

datatype life_event = StartNext | BeginStop | StopStep | Expire | Listen | Accept | Reply | Ends job bool

fun life_step :: "life_event \<Rightarrow> life \<Rightarrow> life" where
  "life_step StartNext l =
     (if lf_stopping l then l
      else case lf_left l of
        [] \<Rightarrow> l
      | h # hs \<Rightarrow> fold (start_step h) (hk_start h) (l\<lparr>lf_left := hs, lf_hooks := h # lf_hooks l\<rparr>))"
| "life_step BeginStop l = (if lf_stopping l then l else next_hook (lf_hooks l) (l\<lparr>lf_stopping := True\<rparr>))"
| "life_step StopStep l =
     (if \<not> lf_stopping l then l
      else case lf_hooks l of [] \<Rightarrow> l | h # hs \<Rightarrow> stop_step h hs (lf_ops l) l)"
| "life_step Expire l =
     (case (lf_hooks l, lf_ops l) of
        (h # hs, op # _) \<Rightarrow>
          if lf_stopping l \<and> (op = AwaitDone \<or> op = AwaitIdle) then next_hook hs (l\<lparr>lf_failed := True\<rparr>) else l
      | _ \<Rightarrow> l)"
| "life_step Listen l =
     (if JHTTP \<in> fst ` set (lf_started l) \<and> JHTTP \<notin> set (lf_cancelled l) \<and> JHTTP \<notin> set (lf_ended l)
      then l\<lparr>lf_serving := True\<rparr> else l)"
| "life_step Accept l =
     (if lf_serving l \<or> (lf_stopping l \<and> take 1 (lf_ops l) = [AwaitIdle])
      then l\<lparr>lf_conns := lf_conns l + 1\<rparr> else l)"
| "life_step Reply l = l\<lparr>lf_conns := lf_conns l - 1\<rparr>"
| "life_step (Ends j err) l = job_returns j err l"

definition life_run :: "app \<Rightarrow> call list \<Rightarrow> life_event list \<Rightarrow> life" where
  "life_run a cs es = fold life_step es (boot a cs)"

text \<open>A goroutine at work: for the server, one with a request.\<close>

definition busy :: "life \<Rightarrow> job \<Rightarrow> bool" where
  "busy l j = (if j = JHTTP then 0 < lf_conns l else j \<in> fst ` set (lf_started l) \<and> j \<notin> set (lf_ended l))"

end
