(* ===== verification/LifecycleLaws.thy ===== *)
theory LifecycleLaws
  imports Lifecycle
begin

text \<open>
  The order in which the hooks of a service run makes its shutdown safe: as long as no \<open>OnStop\<close> gave up
  waiting, nothing is closed under a goroutine or a request that uses it.
\<close>

section \<open>The hooks as written\<close>

text \<open>Every hook of the five services closes its resource, or ends and awaits its goroutine.\<close>

fun hook_ok :: "hook \<Rightarrow> bool" where
  "hook_ok h = (case hk_label h of
       Closing p \<Rightarrow> hk_start h = [] \<and> hk_stop h = [CloseResource p]
     | Running j \<Rightarrow>
         if j = JHTTP then hk_start h = [Go] \<and> hk_stop h = [CloseListeners, AwaitIdle]
         else (hk_start h = [Go] \<and> hk_stop h = [Cancel, AwaitDone]) \<or>
           (hk_start h = [MakeDone, Go] \<and> hk_stop h = [Cancel, ReturnIfNil, AwaitDone]))"

definition app_ok :: "app \<Rightarrow> bool" where
  "app_ok a = (list_all (\<lambda>(p, ps, hs). list_all (\<lambda>h. hook_ok h \<and> hk_label h = Closing p) hs) (ap_provides a) \<and>
     list_all (\<lambda>(j, ps, h). hook_ok h \<and> hk_label h = Running j) (ap_invokes a))"

lemma services_ok: "list_all app_ok services_of"
  by code_simp

lemma hooks_of_ok:
  assumes "app_ok a" and "h \<in> set (hooks_of a c)"
  shows "hook_ok h \<and> hk_label h = (case c of Construct p \<Rightarrow> Closing p | Invoke j \<Rightarrow> Running j)"
proof (cases c)
  case (Construct p)
  then obtain x where x: "map_of (ap_provides a) p = Some x" "h \<in> set (snd x)"
    using assms(2) by (cases "map_of (ap_provides a) p") auto
  have "(p, x) \<in> set (ap_provides a)" using x(1) by (rule map_of_SomeD)
  then show ?thesis using assms(1) x(2) Construct
    by (cases x) (auto simp: app_ok_def list_all_iff simp del: hook_ok.simps)
next
  case (Invoke j)
  then obtain x where x: "map_of (ap_invokes a) j = Some x" "h = snd x"
    using assms(2) by (cases "map_of (ap_invokes a) j") auto
  have "(j, x) \<in> set (ap_invokes a)" using x(1) by (rule map_of_SomeD)
  then show ?thesis using assms(1) x(2) Invoke
    by (cases x) (auto simp: app_ok_def list_all_iff simp del: hook_ok.simps)
qed

section \<open>Constructors come first\<close>

lemma resolved_append:
  "resolved a seen (xs @ ys) \<longleftrightarrow> resolved a seen xs \<and> resolved a (rev xs @ seen) ys"
  by (induction xs arbitrary: seen) auto

lemma resolved_params:
  assumes "resolved a seen xs" and "c \<in> set xs" and "p \<in> set (params_of a c)"
  shows "Construct p \<in> set seen \<union> set xs"
  using assms(1,2)
proof (induction xs arbitrary: seen)
  case (Cons x xs)
  show ?case
  proof (cases "c = x")
    case False
    then have "Construct p \<in> set (x # seen) \<union> set xs" using Cons.IH [of "x # seen"] Cons.prems by simp
    then show ?thesis by auto
  qed (use Cons.prems(1) assms(3) in \<open>simp add: list_all_iff\<close>)
qed simp

lemma reach_built:
  assumes "resolved a [] xs" and "\<forall>p\<in>set ps. Construct p \<in> set xs" and "p \<in> set (reach a n ps)"
  shows "Construct p \<in> set xs"
  using assms(2,3)
proof (induction n arbitrary: ps)
  case (Suc n)
  let ?qs = "remdups (ps @ concat (map (\<lambda>p. params_of a (Construct p)) ps))"
  have "\<forall>q\<in>set ?qs. Construct q \<in> set xs"
    using Suc.prems(1) resolved_params [OF assms(1)] by fastforce
  from Suc.IH [OF this] Suc.prems(2) show ?case by simp
qed simp

lemma uses_built:
  assumes "resolved a [] (xs @ Invoke j # ys)" and "p \<in> set (uses a j)"
  shows "Construct p \<in> set xs" and "Construct p \<notin> set ys"
proof -
  have r: "resolved a [] xs" "list_all (\<lambda>p. Construct p \<in> set xs) (params_of a (Invoke j))"
    "resolved a (Invoke j # rev xs) ys"
    using assms(1) by (auto simp: resolved_append)
  show built: "Construct p \<in> set xs"
    using reach_built [OF r(1) _ assms(2) [unfolded uses_def]] r(2) by (simp add: list_all_iff)
  have "c \<notin> set ys" if "resolved a seen ys" "c \<in> set seen" for c seen
    using that
  proof (induction ys arbitrary: seen)
    case (Cons y ys)
    then show ?case using Cons.IH [of "y # seen"] by auto
  qed simp
  from this [OF r(3)] built show "Construct p \<notin> set ys" by simp
qed

lemma concat_cut:
  assumes "concat (map f cs) = A @ B" and "x \<in> set A" and "y \<in> set B"
  shows "\<exists>u v xs ys. cs = xs @ u # ys \<and> x \<in> set (f u) \<and> y \<in> set (f v) \<and> v \<in> set (u # ys)"
  using assms
proof (induction cs arbitrary: A)
  case (Cons c cs)
  show ?case
  proof (cases "x \<in> set (f c)")
    case True
    have "y \<in> set (concat (map f (c # cs)))" using Cons.prems(1,3) by simp
    then obtain v where "v \<in> set (c # cs)" "y \<in> set (f v)" by auto
    then show ?thesis using True by (metis append_Nil)
  next
    case False
    from Cons.prems(1) consider us where "f c = A @ us" | us where "A = f c @ us" "concat (map f cs) = us @ B"
      by (auto simp: append_eq_append_conv2)
    then show ?thesis
    proof cases
      case 2
      then have "x \<in> set us" using Cons.prems(2) False by simp
      from Cons.IH [OF 2(2) this Cons.prems(3)] obtain u v xs ys
        where "cs = xs @ u # ys" "x \<in> set (f u)" "y \<in> set (f v)" "v \<in> set (u # ys)" by blast
      then show ?thesis by (metis append_Cons)
    qed (use Cons.prems(2) False in simp)
  qed
qed simp

text \<open>The hook that closes what a goroutine uses was appended before the goroutine's own.\<close>

lemma closing_before_running:
  assumes ok: "app_ok a" and r: "resolved a [] cs" and H: "concat (map (hooks_of a) cs) = A @ B"
    and h: "h \<in> set A" "hk_label h = Running j" and k: "k \<in> set B" "hk_label k = Closing p"
  shows "p \<notin> set (uses a j)"
proof
  assume p: "p \<in> set (uses a j)"
  obtain u v xs ys where cut: "cs = xs @ u # ys" "h \<in> set (hooks_of a u)" "k \<in> set (hooks_of a v)" "v \<in> set (u # ys)"
    using concat_cut [OF H h(1) k(1)] by blast
  have u: "u = Invoke j" using hooks_of_ok [OF ok cut(2)] h(2) by (simp split: call.splits)
  have v: "v = Construct p" using hooks_of_ok [OF ok cut(3)] k(2) by (simp split: call.splits)
  show False using uses_built(2) [OF r [unfolded cut(1) u] p] cut(4) u v by simp
qed

section \<open>The invariant of the process\<close>

definition running_in :: "hook list \<Rightarrow> job \<Rightarrow> bool" where
  "running_in hs j = (\<exists>h\<in>set hs. hk_label h = Running j)"

lemma running_in_simps [simp]:
  "running_in [] j = False" "running_in (h # hs) j = (hk_label h = Running j \<or> running_in hs j)"
  by (auto simp: running_in_def)

text \<open>\<open>H\<close> is the list of all hooks, in the order they were appended.\<close>

definition hooks_fine :: "hook list \<Rightarrow> bool" where
  "hooks_fine H = ((\<forall>h\<in>set H. hook_ok h) \<and>
     (\<forall>h\<in>set H. \<forall>k\<in>set H. \<forall>j. hk_label h = Running j \<longrightarrow> hk_label k = Running j \<longrightarrow> h = k))"

definition stack_wf :: "hook list \<Rightarrow> life \<Rightarrow> bool" where
  "stack_wf H l = (\<exists>rest. H = rev (lf_hooks l) @ rest \<and>
     (\<forall>p\<in>set (lf_closed l). \<exists>h\<in>set rest. hk_label h = Closing p) \<and>
     (\<not> lf_stopping l \<longrightarrow> rest = lf_left l \<and> lf_closed l = []))"

definition jobs_wf :: "hook list \<Rightarrow> life \<Rightarrow> bool" where
  "jobs_wf H l = (
     (\<not> lf_failed l \<longrightarrow> (\<forall>j. busy l j \<longrightarrow> running_in (lf_hooks l) j)) \<and>
     (lf_serving l \<longrightarrow> JHTTP \<in> fst ` set (lf_started l) \<and> JHTTP \<notin> set (lf_cancelled l)) \<and>
     (JHTTP \<in> fst ` set (lf_started l) \<longrightarrow> JHTTP \<notin> set (lf_cancelled l) \<longrightarrow> running_in (lf_hooks l) JHTTP) \<and>
     (\<forall>h\<in>set H. \<forall>j. hk_label h = Running j \<longrightarrow> MakeDone \<in> set (hk_start h) \<longrightarrow> j \<in> fst ` set (lf_started l) \<longrightarrow>
        j \<in> set (lf_made l)))"

fun stop_wf :: "life \<Rightarrow> hook list \<Rightarrow> bool" where
  "stop_wf l [] = (lf_ops l = [])"
| "stop_wf l (h # hs) = (lf_ops l \<noteq> [] \<and> (\<exists>before. hk_stop h = before @ lf_ops l \<and>
     (CloseListeners \<in> set before \<longrightarrow> JHTTP \<in> set (lf_cancelled l))))"

definition life_wf :: "hook list \<Rightarrow> life \<Rightarrow> bool" where
  "life_wf H l = (stack_wf H l \<and> jobs_wf H l \<and> (lf_stopping l \<longrightarrow> stop_wf l (lf_hooks l)))"

text \<open>Which part of the invariant reads which field.\<close>

lemma busy_simps [simp]:
  "busy (l\<lparr>lf_left := a\<rparr>) = busy l" "busy (l\<lparr>lf_hooks := b\<rparr>) = busy l" "busy (l\<lparr>lf_stopping := c\<rparr>) = busy l"
  "busy (l\<lparr>lf_ops := d\<rparr>) = busy l" "busy (l\<lparr>lf_made := e\<rparr>) = busy l" "busy (l\<lparr>lf_cancelled := e\<rparr>) = busy l"
  "busy (l\<lparr>lf_serving := c\<rparr>) = busy l" "busy (l\<lparr>lf_closed := f\<rparr>) = busy l" "busy (l\<lparr>lf_failed := c\<rparr>) = busy l"
  "busy (l\<lparr>lf_exit := e\<rparr>) = busy l"
  by (simp_all add: busy_def fun_eq_iff)

lemma stack_simps [simp]:
  "stack_wf H (l\<lparr>lf_ops := d\<rparr>) = stack_wf H l" "stack_wf H (l\<lparr>lf_made := e\<rparr>) = stack_wf H l"
  "stack_wf H (l\<lparr>lf_started := g\<rparr>) = stack_wf H l" "stack_wf H (l\<lparr>lf_cancelled := e\<rparr>) = stack_wf H l"
  "stack_wf H (l\<lparr>lf_ended := e\<rparr>) = stack_wf H l" "stack_wf H (l\<lparr>lf_serving := c\<rparr>) = stack_wf H l"
  "stack_wf H (l\<lparr>lf_conns := n\<rparr>) = stack_wf H l" "stack_wf H (l\<lparr>lf_failed := c\<rparr>) = stack_wf H l"
  "stack_wf H (l\<lparr>lf_exit := e\<rparr>) = stack_wf H l"
  by (simp_all add: stack_wf_def)

lemma stop_simps [simp]:
  "stop_wf (l\<lparr>lf_ended := e\<rparr>) hs = stop_wf l hs" "stop_wf (l\<lparr>lf_serving := c\<rparr>) hs = stop_wf l hs"
  "stop_wf (l\<lparr>lf_conns := n\<rparr>) hs = stop_wf l hs" "stop_wf (l\<lparr>lf_exit := e\<rparr>) hs = stop_wf l hs"
  by (cases hs; simp)+

lemma busy_moves [simp]:
  "busy (l\<lparr>lf_conns := n\<rparr>) j = (if j = JHTTP then 0 < n else busy l j)"
  "busy (l\<lparr>lf_ended := k # lf_ended l\<rparr>) j = (busy l j \<and> (j = JHTTP \<or> j \<noteq> k))"
  by (auto simp: busy_def)

lemma next_hook_simps [simp]:
  "lf_hooks (next_hook hs l) = hs" "lf_closed (next_hook hs l) = lf_closed l" "lf_stopping (next_hook hs l) = lf_stopping l"
  "lf_left (next_hook hs l) = lf_left l" "lf_failed (next_hook hs l) = lf_failed l" "busy (next_hook hs l) = busy l"
  "lf_serving (next_hook hs l) = lf_serving l" "lf_started (next_hook hs l) = lf_started l"
  "lf_cancelled (next_hook hs l) = lf_cancelled l" "lf_made (next_hook hs l) = lf_made l"
  by (simp_all add: next_hook_def fun_eq_iff busy_def)

lemma stop_wf_next_hook: "\<forall>h\<in>set hs. hook_ok h \<Longrightarrow> stop_wf (next_hook hs l) hs"
  by (cases hs) (auto simp: next_hook_def split: label.splits if_splits)

text \<open>The end of an \<open>OnStop\<close>: what it closes or awaits is in order.\<close>

lemma next_hook_wf:
  assumes wf: "life_wf H l" "hooks_fine H" "lf_stopping l" "lf_hooks l = h # hs"
    and closed: "set C \<subseteq> {p. hk_label h = Closing p}"
    and quiet: "\<forall>j. \<not> F \<longrightarrow> \<not> lf_failed l \<longrightarrow> hk_label h = Running j \<longrightarrow> \<not> busy l j"
    and http: "hk_label h = Running JHTTP \<Longrightarrow> JHTTP \<in> set (lf_cancelled l)"
  shows "life_wf H (next_hook hs (l\<lparr>lf_closed := C @ lf_closed l, lf_failed := F \<or> lf_failed l\<rparr>))"
proof -
  let ?m = "l\<lparr>lf_closed := C @ lf_closed l, lf_failed := F \<or> lf_failed l\<rparr>"
  obtain rest where rest: "H = rev (h # hs) @ rest" "\<forall>p\<in>set (lf_closed l). \<exists>k\<in>set rest. hk_label k = Closing p"
    using wf(1,4) by (auto simp: life_wf_def stack_wf_def)
  have stack: "stack_wf H (next_hook hs ?m)"
    unfolding stack_wf_def
  proof (intro exI conjI)
    show "H = rev (lf_hooks (next_hook hs ?m)) @ h # rest" using rest(1) by simp
    show "\<forall>p\<in>set (lf_closed (next_hook hs ?m)). \<exists>k\<in>set (h # rest). hk_label k = Closing p"
      using rest(2) closed by auto
  qed (use wf(3) in simp)
  have b: "busy ?m = busy l" by (simp add: busy_def fun_eq_iff)
  have jobs: "jobs_wf H (next_hook hs ?m)"
    using wf(1,4) quiet http by (auto simp: life_wf_def jobs_wf_def b)
  have "\<forall>k\<in>set hs. hook_ok k" using wf(2) rest(1) by (simp add: hooks_fine_def)
  then have "stop_wf (next_hook hs ?m) hs" by (rule stop_wf_next_hook)
  then show ?thesis using stack jobs by (simp add: life_wf_def)
qed

lemma next_hook_awaited:
  assumes "life_wf H l" "hooks_fine H" "lf_stopping l" "lf_hooks l = h # hs" "hk_label h = Running j" "\<not> busy l j"
    and "j = JHTTP \<Longrightarrow> JHTTP \<in> set (lf_cancelled l)"
  shows "life_wf H (next_hook hs l)"
  using next_hook_wf [OF assms(1-4), of "[]" False] assms(5-7) by simp

text \<open>The statements of an \<open>OnStop\<close> that may be next.\<close>

lemma suffixes:
  assumes "hook_ok h" "hk_stop h = before @ ops" "ops \<noteq> []" "hk_label h = Running j"
  shows "if j = JHTTP then ops = [CloseListeners, AwaitIdle] \<or> (ops = [AwaitIdle] \<and> CloseListeners \<in> set before)
    else ops = [AwaitDone] \<or> ops = [Cancel, AwaitDone] \<or>
      (MakeDone \<in> set (hk_start h) \<and> (ops = [Cancel, ReturnIfNil, AwaitDone] \<or> ops = [ReturnIfNil, AwaitDone]))"
  using assms by (auto simp: append_eq_Cons_conv Cons_eq_append_conv split: if_splits)

lemma stop_step_wf:
  assumes wf: "life_wf H l" "hooks_fine H" "lf_stopping l" "lf_hooks l = h # hs"
  shows "life_wf H (stop_step h hs (lf_ops l) l)"
proof -
  have ok: "hook_ok h" and hH: "h \<in> set H"
    using wf by (auto simp: life_wf_def stack_wf_def hooks_fine_def simp del: hook_ok.simps)
  obtain before where ops: "lf_ops l \<noteq> []" "hk_stop h = before @ lf_ops l"
      "CloseListeners \<in> set before \<longrightarrow> JHTTP \<in> set (lf_cancelled l)"
    using wf by (auto simp: life_wf_def)
  show ?thesis
  proof (cases "hk_label h")
    case (Closing p)
    then have "lf_ops l = [CloseResource p]" using ok ops(1,2) by (auto simp: append_eq_Cons_conv)
    then show ?thesis using next_hook_wf [OF wf, of "[p]" False] Closing by simp
  next
    case (Running j)
    note end_of = next_hook_awaited [OF wf Running]
    have moved: "life_wf H (l\<lparr>lf_cancelled := j # lf_cancelled l, lf_ops := ops\<rparr>)"
      if "lf_ops l = Cancel # ops" "ops \<noteq> []" "j \<noteq> JHTTP" for ops
    proof -
      have "hk_stop h = (before @ [Cancel]) @ ops" using ops(2) that(1) by simp
      then show ?thesis using wf(1,3,4) that ops(3) by (auto simp: life_wf_def jobs_wf_def intro!: exI [of _ "before @ [Cancel]"])
    qed
    from suffixes [OF ok ops(2,1) Running] consider
      (shut) "j = JHTTP" "lf_ops l = [CloseListeners, AwaitIdle]"
      | (idle) "j = JHTTP" "lf_ops l = [AwaitIdle]" "JHTTP \<in> set (lf_cancelled l)"
      | (await) "j \<noteq> JHTTP" "lf_ops l = [AwaitDone]"
      | (cancel) ops' where "j \<noteq> JHTTP" "lf_ops l = Cancel # ops'" "ops' \<noteq> []"
      | (nil) "j \<noteq> JHTTP" "lf_ops l = [ReturnIfNil, AwaitDone]" "MakeDone \<in> set (hk_start h)"
      using ops(3) by (auto split: if_splits)
    then show ?thesis
    proof cases
      case shut
      have "hk_stop h = (before @ [CloseListeners]) @ [AwaitIdle]" using ops(2) shut by simp
      then show ?thesis using shut wf Running
        by (auto simp: life_wf_def jobs_wf_def intro!: exI [of _ "before @ [CloseListeners]"])
    next
      case idle
      then show ?thesis using end_of wf(1) by (simp add: busy_def)
    next
      case await
      then show ?thesis using end_of wf(1) Running by (simp add: busy_def)
    next
      case cancel
      then show ?thesis using moved Running by simp
    next
      case nil
      have "hk_stop h = (before @ [ReturnIfNil]) @ [AwaitDone]" using ops(2) nil by simp
      then have next_op: "life_wf H (l\<lparr>lf_ops := [AwaitDone]\<rparr>)" using wf(1,3,4) ops(3)
        by (auto simp: life_wf_def jobs_wf_def intro!: exI [of _ "before @ [ReturnIfNil]"])
      have "j \<in> fst ` set (lf_started l) \<Longrightarrow> j \<in> set (lf_made l)"
        using wf(1) hH Running nil(3) by (simp add: life_wf_def jobs_wf_def)
      then show ?thesis using end_of next_op nil Running by (auto simp: busy_def)
    qed
  qed
qed

lemma expire_wf:
  assumes wf: "life_wf H l" "hooks_fine H" "lf_stopping l" "lf_hooks l = h # hs"
    and op: "lf_ops l = op # ops" "op = AwaitDone \<or> op = AwaitIdle"
  shows "life_wf H (next_hook hs (l\<lparr>lf_failed := True\<rparr>))"
proof -
  have ok: "hook_ok h" using wf by (auto simp: life_wf_def stack_wf_def hooks_fine_def simp del: hook_ok.simps)
  obtain before where b: "lf_ops l \<noteq> []" "hk_stop h = before @ lf_ops l"
      "CloseListeners \<in> set before \<longrightarrow> JHTTP \<in> set (lf_cancelled l)"
    using wf by (auto simp: life_wf_def)
  have "JHTTP \<in> set (lf_cancelled l)" if "hk_label h = Running JHTTP"
    using suffixes [OF ok b(2,1) that] op b(3) by (auto split: if_splits)
  then show ?thesis using next_hook_wf [OF wf, of "[]" True] by simp
qed

lemma start_wf:
  assumes wf: "life_wf H l" "hooks_fine H" "\<not> lf_stopping l" "lf_left l = h # hs"
  shows "life_wf H (fold (start_step h) (hk_start h) (l\<lparr>lf_left := hs, lf_hooks := h # lf_hooks l\<rparr>))"
proof -
  have ok: "hook_ok h" and hH: "h \<in> set H"
    using wf by (auto simp: life_wf_def stack_wf_def hooks_fine_def simp del: hook_ok.simps)
  have same: "k = h" if "k \<in> set H" "hk_label k = Running j" "hk_label h = Running j" for k j
    using wf(2) hH that by (auto simp: hooks_fine_def)
  have starts: "hk_start h = [] \<or> (\<exists>j. hk_label h = Running j \<and> (hk_start h = [Go] \<or> hk_start h = [MakeDone, Go]))"
    using ok by (auto split: label.splits if_splits)
  have stack: "stack_wf H (l\<lparr>lf_left := hs, lf_hooks := h # lf_hooks l\<rparr>)"
    using wf by (simp add: life_wf_def stack_wf_def)
  from starts show ?thesis
  proof (elim disjE exE conjE)
    assume "hk_start h = []"
    then show ?thesis using stack wf(1,3) by (auto simp: life_wf_def jobs_wf_def)
  next
    fix j assume "hk_label h = Running j" "hk_start h = [Go]"
    then show ?thesis using stack wf(1,3) same by (auto simp: life_wf_def jobs_wf_def busy_def split: if_splits)
  next
    fix j assume "hk_label h = Running j" "hk_start h = [MakeDone, Go]"
    then show ?thesis using stack wf(1,3) same by (auto simp: life_wf_def jobs_wf_def busy_def split: if_splits)
  qed
qed

lemma accept_wf:
  assumes wf: "life_wf H l" "hooks_fine H" and "lf_serving l \<or> (lf_stopping l \<and> take 1 (lf_ops l) = [AwaitIdle])"
  shows "life_wf H (l\<lparr>lf_conns := lf_conns l + 1\<rparr>)"
proof -
  have "running_in (lf_hooks l) JHTTP"
  proof (cases "lf_serving l")
    case True
    then show ?thesis using wf(1) by (simp add: life_wf_def jobs_wf_def)
  next
    case False
    then have stop: "lf_stopping l" "take 1 (lf_ops l) = [AwaitIdle]" using assms(3) by auto
    have sw: "stop_wf l (lf_hooks l)" using wf(1) stop(1) by (simp add: life_wf_def)
    then obtain h hs where h: "lf_hooks l = h # hs" using stop(2) by (cases "lf_hooks l") auto
    have "AwaitIdle \<in> set (lf_ops l)" using stop(2) by (cases "lf_ops l") auto
    then have "AwaitIdle \<in> set (hk_stop h)" using sw h by auto
    moreover have "hook_ok h"
      using wf h by (auto simp: life_wf_def stack_wf_def hooks_fine_def simp del: hook_ok.simps)
    ultimately show ?thesis using h by (auto split: label.splits if_splits)
  qed
  then show ?thesis using wf(1) by (auto simp: life_wf_def jobs_wf_def)
qed

lemma life_step_wf:
  assumes wf: "life_wf H l" "hooks_fine H"
  shows "life_wf H (life_step e l)"
proof (cases e)
  case StartNext
  then show ?thesis using wf start_wf by (auto split: list.splits)
next
  case BeginStop
  have ok: "\<forall>h\<in>set (lf_hooks l). hook_ok h"
    using wf by (auto simp: life_wf_def stack_wf_def hooks_fine_def simp del: hook_ok.simps)
  have "life_wf H (next_hook (lf_hooks l) (l\<lparr>lf_stopping := True\<rparr>))"
    using wf(1) stop_wf_next_hook [OF ok] by (auto simp: life_wf_def stack_wf_def jobs_wf_def)
  then show ?thesis using wf(1) BeginStop by simp
next
  case StopStep
  then show ?thesis using wf stop_step_wf by (auto split: list.splits)
next
  case Expire
  then show ?thesis using wf expire_wf by (auto split: list.splits)
next
  case Listen
  then show ?thesis using wf by (auto simp: life_wf_def jobs_wf_def)
next
  case Accept
  then show ?thesis using wf accept_wf by simp
next
  case Reply
  then show ?thesis using wf by (auto simp: life_wf_def jobs_wf_def busy_def)
next
  case (Ends j err)
  then show ?thesis using wf by (auto simp: job_returns_def life_wf_def jobs_wf_def Let_def split: option.splits)
qed

lemma run_wf:
  assumes "life_wf H l" "hooks_fine H"
  shows "life_wf H (fold life_step es l)"
  using assms by (induction es arbitrary: l) (auto simp: life_step_wf)

lemma boot_wf: "life_wf (concat (map (hooks_of a) cs)) (boot a cs)"
  by (simp add: boot_def life_wf_def stack_wf_def jobs_wf_def busy_def)

lemma hooks_fine_of:
  assumes "app_ok a"
  shows "hooks_fine (concat (map (hooks_of a) cs))"
proof -
  have one: "hook_ok h" if "h \<in> set (hooks_of a c)" for h c using hooks_of_ok [OF assms that] by (rule conjunct1)
  have two: "h = k" if "h \<in> set (hooks_of a c)" "k \<in> set (hooks_of a d)" "hk_label h = Running j" "hk_label k = Running j"
    for h k c d j
  proof -
    have "c = Invoke j" using hooks_of_ok [OF assms that(1)] that(3) by (simp split: call.splits)
    moreover have "d = Invoke j" using hooks_of_ok [OF assms that(2)] that(4) by (simp split: call.splits)
    ultimately show ?thesis using that(1,2) by (cases "map_of (ap_invokes a) j") auto
  qed
  show ?thesis unfolding hooks_fine_def using one two by (fastforce simp del: hook_ok.simps hooks_of.simps)
qed

section \<open>The stop comes to its end\<close>

definition stop_work :: "life \<Rightarrow> nat" where
  "stop_work l = (if lf_hooks l = [] then 0 else length (lf_ops l) + 4 * (length (lf_hooks l) - 1))"

text \<open>Every goroutine still to be awaited has ended, and no request is being served.\<close>

definition awaits_ended :: "job list \<Rightarrow> hook list \<Rightarrow> bool" where
  "awaits_ended ended hs = list_all (\<lambda>h. \<forall>j. hk_label h = Running j \<longrightarrow> j = JHTTP \<or> j \<in> set ended) hs"

lemma awaits_ended_Cons [simp]:
  "awaits_ended ended (h # hs) =
     ((\<forall>j. hk_label h = Running j \<longrightarrow> j = JHTTP \<or> j \<in> set ended) \<and> awaits_ended ended hs)"
  by (simp add: awaits_ended_def)

definition all_quiet :: "life \<Rightarrow> bool" where
  "all_quiet l = (lf_stopping l \<and> lf_conns l = 0 \<and> awaits_ended (lf_ended l) (lf_hooks l))"

lemma next_hook_work:
  assumes "\<forall>k\<in>set hs. hook_ok k" and "lf_hooks l = h # hs" and "lf_ops l \<noteq> []"
  shows "stop_work (next_hook hs m) < stop_work l"
proof (cases hs)
  case (Cons k ks)
  then have "length (hk_stop k) \<le> 3" using assms(1) by (auto split: label.splits if_splits)
  then show ?thesis using assms(2,3) Cons by (cases "lf_ops l") (auto simp: stop_work_def next_hook_def)
qed (use assms in \<open>simp add: stop_work_def\<close>)

lemma stop_step_work:
  assumes wf: "life_wf H l" "hooks_fine H" "lf_hooks l = h # hs" and quiet: "all_quiet l"
  shows "stop_work (life_step StopStep l) < stop_work l" and "all_quiet (life_step StopStep l)"
    and "lf_failed (life_step StopStep l) = lf_failed l"
proof -
  have ok: "hook_ok h" and oks: "\<forall>k\<in>set hs. hook_ok k"
    using wf by (auto simp: life_wf_def stack_wf_def hooks_fine_def simp del: hook_ok.simps)
  obtain before where ops: "lf_ops l \<noteq> []" "hk_stop h = before @ lf_ops l"
    using wf quiet by (auto simp: life_wf_def all_quiet_def)
  note less = next_hook_work [OF oks wf(3) ops(1)]
  have step: "life_step StopStep l = stop_step h hs (lf_ops l) l" using wf(3) quiet by (simp add: all_quiet_def)
  have "stop_work (stop_step h hs (lf_ops l) l) < stop_work l \<and> all_quiet (stop_step h hs (lf_ops l) l) \<and>
      lf_failed (stop_step h hs (lf_ops l) l) = lf_failed l"
  proof (cases "hk_label h")
    case (Closing p)
    then have "lf_ops l = [CloseResource p]" using ok ops by (auto simp: append_eq_Cons_conv)
    then show ?thesis using less quiet wf(3) by (simp add: all_quiet_def next_hook_def)
  next
    case (Running j)
    then show ?thesis using suffixes [OF ok ops(2,1) Running] less quiet wf(3)
      by (auto simp: all_quiet_def next_hook_def stop_work_def split: if_splits)
  qed
  then show "stop_work (life_step StopStep l) < stop_work l" "all_quiet (life_step StopStep l)"
    "lf_failed (life_step StopStep l) = lf_failed l" unfolding step by simp_all
qed

text \<open>Once the goroutines and the requests have ended, the stop runs every \<open>OnStop\<close>, and none gives up.\<close>

lemma stop_completes:
  assumes "life_wf H l" and "hooks_fine H" and "all_quiet l"
  shows "\<exists>n. n \<le> stop_work l \<and> lf_hooks (fold life_step (replicate n StopStep) l) = [] \<and>
    lf_failed (fold life_step (replicate n StopStep) l) = lf_failed l"
  using assms
proof (induction "stop_work l" arbitrary: l rule: less_induct)
  case less
  show ?case
  proof (cases "lf_hooks l")
    case Nil
    then show ?thesis by (intro exI [of _ 0]) simp
  next
    case (Cons h hs)
    let ?m = "life_step StopStep l"
    note w = stop_step_work [OF less.prems(1,2) Cons less.prems(3)]
    obtain n where "n \<le> stop_work ?m" "lf_hooks (fold life_step (replicate n StopStep) ?m) = []"
      "lf_failed (fold life_step (replicate n StopStep) ?m) = lf_failed ?m"
      using less.hyps [OF w(1) life_step_wf [OF less.prems(1,2)] less.prems(2) w(2)] by blast
    then show ?thesis using w(1,3) by (intro exI [of _ "Suc n"]) simp
  qed
qed

section \<open>Nothing is closed while it is used\<close>

text \<open>
  C38: In every service, in whatever order \<open>fx\<close> resolves the constructors, and however the start, the
  goroutines, the requests and the stop interleave: as long as no \<open>OnStop\<close> gave up waiting, no pool,
  broker connection or browser is closed that a running goroutine, or the handler of a request being
  served, was built from. That \<open>fx\<close> runs the \<open>OnStop\<close> functions one by one in the reverse order of the
  hooks is its documented behaviour, assumed in \<open>life_step\<close>.
\<close>

theorem shutdown_ordered:
  assumes "a \<in> set services_of" and "fx_calls a cs" and "\<not> lf_failed (life_run a cs es)"
    and "busy (life_run a cs es) j" and "p \<in> set (uses a j)"
  shows "p \<notin> set (lf_closed (life_run a cs es))"
proof
  let ?l = "life_run a cs es" and ?H = "concat (map (hooks_of a) cs)"
  assume closed: "p \<in> set (lf_closed ?l)"
  have ok: "app_ok a" using services_ok assms(1) by (simp add: list_all_iff)
  have wf: "life_wf ?H ?l" unfolding life_run_def by (rule run_wf [OF boot_wf hooks_fine_of [OF ok]])
  obtain rest where rest: "?H = rev (lf_hooks ?l) @ rest" "\<forall>p\<in>set (lf_closed ?l). \<exists>k\<in>set rest. hk_label k = Closing p"
    using wf unfolding life_wf_def stack_wf_def by (elim conjE exE)
  obtain k where k: "k \<in> set rest" "hk_label k = Closing p" using rest(2) closed by auto
  have "running_in (lf_hooks ?l) j" using wf assms(3,4) unfolding life_wf_def jobs_wf_def by blast
  then obtain h where h: "h \<in> set (rev (lf_hooks ?l))" "hk_label h = Running j" by (auto simp: running_in_def)
  have "resolved a [] cs" using assms(2) by (simp add: fx_calls_def)
  from closing_before_running [OF ok this rest(1) h k] assms(5) show False by simp
qed

text \<open>
  The gateway, resolved in the order of its \<open>fx.Invoke\<close>: the outbox worker fails, the other goroutines
  end, the connection to the broker is closed, and the server waits for a request.
\<close>

definition demo_calls :: "call list" where
  "demo_calls = map Construct [Config, Pool, TheStore, TheHandler, TheRouter] @ [Invoke JHTTP] @
     map Construct [Conn, TheConsumer] @ [Invoke JConsumer, Invoke JCleaner, Construct TheWorker, Invoke JOutbox,
     Invoke JReconcile]"

definition demo_life :: "life_event list" where
  "demo_life = replicate 7 StartNext @ [Listen, Accept, Ends JOutbox True, BeginStop, Ends JReconcile False,
     Ends JCleaner False] @ replicate 7 StopStep @ [Ends JConsumer False] @ replicate 4 StopStep"

theorem shutdown_ordered_witness:
  "let l = life_run gateway_app demo_calls demo_life
   in busy l JHTTP \<and> lf_exit l = [JOutbox] \<and> lf_closed l = [Conn] \<and> Pool \<in> set (uses gateway_app JHTTP) \<and>
      Pool \<notin> set (lf_closed l)"
proof -
  have a: "gateway_app \<in> set services_of" by (simp add: services_of_def)
  have b: "fx_calls gateway_app demo_calls" by code_simp
  have c: "\<not> lf_failed (life_run gateway_app demo_calls demo_life)" by code_simp
  have d: "busy (life_run gateway_app demo_calls demo_life) JHTTP" by code_simp
  have e: "Pool \<in> set (uses gateway_app JHTTP)" by code_simp
  have f: "lf_exit (life_run gateway_app demo_calls demo_life) = [JOutbox] \<and>
      lf_closed (life_run gateway_app demo_calls demo_life) = [Conn]" by code_simp
  show ?thesis unfolding Let_def using shutdown_ordered [OF a b c d e] d e f by blast
qed

end
