(* ===== verification/BotState.thy ===== *)
theory BotState
  imports Contracts
begin

text \<open>
  The bot's session store, \<open>services/bot/internal/state/state.go\<close>: the dialogue of each chat
  as a record, the store as the map it keeps, one definition per method. Every method holds
  the store's lock, so it is one step.
\<close>

section \<open>Sessions\<close>

datatype step =
    StepIdle
  | StepWaitingLookup
  | StepWaitingMinPrice
  | StepWaitingMaxPrice
  | StepEditingMinPrice
  | StepEditingMaxPrice

record Session =
  se_Step :: step
  se_LookupID :: string
  se_ProductName :: string
  se_ProductURL :: string
  se_CurrentPrice :: float64
  se_MinPrice :: float64
  se_EditingSubID :: string
  se_OldMinPrice :: float64
  se_OldMaxPrice :: float64
  se_Page :: int

text \<open>\<open>Session{Step: StepIdle}\<close>, the other fields zero.\<close>

definition idle :: Session where
  "idle = \<lparr>se_Step = StepIdle, se_LookupID = [], se_ProductName = [], se_ProductURL = [],
     se_CurrentPrice = f_zero, se_MinPrice = f_zero, se_EditingSubID = [], se_OldMinPrice = f_zero,
     se_OldMaxPrice = f_zero, se_Page = 0\<rparr>"

lemma idle_simps [simp]:
  "se_Step idle = StepIdle" "se_LookupID idle = []" "se_ProductName idle = []" "se_ProductURL idle = []"
  "se_CurrentPrice idle = f_zero" "se_MinPrice idle = f_zero" "se_EditingSubID idle = []"
  "se_OldMinPrice idle = f_zero" "se_OldMaxPrice idle = f_zero" "se_Page idle = 0"
  by (simp_all add: idle_def)

type_synonym sessions = "int \<rightharpoonup> Session"

section \<open>The store\<close>

definition Get :: "int \<Rightarrow> sessions \<Rightarrow> Session" where
  "Get chatID s = (case s chatID of Some sess \<Rightarrow> sess | None \<Rightarrow> idle)"

text \<open>\<open>Set\<close>; \<open>None\<close> is the nil pointer.\<close>

definition Set :: "int \<Rightarrow> Session option \<Rightarrow> sessions \<Rightarrow> sessions" where
  "Set chatID sess s = (case sess of None \<Rightarrow> s(chatID := None) | Some x \<Rightarrow> s(chatID \<mapsto> x))"

definition Update :: "int \<Rightarrow> (Session \<Rightarrow> Session) \<Rightarrow> sessions \<Rightarrow> sessions" where
  "Update chatID fn s =
     (let sess = fn (Get chatID s)
      in if se_Step sess = StepIdle \<and> se_LookupID sess = [] \<and> se_EditingSubID sess = [] \<and> se_Page sess = 0
         then s(chatID := None) else s(chatID \<mapsto> sess))"

definition CompleteLookup :: "int \<Rightarrow> string \<Rightarrow> Session \<Rightarrow> sessions \<Rightarrow> sessions \<times> bool" where
  "CompleteLookup chatID lookupID result s =
     (case s chatID of
        None \<Rightarrow> (s, False)
      | Some current \<Rightarrow>
          if se_Step current \<noteq> StepWaitingLookup \<or> se_LookupID current \<noteq> lookupID then (s, False)
          else (s(chatID \<mapsto> result\<lparr>se_Page := se_Page current\<rparr>), True))"

definition Clear :: "int \<Rightarrow> sessions \<Rightarrow> sessions" where
  "Clear chatID s = s(chatID := None)"

section \<open>Laws\<close>

lemma Get_Set: "Get c (Set d x s) = (if c = d then (case x of None \<Rightarrow> idle | Some y \<Rightarrow> y) else Get c s)"
  by (simp add: Get_def Set_def split: option.splits)

lemma Get_Clear: "Get c (Clear d s) = (if c = d then idle else Get c s)"
  by (simp add: Get_def Clear_def)

lemma CompleteLookup_once:
  assumes "CompleteLookup c i r s = (s', True)" and "se_Step r \<noteq> StepWaitingLookup \<or> se_LookupID r \<noteq> i"
  shows "CompleteLookup c i r' s' = (s', False)"
  using assms by (auto simp: CompleteLookup_def split: option.splits if_splits)

lemma CompleteLookup_other: "CompleteLookup c i r s = (s', b) \<Longrightarrow> c \<noteq> d \<Longrightarrow> s' d = s d"
  by (auto simp: CompleteLookup_def split: option.splits if_splits)

lemma Update_other: "c \<noteq> d \<Longrightarrow> Update c fn s d = s d"
  by (simp add: Update_def Let_def)

text \<open>A dropped idle session reads as it would have been stored, up to prices and names.\<close>

lemma Get_Update_fields:
  "se_Step (Get c (Update c fn s)) = se_Step (fn (Get c s))"
  "se_LookupID (Get c (Update c fn s)) = se_LookupID (fn (Get c s))"
  "se_EditingSubID (Get c (Update c fn s)) = se_EditingSubID (fn (Get c s))"
  "se_Page (Get c (Update c fn s)) = se_Page (fn (Get c s))"
  by (auto simp: Get_def Update_def Let_def split: option.splits)

end
