(* ===== verification/BotGateway.thy ===== *)
theory BotGateway
  imports Contracts
begin

text \<open>
  What the bot knows of the gateway: the structs of
  \<open>services/bot/internal/gateway/client.go\<close> and the interface \<open>Gateway\<close> of
  \<open>services/bot/internal/bot/bot.go\<close> as a record of functions on the gateway's state \<open>'g\<close>.
  An error is \<open>None\<close>: the bot only logs its text. The names that clash with the gateway's own
  have the suffix \<open>_c\<close>.
\<close>

record Subscription_c =
  gs_ID :: string
  gs_ProductID :: string
  gs_ProductName :: string
  gs_ProductURL :: string
  gs_MinPrice :: "float64 option"
  gs_MaxPrice :: "float64 option"
  gs_Paused :: bool

record LookupResult_c =
  lk_Status :: string
  lk_Name :: string
  lk_Price :: float64
  lk_URL :: string
  lk_Error :: string

record CreateSubscriptionRequest =
  cr_ChatID :: int
  cr_LookupID :: string
  cr_MinPrice :: float64
  cr_MaxPrice :: float64

record CreateSubscriptionResponse =
  cs_SubscriptionID :: string
  cs_ProductID :: string

record PricePoint_c =
  pt_Price :: float64
  pt_Currency :: string
  pt_ScrapedAt :: time

record 'g Gateway =
  gw_StartLookup :: "string \<Rightarrow> 'g \<Rightarrow> 'g \<times> string option"
  gw_PollLookup :: "string \<Rightarrow> 'g \<Rightarrow> 'g \<times> LookupResult_c option"
  gw_CreateSubscription :: "CreateSubscriptionRequest \<Rightarrow> 'g \<Rightarrow> 'g \<times> CreateSubscriptionResponse option"
  gw_ListSubscriptions :: "int \<Rightarrow> 'g \<Rightarrow> 'g \<times> Subscription_c list option"
  gw_PauseSubscription :: "int \<Rightarrow> string \<Rightarrow> 'g \<Rightarrow> 'g \<times> unit option"
  gw_ResumeSubscription :: "int \<Rightarrow> string \<Rightarrow> 'g \<Rightarrow> 'g \<times> unit option"
  gw_EditSubscription :: "int \<Rightarrow> string \<Rightarrow> float64 \<Rightarrow> float64 \<Rightarrow> 'g \<Rightarrow> 'g \<times> unit option"
  gw_DeleteSubscription :: "int \<Rightarrow> string \<Rightarrow> 'g \<Rightarrow> 'g \<times> unit option"
  gw_ForceCheck :: "int \<Rightarrow> string \<Rightarrow> 'g \<Rightarrow> 'g \<times> unit option"
  gw_GetHistory :: "int \<Rightarrow> string \<Rightarrow> 'g \<Rightarrow> 'g \<times> PricePoint_c list option"

end
