(* ===== verification/Utf8.thy ===== *)
theory Utf8
  imports GoStrings
begin

text \<open>
  Go's conversions between strings and runes: \<open>[]rune(s)\<close> decodes UTF-8, one replacement
  character per byte that does not start a valid encoding; \<open>WriteRune\<close> encodes. The lemmas
  are the round trip and that decoding resumes at every ASCII byte, so that texts built
  from pieces can be measured piece by piece. Bytes and runes are numbers here.
\<close>

definition bytes :: "string \<Rightarrow> nat list" where
  "bytes s = map of_char s"

definition replacement :: nat where "replacement = 0xFFFD"

definition valid_rune :: "nat \<Rightarrow> bool" where
  "valid_rune r \<longleftrightarrow> r < 0xD800 \<or> 0xE000 \<le> r \<and> r < 0x110000"

definition cont :: "nat \<Rightarrow> bool" where
  "cont b \<longleftrightarrow> 0x80 \<le> b \<and> b < 0xC0"

text \<open>The ranges of the second byte, by the first (the table of \<open>unicode/utf8\<close>).\<close>

definition second3 :: "nat \<Rightarrow> nat \<Rightarrow> bool" where
  "second3 b0 b \<longleftrightarrow> cont b \<and> (b0 = 0xE0 \<longrightarrow> 0xA0 \<le> b) \<and> (b0 = 0xED \<longrightarrow> b < 0xA0)"

definition second4 :: "nat \<Rightarrow> nat \<Rightarrow> bool" where
  "second4 b0 b \<longleftrightarrow> cont b \<and> (b0 = 0xF0 \<longrightarrow> 0x90 \<le> b) \<and> (b0 = 0xF4 \<longrightarrow> b < 0x90)"

text \<open>\<open>utf8.DecodeRune\<close> of a nonempty string: the rune and its width.\<close>

definition decode2 :: "nat \<Rightarrow> nat list \<Rightarrow> nat \<times> nat" where
  "decode2 b0 bs = (case bs of b1 # _ \<Rightarrow>
     if cont b1 then ((b0 - 0xC0) * 64 + (b1 - 0x80), 2) else (replacement, 1) | _ \<Rightarrow> (replacement, 1))"

definition decode3 :: "nat \<Rightarrow> nat list \<Rightarrow> nat \<times> nat" where
  "decode3 b0 bs = (case bs of b1 # b2 # _ \<Rightarrow>
     if second3 b0 b1 \<and> cont b2 then ((b0 - 0xE0) * 4096 + (b1 - 0x80) * 64 + (b2 - 0x80), 3)
     else (replacement, 1) | _ \<Rightarrow> (replacement, 1))"

definition decode4 :: "nat \<Rightarrow> nat list \<Rightarrow> nat \<times> nat" where
  "decode4 b0 bs = (case bs of b1 # b2 # b3 # _ \<Rightarrow>
     if second4 b0 b1 \<and> cont b2 \<and> cont b3
     then ((b0 - 0xF0) * 262144 + (b1 - 0x80) * 4096 + (b2 - 0x80) * 64 + (b3 - 0x80), 4)
     else (replacement, 1) | _ \<Rightarrow> (replacement, 1))"

definition decode_rune :: "nat \<Rightarrow> nat list \<Rightarrow> nat \<times> nat" where
  "decode_rune b0 bs =
     (if b0 < 0x80 then (b0, 1)
      else if 0xC2 \<le> b0 \<and> b0 < 0xE0 then decode2 b0 bs
      else if 0xE0 \<le> b0 \<and> b0 < 0xF0 then decode3 b0 bs
      else if 0xF0 \<le> b0 \<and> b0 < 0xF5 then decode4 b0 bs
      else (replacement, 1))"

lemmas decode_defs = decode_rune_def decode2_def decode3_def decode4_def

lemma decode_width: "decode_rune b0 bs = (r, n) \<Longrightarrow> 0 < n \<and> n \<le> Suc (length bs)"
  by (auto simp: decode_defs split: if_splits list.splits)

text \<open>\<open>[]rune(s)\<close>, on bytes.\<close>

function decode :: "nat list \<Rightarrow> nat list" where
  "decode [] = []"
| "decode (b0 # bs) = (case decode_rune b0 bs of (r, n) \<Rightarrow> r # decode (drop (n - 1) bs))"
  by pat_completeness auto
termination
  by (relation "measure length") auto

declare decode.simps(2) [simp del]

definition runes :: "string \<Rightarrow> nat list" where
  "runes s = decode (bytes s)"

text \<open>\<open>utf8.AppendRune\<close>.\<close>

definition encode_rune :: "nat \<Rightarrow> nat list" where
  "encode_rune r =
     (if r < 0x80 then [r]
      else if r < 0x800 then [0xC0 + r div 64, 0x80 + r mod 64]
      else if r < 0x10000 then [0xE0 + r div 4096, 0x80 + r div 64 mod 64, 0x80 + r mod 64]
      else [0xF0 + r div 262144, 0x80 + r div 4096 mod 64, 0x80 + r div 64 mod 64, 0x80 + r mod 64])"

text \<open>\<open>string(runes)\<close> and \<open>WriteRune\<close> after one another: what is no rune becomes the replacement.\<close>

definition encode :: "nat list \<Rightarrow> string" where
  "encode rs = utf8 (concat (map (\<lambda>r. encode_rune (if valid_rune r then r else replacement)) rs))"

text \<open>\<open>utf16.Encode\<close>.\<close>

definition utf16_rune :: "nat \<Rightarrow> nat list" where
  "utf16_rune r =
     (if r < 0xD800 \<or> 0xE000 \<le> r \<and> r < 0x10000 then [r]
      else if 0x10000 \<le> r \<and> r \<le> 0x10FFFF
      then [0xD800 + (r - 0x10000) div 1024, 0xDC00 + (r - 0x10000) mod 1024]
      else [replacement])"

definition utf16_encode :: "nat list \<Rightarrow> nat list" where
  "utf16_encode rs = concat (map utf16_rune rs)"

definition utf16Units :: "string \<Rightarrow> int" where
  "utf16Units s = int (length (utf16_encode (runes s)))"

section \<open>Round trip\<close>

lemma decode_valid: "decode_rune b0 bs = (r, n) \<Longrightarrow> valid_rune r"
proof -
  assume d: "decode_rune b0 bs = (r, n)"
  have two: "(b0 - 0xC0) * 64 + (b1 - 0x80) < 0xD800" if "b0 < 0xE0" "cont b1" for b1
  proof -
    have "b0 - 0xC0 < 0x20" "b1 - 0x80 < 0x40" using that unfolding cont_def by linarith+
    then show ?thesis by linarith
  qed
  have three: "valid_rune ((b0 - 0xE0) * 4096 + (b1 - 0x80) * 64 + (b2 - 0x80))"
    if "0xE0 \<le> b0" "b0 < 0xF0" "second3 b0 b1" "cont b2" for b1 b2
  proof -
    obtain k where k: "b0 = 0xE0 + k" using \<open>0xE0 \<le> b0\<close> le_Suc_ex by blast
    from that have "cont b1" by (simp add: second3_def)
    then obtain m where m: "b1 = 0x80 + m" "m < 0x40"
      unfolding cont_def using le_Suc_ex by fastforce
    from \<open>cont b2\<close> obtain l where l: "b2 = 0x80 + l" "l < 0x40"
      unfolding cont_def using le_Suc_ex by fastforce
    have "k < 0x10" "k = 0xD \<longrightarrow> m < 0x20" using that k m by (auto simp: second3_def)
    moreover have "k * 4096 + m * 64 + l < 0xD800 \<or> 0xE000 \<le> k * 4096 + m * 64 + l"
    proof (cases "k \<le> 0xC")
      case False
      with \<open>k = 0xD \<longrightarrow> m < 0x20\<close> l show ?thesis by (cases "k = 0xD") linarith+
    qed (use m l in linarith)
    ultimately show ?thesis using k m l by (auto simp: valid_rune_def)
  qed
  have four: "valid_rune ((b0 - 0xF0) * 262144 + (b1 - 0x80) * 4096 + (b2 - 0x80) * 64 + (b3 - 0x80))"
    if "0xF0 \<le> b0" "b0 < 0xF5" "second4 b0 b1" "cont b2" "cont b3" for b1 b2 b3
  proof -
    obtain k where k: "b0 = 0xF0 + k" using \<open>0xF0 \<le> b0\<close> le_Suc_ex by blast
    from that have "cont b1" by (simp add: second4_def)
    then obtain m where m: "b1 = 0x80 + m" "m < 0x40"
      unfolding cont_def using le_Suc_ex by fastforce
    have "b2 - 0x80 < 0x40" "b3 - 0x80 < 0x40" using that unfolding cont_def by linarith+
    moreover have "k < 5" "k = 0 \<longrightarrow> 0x10 \<le> m" "k = 4 \<longrightarrow> m < 0x10"
      using that k m by (auto simp: second4_def)
    moreover have "0x10000 \<le> k * 262144 + m * 4096" using calculation by (cases "k = 0") linarith+
    moreover have "k * 262144 + m * 4096 + 4096 \<le> 0x110000"
      using calculation m by (cases "k = 4") linarith+
    ultimately show ?thesis using k m unfolding valid_rune_def by simp
  qed
  show ?thesis
    using d two three four
    by (auto simp: decode_defs replacement_def valid_rune_def split: if_splits list.splits)
qed

lemma runes_valid: "r \<in> set (decode bs) \<Longrightarrow> valid_rune r"
proof (induction bs rule: decode.induct)
  case (2 b0 bs)
  obtain x n where "decode_rune b0 bs = (x, n)" by fastforce
  with 2 decode_valid show ?case by (auto simp: decode.simps)
qed simp

lemma digits64: "(r::nat) = r div 4096 * 4096 + r div 64 mod 64 * 64 + r mod 64"
proof -
  have "r div 64 div 64 = r div 4096" by (simp add: div_mult2_eq[symmetric])
  moreover have "r div 64 = r div 64 div 64 * 64 + r div 64 mod 64" by simp
  moreover have "r = r div 64 * 64 + r mod 64" by simp
  ultimately show ?thesis by linarith
qed

lemma digits64': "(r::nat) = r div 262144 * 262144 + r div 4096 mod 64 * 4096 + r div 64 mod 64 * 64 + r mod 64"
proof -
  have "r div 4096 div 64 = r div 262144" by (simp add: div_mult2_eq[symmetric])
  moreover have "r div 4096 = r div 4096 div 64 * 64 + r div 4096 mod 64" by simp
  ultimately show ?thesis using digits64[of r] by linarith
qed

lemma decode_encode_rune:
  assumes "valid_rune r"
  shows "decode (encode_rune r @ bs) = r # decode bs"
proof -
  define a b l m where "a = r div 4096" and "b = r div 262144" and "l = r mod 64" and "m = r div 64 mod 64"
  define n where "n = r div 4096 mod 64"
  have eq3: "r = a * 4096 + m * 64 + l" unfolding a_def m_def l_def by (rule digits64)
  have eq4: "r = b * 262144 + n * 4096 + m * 64 + l"
    unfolding b_def n_def m_def l_def by (rule digits64')
  have lt: "l < 64" "m < 64" "n < 64" by (simp_all add: l_def m_def n_def)
  consider "r < 0x80" | "0x80 \<le> r" "r < 0x800" | "0x800 \<le> r" "r < 0x10000" | "0x10000 \<le> r" by linarith
  then show ?thesis
  proof cases
    case 1
    then show ?thesis by (simp add: encode_rune_def decode.simps decode_rune_def)
  next
    case 2
    then have "encode_rune r = [0xC0 + r div 64, 0x80 + l]" by (simp add: encode_rune_def l_def)
    moreover have "2 \<le> r div 64" "r div 64 < 32" using 2 by auto
    moreover have "r div 64 * 64 + l = r" by (simp add: l_def)
    ultimately show ?thesis using lt
      by (simp add: decode.simps decode_rune_def decode2_def cont_def)
  next
    case 3
    then have "encode_rune r = [0xE0 + a, 0x80 + m, 0x80 + l]"
      by (simp add: encode_rune_def a_def m_def l_def)
    moreover have "a < 16" using 3 eq3 by linarith
    moreover have "a = 0 \<longrightarrow> 32 \<le> m" using 3 eq3 lt by (intro impI) linarith
    moreover have "a = 13 \<longrightarrow> m < 32" using assms eq3 lt by (intro impI) (auto simp: valid_rune_def)
    ultimately show ?thesis using lt eq3[symmetric]
      by (simp add: decode.simps decode_rune_def decode3_def second3_def cont_def)
  next
    case 4
    then have "encode_rune r = [0xF0 + b, 0x80 + n, 0x80 + m, 0x80 + l]"
      by (simp add: encode_rune_def b_def m_def l_def n_def)
    moreover have "b < 5" using assms 4 eq4 by (auto simp: valid_rune_def)
    moreover have "b = 0 \<longrightarrow> 16 \<le> n" using 4 eq4 lt by (intro impI) linarith
    moreover have "b = 4 \<longrightarrow> n < 16" using assms 4 eq4 lt by (intro impI) (auto simp: valid_rune_def)
    ultimately show ?thesis using lt eq4[symmetric]
      by (simp add: decode.simps decode_rune_def decode4_def second4_def cont_def)
  qed
qed

section \<open>Texts in pieces\<close>

lemma bytes_append [simp]: "bytes (s @ t) = bytes s @ bytes t"
  by (simp add: bytes_def)

lemma bytes_utf8: "\<forall>b \<in> set bs. b < 256 \<Longrightarrow> bytes (utf8 bs) = bs"
  by (induction bs) (simp_all add: bytes_def utf8_def)

lemma encode_rune_bytes: "valid_rune r \<Longrightarrow> b \<in> set (encode_rune r) \<Longrightarrow> b < 256"
proof -
  assume v: "valid_rune r" and b: "b \<in> set (encode_rune r)"
  have "r div 262144 < 5" using v by (auto simp: valid_rune_def)
  moreover have "r < 0x800 \<Longrightarrow> r div 64 < 32" "r < 0x10000 \<Longrightarrow> r div 4096 < 16" by auto
  moreover have "r mod 64 < 64" "r div 64 mod 64 < 64" "r div 4096 mod 64 < 64" by auto
  ultimately show "b < 256" using b unfolding encode_rune_def by (auto split: if_splits)
qed

text \<open>A piece is complete when the text after it is decoded as on its own.\<close>

definition complete :: "string \<Rightarrow> bool" where
  "complete s \<longleftrightarrow> (\<forall>bs. decode (bytes s @ bs) = runes s @ decode bs)"

lemma completeD: "complete s \<Longrightarrow> runes (s @ t) = runes s @ runes t"
  by (simp add: complete_def runes_def)

lemma complete_Nil [simp]: "complete []"
  by (simp add: complete_def bytes_def runes_def)

lemma complete_append [intro]: "complete s \<Longrightarrow> complete t \<Longrightarrow> complete (s @ t)"
  by (simp add: complete_def runes_def)

lemma runes_encode_append:
  assumes "\<forall>r \<in> set rs. valid_rune r"
  shows "decode (concat (map encode_rune rs) @ bs) = rs @ decode bs"
  using assms by (induction rs) (simp_all add: decode_encode_rune)

lemma bytes_encode:
  assumes "\<forall>r \<in> set rs. valid_rune r"
  shows "bytes (encode rs) = concat (map encode_rune rs)"
proof -
  have "map (\<lambda>r. encode_rune (if valid_rune r then r else replacement)) rs = map encode_rune rs"
    using assms by simp
  then have "encode rs = utf8 (concat (map encode_rune rs))" by (simp only: encode_def)
  moreover have "\<forall>b \<in> set (concat (map encode_rune rs)). b < 256"
    using assms encode_rune_bytes by fastforce
  ultimately show ?thesis by (simp only: bytes_utf8)
qed

lemma runes_encode: "\<forall>r \<in> set rs. valid_rune r \<Longrightarrow> runes (encode rs) = rs"
  using runes_encode_append [of rs "[]"] by (simp add: runes_def bytes_encode)

lemma complete_encode: "\<forall>r \<in> set rs. valid_rune r \<Longrightarrow> complete (encode rs)"
  by (simp add: complete_def bytes_encode runes_encode_append runes_encode)

text \<open>Decoding starts afresh at an ASCII byte.\<close>

definition ascii_start :: "string \<Rightarrow> bool" where
  "ascii_start s \<longleftrightarrow> s = [] \<or> (of_char (hd s) :: nat) < 0x80"

lemma decode_rune_append:
  assumes "bs' = [] \<or> hd bs' < 0x80"
  shows "decode_rune b0 (bs @ bs') = decode_rune b0 bs"
proof -
  have n: "\<not> cont b" if "b < 0x80" for b using that by (simp add: cont_def)
  show ?thesis
  proof (cases bs')
    case (Cons c cs)
    with assms have "\<not> cont c" by (simp add: n)
    moreover then have "\<not> second3 b0 c" "\<not> second4 b0 c" by (simp_all add: second3_def second4_def)
    moreover have "bs = [] \<or> (\<exists>x. bs = [x]) \<or> (\<exists>x y. bs = [x, y]) \<or> (\<exists>x y z r. bs = x # y # z # r)"
      by (metis list.exhaust)
    ultimately show ?thesis unfolding Cons
      by (elim disjE exE) (simp_all add: decode_defs split: list.splits)
  qed simp
qed

lemma decode_append:
  assumes "bs' = [] \<or> hd bs' < 0x80"
  shows "decode (bs @ bs') = decode bs @ decode bs'"
proof (induction bs rule: decode.induct)
  case (2 b0 bs)
  obtain r n where d: "decode_rune b0 bs = (r, n)" by fastforce
  with decode_width have "n - 1 \<le> length bs" by fastforce
  moreover have "decode (drop (n - 1) bs @ bs') = decode (drop (n - 1) bs) @ decode bs'"
    using 2 [OF d[symmetric]] by simp
  ultimately show ?case using decode_rune_append [OF assms, of b0 bs] d
    by (simp add: decode.simps)
qed simp

lemma runes_append_ascii: "ascii_start t \<Longrightarrow> runes (s @ t) = runes s @ runes t"
  unfolding runes_def bytes_append by (rule decode_append) (cases t, auto simp: ascii_start_def bytes_def)

lemma complete_ascii:
  assumes "\<forall>c \<in> set s. (of_char c :: nat) < 0x80"
  shows "complete s"
proof -
  have "decode (map of_char s @ bs) = map of_char s @ decode bs" for bs
    using assms by (induction s) (simp_all add: decode.simps decode_rune_def)
  from this [of "[]"] this show ?thesis by (simp add: complete_def runes_def bytes_def)
qed

lemma runes_ascii: "\<forall>c \<in> set s. (of_char c :: nat) < 0x80 \<Longrightarrow> runes s = map of_char s"
  by (induction s) (simp_all add: runes_def bytes_def decode.simps decode_rune_def)

section \<open>UTF-16 units\<close>

lemma utf16Units_append:
  assumes "complete s \<or> ascii_start t"
  shows "utf16Units (s @ t) = utf16Units s + utf16Units t"
  using assms by (auto simp: utf16Units_def utf16_encode_def completeD runes_append_ascii)

lemma utf16Units_nonneg [simp]: "0 \<le> utf16Units s"
  by (simp add: utf16Units_def)

lemma utf16Units_ascii:
  assumes "\<forall>c \<in> set s. (of_char c :: nat) < 0x80"
  shows "utf16Units s = int (length s)"
proof -
  have "length (utf16_encode (map of_char s)) = length s"
    using assms by (induction s) (simp_all add: utf16_encode_def utf16_rune_def)
  with runes_ascii [OF assms] show ?thesis by (simp add: utf16Units_def)
qed

lemma utf16Units_Nil [simp]: "utf16Units [] = 0"
  by (simp add: utf16Units_def utf16_encode_def runes_def bytes_def)

section \<open>Literals\<close>

text \<open>Decoding one character at a time, for the texts of the sources.\<close>

lemma decode_steps:
  "b0 < 0x80 \<Longrightarrow> decode (b0 # bs) = b0 # decode bs"
  "0xC2 \<le> b0 \<Longrightarrow> b0 < 0xE0 \<Longrightarrow> cont b1 \<Longrightarrow>
     decode (b0 # b1 # bs) = ((b0 - 0xC0) * 64 + (b1 - 0x80)) # decode bs"
  "0xE0 \<le> b0 \<Longrightarrow> b0 < 0xF0 \<Longrightarrow> second3 b0 b1 \<Longrightarrow> cont b2 \<Longrightarrow>
     decode (b0 # b1 # b2 # bs) = ((b0 - 0xE0) * 4096 + (b1 - 0x80) * 64 + (b2 - 0x80)) # decode bs"
  "0xF0 \<le> b0 \<Longrightarrow> b0 < 0xF5 \<Longrightarrow> second4 b0 b1 \<Longrightarrow> cont b2 \<Longrightarrow> cont b3 \<Longrightarrow>
     decode (b0 # b1 # b2 # b3 # bs) =
       ((b0 - 0xF0) * 262144 + (b1 - 0x80) * 4096 + (b2 - 0x80) * 64 + (b3 - 0x80)) # decode bs"
  by (simp_all add: decode.simps decode_defs)

lemmas decode_eval = bytes_utf8 decode_steps cont_def second3_def second4_def

lemma literalI:
  assumes "\<And>bs. decode (bytes s @ bs) = rs @ decode bs"
  shows "complete s" and "utf16Units s = int (length (utf16_encode rs))"
proof -
  from assms [of "[]"] have "runes s = rs" by (simp add: runes_def)
  with assms show "complete s" "utf16Units s = int (length (utf16_encode rs))"
    by (simp_all add: complete_def utf16Units_def)
qed

end
