(* ===== verification/MyList.thy ===== *)
theory MyList
  imports BotGateway Utf8
begin

text \<open>
  The product list of the Telegram bot, \<open>services/bot/internal/bot/mylist.go\<close>: the text of an
  entry, the division into pages of at most ten entries and 4096 UTF-16 units, the buttons, and
  the switch of \<open>handleCallback\<close> (\<open>bot.go\<close>) that reads what the buttons carry. The property
  is that the pages show every subscription exactly once within Telegram's limits, and that every
  button comes back as the operation it names on the subscription it stands under.
\<close>

section \<open>Texts\<close>

definition txt_header1 :: string where \<comment> \<open>clipboard, "Your products ("\<close>
  "txt_header1 = utf8
     [240, 159, 147, 139, 32, 208, 162, 208, 178, 208, 190, 208, 184, 32, 209, 130, 208, 190,
      208, 178, 208, 176, 209, 128, 209, 139, 32, 40]"

definition txt_header2 :: string where \<comment> \<open>") - page "\<close>
  "txt_header2 = utf8
     [41, 32, 226, 128, 148, 32, 209, 129, 209, 130, 209, 128, 208, 176, 208, 189, 208, 184, 209,
      134, 208, 176, 32]"

definition txt_paused :: string where \<comment> \<open>" " and the pause sign\<close>
  "txt_paused = utf8
     [32, 226, 143, 184]"

definition txt_dash :: string where \<comment> \<open>a dash between spaces\<close>
  "txt_dash = utf8
     [32, 226, 128, 148, 32]"

definition txt_rouble :: string where \<comment> \<open>" ", the rouble sign, newline\<close>
  "txt_rouble = utf8
     [32, 226, 130, 189, 10]"

definition txt_bullet :: string where \<comment> \<open>three spaces and a bullet\<close>
  "txt_bullet = utf8
     [32, 32, 32, 226, 128, 162, 32]"

definition txt_ellipsis :: string where \<comment> \<open>an ellipsis\<close>
  "txt_ellipsis = utf8
     [226, 128, 166]"

definition txt_pause :: string where \<comment> \<open>the pause sign\<close>
  "txt_pause = utf8
     [226, 143, 184]"

definition txt_resume :: string where \<comment> \<open>the play sign\<close>
  "txt_resume = utf8
     [226, 150, 182]"

definition txt_edit :: string where \<comment> \<open>a pencil and a space\<close>
  "txt_edit = utf8
     [226, 156, 143, 239, 184, 143, 32]"

definition txt_history :: string where \<comment> \<open>"History"\<close>
  "txt_history = utf8
     [240, 159, 147, 138, 32, 208, 152, 209, 129, 209, 130, 208, 190, 209, 128, 208, 184, 209,
      143]"

definition txt_check :: string where \<comment> \<open>"Check"\<close>
  "txt_check = utf8
     [240, 159, 148, 132, 32, 208, 159, 209, 128, 208, 190, 208, 178, 208, 181, 209, 128, 208,
      184, 209, 130, 209, 140]"

definition txt_delete1 :: string where \<comment> \<open>"Delete" and a left quote\<close>
  "txt_delete1 = utf8
     [240, 159, 151, 145, 32, 208, 163, 208, 180, 208, 176, 208, 187, 208, 184, 209, 130, 209,
      140, 32, 194, 171]"

definition txt_delete2 :: string where \<comment> \<open>the right quote\<close>
  "txt_delete2 = utf8
     [194, 187]"

definition txt_back :: string where \<comment> \<open>"Back"\<close>
  "txt_back = utf8
     [226, 134, 144, 32, 208, 157, 208, 176, 208, 183, 208, 176, 208, 180]"

definition txt_next :: string where \<comment> \<open>"Next"\<close>
  "txt_next = utf8
     [208, 148, 208, 176, 208, 187, 209, 140, 209, 136, 208, 181, 32, 226, 134, 146]"

section \<open>Truncation\<close>

definition maxInt :: "int \<Rightarrow> int \<Rightarrow> int" where
  "maxInt a b = (if a > b then a else b)"

definition rune_units :: "nat \<Rightarrow> int" where
  "rune_units r = (if r > 0xFFFF then 2 else 1)"

text \<open>The second loop of \<open>truncateUTF16\<close>.\<close>

fun take_units :: "int \<Rightarrow> int \<Rightarrow> nat list \<Rightarrow> nat list" where
  "take_units limit units [] = []"
| "take_units limit units (r # rs) =
     (if units + rune_units r > limit then []
      else r # take_units limit (units + rune_units r) rs)"

definition truncateUTF16 :: "string \<Rightarrow> int \<Rightarrow> string" where
  "truncateUTF16 s maxUnits =
     (if maxUnits \<le> 0 then []
      else let rs = runes s; count = (\<Sum>r\<leftarrow>rs. rune_units r)
      in if count \<le> maxUnits then s
         else encode (take_units (maxUnits - 1) 0 rs) @ txt_ellipsis)"

definition truncate :: "string \<Rightarrow> nat \<Rightarrow> string" where
  "truncate s max_len =
     (let rs = runes s
      in if length rs \<le> max_len then s else encode (take max_len rs) @ txt_ellipsis)"

section \<open>Entries\<close>

definition telegramTextLimit :: int where "telegramTextLimit = 4096"
definition myListPageItems :: nat where "myListPageItems = 10"

definition myListHeader :: "int \<Rightarrow> int \<Rightarrow> string" where
  "myListHeader count page = txt_header1 @ show_int count @ txt_header2 @ show_int page @ [CHR '':'', CHR 0x0A]"

definition myListEntry :: "Subscription_c \<Rightarrow> int \<Rightarrow> int \<Rightarrow> string" where
  "myListEntry s index maxUnits =
     (let status = (if gs_Paused s then txt_paused else []);
          sb = [CHR 0x0A] @ show_int index @ ''. '' @ truncateUTF16 (gs_ProductName s) 200 @ status @ [CHR 0x0A];
          sb = sb @ (case (gs_MinPrice s, gs_MaxPrice s) of
                 (Some mn, Some mx) \<Rightarrow> ''   '' @ fmt_f0 mn @ txt_dash @ fmt_f0 mx @ txt_rouble
               | _ \<Rightarrow> [])
      in if gs_ProductURL s = [] then sb
         else let remaining = maxUnits - utf16Units sb - utf16Units txt_bullet - 1
         in sb @ txt_bullet @ truncateUTF16 (gs_ProductURL s) remaining @ [CHR 0x0A])"

text \<open>The first loop of \<open>buildMyListPage\<close>.\<close>

definition entries :: "Subscription_c list \<Rightarrow> string list" where
  "entries subs =
     (let count = int (length subs); headerBudget = utf16Units (myListHeader count (maxInt 1 count))
      in map (\<lambda>i. myListEntry (subs ! i) (int i + 1) (telegramTextLimit - headerBudget)) [0..<length subs])"

section \<open>Pages\<close>

text \<open>The second loop, with its variables \<open>pages\<close>, \<open>current\<close> and \<open>textUnits\<close>.\<close>

fun page_loop :: "int \<Rightarrow> nat \<Rightarrow> string list \<Rightarrow> nat list list \<Rightarrow> nat list \<Rightarrow> int \<Rightarrow> nat list list \<times> nat list" where
  "page_loop count i [] pages current textUnits = (pages, current)"
| "page_loop count i (entry # es) pages current textUnits =
     (let units = utf16Units entry
      in if 0 < length current \<and> (length current = myListPageItems \<or> textUnits + units > telegramTextLimit)
         then let pages' = pages @ [current]
              in page_loop count (Suc i) es pages' [i]
                   (utf16Units (myListHeader count (int (length pages') + 1)) + units)
         else page_loop count (Suc i) es pages (current @ [i]) (textUnits + units))"

definition list_pages :: "Subscription_c list \<Rightarrow> nat list list" where
  "list_pages subs =
     (let count = int (length subs);
          (pages, current) = page_loop count 0 (entries subs) [] [] (utf16Units (myListHeader count 1))
      in if 0 < length current \<or> pages = [] then pages @ [current] else pages)"

definition actual_page :: "Subscription_c list \<Rightarrow> int \<Rightarrow> int" where
  "actual_page subs page =
     (let n = int (length (list_pages subs)); page = (if page < 1 then 1 else page)
      in if page > n then n else page)"

text \<open>A button is its label and its callback data.\<close>

type_synonym button = "string \<times> string"

definition sub_rows :: "Subscription_c \<Rightarrow> button list list" where
  "sub_rows s =
     (let name = truncate (gs_ProductName s) 22;
          pauseBtn = (if gs_Paused s then (txt_resume, ''resume_sub:'' @ gs_ID s)
                      else (txt_pause, ''pause_sub:'' @ gs_ID s))
      in [[(txt_edit @ name, ''edit_sub:'' @ gs_ID s), pauseBtn],
          [(txt_history, ''history_sub:'' @ gs_ID s), (txt_check, ''check_sub:'' @ gs_ID s)],
          [(txt_delete1 @ truncate (gs_ProductName s) 20 @ txt_delete2, ''del_sub:'' @ gs_ID s)]])"

definition nav_row :: "int \<Rightarrow> int \<Rightarrow> button list" where
  "nav_row actualPage n =
     (if actualPage > 1 then [(txt_back, ''page:'' @ show_int (actualPage - 1))] else []) @
     (if actualPage < n then [(txt_next, ''page:'' @ show_int (actualPage + 1))] else [])"

definition buildMyListPage :: "Subscription_c list \<Rightarrow> int \<Rightarrow> string \<times> button list list \<times> int" where
  "buildMyListPage subs page =
     (let es = entries subs; pages = list_pages subs; actualPage = actual_page subs page;
          shown = pages ! nat (actualPage - 1); n = int (length pages);
          text = myListHeader (int (length subs)) actualPage @ concat (map (\<lambda>i. es ! i) shown);
          rows = concat (map (\<lambda>i. sub_rows (subs ! i)) shown)
      in (text, rows @ (if actualPage > 1 \<or> actualPage < n then [nav_row actualPage n] else []), actualPage))"

section \<open>Callback data\<close>

text \<open>
  The switch of \<open>handleCallback\<close>: what a callback asks for. \<open>strconv.Atoi\<close> is \<open>ParseInt\<close> with
  base 10 and 64 bits.
\<close>

datatype callback =
    ShowPage int
  | EditSub string
  | PauseSub string
  | ResumeSub string
  | DeleteSub string
  | HistorySub string
  | CheckSub string
  | NoAction

definition callback_of :: "string \<Rightarrow> callback" where
  "callback_of data =
     (if has_prefix data ''page:'' then
        (case parse_int64 (trim_prefix data ''page:'') of
           Some page \<Rightarrow> if page \<ge> 1 then ShowPage page else NoAction
         | None \<Rightarrow> NoAction)
      else if has_prefix data ''edit_sub:'' then EditSub (trim_prefix data ''edit_sub:'')
      else if has_prefix data ''pause_sub:'' then PauseSub (trim_prefix data ''pause_sub:'')
      else if has_prefix data ''resume_sub:'' then ResumeSub (trim_prefix data ''resume_sub:'')
      else if has_prefix data ''del_sub:'' then DeleteSub (trim_prefix data ''del_sub:'')
      else if has_prefix data ''history_sub:'' then HistorySub (trim_prefix data ''history_sub:'')
      else if has_prefix data ''check_sub:'' then CheckSub (trim_prefix data ''check_sub:'')
      else NoAction)"

end
