(* ===== verification/BotTexts.thy ===== *)
theory BotTexts
  imports GoStrings
begin

text \<open>
  The texts the bot sends, as the UTF-8 bytes of the literals of \<open>services/bot/internal/bot\<close>
  (\<open>bot.go\<close>, \<open>search.go\<close>, \<open>edit.go\<close>, \<open>mylist.go\<close>).
\<close>

definition txt_welcome :: string where \<comment> \<open>the welcome with an example\<close>
  "txt_welcome = utf8
     [208, 159, 209, 128, 208, 184, 208, 178, 208, 181, 209, 130, 33, 32, 208, 159, 209, 128,
      208, 184, 209, 136, 208, 187, 208, 184, 32, 209, 129, 209, 129, 209, 139, 208, 187, 208,
      186, 209, 131, 32, 208, 189, 208, 176, 32, 209, 130, 208, 190, 208, 178, 208, 176, 209,
      128, 32, 209, 129, 32, 87, 105, 108, 100, 98, 101, 114, 114, 105, 101, 115, 32, 226, 128,
      148, 32, 209, 143, 32, 208, 189, 208, 176, 209, 135, 208, 189, 209, 131, 32, 209, 129, 208,
      187, 208, 181, 208, 180, 208, 184, 209, 130, 209, 140, 32, 208, 183, 208, 176, 32, 209,
      134, 208, 181, 208, 189, 208, 190, 208, 185, 46, 10, 10, 208, 159, 209, 128, 208, 184, 208,
      188, 208, 181, 209, 128, 58, 10, 104, 116, 116, 112, 115, 58, 47, 47, 119, 119, 119, 46,
      119, 105, 108, 100, 98, 101, 114, 114, 105, 101, 115, 46, 114, 117, 47, 99, 97, 116, 97,
      108, 111, 103, 47, 49, 50, 51, 52, 53, 54, 55, 56, 47, 100, 101, 116, 97, 105, 108, 46, 97,
      115, 112, 120]"

definition txt_my_products :: string where \<comment> \<open>"My products", the keyboard button\<close>
  "txt_my_products = utf8
     [240, 159, 147, 139, 32, 208, 156, 208, 190, 208, 184, 32, 209, 130, 208, 190, 208, 178,
      208, 176, 209, 128, 209, 139]"

definition txt_wait :: string where \<comment> \<open>"Wait, loading the product"\<close>
  "txt_wait = utf8
     [208, 159, 208, 190, 208, 180, 208, 190, 208, 182, 208, 180, 208, 184, 44, 32, 208, 183,
      208, 176, 208, 179, 209, 128, 209, 131, 208, 182, 208, 176, 209, 142, 32, 209, 130, 208,
      190, 208, 178, 208, 176, 209, 128, 46, 46, 46]"

definition txt_send_link :: string where \<comment> \<open>"Send a link to a product"\<close>
  "txt_send_link = utf8
     [208, 159, 209, 128, 208, 184, 209, 136, 208, 187, 208, 184, 32, 209, 129, 209, 129, 209,
      139, 208, 187, 208, 186, 209, 131, 32, 208, 189, 208, 176, 32, 209, 130, 208, 190, 208,
      178, 208, 176, 209, 128, 32, 209, 129, 32, 87, 105, 108, 100, 98, 101, 114, 114, 105, 101,
      115, 46, 10, 10, 208, 159, 209, 128, 208, 184, 208, 188, 208, 181, 209, 128, 58, 10, 104,
      116, 116, 112, 115, 58, 47, 47, 119, 119, 119, 46, 119, 105, 108, 100, 98, 101, 114, 114,
      105, 101, 115, 46, 114, 117, 47, 99, 97, 116, 97, 108, 111, 103, 47, 49, 50, 51, 52, 53,
      54, 55, 56, 47, 100, 101, 116, 97, 105, 108, 46, 97, 115, 112, 120]"

definition txt_loading :: string where \<comment> \<open>"Loading the product information"\<close>
  "txt_loading = utf8
     [208, 151, 208, 176, 208, 179, 209, 128, 209, 131, 208, 182, 208, 176, 209, 142, 32, 208,
      184, 208, 189, 209, 132, 208, 190, 209, 128, 208, 188, 208, 176, 209, 134, 208, 184, 209,
      142, 32, 208, 190, 32, 209, 130, 208, 190, 208, 178, 208, 176, 209, 128, 208, 181, 46, 46,
      46]"

definition txt_busy :: string where \<comment> \<open>"Too many active lookups"\<close>
  "txt_busy = utf8
     [208, 161, 208, 181, 208, 185, 209, 135, 208, 176, 209, 129, 32, 209, 129, 208, 187, 208,
      184, 209, 136, 208, 186, 208, 190, 208, 188, 32, 208, 188, 208, 189, 208, 190, 208, 179,
      208, 190, 32, 208, 176, 208, 186, 209, 130, 208, 184, 208, 178, 208, 189, 209, 139, 209,
      133, 32, 208, 191, 208, 190, 208, 184, 209, 129, 208, 186, 208, 190, 208, 178, 46, 32, 208,
      159, 208, 190, 208, 191, 209, 128, 208, 190, 208, 177, 209, 131, 208, 185, 32, 208, 181,
      209, 137, 209, 145, 32, 209, 128, 208, 176, 208, 183, 32, 209, 135, 208, 181, 209, 128,
      208, 181, 208, 183, 32, 208, 188, 208, 184, 208, 189, 209, 131, 209, 130, 209, 131, 46]"

definition txt_start_failed :: string where \<comment> \<open>"Could not start the lookup"\<close>
  "txt_start_failed = utf8
     [208, 157, 208, 181, 32, 209, 131, 208, 180, 208, 176, 208, 187, 208, 190, 209, 129, 209,
      140, 32, 208, 183, 208, 176, 208, 191, 209, 131, 209, 129, 209, 130, 208, 184, 209, 130,
      209, 140, 32, 208, 191, 208, 190, 208, 184, 209, 129, 208, 186, 32, 209, 130, 208, 190,
      208, 178, 208, 176, 209, 128, 208, 176, 46, 32, 208, 159, 209, 128, 208, 190, 208, 178,
      208, 181, 209, 128, 209, 140, 32, 209, 129, 209, 129, 209, 139, 208, 187, 208, 186, 209,
      131, 32, 208, 184, 32, 208, 191, 208, 190, 208, 191, 209, 128, 208, 190, 208, 177, 209,
      131, 208, 185, 32, 209, 129, 208, 189, 208, 190, 208, 178, 208, 176, 46]"

definition txt_poll_failed :: string where \<comment> \<open>"Could not get the product"\<close>
  "txt_poll_failed = utf8
     [208, 157, 208, 181, 32, 209, 131, 208, 180, 208, 176, 208, 187, 208, 190, 209, 129, 209,
      140, 32, 208, 191, 208, 190, 208, 187, 209, 131, 209, 135, 208, 184, 209, 130, 209, 140,
      32, 208, 184, 208, 189, 209, 132, 208, 190, 209, 128, 208, 188, 208, 176, 209, 134, 208,
      184, 209, 142, 32, 208, 190, 32, 209, 130, 208, 190, 208, 178, 208, 176, 209, 128, 208,
      181, 46, 32, 208, 159, 208, 190, 208, 191, 209, 128, 208, 190, 208, 177, 209, 131, 208,
      185, 32, 209, 129, 208, 189, 208, 190, 208, 178, 208, 176, 46]"

definition txt_lookup_failed :: string where \<comment> \<open>"Could not get the product, check the link"\<close>
  "txt_lookup_failed = utf8
     [208, 157, 208, 181, 32, 209, 131, 208, 180, 208, 176, 208, 187, 208, 190, 209, 129, 209,
      140, 32, 208, 191, 208, 190, 208, 187, 209, 131, 209, 135, 208, 184, 209, 130, 209, 140,
      32, 208, 184, 208, 189, 209, 132, 208, 190, 209, 128, 208, 188, 208, 176, 209, 134, 208,
      184, 209, 142, 32, 208, 190, 32, 209, 130, 208, 190, 208, 178, 208, 176, 209, 128, 208,
      181, 46, 32, 208, 159, 209, 128, 208, 190, 208, 178, 208, 181, 209, 128, 209, 140, 32, 209,
      129, 209, 129, 209, 139, 208, 187, 208, 186, 209, 131, 32, 208, 184, 32, 208, 191, 208,
      190, 208, 191, 209, 128, 208, 190, 208, 177, 209, 131, 208, 185, 32, 209, 129, 208, 189,
      208, 190, 208, 178, 208, 176, 46]"

definition txt_found1 :: string where \<comment> \<open>a parcel and a space\<close>
  "txt_found1 = utf8
     [240, 159, 147, 166, 32]"

definition txt_found2 :: string where \<comment> \<open>newline, "Current price: "\<close>
  "txt_found2 = utf8
     [10, 208, 162, 208, 181, 208, 186, 209, 131, 209, 137, 208, 176, 209, 143, 32, 209, 134,
      208, 181, 208, 189, 208, 176, 58, 32]"

definition txt_found3 :: string where \<comment> \<open>"Give the lowest price. Example: "\<close>
  "txt_found3 = utf8
     [32, 226, 130, 189, 10, 10, 208, 163, 208, 186, 208, 176, 208, 182, 208, 184, 32, 208, 188,
      208, 184, 208, 189, 208, 184, 208, 188, 208, 176, 208, 187, 209, 140, 208, 189, 209, 131,
      209, 142, 32, 209, 134, 208, 181, 208, 189, 209, 131, 32, 226, 128, 148, 32, 209, 131, 208,
      178, 208, 181, 208, 180, 208, 190, 208, 188, 208, 187, 209, 142, 32, 208, 181, 209, 129,
      208, 187, 208, 184, 32, 209, 134, 208, 181, 208, 189, 208, 176, 32, 209, 131, 208, 191,
      208, 176, 208, 180, 209, 145, 209, 130, 32, 208, 189, 208, 184, 208, 182, 208, 181, 46, 10,
      10, 208, 159, 209, 128, 208, 184, 208, 188, 208, 181, 209, 128, 58, 32]"

definition txt_enter_min :: string where \<comment> \<open>"Enter a number, for example 80000"\<close>
  "txt_enter_min = utf8
     [208, 146, 208, 178, 208, 181, 208, 180, 208, 184, 32, 209, 135, 208, 184, 209, 129, 208,
      187, 208, 190, 46, 32, 208, 157, 208, 176, 208, 191, 209, 128, 208, 184, 208, 188, 208,
      181, 209, 128, 58, 32, 56, 48, 48, 48, 48]"

definition txt_enter_max :: string where \<comment> \<open>"Enter a number, for example 150000"\<close>
  "txt_enter_max = utf8
     [208, 146, 208, 178, 208, 181, 208, 180, 208, 184, 32, 209, 135, 208, 184, 209, 129, 208,
      187, 208, 190, 46, 32, 208, 157, 208, 176, 208, 191, 209, 128, 208, 184, 208, 188, 208,
      181, 209, 128, 58, 32, 49, 53, 48, 48, 48, 48]"

definition txt_current1 :: string where \<comment> \<open>"Current price: "\<close>
  "txt_current1 = utf8
     [208, 162, 208, 181, 208, 186, 209, 131, 209, 137, 208, 176, 209, 143, 32, 209, 134, 208,
      181, 208, 189, 208, 176, 58, 32]"

definition txt_current2 :: string where \<comment> \<open>the rouble sign and two newlines\<close>
  "txt_current2 = utf8
     [32, 226, 130, 189, 10, 10]"

definition txt_give_max :: string where \<comment> \<open>"Now give the highest price. Example: "\<close>
  "txt_give_max = utf8
     [208, 162, 208, 181, 208, 191, 208, 181, 209, 128, 209, 140, 32, 209, 131, 208, 186, 208,
      176, 208, 182, 208, 184, 32, 208, 188, 208, 176, 208, 186, 209, 129, 208, 184, 208, 188,
      208, 176, 208, 187, 209, 140, 208, 189, 209, 131, 209, 142, 32, 209, 134, 208, 181, 208,
      189, 209, 131, 32, 226, 128, 148, 32, 209, 131, 208, 178, 208, 181, 208, 180, 208, 190,
      208, 188, 208, 187, 209, 142, 32, 208, 181, 209, 129, 208, 187, 208, 184, 32, 209, 134,
      208, 181, 208, 189, 208, 176, 32, 208, 178, 209, 139, 209, 128, 208, 176, 209, 129, 209,
      130, 208, 181, 209, 130, 32, 208, 178, 209, 139, 209, 136, 208, 181, 46, 10, 10, 208, 159,
      209, 128, 208, 184, 208, 188, 208, 181, 209, 128, 58, 32]"

definition txt_max_above1 :: string where \<comment> \<open>"The maximum must be above the minimum ("\<close>
  "txt_max_above1 = utf8
     [208, 156, 208, 176, 208, 186, 209, 129, 208, 184, 208, 188, 209, 131, 208, 188, 32, 208,
      180, 208, 190, 208, 187, 208, 182, 208, 181, 208, 189, 32, 208, 177, 209, 139, 209, 130,
      209, 140, 32, 208, 177, 208, 190, 208, 187, 209, 140, 209, 136, 208, 181, 32, 208, 188,
      208, 184, 208, 189, 208, 184, 208, 188, 209, 131, 208, 188, 208, 176, 32, 40]"

definition txt_max_above2 :: string where \<comment> \<open>"). Try again:"\<close>
  "txt_max_above2 = utf8
     [41, 46, 32, 208, 159, 208, 190, 208, 191, 209, 128, 208, 190, 208, 177, 209, 131, 208, 185,
      32, 209, 129, 208, 189, 208, 190, 208, 178, 208, 176, 58]"

definition txt_save_failed :: string where \<comment> \<open>"Could not save the subscription"\<close>
  "txt_save_failed = utf8
     [208, 158, 209, 136, 208, 184, 208, 177, 208, 186, 208, 176, 32, 209, 129, 208, 190, 209,
      133, 209, 128, 208, 176, 208, 189, 208, 181, 208, 189, 208, 184, 209, 143, 32, 208, 191,
      208, 190, 208, 180, 208, 191, 208, 184, 209, 129, 208, 186, 208, 184, 46, 32, 208, 159,
      208, 190, 208, 191, 209, 128, 208, 190, 208, 177, 209, 131, 208, 185, 32, 209, 129, 208,
      189, 208, 190, 208, 178, 208, 176, 46]"

definition txt_done1 :: string where \<comment> \<open>"Done! Watching"\<close>
  "txt_done1 = utf8
     [208, 147, 208, 190, 209, 130, 208, 190, 208, 178, 208, 190, 33, 32, 208, 161, 208, 187,
      208, 181, 208, 182, 209, 131, 32, 208, 183, 208, 176, 32, 194, 171]"

definition txt_done2 :: string where \<comment> \<open>right quote and two newlines\<close>
  "txt_done2 = utf8
     [194, 187, 10, 10]"

definition txt_done3 :: string where \<comment> \<open>"Range: "\<close>
  "txt_done3 = utf8
     [10, 10, 208, 148, 208, 184, 208, 176, 208, 191, 208, 176, 208, 183, 208, 190, 208, 189, 58,
      32]"

definition txt_done4 :: string where \<comment> \<open>"You will be told when the price leaves the range"\<close>
  "txt_done4 = utf8
     [32, 226, 130, 189, 10, 10, 208, 163, 208, 178, 208, 181, 208, 180, 208, 190, 208, 188, 208,
      187, 209, 142, 32, 208, 181, 209, 129, 208, 187, 208, 184, 32, 209, 134, 208, 181, 208,
      189, 208, 176, 32, 208, 178, 209, 139, 208, 185, 208, 180, 208, 181, 209, 130, 32, 208,
      183, 208, 176, 32, 208, 179, 209, 128, 208, 176, 208, 189, 208, 184, 209, 134, 209, 139, 46]"

definition txt_not_found :: string where \<comment> \<open>"Subscription not found"\<close>
  "txt_not_found = utf8
     [208, 159, 208, 190, 208, 180, 208, 191, 208, 184, 209, 129, 208, 186, 208, 176, 32, 208,
      189, 208, 181, 32, 208, 189, 208, 176, 208, 185, 208, 180, 208, 181, 208, 189, 208, 176, 46]"

definition txt_editing1 :: string where \<comment> \<open>"Editing "\<close>
  "txt_editing1 = utf8
     [208, 160, 208, 181, 208, 180, 208, 176, 208, 186, 209, 130, 208, 184, 209, 128, 209, 131,
      209, 142, 32]"

definition txt_editing2 :: string where \<comment> \<open>"Give the new lowest price (now: "\<close>
  "txt_editing2 = utf8
     [10, 10, 208, 163, 208, 186, 208, 176, 208, 182, 208, 184, 32, 208, 189, 208, 190, 208, 178,
      209, 131, 209, 142, 32, 208, 188, 208, 184, 208, 189, 208, 184, 208, 188, 208, 176, 208,
      187, 209, 140, 208, 189, 209, 131, 209, 142, 32, 209, 134, 208, 181, 208, 189, 209, 131,
      32, 40, 209, 129, 208, 181, 208, 185, 209, 135, 208, 176, 209, 129, 58, 32]"

definition txt_editing3 :: string where \<comment> \<open>the rouble sign, bracket, colon\<close>
  "txt_editing3 = utf8
     [32, 226, 130, 189, 41, 58]"

definition txt_new_max :: string where \<comment> \<open>"Now give the new highest price (now: "\<close>
  "txt_new_max = utf8
     [208, 162, 208, 181, 208, 191, 208, 181, 209, 128, 209, 140, 32, 209, 131, 208, 186, 208,
      176, 208, 182, 208, 184, 32, 208, 189, 208, 190, 208, 178, 209, 131, 209, 142, 32, 208,
      188, 208, 176, 208, 186, 209, 129, 208, 184, 208, 188, 208, 176, 208, 187, 209, 140, 208,
      189, 209, 131, 209, 142, 32, 209, 134, 208, 181, 208, 189, 209, 131, 32, 40, 209, 129, 208,
      181, 208, 185, 209, 135, 208, 176, 209, 129, 58, 32]"

definition txt_edit_failed :: string where \<comment> \<open>"Could not update"\<close>
  "txt_edit_failed = utf8
     [208, 158, 209, 136, 208, 184, 208, 177, 208, 186, 208, 176, 32, 208, 190, 208, 177, 208,
      189, 208, 190, 208, 178, 208, 187, 208, 181, 208, 189, 208, 184, 209, 143, 46, 32, 208,
      159, 208, 190, 208, 191, 209, 128, 208, 190, 208, 177, 209, 131, 208, 185, 32, 209, 129,
      208, 189, 208, 190, 208, 178, 208, 176, 46]"

definition txt_edited1 :: string where \<comment> \<open>"Done! New range: "\<close>
  "txt_edited1 = utf8
     [208, 147, 208, 190, 209, 130, 208, 190, 208, 178, 208, 190, 33, 32, 208, 157, 208, 190,
      208, 178, 209, 139, 208, 185, 32, 208, 180, 208, 184, 208, 176, 208, 191, 208, 176, 208,
      183, 208, 190, 208, 189, 58, 32]"

definition txt_edited2 :: string where \<comment> \<open>"/mylist - all products"\<close>
  "txt_edited2 = utf8
     [32, 226, 130, 189, 10, 10, 47, 109, 121, 108, 105, 115, 116, 32, 226, 128, 148, 32, 208,
      191, 208, 190, 209, 129, 208, 188, 208, 190, 209, 130, 209, 128, 208, 181, 209, 130, 209,
      140, 32, 208, 178, 209, 129, 208, 181, 32, 209, 130, 208, 190, 208, 178, 208, 176, 209,
      128, 209, 139]"

definition txt_list_failed :: string where \<comment> \<open>"Could not load the list"\<close>
  "txt_list_failed = utf8
     [208, 157, 208, 181, 32, 209, 131, 208, 180, 208, 176, 208, 187, 208, 190, 209, 129, 209,
      140, 32, 208, 183, 208, 176, 208, 179, 209, 128, 209, 131, 208, 183, 208, 184, 209, 130,
      209, 140, 32, 209, 129, 208, 191, 208, 184, 209, 129, 208, 190, 208, 186, 46]"

definition txt_list_empty :: string where \<comment> \<open>"No watched products yet"\<close>
  "txt_list_empty = utf8
     [208, 163, 32, 209, 130, 208, 181, 208, 177, 209, 143, 32, 208, 191, 208, 190, 208, 186,
      208, 176, 32, 208, 189, 208, 181, 209, 130, 32, 208, 190, 209, 130, 209, 129, 208, 187,
      208, 181, 208, 182, 208, 184, 208, 178, 208, 176, 208, 181, 208, 188, 209, 139, 209, 133,
      32, 209, 130, 208, 190, 208, 178, 208, 176, 209, 128, 208, 190, 208, 178, 46, 10, 10, 208,
      159, 209, 128, 208, 184, 209, 136, 208, 187, 208, 184, 32, 209, 129, 209, 129, 209, 139,
      208, 187, 208, 186, 209, 131, 32, 208, 189, 208, 176, 32, 209, 130, 208, 190, 208, 178,
      208, 176, 209, 128, 32, 209, 129, 32, 87, 105, 108, 100, 98, 101, 114, 114, 105, 101, 115,
      32, 209, 135, 209, 130, 208, 190, 208, 177, 209, 139, 32, 208, 189, 208, 176, 209, 135,
      208, 176, 209, 130, 209, 140, 46]"

definition txt_list_emptied :: string where \<comment> \<open>"No watched products any more"\<close>
  "txt_list_emptied = utf8
     [208, 163, 32, 209, 130, 208, 181, 208, 177, 209, 143, 32, 208, 177, 208, 190, 208, 187,
      209, 140, 209, 136, 208, 181, 32, 208, 189, 208, 181, 209, 130, 32, 208, 190, 209, 130,
      209, 129, 208, 187, 208, 181, 208, 182, 208, 184, 208, 178, 208, 176, 208, 181, 208, 188,
      209, 139, 209, 133, 32, 209, 130, 208, 190, 208, 178, 208, 176, 209, 128, 208, 190, 208,
      178, 46, 10, 10, 208, 159, 209, 128, 208, 184, 209, 136, 208, 187, 208, 184, 32, 209, 129,
      209, 129, 209, 139, 208, 187, 208, 186, 209, 131, 32, 208, 189, 208, 176, 32, 209, 130,
      208, 190, 208, 178, 208, 176, 209, 128, 32, 209, 135, 209, 130, 208, 190, 208, 177, 209,
      139, 32, 208, 189, 208, 176, 209, 135, 208, 176, 209, 130, 209, 140, 46]"

definition txt_no_history :: string where \<comment> \<open>"Could not load the history"\<close>
  "txt_no_history = utf8
     [208, 157, 208, 181, 32, 209, 131, 208, 180, 208, 176, 208, 187, 208, 190, 209, 129, 209,
      140, 32, 208, 183, 208, 176, 208, 179, 209, 128, 209, 131, 208, 183, 208, 184, 209, 130,
      209, 140, 32, 208, 184, 209, 129, 209, 130, 208, 190, 209, 128, 208, 184, 209, 142, 46]"

definition txt_history_empty1 :: string where \<comment> \<open>a chart and a space\<close>
  "txt_history_empty1 = utf8
     [240, 159, 147, 138, 32]"

definition txt_history_empty2 :: string where \<comment> \<open>"The history is empty, press Check"\<close>
  "txt_history_empty2 = utf8
     [10, 10, 208, 152, 209, 129, 209, 130, 208, 190, 209, 128, 208, 184, 209, 143, 32, 209, 134,
      208, 181, 208, 189, 32, 208, 191, 208, 190, 208, 186, 208, 176, 32, 208, 191, 209, 131,
      209, 129, 209, 130, 208, 176, 32, 226, 128, 148, 32, 208, 189, 208, 176, 208, 182, 208,
      188, 208, 184, 32, 240, 159, 148, 132, 32, 208, 159, 209, 128, 208, 190, 208, 178, 208,
      181, 209, 128, 208, 184, 209, 130, 209, 140, 32, 209, 135, 209, 130, 208, 190, 208, 177,
      209, 139, 32, 208, 191, 208, 190, 208, 187, 209, 131, 209, 135, 208, 184, 209, 130, 209,
      140, 32, 208, 191, 208, 181, 209, 128, 208, 178, 209, 139, 208, 181, 32, 208, 180, 208,
      176, 208, 189, 208, 189, 209, 139, 208, 181, 46]"

definition txt_history_of :: string where \<comment> \<open>"Price history: "\<close>
  "txt_history_of = utf8
     [240, 159, 147, 138, 32, 208, 152, 209, 129, 209, 130, 208, 190, 209, 128, 208, 184, 209,
      143, 32, 209, 134, 208, 181, 208, 189, 58, 32]"

definition txt_check_failed :: string where \<comment> \<open>"Could not start the check"\<close>
  "txt_check_failed = utf8
     [208, 157, 208, 181, 32, 209, 131, 208, 180, 208, 176, 208, 187, 208, 190, 209, 129, 209,
      140, 32, 208, 183, 208, 176, 208, 191, 209, 131, 209, 129, 209, 130, 208, 184, 209, 130,
      209, 140, 32, 208, 191, 209, 128, 208, 190, 208, 178, 208, 181, 209, 128, 208, 186, 209,
      131, 46, 32, 208, 159, 208, 190, 208, 191, 209, 128, 208, 190, 208, 177, 209, 131, 208,
      185, 32, 209, 129, 208, 189, 208, 190, 208, 178, 208, 176, 46]"

definition txt_check_started :: string where \<comment> \<open>"Check started"\<close>
  "txt_check_started = utf8
     [240, 159, 148, 132, 32, 208, 159, 209, 128, 208, 190, 208, 178, 208, 181, 209, 128, 208,
      186, 208, 176, 32, 208, 183, 208, 176, 208, 191, 209, 131, 209, 137, 208, 181, 208, 189,
      208, 176, 46, 10, 10, 208, 160, 208, 181, 208, 183, 209, 131, 208, 187, 209, 140, 209, 130,
      208, 176, 209, 130, 32, 208, 191, 209, 128, 208, 184, 208, 180, 209, 145, 209, 130, 32,
      208, 178, 32, 209, 130, 208, 181, 209, 135, 208, 181, 208, 189, 208, 184, 208, 181, 32,
      208, 188, 208, 184, 208, 189, 209, 131, 209, 130, 209, 139, 46]"

definition txt_action_failed :: string where \<comment> \<open>"Error, try again"\<close>
  "txt_action_failed = utf8
     [208, 158, 209, 136, 208, 184, 208, 177, 208, 186, 208, 176, 46, 32, 208, 159, 208, 190,
      208, 191, 209, 128, 208, 190, 208, 177, 209, 131, 208, 185, 32, 209, 129, 208, 189, 208,
      190, 208, 178, 208, 176, 46]"

definition txt_delete_failed :: string where \<comment> \<open>"Could not delete"\<close>
  "txt_delete_failed = utf8
     [208, 158, 209, 136, 208, 184, 208, 177, 208, 186, 208, 176, 32, 209, 131, 208, 180, 208,
      176, 208, 187, 208, 181, 208, 189, 208, 184, 209, 143, 46]"

end
