(* ===== verification/Bot.thy ===== *)
theory Bot
  imports BotState MyList BotTexts
begin

text \<open>
  The Telegram bot, \<open>services/bot/internal/bot\<close>: \<open>bot.go\<close>, \<open>search.go\<close>, \<open>edit.go\<close>, \<open>helpers.go\<close> and
  the handlers of \<open>mylist.go\<close>. One definition per function, on the bot's state: the sessions, the
  lookups running in the background with their slots, the gateway behind the interface \<open>Gateway\<close>,
  and the requests made to Telegram. A handler is one step: the dispatcher runs the handlers of a
  chat one after another, and all a background lookup ever does to the session of its chat is
  \<open>CompleteLookup\<close>, which only acts on a session that waits for it and keeps its page, so that it
  may as well happen before or after the handler. A lookup takes five steps, so that
  cancellations can fall between its calls, its check of the context and its last write, and other
  lookups between the return of its slot and the removal of its entry.
\<close>

section \<open>Prices\<close>

text \<open>
  \<open>strconv.ParseFloat\<close>: a decimal number of up to fifteen digits is its own shortest decimal;
  the rounding of longer ones (\<open>None\<close>: out of range) and the other syntaxes (exponents,
  hexadecimal, \<open>Inf\<close>, \<open>NaN\<close>) are parameters, as is the product of two \<open>float64\<close>.
\<close>

record floats =
  fl_round :: "rat \<Rightarrow> float64 option"
  fl_other :: "string \<Rightarrow> float64 option"
  fl_mul :: "float64 \<Rightarrow> rat \<Rightarrow> float64"

definition ParseFloat :: "floats \<Rightarrow> string \<Rightarrow> float64 option" where
  "ParseFloat F s =
     (let negative = (s \<noteq> [] \<and> hd s = CHR ''-'');
          t = (if s \<noteq> [] \<and> (hd s = CHR ''-'' \<or> hd s = CHR ''+'') then tl s else s);
          whole = takeWhile is_digit t; rest = dropWhile is_digit t;
          frac = (if rest \<noteq> [] \<and> hd rest = CHR ''.'' then tl rest else rest);
          n = digits_val (whole @ frac);
          q = of_nat n / 10 ^ length frac; q = (if negative then - q else q)
      in if \<not> list_all is_digit frac \<or> whole @ frac = [] then fl_other F s
         else if n < 10 ^ 15 \<and> length frac \<le> 290 then Some (Fin q) else fl_round F q)"

definition parsePrice :: "floats \<Rightarrow> string \<Rightarrow> float64 option" where
  "parsePrice F s =
     (let s = replace_all s '' '' []; s = replace_all s '','' ''.''
      in case ParseFloat F s of
           None \<Rightarrow> None
         | Some price \<Rightarrow> if f_le price f_zero then None else Some price)"

section \<open>State\<close>

text \<open>A request to Telegram.\<close>

datatype tg =
    SendMessage int string
  | SendWelcome int
  | SendList int string "button list list"
  | EditMessage int int string "button list list"
  | DeleteMessage int int
  | ChatAction int
  | AnswerCallback string

text \<open>
  What a background lookup does next: call \<open>StartLookup\<close>, call \<open>PollLookup\<close>, complete the session
  with a result and then send a text, or run its deferred function, which first gives its slot back and
  then, under the lock, removes the entry of its chat.
\<close>

datatype phase = Starting string | Polling string | Completing Session string | Finishing | Released

record lookupTask =
  lu_chat :: int
  lu_id :: string
  lu_page :: int
  lu_cancelled :: bool
  lu_phase :: phase

text \<open>
  \<open>bo_active\<close> is \<open>activeLookups\<close> (the cancel function of an entry is that of the lookup with its
  id), \<open>bo_slots\<close> the number of elements of \<open>lookupSlots\<close>, \<open>bo_sequence\<close> is \<open>lookupSequence\<close>,
  \<open>bo_api\<close> the requests to Telegram with their success, \<open>bo_stopped\<close> whether the context of \<open>Run\<close>
  was cancelled.
\<close>

record 'g bot =
  bo_sessions :: sessions
  bo_active :: "int \<rightharpoonup> string"
  bo_slots :: nat
  bo_sequence :: nat
  bo_lookups :: "lookupTask list"
  bo_gateway :: 'g
  bo_api :: "(tg \<times> bool) list"
  bo_stopped :: bool

text \<open>
  The environment: the gateway, whether the \<open>n\<close>-th request to Telegram succeeds and whether the
  wait before it runs to its end, and the formatting of times and of quoted names.
\<close>

record 'g benv =
  be_gateway :: "'g Gateway"
  be_api :: "nat \<Rightarrow> bool"
  be_wait :: "nat \<Rightarrow> bool"
  be_floats :: floats
  be_local :: "time \<Rightarrow> string"
  be_quote :: "char \<Rightarrow> string"

definition api :: "'g benv \<Rightarrow> tg \<Rightarrow> 'g bot \<Rightarrow> 'g bot \<times> bool" where
  "api E m b = (let ok = be_api E (length (bo_api b)) in (b\<lparr>bo_api := bo_api b @ [(m, ok)]\<rparr>, ok))"

text \<open>A request whose result is only logged.\<close>

abbreviation api_log :: "'g benv \<Rightarrow> tg \<Rightarrow> 'g bot \<Rightarrow> 'g bot" where
  "api_log E m b \<equiv> fst (api E m b)"

definition sessions_do :: "(sessions \<Rightarrow> sessions) \<Rightarrow> 'g bot \<Rightarrow> 'g bot" where
  "sessions_do f b = b\<lparr>bo_sessions := f (bo_sessions b)\<rparr>"

definition call :: "('g \<Rightarrow> 'g \<times> 'r option) \<Rightarrow> 'g bot \<Rightarrow> 'g bot \<times> 'r option" where
  "call f b = (case f (bo_gateway b) of (g, r) \<Rightarrow> (b\<lparr>bo_gateway := g\<rparr>, r))"

section \<open>Sending\<close>

fun send_retry :: "'g benv \<Rightarrow> tg \<Rightarrow> duration list \<Rightarrow> 'g bot \<Rightarrow> 'g bot" where
  "send_retry E m [] b = b"
| "send_retry E m (d # ds) b =
     (if d > 0 \<and> \<not> be_wait E (length (bo_api b)) then b
      else case api E m b of (b', ok) \<Rightarrow> if ok then b' else send_retry E m ds b')"

definition send :: "'g benv \<Rightarrow> int \<Rightarrow> string \<Rightarrow> 'g bot \<Rightarrow> 'g bot" where
  "send E chatID s = send_retry E (SendMessage chatID s) [0, 3 * second, 6 * second, 12 * second]"

text \<open>\<open>redactToken\<close>.\<close>

definition redactToken :: "string \<Rightarrow> string \<Rightarrow> string" where
  "redactToken message token = (if token = [] then message else replace_all message token ''[redacted]'')"

section \<open>Lookups\<close>

definition lookupSlots :: nat where "lookupSlots = 8"

definition cancelLookup :: "int \<Rightarrow> 'g bot \<Rightarrow> 'g bot" where
  "cancelLookup chatID b =
     (case bo_active b chatID of
        None \<Rightarrow> b
      | Some i \<Rightarrow> b\<lparr>bo_active := (bo_active b)(chatID := None),
          bo_lookups := map (\<lambda>l. if lu_id l = i then l\<lparr>lu_cancelled := True\<rparr> else l) (bo_lookups b)\<rparr>)"

definition handleURLSubmit :: "'g benv \<Rightarrow> int \<Rightarrow> string \<Rightarrow> 'g bot \<Rightarrow> 'g bot" where
  "handleURLSubmit E chatID msg b =
     (if \<not> contains msg ''wildberries.ru'' then send E chatID txt_send_link b
      else let n = (bo_sequence b + 1) mod 2 ^ 64; localID = ''bot-'' @ show_nat n;
               b = cancelLookup chatID (b\<lparr>bo_sequence := n\<rparr>);
               page = se_Page (Get chatID (bo_sessions b));
               b = sessions_do (Set chatID (Some (idle\<lparr>se_Step := StepWaitingLookup, se_LookupID := localID,
                     se_Page := page\<rparr>))) b;
               b = api_log E (ChatAction chatID) b;
               b = send E chatID txt_loading b
      in if bo_slots b < lookupSlots
         then b\<lparr>bo_slots := bo_slots b + 1, bo_active := (bo_active b)(chatID \<mapsto> localID),
                bo_lookups := bo_lookups b @ [\<lparr>lu_chat = chatID, lu_id = localID, lu_page = page,
                  lu_cancelled = bo_stopped b, lu_phase = Starting msg\<rparr>]\<rparr>
         else let b = sessions_do (\<lambda>s. fst (CompleteLookup chatID localID (idle\<lparr>se_Page := page\<rparr>) s)) b
              in send E chatID txt_busy b)"

text \<open>The steps of the goroutine of \<open>handleURLSubmit\<close>, \<open>pollLookup\<close> included.\<close>

definition found_text :: "'g benv \<Rightarrow> LookupResult_c \<Rightarrow> string" where
  "found_text E r = txt_found1 @ lk_Name r @ txt_found2 @ fmt_f0 (lk_Price r) @ txt_found3 @
     fmt_f0 (fl_mul (be_floats E) (lk_Price r) (9 / 10))"

definition lookup_call :: "'g benv \<Rightarrow> lookupTask \<Rightarrow> string \<Rightarrow> 'g \<Rightarrow> 'g \<times> phase" where
  "lookup_call E l msg g =
     (case gw_StartLookup (be_gateway E) msg g of
        (g', Some lookupID) \<Rightarrow> (g', Polling lookupID)
      | (g', None) \<Rightarrow> (g', if lu_cancelled l then Finishing
          else Completing (idle\<lparr>se_Page := lu_page l\<rparr>) txt_start_failed))"

definition pollLookup :: "'g benv \<Rightarrow> lookupTask \<Rightarrow> string \<Rightarrow> 'g \<Rightarrow> 'g \<times> phase" where
  "pollLookup E l lookupID g =
     (case gw_PollLookup (be_gateway E) lookupID g of
        (g', None) \<Rightarrow> (g', if lu_cancelled l then Finishing else Completing idle txt_poll_failed)
      | (g', Some result) \<Rightarrow>
          (g', if lu_cancelled l then Finishing
               else if lk_Status result = ''failed'' then Completing idle txt_lookup_failed
               else Completing (idle\<lparr>se_Step := StepWaitingMinPrice, se_LookupID := lookupID,
                 se_ProductName := lk_Name result, se_ProductURL := lk_URL result,
                 se_CurrentPrice := lk_Price result\<rparr>) (found_text E result)))"

definition lookup_step :: "'g benv \<Rightarrow> nat \<Rightarrow> 'g bot \<Rightarrow> 'g bot" where
  "lookup_step E i b =
     (let l = bo_lookups b ! i
      in case lu_phase l of
           Starting msg \<Rightarrow> (case lookup_call E l msg (bo_gateway b) of
             (g, p) \<Rightarrow> b\<lparr>bo_gateway := g, bo_lookups := (bo_lookups b)[i := l\<lparr>lu_phase := p\<rparr>]\<rparr>)
         | Polling lookupID \<Rightarrow> (case pollLookup E l lookupID (bo_gateway b) of
             (g, p) \<Rightarrow> b\<lparr>bo_gateway := g, bo_lookups := (bo_lookups b)[i := l\<lparr>lu_phase := p\<rparr>]\<rparr>)
         | Completing result msg \<Rightarrow>
             (case CompleteLookup (lu_chat l) (lu_id l) result (bo_sessions b) of
                (s, completed) \<Rightarrow>
                  let b = b\<lparr>bo_sessions := s, bo_lookups := (bo_lookups b)[i := l\<lparr>lu_phase := Finishing\<rparr>]\<rparr>
                  in if completed then send E (lu_chat l) msg b else b)
         | Finishing \<Rightarrow> b\<lparr>bo_slots := bo_slots b - 1, bo_lookups := (bo_lookups b)[i := l\<lparr>lu_phase := Released\<rparr>]\<rparr>
         | Released \<Rightarrow>
             b\<lparr>bo_active := (if bo_active b (lu_chat l) = Some (lu_id l) then (bo_active b)(lu_chat l := None)
                             else bo_active b),
               bo_lookups := take i (bo_lookups b) @ drop (Suc i) (bo_lookups b)\<rparr>)"

section \<open>The dialogue about a new subscription\<close>

definition handleMinPrice :: "'g benv \<Rightarrow> int \<Rightarrow> Session \<Rightarrow> string \<Rightarrow> 'g bot \<Rightarrow> 'g bot" where
  "handleMinPrice E chatID sess msg b =
     (case parsePrice (be_floats E) msg of
        None \<Rightarrow> send E chatID txt_enter_min b
      | Some price \<Rightarrow>
         let b = sessions_do (Set chatID (Some (sess\<lparr>se_MinPrice := price, se_Step := StepWaitingMaxPrice\<rparr>))) b;
             hint = (if f_lt f_zero (se_CurrentPrice sess)
                     then txt_current1 @ fmt_f0 (se_CurrentPrice sess) @ txt_current2 else [])
         in send E chatID (hint @ txt_give_max @ fmt_f0 (fl_mul (be_floats E) (se_CurrentPrice sess) (11 / 10))) b)"

definition handleMaxPrice :: "'g benv \<Rightarrow> int \<Rightarrow> Session \<Rightarrow> string \<Rightarrow> 'g bot \<Rightarrow> 'g bot" where
  "handleMaxPrice E chatID sess msg b =
     (case parsePrice (be_floats E) msg of
        None \<Rightarrow> send E chatID txt_enter_max b
      | Some price \<Rightarrow>
         if f_le price (se_MinPrice sess)
         then send E chatID (txt_max_above1 @ fmt_f0 (se_MinPrice sess) @ txt_max_above2) b
         else case call (gw_CreateSubscription (be_gateway E) \<lparr>cr_ChatID = chatID, cr_LookupID = se_LookupID sess,
                          cr_MinPrice = se_MinPrice sess, cr_MaxPrice = price\<rparr>) b of
                (b, None) \<Rightarrow> send E chatID txt_save_failed b
              | (b, Some _) \<Rightarrow>
                  send E chatID (txt_done1 @ se_ProductName sess @ txt_done2 @ se_ProductURL sess @ txt_done3 @
                      fmt_f0 (se_MinPrice sess) @ txt_dash @ fmt_f0 price @ txt_done4)
                    (sessions_do (Set chatID (Some (idle\<lparr>se_Page := se_Page sess\<rparr>))) b))"

section \<open>The dialogue about an existing subscription\<close>

definition findSubscription :: "'g benv \<Rightarrow> int \<Rightarrow> string \<Rightarrow> 'g bot \<Rightarrow> 'g bot \<times> Subscription_c option" where
  "findSubscription E chatID subID b =
     (case call (gw_ListSubscriptions (be_gateway E) chatID) b of
        (b, None) \<Rightarrow> (b, None)
      | (b, Some subs) \<Rightarrow> (b, find (\<lambda>s. gs_ID s = subID) subs))"

definition startEditSubscription :: "'g benv \<Rightarrow> int \<Rightarrow> string \<Rightarrow> 'g bot \<Rightarrow> 'g bot" where
  "startEditSubscription E chatID subID b =
     (case findSubscription E chatID subID b of
        (b, None) \<Rightarrow> send E chatID txt_not_found b
      | (b, Some sub) \<Rightarrow>
         let oldMin = (case gs_MinPrice sub of Some p \<Rightarrow> p | None \<Rightarrow> f_zero);
             oldMax = (case gs_MaxPrice sub of Some p \<Rightarrow> p | None \<Rightarrow> f_zero);
             current = Get chatID (bo_sessions b);
             b = sessions_do (Set chatID (Some (idle\<lparr>se_Step := StepEditingMinPrice, se_EditingSubID := subID,
                   se_OldMinPrice := oldMin, se_OldMaxPrice := oldMax, se_Page := se_Page current\<rparr>))) b
         in send E chatID (txt_editing1 @ go_quote (be_quote E) (gs_ProductName sub) @ txt_editing2 @
              fmt_f0 oldMin @ txt_editing3) b)"

definition handleEditMinPrice :: "'g benv \<Rightarrow> int \<Rightarrow> Session \<Rightarrow> string \<Rightarrow> 'g bot \<Rightarrow> 'g bot" where
  "handleEditMinPrice E chatID sess msg b =
     (case parsePrice (be_floats E) msg of
        None \<Rightarrow> send E chatID txt_enter_min b
      | Some price \<Rightarrow>
         send E chatID (txt_new_max @ fmt_f0 (se_OldMaxPrice sess) @ txt_editing3)
           (sessions_do (Set chatID (Some (sess\<lparr>se_MinPrice := price, se_Step := StepEditingMaxPrice\<rparr>))) b))"

definition handleEditMaxPrice :: "'g benv \<Rightarrow> int \<Rightarrow> Session \<Rightarrow> string \<Rightarrow> 'g bot \<Rightarrow> 'g bot" where
  "handleEditMaxPrice E chatID sess msg b =
     (case parsePrice (be_floats E) msg of
        None \<Rightarrow> send E chatID txt_enter_max b
      | Some price \<Rightarrow>
         if f_le price (se_MinPrice sess)
         then send E chatID (txt_max_above1 @ fmt_f0 (se_MinPrice sess) @ txt_max_above2) b
         else case call (gw_EditSubscription (be_gateway E) chatID (se_EditingSubID sess) (se_MinPrice sess) price) b of
                (b, None) \<Rightarrow> send E chatID txt_edit_failed b
              | (b, Some _) \<Rightarrow>
                  send E chatID (txt_edited1 @ fmt_f0 (se_MinPrice sess) @ txt_dash @ fmt_f0 price @ txt_edited2)
                    (sessions_do (Set chatID (Some (idle\<lparr>se_Page := se_Page sess\<rparr>))) b))"

section \<open>The product list\<close>

definition handleMyList :: "'g benv \<Rightarrow> int \<Rightarrow> 'g bot \<Rightarrow> 'g bot" where
  "handleMyList E chatID b =
     (case call (gw_ListSubscriptions (be_gateway E) chatID) b of
        (b, None) \<Rightarrow> send E chatID txt_list_failed b
      | (b, Some subs) \<Rightarrow>
         if subs = [] then send E chatID txt_list_empty b
         else case buildMyListPage subs (se_Page (Get chatID (bo_sessions b))) of
           (shown, rows, actualPage) \<Rightarrow>
             api_log E (SendList chatID shown rows)
               (sessions_do (Update chatID (\<lambda>s. s\<lparr>se_Page := actualPage\<rparr>)) b))"

definition refreshMyList :: "'g benv \<Rightarrow> int \<Rightarrow> int \<Rightarrow> 'g bot \<Rightarrow> 'g bot" where
  "refreshMyList E chatID messageID b =
     (case call (gw_ListSubscriptions (be_gateway E) chatID) b of
        (b, None) \<Rightarrow> b
      | (b, Some subs) \<Rightarrow>
         if subs = []
         then sessions_do (Update chatID (\<lambda>s. s\<lparr>se_Page := 0\<rparr>))
                (api_log E (EditMessage chatID messageID txt_list_emptied []) b)
         else case buildMyListPage subs (se_Page (Get chatID (bo_sessions b))) of
           (shown, rows, actualPage) \<Rightarrow>
             api_log E (EditMessage chatID messageID shown rows)
               (sessions_do (Update chatID (\<lambda>s. s\<lparr>se_Page := actualPage\<rparr>)) b))"

definition handleHistory :: "'g benv \<Rightarrow> int \<Rightarrow> string \<Rightarrow> 'g bot \<Rightarrow> 'g bot" where
  "handleHistory E chatID subID b =
     (case findSubscription E chatID subID b of
        (b, None) \<Rightarrow> send E chatID txt_not_found b
      | (b, Some sub) \<Rightarrow>
         (case call (gw_GetHistory (be_gateway E) chatID subID) b of
            (b, None) \<Rightarrow> send E chatID txt_no_history b
          | (b, Some points) \<Rightarrow>
             if points = [] then send E chatID (txt_history_empty1 @ gs_ProductName sub @ txt_history_empty2) b
             else send E chatID (txt_history_of @ gs_ProductName sub @ [CHR 0x0A, CHR 0x0A] @
               concat (map (\<lambda>p. fmt_f0 (pt_Price p) @ '' '' @ pt_Currency p @ ''  '' @ be_local E (pt_ScrapedAt p) @ [CHR 0x0A])
                 points)) b))"

definition handleForceCheck :: "'g benv \<Rightarrow> int \<Rightarrow> string \<Rightarrow> 'g bot \<Rightarrow> 'g bot" where
  "handleForceCheck E chatID subID b =
     (case call (gw_ForceCheck (be_gateway E) chatID subID) b of
        (b, None) \<Rightarrow> send E chatID txt_check_failed b
      | (b, Some _) \<Rightarrow> send E chatID txt_check_started b)"

definition pauseSubscription :: "'g benv \<Rightarrow> int \<Rightarrow> int \<Rightarrow> string \<Rightarrow> 'g bot \<Rightarrow> 'g bot" where
  "pauseSubscription E chatID messageID subID b =
     (case call (gw_PauseSubscription (be_gateway E) chatID subID) b of
        (b, None) \<Rightarrow> send E chatID txt_action_failed b
      | (b, Some _) \<Rightarrow> refreshMyList E chatID messageID b)"

definition resumeSubscription :: "'g benv \<Rightarrow> int \<Rightarrow> int \<Rightarrow> string \<Rightarrow> 'g bot \<Rightarrow> 'g bot" where
  "resumeSubscription E chatID messageID subID b =
     (case call (gw_ResumeSubscription (be_gateway E) chatID subID) b of
        (b, None) \<Rightarrow> send E chatID txt_action_failed b
      | (b, Some _) \<Rightarrow> refreshMyList E chatID messageID b)"

definition deleteSubscription_b :: "'g benv \<Rightarrow> int \<Rightarrow> int \<Rightarrow> string \<Rightarrow> 'g bot \<Rightarrow> 'g bot" where
  "deleteSubscription_b E chatID messageID subID b =
     (case call (gw_DeleteSubscription (be_gateway E) chatID subID) b of
        (b, None) \<Rightarrow> send E chatID txt_delete_failed b
      | (b, Some _) \<Rightarrow> refreshMyList E chatID messageID b)"

section \<open>Updates\<close>

definition handleMessage :: "'g benv \<Rightarrow> int \<Rightarrow> string \<Rightarrow> 'g bot \<Rightarrow> 'g bot" where
  "handleMessage E chatID msg b =
     (if msg = ''/start'' \<or> msg = ''/cancel''
      then api_log E (SendWelcome chatID) (sessions_do (Clear chatID) (cancelLookup chatID b))
      else if msg = ''/mylist'' \<or> msg = txt_my_products then handleMyList E chatID b
      else let sess = Get chatID (bo_sessions b)
      in case se_Step sess of
           StepIdle \<Rightarrow> handleURLSubmit E chatID msg b
         | StepWaitingLookup \<Rightarrow> send E chatID txt_wait b
         | StepWaitingMinPrice \<Rightarrow> handleMinPrice E chatID sess msg b
         | StepWaitingMaxPrice \<Rightarrow> handleMaxPrice E chatID sess msg b
         | StepEditingMinPrice \<Rightarrow> handleEditMinPrice E chatID sess msg b
         | StepEditingMaxPrice \<Rightarrow> handleEditMaxPrice E chatID sess msg b)"

text \<open>\<open>chat\<close> is \<open>None\<close> for a callback without a message or chat.\<close>

definition handleCallback :: "'g benv \<Rightarrow> string \<Rightarrow> (int \<times> int) option \<Rightarrow> string \<Rightarrow> 'g bot \<Rightarrow> 'g bot" where
  "handleCallback E cbID chat data b =
     (let b = api_log E (AnswerCallback cbID) b
      in case chat of
           None \<Rightarrow> b
         | Some (chatID, messageID) \<Rightarrow>
            (case callback_of data of
               ShowPage page \<Rightarrow>
                 refreshMyList E chatID messageID (sessions_do (Update chatID (\<lambda>s. s\<lparr>se_Page := page\<rparr>)) b)
             | EditSub subID \<Rightarrow> startEditSubscription E chatID subID (api_log E (DeleteMessage chatID messageID) b)
             | PauseSub subID \<Rightarrow> pauseSubscription E chatID messageID subID b
             | ResumeSub subID \<Rightarrow> resumeSubscription E chatID messageID subID b
             | DeleteSub subID \<Rightarrow> deleteSubscription_b E chatID messageID subID b
             | HistorySub subID \<Rightarrow> handleHistory E chatID subID b
             | CheckSub subID \<Rightarrow> handleForceCheck E chatID subID b
             | NoAction \<Rightarrow> b))"

section \<open>Runs\<close>

definition new_bot :: "'g \<Rightarrow> 'g bot" where
  "new_bot g = \<lparr>bo_sessions = Map.empty, bo_active = Map.empty, bo_slots = 0, bo_sequence = 0, bo_lookups = [],
     bo_gateway = g, bo_api = [], bo_stopped = False\<rparr>"

text \<open>
  The runs of the bot: handlers, steps of the lookups, and the end of the context of \<open>Run\<close>, which
  ends the contexts of all lookups, all with the same gateway client. The numbers of the lookups do not wrap around.
\<close>

inductive bot_run :: "'g Gateway \<Rightarrow> 'g \<Rightarrow> 'g bot \<Rightarrow> bool" for G g where
  new: "bot_run G g (new_bot g)"
| message: "bot_run G g b \<Longrightarrow> be_gateway E = G \<Longrightarrow> bo_sequence b + 1 < 2 ^ 64 \<Longrightarrow> bot_run G g (handleMessage E chatID msg b)"
| callback: "bot_run G g b \<Longrightarrow> be_gateway E = G \<Longrightarrow> bot_run G g (handleCallback E cbID chat data b)"
| lookup: "bot_run G g b \<Longrightarrow> be_gateway E = G \<Longrightarrow> i < length (bo_lookups b) \<Longrightarrow> bot_run G g (lookup_step E i b)"
| stop: "bot_run G g b \<Longrightarrow> bot_run G g (b\<lparr>bo_stopped := True,
    bo_lookups := map (\<lambda>l. l\<lparr>lu_cancelled := True\<rparr>) (bo_lookups b)\<rparr>)"

end
