(* ===== verification/Telegram.thy ===== *)
theory Telegram
  imports Startup Bot NotifierLaws
begin

text \<open>
  The bot's end of the Telegram API (\<open>bot.go\<close> and \<open>dispatch.go\<close> of \<open>services/bot/internal/bot\<close>): its
  construction and its commands, how it reports errors, and the HTTP client that ties every request to
  the bot's context. The API library is a parameter.
\<close>

section \<open>Construction\<close>

text \<open>\<open>'c\<close> is an HTTP client; \<open>std\<close> is \<open>&http.Client{Timeout: 35 * time.Second}\<close>.\<close>

record 'c options =
  op_httpClient :: "'c option"
  op_apiEndpoint :: string

type_synonym 'c Option = "'c options \<Rightarrow> 'c options"

definition WithHTTPClient :: "'c option \<Rightarrow> 'c Option" where
  "WithHTTPClient client o1 = o1\<lparr>op_httpClient := client\<rparr>"

definition WithAPIEndpoint :: "string \<Rightarrow> 'c Option" where
  "WithAPIEndpoint endpoint o1 = o1\<lparr>op_apiEndpoint := endpoint\<rparr>"

definition settings_of :: "'c \<Rightarrow> string \<Rightarrow> 'c Option list \<Rightarrow> 'c options" where
  "settings_of std APIEndpoint opts =
     (let s = fold (\<lambda>opt s. opt s) opts \<lparr>op_httpClient = Some std, op_apiEndpoint = APIEndpoint\<rparr>
      in if op_httpClient s = None then s\<lparr>op_httpClient := Some std\<rparr> else s)"

text \<open>\<open>safeError\<close>, of an error and the bot's token, and \<open>request\<close>, of the API's answer.\<close>

definition safeError_b :: "string option \<Rightarrow> string \<Rightarrow> string" where
  "safeError_b err token = (case err of None \<Rightarrow> [] | Some e \<Rightarrow> redactToken e token)"

definition request_b :: "string + 'r \<Rightarrow> string \<Rightarrow> string option" where
  "request_b reply token = (case reply of Inr _ \<Rightarrow> None | Inl err \<Rightarrow> Some (safeError_b (Some err) token))"

definition txt_cmd_mylist :: string where \<comment> \<open>"My watched products"\<close>
  "txt_cmd_mylist = utf8
     [208, 156, 208, 190, 208, 184, 32, 208, 190, 209, 130, 209, 129, 208, 187, 208, 181, 208,
      182, 208, 184, 208, 178, 208, 176, 208, 181, 208, 188, 209, 139, 208, 181, 32, 209, 130,
      208, 190, 208, 178, 208, 176, 209, 128, 209, 139]"

definition txt_cmd_cancel :: string where \<comment> \<open>"Cancel the current action"\<close>
  "txt_cmd_cancel = utf8
     [208, 158, 209, 130, 208, 188, 208, 181, 208, 189, 208, 184, 209, 130, 209, 140, 32, 209,
      130, 208, 181, 208, 186, 209, 131, 209, 137, 208, 181, 208, 181, 32, 208, 180, 208, 181,
      208, 185, 209, 129, 209, 130, 208, 178, 208, 184, 208, 181]"

definition bot_commands :: "(string \<times> string) list" where
  "bot_commands = [(''mylist'', txt_cmd_mylist), (''cancel'', txt_cmd_cancel)]"

text \<open>\<open>registerCommands\<close>, of the API: what it logs.\<close>

definition registerCommands :: "((string \<times> string) list \<Rightarrow> string + 'r) \<Rightarrow> string \<Rightarrow> string list" where
  "registerCommands tg token =
     (case tg bot_commands of Inr _ \<Rightarrow> [] | Inl err \<Rightarrow> [safeError_b (Some err) token])"

text \<open>
  \<open>New\<close>: \<open>NewBotAPI\<close> makes the API of a token, an endpoint and a client. The result, and what is logged.
\<close>

definition New_b ::
  "'c \<Rightarrow> string \<Rightarrow> (string \<Rightarrow> string \<Rightarrow> 'c \<Rightarrow> string + ((string \<times> string) list \<Rightarrow> string + 'r)) \<Rightarrow> string \<Rightarrow>
   'c Option list \<Rightarrow> (string + ((string \<times> string) list \<Rightarrow> string + 'r)) \<times> string list" where
  "New_b std APIEndpoint NewBotAPI token opts =
     (let s = settings_of std APIEndpoint opts
      in case NewBotAPI token (op_apiEndpoint s) (case op_httpClient s of Some c \<Rightarrow> c | None \<Rightarrow> std) of
           Inl err \<Rightarrow> (Inl (''bot api initialization failed: '' @ redactToken err token), [])
         | Inr tg \<Rightarrow> (Inr tg, registerCommands tg token))"

definition mainKeyboard :: "string list list" where
  "mainKeyboard = [[txt_my_products]]"

section \<open>Requests\<close>

text \<open>
  \<open>contextHTTPClient\<close>: the client and the context, \<open>None\<close> when they are nil. A context is when it ends.
\<close>

type_synonym context_end = "time option"

record 'c contextHTTPClient =
  ch_client :: "'c option"
  ch_ctx :: "context_end option"

definition SetContext :: "context_end \<Rightarrow> 'c contextHTTPClient \<Rightarrow> 'c contextHTTPClient" where
  "SetContext ctx c = c\<lparr>ch_ctx := Some ctx\<rparr>"

definition Context_of :: "'c contextHTTPClient \<Rightarrow> context_end" where
  "Context_of c = (case ch_ctx c of Some ctx \<Rightarrow> ctx | None \<Rightarrow> None)"

text \<open>
  What a request holds until it is cleaned up: the timer of \<open>WithTimeout\<close>, the callback of \<open>AfterFunc\<close> and
  the context \<open>baseCtx\<close>. The body of a response carries the cleanup, \<open>cancelBody\<close> with its \<open>sync.Once\<close>.
\<close>

datatype held = TimeoutTimer | AfterCallback | BaseContext

datatype do_error = NotConfigured | RequestEnded | TransportError string

record 'r cancelBody =
  cb_body :: 'r
  cb_held :: "held list"
  cb_once :: bool

fun earliest :: "context_end list \<Rightarrow> context_end" where
  "earliest [] = None"
| "earliest (None # cs) = earliest cs"
| "earliest (Some t # cs) = (case earliest cs of None \<Rightarrow> Some t | Some u \<Rightarrow> Some (min t u))"

text \<open>
  \<open>Do\<close> at time \<open>now\<close>: the path and the context of the request; \<open>client_Do\<close> is the client's \<open>Do\<close>, given when
  the request's context ends. The result, and what is still held.
\<close>

definition Do ::
  "('c \<Rightarrow> context_end \<Rightarrow> string + 'r) \<Rightarrow> time \<Rightarrow> string \<Rightarrow> context_end \<Rightarrow> 'c contextHTTPClient
   \<Rightarrow> do_error + 'r cancelBody" where
  "Do client_Do now path req_ctx c =
     (case ch_client c of
        None \<Rightarrow> Inl NotConfigured
      | Some client \<Rightarrow>
          if (case req_ctx of Some t \<Rightarrow> t \<le> now | None \<Rightarrow> False) then Inl RequestEnded
          else case client_Do client (earliest [Context_of c, req_ctx, Some (now + telegram_deadline path)]) of
            Inl err \<Rightarrow> Inl (TransportError err)
          | Inr body \<Rightarrow> Inr \<lparr>cb_body = body, cb_held = [TimeoutTimer, AfterCallback, BaseContext], cb_once = False\<rparr>)"

text \<open>\<open>cancelBody.Close\<close>: what it closes and releases.\<close>

definition Close_body :: "'r cancelBody \<Rightarrow> 'r cancelBody \<times> held list" where
  "Close_body b = (if cb_once b then (b, []) else (b\<lparr>cb_held := [], cb_once := True\<rparr>, cb_held b))"

fun Close_times :: "nat \<Rightarrow> 'r cancelBody \<Rightarrow> 'r cancelBody \<times> held list" where
  "Close_times 0 b = (b, [])"
| "Close_times (Suc n) b = (case Close_body b of (b', hs) \<Rightarrow> case Close_times n b' of (b'', hs') \<Rightarrow> (b'', hs @ hs'))"

section \<open>Errors and deadlines\<close>

lemma redactToken_clean: "bot_token token \<Longrightarrow> \<not> contains (redactToken e token) token"
  using bot_token_nonempty replace_all_clean by (simp add: redactToken_def)

lemma safeError_b_clean: "bot_token token \<Longrightarrow> \<not> contains (safeError_b e token) token"
  using redactToken_clean clean_word [of token "[]"] by (cases e) (simp_all add: safeError_b_def)

text \<open>What the construction returns or logs, and what \<open>request\<close> returns, does not show the token.\<close>

lemma New_b_clean:
  assumes "bot_token token"
  shows "case New_b std APIEndpoint NewBotAPI token opts of
    (r, logged) \<Rightarrow> (\<forall>e. r = Inl e \<longrightarrow> \<not> contains e token) \<and> (\<forall>e\<in>set logged. \<not> contains e token)"
proof -
  have "\<not> contains (''bot api initialization failed: '' @ redactToken e token) token" for e
    using clean_words [OF assms redactToken_clean [OF assms], of "[''bot'', ''api'', ''initialization'', ''failed:'']" e]
    by simp
  then show ?thesis using safeError_b_clean [OF assms]
    by (auto simp: New_b_def registerCommands_def Let_def split: sum.splits)
qed

lemma request_b_clean: "bot_token token \<Longrightarrow> request_b reply token = Some e \<Longrightarrow> \<not> contains e token"
  using safeError_b_clean by (auto simp: request_b_def split: sum.splits)

lemma earliest_bound: "Some t \<in> set cs \<Longrightarrow> \<exists>u. earliest cs = Some u \<and> u \<le> t"
  by (induction cs rule: earliest.induct) (fastforce split: option.splits)+

text \<open>A request never outlives the bot's context, its own, or its deadline.\<close>

lemma Do_deadline:
  assumes "Do client_Do now path req_ctx c = Inr b"
  shows "\<exists>client u. ch_client c = Some client \<and> client_Do client (Some u) = Inr (cb_body b) \<and>
    u \<le> now + telegram_deadline path \<and> (\<forall>t. Context_of c = Some t \<longrightarrow> u \<le> t) \<and> (\<forall>t. req_ctx = Some t \<longrightarrow> u \<le> t)"
proof -
  let ?d = "now + telegram_deadline path" and ?cs = "[Context_of c, req_ctx, Some (now + telegram_deadline path)]"
  obtain u where u: "earliest ?cs = Some u" "u \<le> ?d" using earliest_bound [of ?d ?cs] by auto
  have "u \<le> t" if "Some t \<in> set ?cs" for t using earliest_bound [OF that] u(1) by auto
  then show ?thesis using assms u by (auto simp: Do_def split: option.splits if_splits sum.splits)
qed

text \<open>However often the body of a response is closed, what the request holds is released exactly once.\<close>

lemma Close_releases_once:
  fixes b :: "'r cancelBody"
  assumes "Do client_Do now path req_ctx c = Inr b"
  shows "snd (Close_times (Suc n) b) = [TimeoutTimer, AfterCallback, BaseContext]"
proof -
  have again: "cb_once b \<Longrightarrow> Close_times n b = (b, [])" for b :: "'r cancelBody" and n
    by (induction n) (simp_all add: Close_body_def)
  show ?thesis using assms by (auto simp: Do_def Close_body_def again split: option.splits if_splits sum.splits)
qed

end
