(* ===== verification/PageScript.thy ===== *)
theory PageScript
  imports Marketplace
begin

text \<open>
  The script \<open>wbPageDataJS\<close> of \<open>shared/pkg/marketplace/wb.go\<close>, which the browser evaluates on the loaded
  page. The page is a parameter: for a selector, the elements that match it in document order.
\<close>

section \<open>The script\<close>

text \<open>\<open>el_className\<close> is \<open>None\<close> where \<open>className\<close> is not a string, as on SVG elements.\<close>

record element =
  el_className :: "string option"
  el_innerText :: string

record page =
  pd_query :: "string \<Rightarrow> element list"
  pd_title :: string
  pd_href :: string
  pd_trim :: "string \<Rightarrow> string"

definition priceSelectors :: "string list" where
  "priceSelectors = [
     ''[class*=\"mo-typography_colors_danger\"]'',
     ''h3[class*=\"mo-typography_color_danger\"]'',
     ''[class*=\"mo-typography_color_danger\"]'',
     ''[class*=\"priceBlockFinalPrice\"]'',
     ''ins.price-block__final-price'',
     ''.price-block__final-price'',
     ''[class*=\"price-block__final-price\"]'',
     ''[class*=\"finalPrice\"]'']"

definition isExcludedPrice :: "element \<Rightarrow> bool" where
  "isExcludedPrice e =
     (let classes = (case el_className e of Some c \<Rightarrow> c | None \<Rightarrow> [])
      in contains classes ''priceBlockOldPrice'' \<or> contains classes ''mo-typography_modifier_strikethrough'')"

text \<open>The inner loop, over the candidates of a selector, and the outer one, until an element is found.\<close>

fun pick_candidate :: "page \<Rightarrow> element list \<Rightarrow> element option" where
  "pick_candidate P [] = None"
| "pick_candidate P (e # es) =
     (if \<not> isExcludedPrice e \<and> pd_trim P (el_innerText e) \<noteq> [] then Some e else pick_candidate P es)"

fun price_element :: "page \<Rightarrow> string list \<Rightarrow> element option" where
  "price_element P [] = None"
| "price_element P (q # qs) =
     (case pick_candidate P (pd_query P q) of Some e \<Rightarrow> Some e | None \<Rightarrow> price_element P qs)"

text \<open>\<open>document.querySelector\<close>, and the first of several that finds an element.\<close>

fun first_match :: "page \<Rightarrow> string list \<Rightarrow> element option" where
  "first_match P [] = None"
| "first_match P (q # qs) = (case pd_query P q of e # _ \<Rightarrow> Some e | [] \<Rightarrow> first_match P qs)"

definition wbPageDataJS :: "page \<Rightarrow> page_data" where
  "wbPageDataJS P =
     \<lparr>pg_Price = (case price_element P priceSelectors of Some e \<Rightarrow> pd_trim P (el_innerText e) | None \<Rightarrow> []),
      pg_Name = (case first_match P [''[class*=\"productTitle\"]'', ''h1'', ''h2[class*=\"mo-typography_color_primary\"]'']
        of Some e \<Rightarrow> pd_trim P (el_innerText e) | None \<Rightarrow> []),
      pg_Title = pd_title P, pg_URL = pd_href P\<rparr>"

section \<open>Which price is read\<close>

lemma pick_candidate_find:
  "pick_candidate P es = List.find (\<lambda>e. \<not> isExcludedPrice e \<and> pd_trim P (el_innerText e) \<noteq> []) es"
  by (induction es) auto

lemma pick_candidate_Some:
  "pick_candidate P es = Some e \<Longrightarrow> e \<in> set es \<and> \<not> isExcludedPrice e \<and> pd_trim P (el_innerText e) \<noteq> []"
  by (auto simp: pick_candidate_find find_Some_iff)

lemma pick_candidate_None:
  "pick_candidate P es = None \<longleftrightarrow> (\<forall>x\<in>set es. isExcludedPrice x \<or> pd_trim P (el_innerText x) = [])"
  by (induction es) auto

lemma price_element_Some:
  assumes "price_element P qs = Some e"
  shows "\<exists>xs q ys. qs = xs @ q # ys \<and> pick_candidate P (pd_query P q) = Some e \<and>
    (\<forall>x\<in>set xs. pick_candidate P (pd_query P x) = None)"
  using assms
proof (induction qs)
  case (Cons a qs)
  show ?case
  proof (cases "pick_candidate P (pd_query P a)")
    case None
    with Cons obtain xs q ys where "qs = xs @ q # ys" "pick_candidate P (pd_query P q) = Some e"
      "\<forall>x\<in>set xs. pick_candidate P (pd_query P x) = None" by auto
    then show ?thesis using None by (intro exI [of _ "a # xs"] exI [of _ q] exI [of _ ys]) simp
  qed (use Cons.prems in force)
qed simp

text \<open>
  The price is the text of a visible element that is neither an old price nor struck through, the first
  of the first selector that has one; it is empty only if no selector has such an element.
\<close>

lemma page_price:
  "pg_Price (wbPageDataJS P) = [] \<and> (\<forall>q\<in>set priceSelectors. pick_candidate P (pd_query P q) = None) \<or>
   (\<exists>xs q ys e. priceSelectors = xs @ q # ys \<and> pick_candidate P (pd_query P q) = Some e \<and> \<not> isExcludedPrice e \<and>
      pg_Price (wbPageDataJS P) = pd_trim P (el_innerText e) \<and> pg_Price (wbPageDataJS P) \<noteq> [] \<and>
      (\<forall>x\<in>set xs. \<forall>y\<in>set (pd_query P x). isExcludedPrice y \<or> pd_trim P (el_innerText y) = []))"
proof (cases "price_element P priceSelectors")
  case None
  have "price_element P qs = None \<Longrightarrow> \<forall>q\<in>set qs. pick_candidate P (pd_query P q) = None" for qs
    by (induction qs) (auto split: option.splits)
  from this [OF None] show ?thesis using None by (simp add: wbPageDataJS_def)
next
  case (Some e)
  then have p: "pg_Price (wbPageDataJS P) = pd_trim P (el_innerText e)" by (simp add: wbPageDataJS_def)
  obtain xs q ys where q: "priceSelectors = xs @ q # ys" "pick_candidate P (pd_query P q) = Some e"
    "\<forall>x\<in>set xs. pick_candidate P (pd_query P x) = None" using price_element_Some [OF Some] by blast
  have "\<not> isExcludedPrice e \<and> pd_trim P (el_innerText e) \<noteq> []" using pick_candidate_Some [OF q(2)] by simp
  then show ?thesis using p q by (auto simp: pick_candidate_None)
qed

end
