(* ===== verification/PageLaws.thy ===== *)
theory PageLaws
  imports PageScript ExtractorLaws
begin

text \<open>From what a product page shows to the product the extractor reports.\<close>

text \<open>What a page shows: its first visible price that is neither old nor struck through, and a number in it.\<close>

definition blank :: "page \<Rightarrow> element \<Rightarrow> bool" where
  "blank P e = (isExcludedPrice e \<or> pd_trim P (el_innerText e) = [])"

definition shown_price :: "page \<Rightarrow> element \<Rightarrow> bool" where
  "shown_price P e = (\<not> blank P e \<and> (\<exists>xs q ys as bs. priceSelectors = xs @ q # ys \<and> pd_query P q = as @ e # bs \<and>
     (\<forall>x\<in>set xs. \<forall>y\<in>set (pd_query P x). blank P y) \<and> (\<forall>y\<in>set as. blank P y)))"

definition displays :: "string \<Rightarrow> nat \<Rightarrow> bool" where
  "displays s n = (\<exists>label body tail. s = label @ body @ tail \<and> (\<forall>c\<in>set label. \<not> is_digit c) \<and>
     grouped (show_nat n) body \<and> is_digit (hd body) \<and> stops_price tail)"

text \<open>The browser loads the canonical page of a URL and evaluates the script on it.\<close>

definition loads :: "browser \<Rightarrow> string \<Rightarrow> string \<Rightarrow> page \<Rightarrow> bool" where
  "loads B url nmID P = (wbProductIDRe url = Some nmID \<and>
     (\<exists>js. br_run B (canonical_url nmID) = BrowserDone js \<and> br_unmarshal B js = Inr (wbPageDataJS P)))"

lemma pick_candidate_skip: "\<forall>y\<in>set as. blank P y \<Longrightarrow> pick_candidate P (as @ es) = pick_candidate P es"
  by (induction as) (auto simp: blank_def)

lemma price_element_skip:
  "\<forall>x\<in>set xs. \<forall>y\<in>set (pd_query P x). blank P y \<Longrightarrow> price_element P (xs @ qs) = price_element P qs"
proof (induction xs)
  case (Cons x xs)
  then have "pick_candidate P (pd_query P x) = None" by (simp add: pick_candidate_None blank_def)
  then show ?case using Cons by simp
qed simp

lemma price_element_shown: "shown_price P e \<Longrightarrow> price_element P priceSelectors = Some e"
proof -
  assume "shown_price P e"
  then obtain xs q ys as bs where e: "\<not> blank P e" "priceSelectors = xs @ q # ys" "pd_query P q = as @ e # bs"
    and skip: "\<forall>x\<in>set xs. \<forall>y\<in>set (pd_query P x). blank P y" "\<forall>y\<in>set as. blank P y"
    unfolding shown_price_def by blast
  have "pick_candidate P (pd_query P q) = Some e" using e(1,3) pick_candidate_skip [OF skip(2)] by (simp add: blank_def)
  then show ?thesis unfolding e(2) price_element_skip [OF skip(1)] by simp
qed

text \<open>
  C28: the price a page shows is the price of the product: when the first visible price that is
  neither old nor struck through, in the order of the selectors, is printed with any grouping by spaces
  and no-break spaces, after a label without digits, what follows it starts with neither a digit nor
  a space (a currency sign, a line break, the end), and the title names the product, then
  \<open>FetchProduct\<close> returns that number in roubles. Old prices before it on the page, or behind a line
  break in the text, do not matter. The two conditions are needed: the text \<open>-20% 5 690\<close> is read as 20,
  and \<open>5 690 7 000\<close> as one number, 56907000.
\<close>

theorem shown_price_fetched:
  assumes "loads B url nmID P" and "contains (pd_title P) nmID"
    and "shown_price P e" and "displays (pd_trim P (el_innerText e)) n" and "0 < n" and "n \<le> 2 ^ 53"
  shows "\<exists>p. FetchProduct B False False url = Inr p \<and> mp_Price p = Fin (of_nat n) \<and> mp_Name p \<noteq> [] \<and>
    mp_Currency p = ''RUB''"
proof -
  have data: "pg_Price (wbPageDataJS P) = pd_trim P (el_innerText e)" "pg_Title (wbPageDataJS P) = pd_title P"
    using price_element_shown [OF assms(3)] by (simp_all add: wbPageDataJS_def)
  have price: "parseWBPrice (br_big B) (pg_Price (wbPageDataJS P)) = Fin (of_nat n)"
    using assms(4,6) displayed_price_read_back by (auto simp: data displays_def)
  have "txt_wb_product \<noteq> []" by (simp add: txt_wb_product_def utf8_def)
  then show ?thesis
    using assms(1,2,5) price data(2)
    by (auto simp: loads_def FetchProduct_def fetchPage_def page_product_def Let_def)
qed

definition demo_page :: page where
  "demo_page = \<lparr>pd_query = (\<lambda>q. if q = ''[class*=\"priceBlockFinalPrice\"]''
       then [\<lparr>el_className = Some ''priceBlockOldPrice'', el_innerText = ''7 000 R''\<rparr>,
             \<lparr>el_className = None, el_innerText = ''5 690 R''\<rparr>] else []),
     pd_title = ''Mug 123 buy'', pd_href = ''https://www.wildberries.ru/catalog/123/detail.aspx'', pd_trim = (\<lambda>s. s)\<rparr>"

definition demo_page_browser :: browser where
  "demo_page_browser = \<lparr>br_run = (\<lambda>_. BrowserDone ''page''), br_unmarshal = (\<lambda>_. Inr (wbPageDataJS demo_page)),
     br_big = (\<lambda>_. PosInf), br_quote = (\<lambda>c. [c])\<rparr>"

lemma demo_shown: "shown_price demo_page \<lparr>el_className = None, el_innerText = ''5 690 R''\<rparr>"
  unfolding shown_price_def
proof (intro conjI exI)
  let ?old = "\<lparr>el_className = Some ''priceBlockOldPrice'', el_innerText = ''7 000 R''\<rparr>"
    and ?new = "\<lparr>el_className = None, el_innerText = ''5 690 R''\<rparr>"
  have new: "\<not> isExcludedPrice ?new" by code_simp
  then show "\<not> blank demo_page ?new" by (simp add: blank_def demo_page_def)
  have old: "isExcludedPrice ?old" by code_simp
  then show "\<forall>y\<in>set [?old]. blank demo_page y" by (simp add: blank_def)
  show "priceSelectors = take 3 priceSelectors @ ''[class*=\"priceBlockFinalPrice\"]'' # drop 4 priceSelectors"
    by (simp add: priceSelectors_def)
  show "pd_query demo_page ''[class*=\"priceBlockFinalPrice\"]'' = [?old] @ ?new # []" by (simp add: demo_page_def)
  show "\<forall>x\<in>set (take 3 priceSelectors). \<forall>y\<in>set (pd_query demo_page x). blank demo_page y"
    by (simp add: priceSelectors_def demo_page_def)
qed

theorem shown_price_fetched_witness:
  "\<exists>p. FetchProduct demo_page_browser False False ''https://www.wildberries.ru/catalog/123'' = Inr p \<and>
     mp_Price p = Fin (of_nat 5690)"
proof -
  have "wbProductIDRe ''https://www.wildberries.ru/catalog/123'' = Some ''123''" by code_simp
  then have loads: "loads demo_page_browser ''https://www.wildberries.ru/catalog/123'' ''123'' demo_page"
    by (simp add: loads_def demo_page_browser_def)
  have title: "contains (pd_title demo_page) ''123''" by code_simp
  have "digit 5 = CHR ''5''" "digit 6 = CHR ''6''" "digit 9 = CHR ''9''" "digit 0 = CHR ''0''" by code_simp+
  then have n: "show_nat 5690 = ''5690''" by (simp add: show_nat.simps)
  have body: "grouped (show_nat 5690) ''5 690 ''"
    unfolding n by (intro grouped_digit grouped_space grouped_Nil) (simp_all add: is_digit_def)
  have tail: "stops_price ''R''" by (simp add: stops_price_def is_digit_def nbsp_simps has_prefix_def)
  have "displays ''5 690 R'' 5690" unfolding displays_def
    by (intro exI [of _ "[]"] exI [of _ "''5 690 ''"] exI [of _ "''R''"]) (use body tail in \<open>simp add: is_digit_def\<close>)
  then have shown: "displays (pd_trim demo_page (el_innerText \<lparr>el_className = None, el_innerText = ''5 690 R''\<rparr>)) 5690"
    by (simp add: demo_page_def)
  show ?thesis using shown_price_fetched [OF loads title demo_shown shown] by auto
qed

end
