(* ===== verification/TestHelper.thy ===== *)
theory TestHelper
  imports Contracts
begin

text \<open>
  The command-line tool of the integration tests, \<open>shared/cmd/testhelper/main.go\<close>: publishing a message
  and reading it back. What the flags parse to and how the calls of the broker end are parameters; an
  error is its text.
\<close>

section \<open>Publishing\<close>

text \<open>A failed command writes its message to the standard error and exits with code 1.\<close>

type_synonym 'a command = "string + 'a"

record publish_calls =
  pv_connect :: "string option"
  pv_declare :: "string option"
  pv_publish :: "string option"
  pv_write :: "string option"

definition brokerPublish :: "string \<Rightarrow> string \<Rightarrow> string \<Rightarrow> publish_calls \<Rightarrow> string command" where
  "brokerPublish url queue body E =
     (if url = [] \<or> queue = [] \<or> body = [] then Inl ''url, queue, and body are required''
      else case pv_connect E of Some e \<Rightarrow> Inl (''dial test broker: '' @ e)
      | None \<Rightarrow> (case pv_declare E of Some e \<Rightarrow> Inl (''declare durable test queue: '' @ e)
      | None \<Rightarrow> (case pv_publish E of Some e \<Rightarrow> Inl (''publish persistent test message: '' @ e)
      | None \<Rightarrow> (case pv_write E of Some e \<Rightarrow> Inl (''write publish status: '' @ e)
      | None \<Rightarrow> Inr ''persistent message publish confirmed''))))"

section \<open>Consuming\<close>

text \<open>What the \<open>select\<close> gets first: a delivery with its body, the end of the channel, or the timer of ten seconds.\<close>

datatype consumed = Delivery string | QueueClosed | TimedOut

record consume_calls =
  cv_dial :: "string option"
  cv_channel :: "string option"
  cv_consume :: "string option"
  cv_event :: consumed
  cv_ack :: "string option"
  cv_write :: "string option"

text \<open>The result, and whether the message was acknowledged.\<close>

definition receive :: "consume_calls \<Rightarrow> string command \<times> bool" where
  "receive E =
     (case cv_event E of
        Delivery body \<Rightarrow>
          (case cv_ack E of Some e \<Rightarrow> (Inl (''ack recovered test message: '' @ e), False)
           | None \<Rightarrow> (case cv_write E of Some e \<Rightarrow> (Inl (''write recovered message: '' @ e), True)
           | None \<Rightarrow> (Inr body, True)))
      | QueueClosed \<Rightarrow> (Inl ''test queue closed before delivery'', False)
      | TimedOut \<Rightarrow> (Inl ''timed out waiting for recovered test message'', False))"

definition brokerConsume :: "string \<Rightarrow> string \<Rightarrow> consume_calls \<Rightarrow> string command \<times> bool" where
  "brokerConsume url queue E =
     (if url = [] \<or> queue = [] then (Inl ''url and queue are required'', False)
      else case cv_dial E of Some e \<Rightarrow> (Inl (''dial test broker: '' @ e), False)
      | None \<Rightarrow> (case cv_channel E of Some e \<Rightarrow> (Inl (''open test channel: '' @ e), False)
      | None \<Rightarrow> (case cv_consume E of Some e \<Rightarrow> (Inl (''consume recovered test message: '' @ e), False)
      | None \<Rightarrow> receive E)))"

text \<open>\<open>main\<close>: the arguments after the program's name; \<open>flags\<close> parses those of a subcommand.\<close>

definition helper_main ::
  "(string list \<Rightarrow> string \<times> string \<times> string) \<Rightarrow> string list \<Rightarrow> publish_calls \<Rightarrow> consume_calls \<Rightarrow> string command" where
  "helper_main flags args P C =
     (case args of
        [] \<Rightarrow> Inl ''usage: testhelper broker-publish|broker-consume [flags]''
      | cmd # args \<Rightarrow>
          (case flags args of (url, queue, body) \<Rightarrow>
             if cmd = ''broker-publish'' then brokerPublish url queue body P
             else if cmd = ''broker-consume'' then fst (brokerConsume url queue C)
             else Inl ''unknown helper command''))"

section \<open>What its output means\<close>

lemma brokerPublish_confirmed:
  "brokerPublish url queue body E = Inr out \<Longrightarrow> pv_declare E = None \<and> pv_publish E = None"
  by (auto simp: brokerPublish_def split: if_splits option.splits)

lemma brokerConsume_acked:
  "snd (brokerConsume url queue E) \<longleftrightarrow>
     url \<noteq> [] \<and> queue \<noteq> [] \<and> cv_dial E = None \<and> cv_channel E = None \<and> cv_consume E = None \<and> cv_ack E = None \<and>
     (\<exists>body. cv_event E = Delivery body)"
  by (auto simp: brokerConsume_def receive_def split: option.splits consumed.splits)

lemma brokerConsume_printed:
  "fst (brokerConsume url queue E) = Inr out \<Longrightarrow> cv_event E = Delivery out \<and> snd (brokerConsume url queue E)"
  by (auto simp: brokerConsume_def receive_def split: if_splits option.splits consumed.splits)

end
