(* ===== verification/BotLaws.thy ===== *)
theory BotLaws
  imports Bot
begin

text \<open>
  The proofs on the bot: what sending leaves alone, the invariant of the runs, and what becomes
  of a chat that waits for a lookup.
\<close>

section \<open>Frames\<close>

lemma api_frame [simp]:
  "bo_sessions (fst (api E m b)) = bo_sessions b" "bo_active (fst (api E m b)) = bo_active b"
  "bo_slots (fst (api E m b)) = bo_slots b" "bo_sequence (fst (api E m b)) = bo_sequence b"
  "bo_lookups (fst (api E m b)) = bo_lookups b" "bo_gateway (fst (api E m b)) = bo_gateway b"
  "bo_stopped (fst (api E m b)) = bo_stopped b"
  by (simp_all add: api_def Let_def)

lemma send_retry_frame:
  "\<exists>a. send_retry E m ds b = b\<lparr>bo_api := a\<rparr>"
proof (induction E m ds b rule: send_retry.induct)
  case (2 E m d ds b)
  show ?case
  proof (cases "d > 0 \<and> \<not> be_wait E (length (bo_api b))")
    case True
    then show ?thesis by (intro exI [of _ "bo_api b"]) simp
  next
    case False
    obtain b' ok where a: "api E m b = (b', ok)" by fastforce
    then have b': "b' = b\<lparr>bo_api := bo_api b'\<rparr>" by (auto simp: api_def Let_def)
    show ?thesis
    proof (cases ok)
      case True
      with a False b' show ?thesis by auto
    next
      case False
      with 2 \<open>\<not> (d > 0 \<and> _)\<close> a [symmetric] obtain c where "send_retry E m ds b' = b'\<lparr>bo_api := c\<rparr>" by metis
      moreover have "b'\<lparr>bo_api := c\<rparr> = b\<lparr>bo_api := c\<rparr>" by (subst b') simp
      ultimately show ?thesis using a \<open>\<not> (d > 0 \<and> _)\<close> False by auto
    qed
  qed
next
  case (1 E m b)
  then show ?case by (intro exI [of _ "bo_api b"]) simp
qed

lemma send_frame [simp]:
  "bo_sessions (send E c s b) = bo_sessions b" "bo_active (send E c s b) = bo_active b"
  "bo_slots (send E c s b) = bo_slots b" "bo_sequence (send E c s b) = bo_sequence b"
  "bo_lookups (send E c s b) = bo_lookups b" "bo_gateway (send E c s b) = bo_gateway b"
  "bo_stopped (send E c s b) = bo_stopped b"
proof -
  obtain a where "send E c s b = b\<lparr>bo_api := a\<rparr>" using send_retry_frame unfolding send_def by blast
  then show "bo_sessions (send E c s b) = bo_sessions b" "bo_active (send E c s b) = bo_active b"
    "bo_slots (send E c s b) = bo_slots b" "bo_sequence (send E c s b) = bo_sequence b"
    "bo_lookups (send E c s b) = bo_lookups b" "bo_gateway (send E c s b) = bo_gateway b"
    "bo_stopped (send E c s b) = bo_stopped b" by simp_all
qed

lemma sessions_do_frame [simp]:
  "bo_sessions (sessions_do f b) = f (bo_sessions b)" "bo_active (sessions_do f b) = bo_active b"
  "bo_slots (sessions_do f b) = bo_slots b" "bo_sequence (sessions_do f b) = bo_sequence b"
  "bo_lookups (sessions_do f b) = bo_lookups b" "bo_gateway (sessions_do f b) = bo_gateway b"
  "bo_stopped (sessions_do f b) = bo_stopped b" "bo_api (sessions_do f b) = bo_api b"
  by (simp_all add: sessions_do_def)

section \<open>The invariant\<close>

definition bot_id :: "nat \<Rightarrow> string" where
  "bot_id n = ''bot-'' @ show_nat n"

lemma bot_id_inj [simp]: "bot_id m = bot_id n \<longleftrightarrow> m = n"
  by (auto simp: bot_id_def dest: show_nat_inj)

definition running :: "lookupTask list \<Rightarrow> int \<Rightarrow> string \<Rightarrow> bool" where
  "running ls c i \<longleftrightarrow> (\<exists>l \<in> set ls. lu_chat l = c \<and> lu_id l = i \<and> \<not> lu_cancelled l)"

definition asks_max :: "Session \<Rightarrow> bool" where
  "asks_max s \<longleftrightarrow> se_Step s = StepWaitingMaxPrice \<or> se_Step s = StepEditingMaxPrice"

definition session_ok :: "Session \<Rightarrow> bool" where
  "session_ok s \<longleftrightarrow> (asks_max s \<longrightarrow> \<not> f_le (se_MinPrice s) f_zero)"

definition lookup_ok :: "nat \<Rightarrow> lookupTask \<Rightarrow> bool" where
  "lookup_ok n l \<longleftrightarrow> (\<exists>k \<le> n. lu_id l = bot_id k) \<and>
     (\<forall>r m. lu_phase l = Completing r m \<longrightarrow> se_Step r = StepIdle \<or> se_Step r = StepWaitingMinPrice)"

text \<open>The lookups that have nothing left but their deferred function, and those that hold a slot.\<close>

fun over :: "phase \<Rightarrow> bool" where
  "over Finishing = True"
| "over Released = True"
| "over _ = False"

definition holding :: "lookupTask list \<Rightarrow> nat" where
  "holding ls = length (filter (\<lambda>l. lu_phase l \<noteq> Released) ls)"

lemma holding_simps [simp]:
  "holding [] = 0" "holding (ls @ ms) = holding ls + holding ms"
  "holding (l # ls) = (if lu_phase l = Released then 0 else 1) + holding ls"
  by (simp_all add: holding_def)

lemma holding_map [simp]: "(\<And>l. lu_phase (f l) = lu_phase l) \<Longrightarrow> holding (map f ls) = holding ls"
  by (induction ls) auto

lemma holding_split: "i < length ls \<Longrightarrow> holding ls = holding (take i ls) + (if lu_phase (ls ! i) = Released then 0 else 1) + holding (drop (Suc i) ls)"
  by (subst id_take_nth_drop [of i ls]) simp_all

lemma holding_update: "i < length ls \<Longrightarrow> holding (ls[i := x]) + (if lu_phase (ls ! i) = Released then 0 else 1) =
    holding ls + (if lu_phase x = Released then 0 else 1)"
  by (simp add: upd_conv_take_nth_drop holding_split [of i ls])

definition bot_inv :: "'g bot \<Rightarrow> bool" where
  "bot_inv b \<longleftrightarrow>
     holding (bo_lookups b) = bo_slots b \<and> bo_slots b \<le> lookupSlots \<and>
     distinct (map lu_id (bo_lookups b)) \<and> (\<forall>l \<in> set (bo_lookups b). lookup_ok (bo_sequence b) l) \<and>
     (\<forall>c. session_ok (Get c (bo_sessions b))) \<and>
     (\<not> bo_stopped b \<longrightarrow>
        (\<forall>l \<in> set (bo_lookups b). \<not> lu_cancelled l \<longrightarrow> bo_active b (lu_chat l) = Some (lu_id l)) \<and>
        (\<forall>c i. bo_active b c = Some i \<longrightarrow> running (bo_lookups b) c i) \<and>
        (\<forall>c. se_Step (Get c (bo_sessions b)) = StepWaitingLookup \<longrightarrow>
           (\<exists>l \<in> set (bo_lookups b). lu_chat l = c \<and> lu_id l = se_LookupID (Get c (bo_sessions b)) \<and>
              \<not> lu_cancelled l \<and> \<not> over (lu_phase l))))"

lemma bot_inv_active:
  "bot_inv b \<Longrightarrow> \<not> bo_stopped b \<Longrightarrow> bo_active b c = Some i \<Longrightarrow> running (bo_lookups b) c i"
  by (simp add: bot_inv_def)

lemma bot_inv_uncancelled:
  "bot_inv b \<Longrightarrow> \<not> bo_stopped b \<Longrightarrow> l \<in> set (bo_lookups b) \<Longrightarrow> \<not> lu_cancelled l \<Longrightarrow>
     bo_active b (lu_chat l) = Some (lu_id l)"
  by (simp add: bot_inv_def)

lemma bot_inv_waiting:
  assumes "bot_inv b" and "\<not> bo_stopped b" and "se_Step (Get c (bo_sessions b)) = StepWaitingLookup"
  obtains l where "l \<in> set (bo_lookups b)" "lu_chat l = c" "lu_id l = se_LookupID (Get c (bo_sessions b))"
    "\<not> lu_cancelled l" "\<not> over (lu_phase l)"
  using assms unfolding bot_inv_def by blast

lemma bot_invI:
  assumes "holding (bo_lookups b) = bo_slots b" "bo_slots b \<le> lookupSlots" "distinct (map lu_id (bo_lookups b))"
    and "\<And>l. l \<in> set (bo_lookups b) \<Longrightarrow> lookup_ok (bo_sequence b) l"
    and "\<And>c. session_ok (Get c (bo_sessions b))"
    and "\<And>l. \<not> bo_stopped b \<Longrightarrow> l \<in> set (bo_lookups b) \<Longrightarrow> \<not> lu_cancelled l \<Longrightarrow> bo_active b (lu_chat l) = Some (lu_id l)"
    and "\<And>c i. \<not> bo_stopped b \<Longrightarrow> bo_active b c = Some i \<Longrightarrow> running (bo_lookups b) c i"
    and "\<And>c. \<not> bo_stopped b \<Longrightarrow> se_Step (Get c (bo_sessions b)) = StepWaitingLookup \<Longrightarrow>
       \<exists>l \<in> set (bo_lookups b). lu_chat l = c \<and> lu_id l = se_LookupID (Get c (bo_sessions b)) \<and>
         \<not> lu_cancelled l \<and> \<not> over (lu_phase l)"
  shows "bot_inv b"
  using assms unfolding bot_inv_def by blast

text \<open>The invariant only looks at these fields.\<close>

lemma bot_inv_frame:
  assumes "bo_sessions b' = bo_sessions b" "bo_active b' = bo_active b" "bo_slots b' = bo_slots b"
    "bo_sequence b' = bo_sequence b" "bo_lookups b' = bo_lookups b" "bo_stopped b' = bo_stopped b"
  shows "bot_inv b' \<longleftrightarrow> bot_inv b"
  by (simp add: bot_inv_def assms)

lemma bot_inv_send [simp]: "bot_inv (send E c s b) \<longleftrightarrow> bot_inv b"
  by (rule bot_inv_frame) simp_all

lemma bot_inv_api [simp]: "bot_inv (fst (api E m b)) \<longleftrightarrow> bot_inv b"
  by (rule bot_inv_frame) simp_all

lemma bot_inv_gateway [simp]: "bot_inv (b\<lparr>bo_gateway := g\<rparr>) \<longleftrightarrow> bot_inv b"
  by (rule bot_inv_frame) simp_all

lemma bot_inv_call: "call f b = (b', r) \<Longrightarrow> bot_inv b' \<longleftrightarrow> bot_inv b"
  by (auto simp: call_def split: prod.splits)

lemma call_frame: "call f b = (b', r) \<Longrightarrow> bo_sessions b' = bo_sessions b"
  by (auto simp: call_def split: prod.splits)

text \<open>A new session of one chat that does not begin to wait.\<close>

lemma bot_inv_sessions:
  assumes "bot_inv b" and "\<And>d. d \<noteq> c \<Longrightarrow> Get d (f (bo_sessions b)) = Get d (bo_sessions b)"
    and "session_ok (Get c (f (bo_sessions b)))"
    and "se_Step (Get c (f (bo_sessions b))) = StepWaitingLookup \<Longrightarrow>
      se_Step (Get c (bo_sessions b)) = StepWaitingLookup \<and>
      se_LookupID (Get c (f (bo_sessions b))) = se_LookupID (Get c (bo_sessions b))"
  shows "bot_inv (sessions_do f b)"
proof -
  have "session_ok (Get d (f (bo_sessions b)))" for d
    using assms(1-3) by (cases "d = c") (simp_all add: bot_inv_def)
  moreover have "se_Step (Get d (bo_sessions b)) = StepWaitingLookup \<and>
      se_LookupID (Get d (f (bo_sessions b))) = se_LookupID (Get d (bo_sessions b))"
    if "se_Step (Get d (f (bo_sessions b))) = StepWaitingLookup" for d
    using assms(2,4) that by (cases "d = c") simp_all
  ultimately show ?thesis using assms(1) by (simp add: bot_inv_def)
qed

lemma bot_inv_Set:
  assumes "bot_inv b" and "session_ok s" and "se_Step s \<noteq> StepWaitingLookup"
  shows "bot_inv (sessions_do (Set c (Some s)) b)"
  using assms by (intro bot_inv_sessions [of _ c]) (simp_all add: Get_Set)

lemma Get_Update_page:
  "Get c (Update c (\<lambda>s. s\<lparr>se_Page := p\<rparr>) s) = (Get c s)\<lparr>se_Page := p\<rparr> \<or>
   Get c (Update c (\<lambda>s. s\<lparr>se_Page := p\<rparr>) s) = idle"
  by (auto simp: Update_def Let_def) (simp_all add: Get_def)

lemma bot_inv_page:
  assumes "bot_inv b"
  shows "bot_inv (sessions_do (Update c (\<lambda>s. s\<lparr>se_Page := p\<rparr>)) b)"
proof (rule bot_inv_sessions [OF assms, of c])
  have ok: "session_ok (Get c (bo_sessions b))" using assms by (simp add: bot_inv_def)
  show "session_ok (Get c (Update c (\<lambda>s. s\<lparr>se_Page := p\<rparr>) (bo_sessions b)))"
    using Get_Update_page [of c p "bo_sessions b"] ok by (auto simp: session_ok_def asks_max_def)
  show "se_Step (Get c (bo_sessions b)) = StepWaitingLookup \<and>
      se_LookupID (Get c (Update c (\<lambda>s. s\<lparr>se_Page := p\<rparr>) (bo_sessions b))) = se_LookupID (Get c (bo_sessions b))"
    if "se_Step (Get c (Update c (\<lambda>s. s\<lparr>se_Page := p\<rparr>) (bo_sessions b))) = StepWaitingLookup"
    using Get_Update_page [of c p "bo_sessions b"] that by auto
  show "Get d (Update c (\<lambda>s. s\<lparr>se_Page := p\<rparr>) (bo_sessions b)) = Get d (bo_sessions b)" if "d \<noteq> c" for d
    using that by (simp add: Get_def Update_other)
qed

section \<open>The handlers keep the invariant\<close>

lemma parsePrice_positive: "parsePrice F s = Some p \<Longrightarrow> \<not> f_le p f_zero"
  by (auto simp: parsePrice_def Let_def split: option.splits if_splits)

lemma bot_inv_handleMinPrice: "bot_inv b \<Longrightarrow> bot_inv (handleMinPrice E c s m b)"
  by (auto simp: handleMinPrice_def Let_def session_ok_def dest: parsePrice_positive split: option.splits
      intro!: bot_inv_Set)

lemma bot_inv_handleEditMinPrice: "bot_inv b \<Longrightarrow> bot_inv (handleEditMinPrice E c s m b)"
  by (auto simp: handleEditMinPrice_def Let_def session_ok_def dest: parsePrice_positive split: option.splits
      intro!: bot_inv_Set)

lemma bot_inv_handleMaxPrice: "bot_inv b \<Longrightarrow> bot_inv (handleMaxPrice E c s m b)"
  by (auto simp: handleMaxPrice_def session_ok_def asks_max_def bot_inv_call
      split: option.splits prod.splits intro!: bot_inv_Set)

lemma bot_inv_handleEditMaxPrice: "bot_inv b \<Longrightarrow> bot_inv (handleEditMaxPrice E c s m b)"
  by (auto simp: handleEditMaxPrice_def session_ok_def asks_max_def bot_inv_call
      split: option.splits prod.splits intro!: bot_inv_Set)

lemma findSubscription_inv: "findSubscription E c i b = (b', r) \<Longrightarrow> bot_inv b' \<longleftrightarrow> bot_inv b"
  by (auto simp: findSubscription_def bot_inv_call split: prod.splits option.splits)

lemma bot_inv_startEdit: "bot_inv b \<Longrightarrow> bot_inv (startEditSubscription E c i b)"
  by (auto simp: startEditSubscription_def Let_def session_ok_def asks_max_def findSubscription_inv
      split: prod.splits option.splits intro!: bot_inv_Set)

lemma bot_inv_refresh: "bot_inv b \<Longrightarrow> bot_inv (refreshMyList E c m b)"
  by (auto simp: refreshMyList_def bot_inv_call split: prod.splits option.splits intro!: bot_inv_page)

lemma bot_inv_list: "bot_inv b \<Longrightarrow> bot_inv (handleMyList E c b)"
  by (auto simp: handleMyList_def bot_inv_call split: prod.splits option.splits intro!: bot_inv_page)

lemma bot_inv_history: "bot_inv b \<Longrightarrow> bot_inv (handleHistory E c i b)"
  by (auto simp: handleHistory_def findSubscription_inv bot_inv_call split: prod.splits option.splits)

lemma bot_inv_actions:
  "bot_inv b \<Longrightarrow> bot_inv (handleForceCheck E c i b)"
  "bot_inv b \<Longrightarrow> bot_inv (pauseSubscription E c m i b)"
  "bot_inv b \<Longrightarrow> bot_inv (resumeSubscription E c m i b)"
  "bot_inv b \<Longrightarrow> bot_inv (deleteSubscription_b E c m i b)"
  by (auto simp: handleForceCheck_def pauseSubscription_def resumeSubscription_def deleteSubscription_b_def
      bot_inv_call split: prod.splits option.splits intro!: bot_inv_refresh)

lemma bot_inv_handleCallback: "bot_inv b \<Longrightarrow> bot_inv (handleCallback E cb chat data b)"
  by (auto simp: handleCallback_def Let_def split: option.splits callback.splits
      intro!: bot_inv_refresh bot_inv_page bot_inv_startEdit bot_inv_actions bot_inv_history)

text \<open>Cancelling: no uncancelled lookup of the chat is left, those of other chats are as before.\<close>

lemma cancelLookup_frame [simp]:
  "bo_sessions (cancelLookup c b) = bo_sessions b" "bo_slots (cancelLookup c b) = bo_slots b"
  "bo_sequence (cancelLookup c b) = bo_sequence b" "bo_stopped (cancelLookup c b) = bo_stopped b"
  "bo_gateway (cancelLookup c b) = bo_gateway b"
  "map lu_id (bo_lookups (cancelLookup c b)) = map lu_id (bo_lookups b)"
  "length (bo_lookups (cancelLookup c b)) = length (bo_lookups b)"
  by (auto simp: cancelLookup_def comp_def if_distrib split: option.splits cong: if_cong)

lemma cancelLookup_active: "bo_active (cancelLookup c b) = (bo_active b)(c := None)"
  by (auto simp: cancelLookup_def split: option.splits)

lemma cancelLookup_holding [simp]: "holding (bo_lookups (cancelLookup c b)) = holding (bo_lookups b)"
  by (auto simp: cancelLookup_def split: option.splits)

lemma cancelLookup_ok:
  "\<forall>l \<in> set (bo_lookups b). lookup_ok n l \<Longrightarrow> \<forall>l \<in> set (bo_lookups (cancelLookup c b)). lookup_ok n l"
  by (auto simp: cancelLookup_def lookup_ok_def split: option.splits)

lemma distinct_map_eq: "distinct (map f xs) \<Longrightarrow> x \<in> set xs \<Longrightarrow> y \<in> set xs \<Longrightarrow> f x = f y \<Longrightarrow> x = y"
  by (meson distinct_map inj_onD)

lemma cancelLookup_lookups:
  assumes "bot_inv b" and "\<not> bo_stopped b"
  shows "l \<in> set (bo_lookups (cancelLookup c b)) \<Longrightarrow> \<not> lu_cancelled l \<Longrightarrow> l \<in> set (bo_lookups b) \<and> lu_chat l \<noteq> c"
    and "l \<in> set (bo_lookups b) \<Longrightarrow> lu_chat l \<noteq> c \<Longrightarrow> l \<in> set (bo_lookups (cancelLookup c b))"
proof -
  have act: "\<forall>l \<in> set (bo_lookups b). \<not> lu_cancelled l \<longrightarrow> bo_active b (lu_chat l) = Some (lu_id l)"
    and run: "\<And>i. bo_active b c = Some i \<Longrightarrow> running (bo_lookups b) c i"
    and dist: "distinct (map lu_id (bo_lookups b))"
    using assms by (simp_all add: bot_inv_def)
  show "l \<in> set (bo_lookups b) \<and> lu_chat l \<noteq> c" if "l \<in> set (bo_lookups (cancelLookup c b))" "\<not> lu_cancelled l"
    using that act by (auto simp: cancelLookup_def split: option.splits if_splits)
  show "l \<in> set (bo_lookups (cancelLookup c b))" if l: "l \<in> set (bo_lookups b)" "lu_chat l \<noteq> c"
  proof (cases "bo_active b c")
    case (Some i)
    then obtain x where x: "x \<in> set (bo_lookups b)" "lu_chat x = c" "lu_id x = i" using run by (auto simp: running_def)
    with l distinct_map_eq [OF dist] have "lu_id l \<noteq> i" by metis
    then have "l = (if lu_id l = i then l\<lparr>lu_cancelled := True\<rparr> else l)" by simp
    with l(1) Some show ?thesis by (force simp: cancelLookup_def)
  qed (use l in \<open>simp add: cancelLookup_def\<close>)
qed

text \<open>After the lookup of a chat was cancelled, its session may be anything that does not wait.\<close>

lemma bot_inv_cancelled:
  assumes "bot_inv b" and "\<And>d. d \<noteq> c \<Longrightarrow> Get d s = Get d (bo_sessions b)" and "session_ok (Get c s)"
    and "se_Step (Get c s) \<noteq> StepWaitingLookup"
  shows "bot_inv ((cancelLookup c b)\<lparr>bo_sessions := s\<rparr>)"
proof -
  let ?b = "(cancelLookup c b)\<lparr>bo_sessions := s\<rparr>"
  have ok: "session_ok (Get d s)" for d using assms(1-3) by (cases "d = c") (simp_all add: bot_inv_def)
  have lo: "\<forall>l \<in> set (bo_lookups (cancelLookup c b)). lookup_ok (bo_sequence b) l"
    using cancelLookup_ok assms(1) by (auto simp: bot_inv_def)
  have rest: "(\<forall>l \<in> set (bo_lookups ?b). \<not> lu_cancelled l \<longrightarrow> bo_active ?b (lu_chat l) = Some (lu_id l)) \<and>
      (\<forall>d i. bo_active ?b d = Some i \<longrightarrow> running (bo_lookups ?b) d i) \<and>
      (\<forall>d. se_Step (Get d s) = StepWaitingLookup \<longrightarrow>
         (\<exists>l \<in> set (bo_lookups ?b). lu_chat l = d \<and> lu_id l = se_LookupID (Get d s) \<and> \<not> lu_cancelled l \<and>
            \<not> over (lu_phase l)))" if ns: "\<not> bo_stopped b"
  proof (intro conjI allI impI ballI)
    note lk = cancelLookup_lookups [OF assms(1) ns, of _ c]
    show "bo_active ?b (lu_chat l) = Some (lu_id l)" if "l \<in> set (bo_lookups ?b)" "\<not> lu_cancelled l" for l
      using lk(1) [of l] that assms(1) ns by (auto simp: bot_inv_def cancelLookup_active)
    show "running (bo_lookups ?b) d i" if "bo_active ?b d = Some i" for d i
    proof -
      from that have "d \<noteq> c" "bo_active b d = Some i" by (auto simp: cancelLookup_active split: if_splits)
      then obtain l where "l \<in> set (bo_lookups b)" "lu_chat l = d" "lu_id l = i" "\<not> lu_cancelled l"
        using bot_inv_active [OF assms(1) ns] by (auto simp: running_def)
      with lk(2) [of l] \<open>d \<noteq> c\<close> show ?thesis by (auto simp: running_def)
    qed
    show "\<exists>l \<in> set (bo_lookups ?b). lu_chat l = d \<and> lu_id l = se_LookupID (Get d s) \<and> \<not> lu_cancelled l \<and>
        \<not> over (lu_phase l)" if "se_Step (Get d s) = StepWaitingLookup" for d
    proof -
      from that assms(4) have "d \<noteq> c" by auto
      with assms(2) that have "se_Step (Get d (bo_sessions b)) = StepWaitingLookup" "Get d s = Get d (bo_sessions b)" by simp_all
      then obtain l where "l \<in> set (bo_lookups b)" "lu_chat l = d" "lu_id l = se_LookupID (Get d s)" "\<not> lu_cancelled l"
          "\<not> over (lu_phase l)"
        using bot_inv_waiting [OF assms(1) ns] by metis
      with lk(2) [of l] \<open>d \<noteq> c\<close> show ?thesis by auto
    qed
  qed
  show ?thesis using assms(1) ok lo rest by (simp add: bot_inv_def)
qed

text \<open>A new lookup for a chat that has none.\<close>

lemma lookup_ok_mono: "lookup_ok m l \<Longrightarrow> m \<le> n \<Longrightarrow> lookup_ok n l"
  by (auto simp: lookup_ok_def)

lemma bot_inv_add:
  assumes inv: "bot_inv b" and none: "bo_active b c = None" and room: "bo_slots b < lookupSlots"
    and new: "bo_sequence b < n" and others: "\<And>d. d \<noteq> c \<Longrightarrow> Get d s = Get d (bo_sessions b)"
    and sess: "se_Step (Get c s) = StepWaitingLookup" "se_LookupID (Get c s) = bot_id n"
    and l: "lu_chat l = c" "lu_id l = bot_id n" "lu_cancelled l = bo_stopped b" "lu_phase l = Starting m"
    and b': "bo_sessions b' = s" "bo_sequence b' = n" "bo_slots b' = bo_slots b + 1"
      "bo_active b' = (bo_active b)(c \<mapsto> bot_id n)" "bo_lookups b' = bo_lookups b @ [l]" "bo_stopped b' = bo_stopped b"
  shows "bot_inv b'"
proof (rule bot_invI)
  have ids: "\<exists>k \<le> bo_sequence b. lu_id x = bot_id k" if "x \<in> set (bo_lookups b)" for x
    using inv that by (auto simp: bot_inv_def lookup_ok_def)
  show "holding (bo_lookups b') = bo_slots b'" "bo_slots b' \<le> lookupSlots"
    using inv room b' l by (auto simp: bot_inv_def)
  show "distinct (map lu_id (bo_lookups b'))" using inv ids new b' l by (fastforce simp: bot_inv_def)
  show "lookup_ok (bo_sequence b') x" if "x \<in> set (bo_lookups b')" for x
    using inv that new b' l lookup_ok_mono by (fastforce simp: bot_inv_def lookup_ok_def)
  show "session_ok (Get d (bo_sessions b'))" for d
    using inv others sess b' by (cases "d = c") (auto simp: bot_inv_def session_ok_def asks_max_def)
  show "bo_active b' (lu_chat x) = Some (lu_id x)"
    if "\<not> bo_stopped b'" "x \<in> set (bo_lookups b')" "\<not> lu_cancelled x" for x
    using that b' l none bot_inv_uncancelled [OF inv, of x] by auto
  show "running (bo_lookups b') d i" if "\<not> bo_stopped b'" "bo_active b' d = Some i" for d i
    using that b' l bot_inv_active [OF inv, of d i] by (auto simp: running_def split: if_splits)
  show "\<exists>x \<in> set (bo_lookups b'). lu_chat x = d \<and> lu_id x = se_LookupID (Get d (bo_sessions b')) \<and>
      \<not> lu_cancelled x \<and> \<not> over (lu_phase x)"
    if ns: "\<not> bo_stopped b'" and w: "se_Step (Get d (bo_sessions b')) = StepWaitingLookup" for d
  proof (cases "d = c")
    case True
    then show ?thesis using b' l sess ns by auto
  next
    case False
    with w b' others have "se_Step (Get d (bo_sessions b)) = StepWaitingLookup" "Get d (bo_sessions b') = Get d (bo_sessions b)"
      by simp_all
    with bot_inv_waiting [OF inv _ this(1)] ns b' show ?thesis by (metis Un_iff set_append)
  qed
qed

lemma bot_inv_sequence: "bot_inv b \<Longrightarrow> bo_sequence b \<le> n \<Longrightarrow> bot_inv (b\<lparr>bo_sequence := n\<rparr>)"
  using lookup_ok_mono unfolding bot_inv_def by auto

lemma bot_inv_handleURLSubmit:
  assumes inv: "bot_inv b" and seq: "bo_sequence b + 1 < 2 ^ 64"
    and idle: "se_Step (Get c (bo_sessions b)) = StepIdle"
  shows "bot_inv (handleURLSubmit E c m b)"
proof (cases "contains m ''wildberries.ru''")
  case False
  with inv show ?thesis by (simp add: handleURLSubmit_def)
next
  case True
  define n where "n = bo_sequence b + 1"
  define page where "page = se_Page (Get c (bo_sessions b))"
  define wait where "wait = idle\<lparr>se_Step := StepWaitingLookup, se_LookupID := bot_id n, se_Page := page\<rparr>"
  define b1 where "b1 = (cancelLookup c b)\<lparr>bo_sessions := Clear c (bo_sessions b)\<rparr>"
  have n: "(bo_sequence b + 1) mod 2 ^ 64 = n" using seq by (simp add: n_def)
  have inv1: "bot_inv b1" unfolding b1_def
    by (rule bot_inv_cancelled [OF inv]) (simp_all add: Get_Clear session_ok_def asks_max_def)
  have cancel_seq: "cancelLookup c (b\<lparr>bo_sequence := n\<rparr>) = (cancelLookup c b)\<lparr>bo_sequence := n\<rparr>"
    by (simp add: cancelLookup_def split: option.split)
  define b2 where "b2 = send E c txt_loading (api_log E (ChatAction c)
    (sessions_do (Set c (Some wait)) (cancelLookup c (b\<lparr>bo_sequence := n\<rparr>))))"
  have b2: "bo_sessions b2 = Set c (Some wait) (bo_sessions b)" "bo_active b2 = (bo_active b)(c := None)"
    "bo_slots b2 = bo_slots b" "bo_sequence b2 = n" "bo_lookups b2 = bo_lookups (cancelLookup c b)"
    "bo_stopped b2 = bo_stopped b"
    by (simp_all add: b2_def cancel_seq cancelLookup_active)
  have h: "handleURLSubmit E c m b =
      (if bo_slots b2 < lookupSlots
       then b2\<lparr>bo_slots := bo_slots b2 + 1, bo_active := (bo_active b2)(c \<mapsto> bot_id n),
              bo_lookups := bo_lookups b2 @ [\<lparr>lu_chat = c, lu_id = bot_id n, lu_page = page,
                lu_cancelled = bo_stopped b2, lu_phase = Starting m\<rparr>]\<rparr>
       else send E c txt_busy (sessions_do (\<lambda>s. fst (CompleteLookup c (bot_id n) (BotState.idle\<lparr>se_Page := page\<rparr>) s)) b2))"
    using True unfolding handleURLSubmit_def Let_def n b2_def wait_def page_def bot_id_def by simp
  show ?thesis
  proof (cases "bo_slots b2 < lookupSlots")
    case True
    then show ?thesis unfolding h
      by (simp only: if_True, intro bot_inv_add [OF inv1, of c n _ _ m])
        (auto simp: b1_def b2 cancelLookup_active n_def Get_Set Get_Clear wait_def)
  next
    case False
    let ?s = "fst (CompleteLookup c (bot_id n) (BotState.idle\<lparr>se_Page := page\<rparr>) (Set c (Some wait) (bo_sessions b)))"
    have s: "?s = Set c (Some (BotState.idle\<lparr>se_Page := page\<rparr>)) (bo_sessions b)"
      by (simp add: CompleteLookup_def Set_def wait_def)
    have "bot_inv ((cancelLookup c b)\<lparr>bo_sessions := ?s\<rparr>)" unfolding s
      by (rule bot_inv_cancelled [OF inv]) (simp_all add: Get_Set session_ok_def asks_max_def)
    then have "bot_inv ((cancelLookup c b)\<lparr>bo_sessions := ?s, bo_sequence := n\<rparr>)"
      using bot_inv_sequence [of "(cancelLookup c b)\<lparr>bo_sessions := ?s\<rparr>" n] by (simp add: n_def)
    then have "bot_inv (sessions_do (\<lambda>s. fst (CompleteLookup c (bot_id n) (BotState.idle\<lparr>se_Page := page\<rparr>) s)) b2)"
      by (rule iffD2 [OF bot_inv_frame, rotated -1]) (simp_all add: b2 cancelLookup_active)
    with False h show ?thesis by simp
  qed
qed

lemma bot_inv_handleMessage:
  assumes "bot_inv b" and "bo_sequence b + 1 < 2 ^ 64"
  shows "bot_inv (handleMessage E c m b)"
proof -
  have "bot_inv (sessions_do (Clear c) (cancelLookup c b))"
    using bot_inv_cancelled [OF assms(1), of c "Clear c (bo_sessions b)"]
    by (simp add: sessions_do_def Get_Clear session_ok_def asks_max_def)
  then show ?thesis
    using assms bot_inv_handleURLSubmit [OF assms]
    by (auto simp: handleMessage_def Let_def bot_inv_list bot_inv_handleMinPrice bot_inv_handleMaxPrice
        bot_inv_handleEditMinPrice bot_inv_handleEditMaxPrice split: step.splits)
qed

section \<open>The steps of a lookup keep the invariant\<close>

definition result_ok :: "phase \<Rightarrow> bool" where
  "result_ok p \<longleftrightarrow> (\<forall>r m. p = Completing r m \<longrightarrow> se_Step r = StepIdle \<or> se_Step r = StepWaitingMinPrice)"

lemma lookup_call_phase: "lookup_call E l m g = (g', p) \<Longrightarrow> result_ok p \<and> p \<noteq> Released \<and> (\<not> lu_cancelled l \<longrightarrow> \<not> over p)"
  by (auto simp: lookup_call_def result_ok_def split: prod.splits option.splits if_splits)

lemma pollLookup_phase: "pollLookup E l i g = (g', p) \<Longrightarrow> result_ok p \<and> p \<noteq> Released \<and> (\<not> lu_cancelled l \<longrightarrow> \<not> over p)"
  by (auto simp: pollLookup_def result_ok_def split: prod.splits option.splits if_splits)

lemma map_update_same: "i < length ls \<Longrightarrow> f x = f (ls ! i) \<Longrightarrow> map f (ls[i := x]) = map f ls"
  by (simp add: map_update list_update_same_conv)

lemma running_update:
  "i < length ls \<Longrightarrow> running (ls[i := (ls ! i)\<lparr>lu_phase := p\<rparr>]) c j \<longleftrightarrow> running ls c j"
proof -
  assume i: "i < length ls"
  have "map (\<lambda>l. (lu_chat l, lu_id l, lu_cancelled l)) (ls[i := (ls ! i)\<lparr>lu_phase := p\<rparr>]) =
      map (\<lambda>l. (lu_chat l, lu_id l, lu_cancelled l)) ls"
    using i by (simp add: map_update_same)
  then have "(\<lambda>l. (lu_chat l, lu_id l, lu_cancelled l)) ` set (ls[i := (ls ! i)\<lparr>lu_phase := p\<rparr>]) =
      (\<lambda>l. (lu_chat l, lu_id l, lu_cancelled l)) ` set ls"
    unfolding set_map [symmetric] by (rule arg_cong)
  moreover have "running xs c j \<longleftrightarrow> (c, j, False) \<in> (\<lambda>l. (lu_chat l, lu_id l, lu_cancelled l)) ` set xs" for xs
    by (auto simp: running_def image_iff)
  ultimately show ?thesis by simp
qed

text \<open>One lookup changes its phase, and perhaps the session of its chat.\<close>

lemma bot_inv_phase:
  assumes inv: "bot_inv b" and i: "i < length (bo_lookups b)" and p: "result_ok p"
    and others: "\<And>d. Get d s = Get d (bo_sessions b) \<or>
      d = lu_chat (bo_lookups b ! i) \<and> session_ok (Get d s) \<and> se_Step (Get d s) \<noteq> StepWaitingLookup"
    and fin: "over p \<Longrightarrow> \<not> bo_stopped b \<Longrightarrow> \<not> lu_cancelled (bo_lookups b ! i) \<Longrightarrow>
      se_Step (Get (lu_chat (bo_lookups b ! i)) s) \<noteq> StepWaitingLookup \<or>
      se_LookupID (Get (lu_chat (bo_lookups b ! i)) s) \<noteq> lu_id (bo_lookups b ! i)"
    and slots: "lu_phase (bo_lookups b ! i) \<noteq> Released" "k + (if p = Released then 1 else 0) = bo_slots b"
  shows "bot_inv (b\<lparr>bo_sessions := s, bo_slots := k, bo_lookups := (bo_lookups b)[i := (bo_lookups b ! i)\<lparr>lu_phase := p\<rparr>]\<rparr>)"
    (is "bot_inv ?b")
proof (rule bot_invI)
  let ?l = "bo_lookups b ! i"
  show "holding (bo_lookups ?b) = bo_slots ?b" "bo_slots ?b \<le> lookupSlots"
    using inv slots holding_update [OF i, of "?l\<lparr>lu_phase := p\<rparr>"] by (auto simp: bot_inv_def split: if_splits)
  show "distinct (map lu_id (bo_lookups ?b))" using inv i by (simp add: bot_inv_def map_update_same)
  show "lookup_ok (bo_sequence ?b) x" if "x \<in> set (bo_lookups ?b)" for x
  proof -
    have "x = ?l\<lparr>lu_phase := p\<rparr> \<or> x \<in> set (bo_lookups b)" using that set_update_subset_insert by fastforce
    moreover have "lookup_ok (bo_sequence b) ?l" using inv i by (simp add: bot_inv_def)
    ultimately show ?thesis using inv p by (auto simp: bot_inv_def lookup_ok_def result_ok_def)
  qed
  show "session_ok (Get d (bo_sessions ?b))" for d
    using inv others [of d] by (auto simp: bot_inv_def)
  show "bo_active ?b (lu_chat x) = Some (lu_id x)"
    if "\<not> bo_stopped ?b" "x \<in> set (bo_lookups ?b)" "\<not> lu_cancelled x" for x
  proof -
    have "x = ?l\<lparr>lu_phase := p\<rparr> \<or> x \<in> set (bo_lookups b)" using that(2) set_update_subset_insert by fastforce
    then show ?thesis using bot_inv_uncancelled [OF inv, of x] bot_inv_uncancelled [OF inv, of ?l] that i by auto
  qed
  show "running (bo_lookups ?b) d j" if "\<not> bo_stopped ?b" "bo_active ?b d = Some j" for d j
    using bot_inv_active [OF inv, of d j] that i by (simp add: running_update)
  show "\<exists>x \<in> set (bo_lookups ?b). lu_chat x = d \<and> lu_id x = se_LookupID (Get d (bo_sessions ?b)) \<and>
      \<not> lu_cancelled x \<and> \<not> over (lu_phase x)"
    if ns: "\<not> bo_stopped ?b" and w: "se_Step (Get d (bo_sessions ?b)) = StepWaitingLookup" for d
  proof -
    from w others [of d] have same: "Get d s = Get d (bo_sessions b)" by auto
    then obtain x where x: "x \<in> set (bo_lookups b)" "lu_chat x = d" "lu_id x = se_LookupID (Get d s)"
        "\<not> lu_cancelled x" "\<not> over (lu_phase x)"
      using bot_inv_waiting [OF inv, of d] ns w by auto
    obtain j where j: "j < length (bo_lookups b)" "x = bo_lookups b ! j" using x(1) by (metis in_set_conv_nth)
    show ?thesis
    proof (cases "j = i")
      case True
      with fin x j ns w have "\<not> over p" by auto
      then have "?l\<lparr>lu_phase := p\<rparr> \<in> set (bo_lookups ?b)" "\<not> over (lu_phase (?l\<lparr>lu_phase := p\<rparr>))"
        using i by (simp_all add: set_update_memI)
      with x j True show ?thesis by (intro bexI [of _ "?l\<lparr>lu_phase := p\<rparr>"]) auto
    next
      case False
      with j have "x \<in> set (bo_lookups ?b)" by (auto simp: in_set_conv_nth nth_list_update intro!: exI [of _ j])
      with x show ?thesis by auto
    qed
  qed
qed

lemma bot_inv_phase':
  assumes "bot_inv b" and "i < length (bo_lookups b)" and "result_ok p" and "p \<noteq> Released"
    and "\<not> lu_cancelled (bo_lookups b ! i) \<Longrightarrow> \<not> over p" and "lu_phase (bo_lookups b ! i) \<noteq> Released"
  shows "bot_inv (b\<lparr>bo_gateway := g, bo_lookups := (bo_lookups b)[i := (bo_lookups b ! i)\<lparr>lu_phase := p\<rparr>]\<rparr>)"
proof -
  have "bot_inv (b\<lparr>bo_sessions := bo_sessions b, bo_slots := bo_slots b,
      bo_lookups := (bo_lookups b)[i := (bo_lookups b ! i)\<lparr>lu_phase := p\<rparr>]\<rparr>)"
    using assms(4-6) by (intro bot_inv_phase [OF assms(1-3)]) auto
  then show ?thesis by (rule iffD1 [OF bot_inv_frame, rotated -1]) simp_all
qed

lemma bot_inv_released:
  assumes inv: "bot_inv b" and i: "i < length (bo_lookups b)" and fin: "lu_phase (bo_lookups b ! i) = Finishing"
  shows "bot_inv (b\<lparr>bo_slots := bo_slots b - 1, bo_lookups := (bo_lookups b)[i := (bo_lookups b ! i)\<lparr>lu_phase := Released\<rparr>]\<rparr>)"
proof -
  have "0 < bo_slots b" using inv holding_split [OF i] fin by (simp add: bot_inv_def)
  moreover have "se_Step (Get (lu_chat (bo_lookups b ! i)) (bo_sessions b)) \<noteq> StepWaitingLookup \<or>
      se_LookupID (Get (lu_chat (bo_lookups b ! i)) (bo_sessions b)) \<noteq> lu_id (bo_lookups b ! i)"
    if ns: "\<not> bo_stopped b"
  proof (rule ccontr)
    assume w: "\<not> ?thesis"
    then obtain x where x: "x \<in> set (bo_lookups b)" "lu_id x = lu_id (bo_lookups b ! i)" "\<not> over (lu_phase x)"
      using bot_inv_waiting [OF inv ns] by metis
    have "distinct (map lu_id (bo_lookups b))" using inv by (simp add: bot_inv_def)
    then have "x = bo_lookups b ! i" using distinct_map_eq x(1,2) i by (metis nth_mem)
    with x(3) fin show False by simp
  qed
  ultimately have "bot_inv (b\<lparr>bo_sessions := bo_sessions b, bo_slots := bo_slots b - 1,
      bo_lookups := (bo_lookups b)[i := (bo_lookups b ! i)\<lparr>lu_phase := Released\<rparr>]\<rparr>)"
    using fin by (intro bot_inv_phase [OF inv i]) (auto simp: result_ok_def)
  then show ?thesis by (rule iffD1 [OF bot_inv_frame, rotated -1]) simp_all
qed

lemma CompleteLookup_result:
  assumes "CompleteLookup c i r s = (s', ok)"
  shows "if ok then se_Step (Get c s) = StepWaitingLookup \<and> se_LookupID (Get c s) = i \<and>
      Get c s' = r\<lparr>se_Page := se_Page (Get c s)\<rparr>
    else s' = s \<and> (se_Step (Get c s) \<noteq> StepWaitingLookup \<or> se_LookupID (Get c s) \<noteq> i)"
  using assms by (auto simp: CompleteLookup_def Get_def split: option.splits if_splits)

lemma bot_inv_removed:
  assumes inv: "bot_inv b" and i: "i < length (bo_lookups b)" and fin: "lu_phase (bo_lookups b ! i) = Released"
  shows "bot_inv (b\<lparr>bo_active := (if bo_active b (lu_chat (bo_lookups b ! i)) = Some (lu_id (bo_lookups b ! i))
      then (bo_active b)(lu_chat (bo_lookups b ! i) := None) else bo_active b),
    bo_lookups := take i (bo_lookups b) @ drop (Suc i) (bo_lookups b)\<rparr>)" (is "bot_inv ?b")
proof (rule bot_invI)
  let ?l = "bo_lookups b ! i"
  have split: "bo_lookups b = take i (bo_lookups b) @ ?l # drop (Suc i) (bo_lookups b)" by (simp add: i id_take_nth_drop)
  then have sub: "set (bo_lookups b) = insert ?l (set (bo_lookups ?b))"
    by simp (metis Un_insert_right list.simps(15) set_append)
  have dist: "distinct (map lu_id (take i (bo_lookups b) @ ?l # drop (Suc i) (bo_lookups b)))"
    using inv split by (simp add: bot_inv_def)
  then show "distinct (map lu_id (bo_lookups ?b))" by auto
  have other: "lu_id x \<noteq> lu_id ?l" if "x \<in> set (bo_lookups ?b)" for x
  proof
    assume "lu_id x = lu_id ?l"
    with that have "lu_id ?l \<in> lu_id ` set (bo_lookups ?b)" by (metis image_eqI)
    with dist show False by auto
  qed
  show "holding (bo_lookups ?b) = bo_slots ?b" "bo_slots ?b \<le> lookupSlots"
    using inv holding_split [OF i] fin by (auto simp: bot_inv_def)
  show "lookup_ok (bo_sequence ?b) x" if "x \<in> set (bo_lookups ?b)" for x
    using inv sub that by (simp add: bot_inv_def)
  show "session_ok (Get d (bo_sessions ?b))" for d using inv by (simp add: bot_inv_def)
  show "bo_active ?b (lu_chat x) = Some (lu_id x)"
    if "\<not> bo_stopped ?b" "x \<in> set (bo_lookups ?b)" "\<not> lu_cancelled x" for x
    using bot_inv_uncancelled [OF inv, of x] that sub other [of x] by auto
  show "running (bo_lookups ?b) d j" if ns: "\<not> bo_stopped ?b" and a: "bo_active ?b d = Some j" for d j
  proof -
    have "bo_active b d = Some j" using a by (auto split: if_splits)
    then obtain x where x: "x \<in> set (bo_lookups b)" "lu_chat x = d" "lu_id x = j" "\<not> lu_cancelled x"
      using bot_inv_active [OF inv] ns by (auto simp: running_def)
    with a bot_inv_uncancelled [OF inv, of x] ns have "x \<noteq> ?l" by (auto split: if_splits)
    with x sub show ?thesis by (auto simp: running_def)
  qed
  show "\<exists>x \<in> set (bo_lookups ?b). lu_chat x = d \<and> lu_id x = se_LookupID (Get d (bo_sessions ?b)) \<and>
      \<not> lu_cancelled x \<and> \<not> over (lu_phase x)"
    if ns: "\<not> bo_stopped ?b" and w: "se_Step (Get d (bo_sessions ?b)) = StepWaitingLookup" for d
  proof -
    obtain x where "x \<in> set (bo_lookups b)" "lu_chat x = d" "lu_id x = se_LookupID (Get d (bo_sessions b))"
        "\<not> lu_cancelled x" "\<not> over (lu_phase x)"
      using bot_inv_waiting [OF inv, of d] ns w by auto
    with sub fin show ?thesis by auto
  qed
qed

lemma bot_inv_lookup_step:
  assumes inv: "bot_inv b" and i: "i < length (bo_lookups b)"
  shows "bot_inv (lookup_step E i b)"
proof (cases "lu_phase (bo_lookups b ! i)")
  case (Starting m)
  obtain g p where "lookup_call E (bo_lookups b ! i) m (bo_gateway b) = (g, p)" by fastforce
  with Starting lookup_call_phase [OF this] bot_inv_phase' [OF inv i] show ?thesis
    by (simp add: lookup_step_def Let_def)
next
  case (Polling j)
  obtain g p where "pollLookup E (bo_lookups b ! i) j (bo_gateway b) = (g, p)" by fastforce
  with Polling pollLookup_phase [OF this] bot_inv_phase' [OF inv i] show ?thesis
    by (simp add: lookup_step_def Let_def)
next
  case (Completing r m)
  let ?l = "bo_lookups b ! i"
  obtain s ok where c: "CompleteLookup (lu_chat ?l) (lu_id ?l) r (bo_sessions b) = (s, ok)" by fastforce
  have r: "se_Step r = StepIdle \<or> se_Step r = StepWaitingMinPrice"
  proof -
    have "lookup_ok (bo_sequence b) ?l" using inv i by (simp add: bot_inv_def)
    with Completing show ?thesis unfolding lookup_ok_def by blast
  qed
  have "bot_inv (b\<lparr>bo_sessions := s, bo_slots := bo_slots b, bo_lookups := (bo_lookups b)[i := ?l\<lparr>lu_phase := Finishing\<rparr>]\<rparr>)"
  proof (rule bot_inv_phase [OF inv i])
    show "Get d s = Get d (bo_sessions b) \<or>
        d = lu_chat ?l \<and> session_ok (Get d s) \<and> se_Step (Get d s) \<noteq> StepWaitingLookup" for d
      using CompleteLookup_result [OF c] CompleteLookup_other [OF c, of d] r
      by (cases "d = lu_chat ?l") (auto simp: Get_def session_ok_def asks_max_def split: if_splits)
    show "se_Step (Get (lu_chat ?l) s) \<noteq> StepWaitingLookup \<or> se_LookupID (Get (lu_chat ?l) s) \<noteq> lu_id ?l"
      using CompleteLookup_result [OF c] r by (cases ok) auto
  qed (simp_all add: result_ok_def Completing)
  then have "bot_inv (b\<lparr>bo_sessions := s, bo_lookups := (bo_lookups b)[i := ?l\<lparr>lu_phase := Finishing\<rparr>]\<rparr>)"
    by (rule iffD1 [OF bot_inv_frame, rotated -1]) simp_all
  with c Completing show ?thesis by (simp add: lookup_step_def Let_def)
next
  case Finishing
  with bot_inv_released [OF inv i] show ?thesis by (simp add: lookup_step_def Let_def)
next
  case Released
  with bot_inv_removed [OF inv i] show ?thesis by (simp add: lookup_step_def Let_def)
qed

lemma bot_inv_run: "bot_run G g b \<Longrightarrow> bot_inv b"
proof (induction rule: bot_run.induct)
  case new
  then show ?case by (simp add: new_bot_def bot_inv_def lookupSlots_def session_ok_def asks_max_def Get_def)
next
  case (stop b)
  then show ?case by (intro bot_invI) (auto simp: bot_inv_def lookup_ok_def comp_def)
qed (simp_all add: bot_inv_handleMessage bot_inv_handleCallback bot_inv_lookup_step)

section \<open>What the bot does to the gateway\<close>

text \<open>
  The bot only reaches the gateway through its interface, so that what every method of the
  interface keeps, every run of the bot keeps.
\<close>

locale gateway_contract =
  fixes G :: "'g Gateway" and keeps :: "'g \<Rightarrow> bool"
  assumes start: "keeps g \<Longrightarrow> keeps (fst (gw_StartLookup G u g))"
    and poll: "keeps g \<Longrightarrow> keeps (fst (gw_PollLookup G i g))"
    and create: "keeps g \<Longrightarrow> keeps (fst (gw_CreateSubscription G r g))"
    and list: "keeps g \<Longrightarrow> keeps (fst (gw_ListSubscriptions G c g))"
    and pause: "keeps g \<Longrightarrow> keeps (fst (gw_PauseSubscription G c i g))"
    and resume: "keeps g \<Longrightarrow> keeps (fst (gw_ResumeSubscription G c i g))"
    and edit: "keeps g \<Longrightarrow> keeps (fst (gw_EditSubscription G c i p q g))"
    and delete: "keeps g \<Longrightarrow> keeps (fst (gw_DeleteSubscription G c i g))"
    and force: "keeps g \<Longrightarrow> keeps (fst (gw_ForceCheck G c i g))"
    and history: "keeps g \<Longrightarrow> keeps (fst (gw_GetHistory G c i g))"
begin

lemma call_keeps:
  "call f b = (b', r) \<Longrightarrow> keeps (bo_gateway b) \<Longrightarrow> (\<And>g. keeps g \<Longrightarrow> keeps (fst (f g))) \<Longrightarrow> keeps (bo_gateway b')"
  by (cases "f (bo_gateway b)") (force simp: call_def)

text \<open>The same for each method, called through an environment that has this gateway.\<close>

lemma calls_keep:
  assumes "keeps (bo_gateway b)" and "G = be_gateway E"
  shows "call (gw_CreateSubscription (be_gateway E) req) b = (b', r0) \<Longrightarrow> keeps (bo_gateway b')"
    and "call (gw_ListSubscriptions (be_gateway E) c) b = (b', r1) \<Longrightarrow> keeps (bo_gateway b')"
    and "call (gw_PauseSubscription (be_gateway E) c i) b = (b', r2) \<Longrightarrow> keeps (bo_gateway b')"
    and "call (gw_ResumeSubscription (be_gateway E) c i) b = (b', r3) \<Longrightarrow> keeps (bo_gateway b')"
    and "call (gw_EditSubscription (be_gateway E) c i p q) b = (b', r4) \<Longrightarrow> keeps (bo_gateway b')"
    and "call (gw_DeleteSubscription (be_gateway E) c i) b = (b', r5) \<Longrightarrow> keeps (bo_gateway b')"
    and "call (gw_ForceCheck (be_gateway E) c i) b = (b', r6) \<Longrightarrow> keeps (bo_gateway b')"
    and "call (gw_GetHistory (be_gateway E) c i) b = (b', r7) \<Longrightarrow> keeps (bo_gateway b')"
  using assms call_keeps [OF _ assms(1) create] call_keeps [OF _ assms(1) list] call_keeps [OF _ assms(1) pause] call_keeps [OF _ assms(1) resume] call_keeps [OF _ assms(1) edit] call_keeps [OF _ assms(1) delete] call_keeps [OF _ assms(1) force] call_keeps [OF _ assms(1) history] by simp_all

lemma find_keeps:
  "keeps (bo_gateway b) \<Longrightarrow> G = be_gateway E \<Longrightarrow> findSubscription E c i b = (b', r) \<Longrightarrow> keeps (bo_gateway b')"
  by (auto simp: findSubscription_def split: prod.splits option.splits dest: calls_keep)

lemma handlers_keep:
  assumes "be_gateway E = G" and "keeps (bo_gateway b)"
  shows "keeps (bo_gateway (handleURLSubmit E c m b))"
    and "keeps (bo_gateway (handleMinPrice E c s m b))"
    and "keeps (bo_gateway (handleMaxPrice E c s m b))"
    and "keeps (bo_gateway (handleEditMinPrice E c s m b))"
    and "keeps (bo_gateway (handleEditMaxPrice E c s m b))"
    and "keeps (bo_gateway (startEditSubscription E c i b))"
    and "keeps (bo_gateway (handleMyList E c b))"
    and "keeps (bo_gateway (refreshMyList E c n b))"
    and "keeps (bo_gateway (handleHistory E c i b))"
    and "keeps (bo_gateway (handleForceCheck E c i b))"
  using assms
  by (auto simp: handleURLSubmit_def handleMinPrice_def handleMaxPrice_def handleEditMinPrice_def
      handleEditMaxPrice_def startEditSubscription_def handleMyList_def refreshMyList_def handleHistory_def
      handleForceCheck_def Let_def split: option.splits prod.splits
      dest: calls_keep find_keeps)

lemma actions_keep:
  assumes "be_gateway E = G" and "keeps (bo_gateway b)"
  shows "keeps (bo_gateway (pauseSubscription E c n i b))"
    and "keeps (bo_gateway (resumeSubscription E c n i b))"
    and "keeps (bo_gateway (deleteSubscription_b E c n i b))"
  using assms
  by (auto simp: pauseSubscription_def resumeSubscription_def deleteSubscription_b_def split: option.splits prod.splits
      dest: calls_keep intro!: handlers_keep)

lemma message_keeps:
  "be_gateway E = G \<Longrightarrow> keeps (bo_gateway b) \<Longrightarrow> keeps (bo_gateway (handleMessage E c m b))"
  by (simp add: handleMessage_def handlers_keep Let_def split: step.split)

lemma callback_keeps:
  "be_gateway E = G \<Longrightarrow> keeps (bo_gateway b) \<Longrightarrow> keeps (bo_gateway (handleCallback E cb chat data b))"
  by (simp add: handleCallback_def handlers_keep actions_keep Let_def split: option.split callback.split)

lemma lookup_keeps:
  assumes "be_gateway E = G" and "keeps (bo_gateway b)"
  shows "keeps (bo_gateway (lookup_step E i b))"
proof (cases "lu_phase (bo_lookups b ! i)")
  case (Starting m)
  then show ?thesis using assms start [OF assms(2), of m]
    by (auto simp: lookup_step_def lookup_call_def Let_def split: prod.splits option.splits)
next
  case (Polling j)
  then show ?thesis using assms poll [OF assms(2), of j]
    by (auto simp: lookup_step_def pollLookup_def Let_def split: prod.splits option.splits)
qed (use assms in \<open>auto simp: lookup_step_def Let_def split: prod.splits\<close>)

lemma run_keeps: "bot_run G g b \<Longrightarrow> keeps g \<Longrightarrow> keeps (bo_gateway b)"
  by (induction rule: bot_run.induct)
    (simp_all add: new_bot_def message_keeps callback_keeps lookup_keeps)

end

section \<open>Properties\<close>

text \<open>
  C31: In every run of the bot at most eight lookups hold a slot, and the slots taken are those of the
  entries that have not returned theirs; as long as the bot is not stopped, every chat that waits for
  a lookup has exactly one with its id, which was not cancelled and has not given up; a chat is only
  asked for its highest price after a lowest price that does not compare as zero or less. NaN is such
  a price: no comparison of floats holds for it, and \<open>parsePrice\<close> lets it pass.
\<close>

theorem bot_invariant:
  assumes "bot_run G g b"
  shows "bo_slots b = length (filter (\<lambda>l. lu_phase l \<noteq> Released) (bo_lookups b)) \<and> bo_slots b \<le> 8 \<and>
    (\<forall>c. let s = Get c (bo_sessions b) in
      (se_Step s = StepWaitingLookup \<longrightarrow> bo_stopped b \<or>
        (\<exists>!l. l \<in> set (bo_lookups b) \<and> lu_chat l = c \<and> lu_id l = se_LookupID s \<and> \<not> lu_cancelled l \<and>
          lu_phase l \<notin> {Finishing, Released})) \<and>
      (se_Step s \<in> {StepWaitingMaxPrice, StepEditingMaxPrice} \<longrightarrow> \<not> f_le (se_MinPrice s) f_zero))"
proof -
  note inv = bot_inv_run [OF assms]
  have "\<exists>!l. l \<in> set (bo_lookups b) \<and> lu_chat l = c \<and> lu_id l = se_LookupID (Get c (bo_sessions b)) \<and>
      \<not> lu_cancelled l \<and> \<not> over (lu_phase l)"
    if wait: "\<not> bo_stopped b" "se_Step (Get c (bo_sessions b)) = StepWaitingLookup" for c
  proof -
    obtain l where l: "l \<in> set (bo_lookups b)" "lu_chat l = c" "lu_id l = se_LookupID (Get c (bo_sessions b))"
      "\<not> lu_cancelled l" "\<not> over (lu_phase l)" using bot_inv_waiting [OF inv wait] by metis
    moreover have "distinct (map lu_id (bo_lookups b))" using inv by (simp add: bot_inv_def)
    then have "x = l" if "x \<in> set (bo_lookups b)" "lu_id x = lu_id l" for x
      using distinct_map_eq that l(1) by metis
    ultimately show ?thesis by (intro ex1I [of _ l]) metis+
  qed
  moreover have "over p \<longleftrightarrow> p \<in> {Finishing, Released}" for p by (cases p) auto
  ultimately show ?thesis using inv
    by (auto simp: bot_inv_def holding_def Let_def session_ok_def asks_max_def lookupSlots_def)
qed

text \<open>
  The result of a cancelled lookup never shows: no step of a lookup that was cancelled, or for which its
  chat does not wait any more, changes a session or sends a message.
\<close>

theorem stale_lookups_silent:
  assumes "bot_run G g b" and "\<not> bo_stopped b" and "i < length (bo_lookups b)"
    and "lu_cancelled (bo_lookups b ! i) \<or>
      se_Step (Get (lu_chat (bo_lookups b ! i)) (bo_sessions b)) \<noteq> StepWaitingLookup \<or>
      se_LookupID (Get (lu_chat (bo_lookups b ! i)) (bo_sessions b)) \<noteq> lu_id (bo_lookups b ! i)"
  shows "bo_sessions (lookup_step E i b) = bo_sessions b \<and> bo_api (lookup_step E i b) = bo_api b"
proof -
  let ?l = "bo_lookups b ! i"
  note inv = bot_inv_run [OF assms(1)]
  have stale: "se_Step (Get (lu_chat ?l) (bo_sessions b)) \<noteq> StepWaitingLookup \<or>
      se_LookupID (Get (lu_chat ?l) (bo_sessions b)) \<noteq> lu_id ?l"
  proof (rule ccontr)
    assume w: "\<not> ?thesis"
    then obtain x where x: "x \<in> set (bo_lookups b)" "lu_id x = lu_id ?l" "\<not> lu_cancelled x"
      using bot_inv_waiting [OF inv assms(2), of "lu_chat ?l"] by metis
    have "distinct (map lu_id (bo_lookups b))" using inv by (simp add: bot_inv_def)
    then have "x = ?l" using distinct_map_eq x assms(3) by (metis nth_mem)
    with x w assms(4) show False by auto
  qed
  show ?thesis
  proof (cases "lu_phase ?l")
    case (Completing r m)
    obtain s ok where c: "CompleteLookup (lu_chat ?l) (lu_id ?l) r (bo_sessions b) = (s, ok)" by fastforce
    with CompleteLookup_result [OF c] stale have "\<not> ok" "s = bo_sessions b" by (auto split: if_splits)
    with c Completing show ?thesis by (simp add: lookup_step_def Let_def)
  qed (auto simp: lookup_step_def Let_def split: prod.splits)
qed

text \<open>The steps of one lookup, one after the other.\<close>

definition lookup_steps :: "'g benv \<Rightarrow> nat \<Rightarrow> nat \<Rightarrow> 'g bot \<Rightarrow> 'g bot" where
  "lookup_steps E i n b = (lookup_step E i ^^ n) b"

definition answered :: "Session \<Rightarrow> Session \<Rightarrow> bool" where
  "answered s s' \<longleftrightarrow> se_Page s' = se_Page s \<and> (se_Step s' = StepIdle \<or> se_Step s' = StepWaitingMinPrice)"

lemma lookup_completes:
  assumes "i < length (bo_lookups b)" and "lu_phase (bo_lookups b ! i) = Completing r m"
    and "se_Step r = StepIdle \<or> se_Step r = StepWaitingMinPrice"
    and "se_Step (Get (lu_chat (bo_lookups b ! i)) (bo_sessions b)) = StepWaitingLookup"
    and "se_LookupID (Get (lu_chat (bo_lookups b ! i)) (bo_sessions b)) = lu_id (bo_lookups b ! i)"
  shows "answered (Get (lu_chat (bo_lookups b ! i)) (bo_sessions b))
    (Get (lu_chat (bo_lookups b ! i)) (bo_sessions (lookup_step E i b)))"
proof -
  let ?l = "bo_lookups b ! i"
  obtain s ok where c: "CompleteLookup (lu_chat ?l) (lu_id ?l) r (bo_sessions b) = (s, ok)" by fastforce
  with CompleteLookup_result [OF c] assms(4,5) have "ok" "Get (lu_chat ?l) s = r\<lparr>se_Page := se_Page (Get (lu_chat ?l) (bo_sessions b))\<rparr>"
    by (auto split: if_splits)
  with c assms(2,3) show ?thesis by (auto simp: lookup_step_def Let_def answered_def)
qed

text \<open>A lookup that is not cancelled goes from its calls to its result.\<close>

definition waits :: "'g bot \<Rightarrow> nat \<Rightarrow> bool" where
  "waits b i \<longleftrightarrow> i < length (bo_lookups b) \<and> \<not> lu_cancelled (bo_lookups b ! i) \<and> result_ok (lu_phase (bo_lookups b ! i)) \<and>
     se_Step (Get (lu_chat (bo_lookups b ! i)) (bo_sessions b)) = StepWaitingLookup \<and>
     se_LookupID (Get (lu_chat (bo_lookups b ! i)) (bo_sessions b)) = lu_id (bo_lookups b ! i)"

lemma lookup_step_call:
  assumes "waits b i" and "\<And>r m. lu_phase (bo_lookups b ! i) \<noteq> Completing r m" and "\<not> over (lu_phase (bo_lookups b ! i))"
  shows "waits (lookup_step E i b) i \<and> bo_sessions (lookup_step E i b) = bo_sessions b \<and>
    lu_chat (bo_lookups (lookup_step E i b) ! i) = lu_chat (bo_lookups b ! i) \<and>
    \<not> over (lu_phase (bo_lookups (lookup_step E i b) ! i)) \<and>
    ((\<exists>m. lu_phase (bo_lookups b ! i) = Starting m) \<or>
     (\<exists>r m. lu_phase (bo_lookups (lookup_step E i b) ! i) = Completing r m))"
proof (cases "lu_phase (bo_lookups b ! i)")
  case (Starting m)
  obtain g p where c: "lookup_call E (bo_lookups b ! i) m (bo_gateway b) = (g, p)" by fastforce
  from lookup_call_phase [OF c] c Starting assms(1) show ?thesis
    by (simp add: lookup_step_def Let_def waits_def)
next
  case (Polling j)
  obtain g p where c: "pollLookup E (bo_lookups b ! i) j (bo_gateway b) = (g, p)" by fastforce
  have "\<exists>r m. p = Completing r m" using c assms(1)
    by (auto simp: pollLookup_def waits_def split: prod.splits option.splits if_splits)
  with pollLookup_phase [OF c] c Polling assms(1) show ?thesis
    by (auto simp: lookup_step_def Let_def waits_def)
qed (use assms in auto)

lemma waits_completing:
  assumes "waits b i" and "lu_phase (bo_lookups b ! i) = Completing r m"
  shows "answered (Get (lu_chat (bo_lookups b ! i)) (bo_sessions b))
    (Get (lu_chat (bo_lookups b ! i)) (bo_sessions (lookup_step E i b)))"
  using assms by (intro lookup_completes [OF _ assms(2)]) (auto simp: waits_def result_ok_def)

lemma waits_answered:
  assumes "waits b i" and "\<not> over (lu_phase (bo_lookups b ! i))"
  shows "\<exists>n \<le> 3. answered (Get (lu_chat (bo_lookups b ! i)) (bo_sessions b))
    (Get (lu_chat (bo_lookups b ! i)) (bo_sessions (lookup_steps E i n b)))"
proof -
  have one: "\<exists>n \<le> 1. answered (Get (lu_chat (bo_lookups b ! i)) (bo_sessions b))
      (Get (lu_chat (bo_lookups b ! i)) (bo_sessions (lookup_steps E i n b)))"
    if "waits b i" "lu_phase (bo_lookups b ! i) = Completing r m" for b :: "'a bot" and r m
    using waits_completing [OF that, of E] by (intro exI [of _ 1]) (simp add: lookup_steps_def)
  have next_step: "\<exists>n \<le> Suc k. answered (Get (lu_chat (bo_lookups b ! i)) (bo_sessions b))
      (Get (lu_chat (bo_lookups b ! i)) (bo_sessions (lookup_steps E i n b)))"
    if "bo_sessions (lookup_step E i b) = bo_sessions b"
      "lu_chat (bo_lookups (lookup_step E i b) ! i) = lu_chat (bo_lookups b ! i)"
      "\<exists>n \<le> k. answered (Get (lu_chat (bo_lookups (lookup_step E i b) ! i)) (bo_sessions (lookup_step E i b)))
        (Get (lu_chat (bo_lookups (lookup_step E i b) ! i)) (bo_sessions (lookup_steps E i n (lookup_step E i b))))"
    for b :: "'a bot" and k
  proof -
    from that obtain n where "n \<le> k" "answered (Get (lu_chat (bo_lookups b ! i)) (bo_sessions b))
        (Get (lu_chat (bo_lookups b ! i)) (bo_sessions (lookup_steps E i n (lookup_step E i b))))" by auto
    moreover have "lookup_steps E i n (lookup_step E i b) = lookup_steps E i (Suc n) b"
      unfolding lookup_steps_def by (simp add: funpow_swap1)
    ultimately show ?thesis by (intro exI [of _ "Suc n"]) simp
  qed
  have two: "\<exists>n \<le> 2. answered (Get (lu_chat (bo_lookups b ! i)) (bo_sessions b))
      (Get (lu_chat (bo_lookups b ! i)) (bo_sessions (lookup_steps E i n b)))"
    if w: "waits b i" "\<not> over (lu_phase (bo_lookups b ! i))" "\<nexists>m. lu_phase (bo_lookups b ! i) = Starting m" for b :: "'a bot"
  proof (cases "lu_phase (bo_lookups b ! i)")
    case (Polling j)
    with lookup_step_call [OF w(1), of E] obtain r m where s: "waits (lookup_step E i b) i"
      "bo_sessions (lookup_step E i b) = bo_sessions b"
      "lu_chat (bo_lookups (lookup_step E i b) ! i) = lu_chat (bo_lookups b ! i)"
      "lu_phase (bo_lookups (lookup_step E i b) ! i) = Completing r m" by auto
    from next_step [OF s(2,3) one [OF s(1,4)]] show ?thesis by (simp add: numeral_2_eq_2)
  next
    case (Completing r m)
    from one [OF w(1) this] show ?thesis by (meson le_trans one_le_numeral)
  qed (use w in auto)
  show ?thesis
  proof (cases "\<exists>m. lu_phase (bo_lookups b ! i) = Starting m")
    case True
    with lookup_step_call [OF assms(1), of E] have s: "waits (lookup_step E i b) i"
      "bo_sessions (lookup_step E i b) = bo_sessions b"
      "lu_chat (bo_lookups (lookup_step E i b) ! i) = lu_chat (bo_lookups b ! i)"
      "\<not> over (lu_phase (bo_lookups (lookup_step E i b) ! i))" by auto
    have "\<nexists>m. lu_phase (bo_lookups (lookup_step E i b) ! i) = Starting m"
      using True assms(1) by (auto simp: lookup_step_def lookup_call_def Let_def waits_def split: prod.splits option.splits)
    from next_step [OF s(2,3) two [OF s(1,4) this]] show ?thesis by (simp add: eval_nat_numeral)
  next
    case False
    have "(2 :: nat) \<le> 3" by simp
    with two [OF assms False] show ?thesis by (meson le_trans)
  qed
qed

text \<open>
  C32: A chat that waits for a lookup is answered: whatever the gateway and Telegram do, at most three steps of
  the chat's lookup end the waiting, with the question for the lowest price or with an idle session, and
  the page of the chat's list is kept.
\<close>

theorem waiting_chat_answered:
  assumes "bot_run G g b" and "\<not> bo_stopped b" and "se_Step (Get c (bo_sessions b)) = StepWaitingLookup"
  shows "\<exists>i n. i < length (bo_lookups b) \<and> lu_chat (bo_lookups b ! i) = c \<and> n \<le> 3 \<and>
    answered (Get c (bo_sessions b)) (Get c (bo_sessions (lookup_steps E i n b)))"
proof -
  note inv = bot_inv_run [OF assms(1)]
  obtain l where l: "l \<in> set (bo_lookups b)" "lu_chat l = c" "lu_id l = se_LookupID (Get c (bo_sessions b))"
    "\<not> lu_cancelled l" "\<not> over (lu_phase l)" using bot_inv_waiting [OF inv assms(2,3)] by metis
  then obtain i where i: "i < length (bo_lookups b)" "bo_lookups b ! i = l" by (metis in_set_conv_nth)
  have "lookup_ok (bo_sequence b) l" using inv l(1) by (simp add: bot_inv_def)
  then have "result_ok (lu_phase l)" by (auto simp: lookup_ok_def result_ok_def)
  with l i assms(3) have w: "waits b i" by (simp add: waits_def)
  have "\<not> over (lu_phase (bo_lookups b ! i))" using l i by simp
  from waits_answered [OF w this, of E] show ?thesis using i l(2) by auto
qed

section \<open>Witnesses\<close>

text \<open>A gateway that knows one product, and a chat that sent a link.\<close>

definition demo_result :: LookupResult_c where
  "demo_result = \<lparr>lk_Status = ''done'', lk_Name = ''Lamp'', lk_Price = Fin 500, lk_URL = ''https://wb'', lk_Error = []\<rparr>"

definition demo_gateway :: "unit Gateway" where
  "demo_gateway = \<lparr>gw_StartLookup = (\<lambda>_ g. (g, Some ''L'')), gw_PollLookup = (\<lambda>_ g. (g, Some demo_result)),
     gw_CreateSubscription = (\<lambda>_ g. (g, None)), gw_ListSubscriptions = (\<lambda>_ g. (g, Some [])),
     gw_PauseSubscription = (\<lambda>_ _ g. (g, None)), gw_ResumeSubscription = (\<lambda>_ _ g. (g, None)),
     gw_EditSubscription = (\<lambda>_ _ _ _ g. (g, None)), gw_DeleteSubscription = (\<lambda>_ _ g. (g, None)),
     gw_ForceCheck = (\<lambda>_ _ g. (g, None)), gw_GetHistory = (\<lambda>_ _ g. (g, None))\<rparr>"

definition demo_floats :: floats where
  "demo_floats = \<lparr>fl_round = (\<lambda>q. Some (Fin q)), fl_other = (\<lambda>_. None),
     fl_mul = (\<lambda>x q. case x of Fin p \<Rightarrow> Fin (p * q) | y \<Rightarrow> y)\<rparr>"

definition demo_benv :: "unit benv" where
  "demo_benv = \<lparr>be_gateway = demo_gateway, be_api = (\<lambda>_. True), be_wait = (\<lambda>_. True), be_floats = demo_floats,
     be_local = (\<lambda>_. ''01.01 12:00''), be_quote = (\<lambda>c. [c])\<rparr>"

definition demo_bot :: "unit bot" where
  "demo_bot = handleMessage demo_benv 7 ''wildberries.ru'' (new_bot ())"

lemma demo_bot_run: "bot_run demo_gateway () demo_bot"
  unfolding demo_bot_def by (rule bot_run.message [OF bot_run.new]) (simp_all add: new_bot_def demo_benv_def)

lemma demo_contains: "contains ''wildberries.ru'' ''wildberries.ru''"
  unfolding contains_iff by (intro exI [of _ "[]"]) simp

lemma my_products_start: "txt_my_products = CHR 0xF0 # tl txt_my_products"
proof -
  have "char_of (240 :: nat) = CHR 0xF0" by code_simp
  then show ?thesis by (simp add: txt_my_products_def utf8_def)
qed

lemma not_my_products: "''wildberries.ru'' \<noteq> txt_my_products"
  by (subst my_products_start) simp

lemma demo_bot_state:
  "bo_sessions demo_bot = [7 \<mapsto> idle\<lparr>se_Step := StepWaitingLookup, se_LookupID := bot_id 1\<rparr>]"
  "bo_lookups demo_bot = [\<lparr>lu_chat = 7, lu_id = bot_id 1, lu_page = 0, lu_cancelled = False,
     lu_phase = Starting ''wildberries.ru''\<rparr>]"
  "\<not> bo_stopped demo_bot"
  using not_my_products demo_contains
  by (auto simp: demo_bot_def handleMessage_def handleURLSubmit_def new_bot_def Get_def cancelLookup_def Let_def
      lookupSlots_def Set_def bot_id_def idle_def fun_eq_iff)

theorem bot_invariant_witness:
  "bo_slots demo_bot \<le> 8 \<and> (\<exists>!l. l \<in> set (bo_lookups demo_bot) \<and> lu_chat l = 7 \<and> lu_id l = bot_id 1 \<and>
     \<not> lu_cancelled l \<and> lu_phase l \<notin> {Finishing, Released})"
proof -
  have "Get 7 (bo_sessions demo_bot) = idle\<lparr>se_Step := StepWaitingLookup, se_LookupID := bot_id 1\<rparr>"
    by (simp add: demo_bot_state Get_def)
  with bot_invariant [OF demo_bot_run] demo_bot_state(3) show ?thesis by (auto simp: Let_def dest!: spec [of _ 7])
qed

theorem waiting_chat_answered_witness:
  "\<exists>i n. i < length (bo_lookups demo_bot) \<and> n \<le> 3 \<and>
     answered (Get 7 (bo_sessions demo_bot)) (Get 7 (bo_sessions (lookup_steps demo_benv i n demo_bot)))"
proof -
  have "se_Step (Get 7 (bo_sessions demo_bot)) = StepWaitingLookup" by (simp add: demo_bot_state Get_def)
  from waiting_chat_answered [OF demo_bot_run demo_bot_state(3) this, of demo_benv] show ?thesis by blast
qed

text \<open>The same chat after \<open>/cancel\<close>.\<close>

definition demo_cancelled :: "unit bot" where
  "demo_cancelled = handleMessage demo_benv 7 ''/cancel'' demo_bot"

theorem stale_lookups_silent_witness:
  "bo_sessions (lookup_step demo_benv 0 demo_cancelled) = bo_sessions demo_cancelled"
proof -
  have f: "bo_sessions demo_cancelled = Clear 7 (bo_sessions demo_bot)" "\<not> bo_stopped demo_cancelled"
    "length (bo_lookups demo_cancelled) = length (bo_lookups demo_bot)"
    using demo_bot_state(3) by (simp_all add: demo_cancelled_def handleMessage_def)
  have "bo_sequence demo_bot = 1" using not_my_products demo_contains
    by (simp add: demo_bot_def handleMessage_def handleURLSubmit_def new_bot_def Get_def Let_def lookupSlots_def)
  then have "bot_run demo_gateway () demo_cancelled" unfolding demo_cancelled_def by (intro bot_run.message [OF demo_bot_run]) (simp_all add: demo_benv_def)
  moreover have "0 < length (bo_lookups demo_cancelled)" by (simp add: f demo_bot_state)
  moreover have "Get d (bo_sessions demo_cancelled) = idle" for d by (simp add: f demo_bot_state Clear_def Get_def)
  ultimately show ?thesis
    using stale_lookups_silent [of demo_gateway "()" demo_cancelled 0 demo_benv] f(2) by simp
qed

end
