(* ===== verification/Client.thy ===== *)
theory Client
  imports Handler BotGateway
begin

text \<open>
  The bot's HTTP client, \<open>services/bot/internal/gateway/client.go\<close>, and the wire between it and
  the gateway: paths and JSON fields on both sides, so that a renamed field or a wrong path is
  visible. \<open>do_request\<close> is the method \<open>do\<close>; \<open>PollLookup\<close> is the loop on its ticker with the time
  written out.
\<close>

section \<open>JSON values\<close>

datatype jv = JvNull | JvBool bool | JvNum rat | JvStr string | JvTime time | JvArr "jv list" | JvObj "(string \<times> jv) list"

text \<open>\<open>json.Marshal\<close> of a \<open>float64\<close>; the values that are not finite have no JSON.\<close>

fun jv_float :: "float64 \<Rightarrow> jv option" where
  "jv_float (Fin q) = Some (JvNum q)"
| "jv_float _ = None"

definition jv_int :: "int \<Rightarrow> jv" where
  "jv_int i = JvNum (of_int i)"

fun jv_floatp :: "float64 option \<Rightarrow> jv option" where
  "jv_floatp None = Some JvNull"
| "jv_floatp (Some f) = jv_float f"

text \<open>
  Decoding a field of an object: a missing field or \<open>null\<close> leaves the zero value, another type
  is an error (\<open>None\<close>).
\<close>

fun jv_field :: "jv \<Rightarrow> string \<Rightarrow> jv option" where
  "jv_field (JvObj fs) name = Some (case map_of fs name of Some v \<Rightarrow> v | None \<Rightarrow> JvNull)"
| "jv_field JvNull name = Some JvNull"
| "jv_field _ name = None"

definition get_field :: "(jv \<Rightarrow> 'a option) \<Rightarrow> 'a \<Rightarrow> jv \<Rightarrow> string \<Rightarrow> 'a option" where
  "get_field f zero j name = (case jv_field j name of None \<Rightarrow> None | Some v \<Rightarrow> if v = JvNull then Some zero else f v)"

definition get_string :: "jv \<Rightarrow> string \<Rightarrow> string option" where
  "get_string = get_field (\<lambda>v. case v of JvStr s \<Rightarrow> Some s | _ \<Rightarrow> None) []"

definition get_float :: "jv \<Rightarrow> string \<Rightarrow> float64 option" where
  "get_float = get_field (\<lambda>v. case v of JvNum q \<Rightarrow> Some (Fin q) | _ \<Rightarrow> None) f_zero"

definition get_floatp :: "jv \<Rightarrow> string \<Rightarrow> float64 option option" where
  "get_floatp = get_field (\<lambda>v. case v of JvNum q \<Rightarrow> Some (Some (Fin q)) | _ \<Rightarrow> None) None"

definition get_bool :: "jv \<Rightarrow> string \<Rightarrow> bool option" where
  "get_bool = get_field (\<lambda>v. case v of JvBool b \<Rightarrow> Some b | _ \<Rightarrow> None) False"

definition get_time :: "jv \<Rightarrow> string \<Rightarrow> time option" where
  "get_time = get_field (\<lambda>v. case v of JvTime t \<Rightarrow> Some t | _ \<Rightarrow> None) 0"

definition get_int :: "jv \<Rightarrow> string \<Rightarrow> int option" where
  "get_int = get_field (\<lambda>v. case v of
     JvNum q \<Rightarrow> if of_int (floor q) = q \<and> int64 (floor q) then Some (floor q) else None | _ \<Rightarrow> None) 0"

section \<open>The gateway's side of the wire\<close>

text \<open>The structs \<open>ShouldBindJSON\<close> fills, by the field names of \<open>handler.go\<close>.\<close>

definition bind_lookup :: "jv \<Rightarrow> postLookupRequest option" where
  "bind_lookup j = (case get_string j ''url'' of Some u \<Rightarrow> Some \<lparr>plr_URL = u\<rparr> | None \<Rightarrow> None)"

definition bind_subscription :: "jv \<Rightarrow> postSubscriptionRequest option" where
  "bind_subscription j =
     (case (get_int j ''chat_id'', get_string j ''lookup_id'', get_float j ''min_price'', get_float j ''max_price'') of
        (Some c, Some l, Some mn, Some mx) \<Rightarrow>
          Some \<lparr>psr_ChatID = c, psr_LookupID = l, psr_MinPrice = mn, psr_MaxPrice = mx\<rparr>
      | _ \<Rightarrow> None)"

definition bind_patch :: "jv \<Rightarrow> patchSubscriptionRequest option" where
  "bind_patch j =
     (case (get_int j ''chat_id'', get_string j ''action'', get_floatp j ''min_price'', get_floatp j ''max_price'') of
        (Some c, Some a, Some mn, Some mx) \<Rightarrow>
          Some \<lparr>pat_ChatID = c, pat_Action = a, pat_MinPrice = mn, pat_MaxPrice = mx\<rparr>
      | _ \<Rightarrow> None)"

definition bind_chat :: "jv \<Rightarrow> chatIDBody option" where
  "bind_chat j = (case get_int j ''chat_id'' of Some c \<Rightarrow> Some \<lparr>cb_ChatID = c\<rparr> | None \<Rightarrow> None)"

text \<open>What \<open>c.JSON\<close> writes; \<open>None\<close> when the value has no JSON (the body stays empty).\<close>

fun all_some :: "'a option list \<Rightarrow> 'a list option" where
  "all_some [] = Some []"
| "all_some (None # xs) = None"
| "all_some (Some x # xs) = map_option (Cons x) (all_some xs)"

definition subscription_json :: "Subscription \<Rightarrow> jv option" where
  "subscription_json s =
     (case (jv_floatp (ss_MinPrice s), jv_floatp (ss_MaxPrice s)) of
        (Some mn, Some mx) \<Rightarrow> Some (JvObj [(''ID'', JvStr (ss_ID s)), (''ProductID'', JvStr (ss_ProductID s)),
          (''ProductName'', JvStr (ss_ProductName s)), (''ProductURL'', JvStr (ss_ProductURL s)),
          (''MinPrice'', mn), (''MaxPrice'', mx), (''Paused'', JvBool (ss_Paused s))])
      | _ \<Rightarrow> None)"

definition point_json :: "PricePoint \<Rightarrow> jv option" where
  "point_json p = map_option (\<lambda>q. JvObj [(''Price'', q), (''Currency'', JvStr (pp_Currency p)),
     (''ScrapedAt'', JvTime (pp_ScrapedAt p))]) (jv_float (pp_Price p))"

fun response_json :: "body \<Rightarrow> jv option" where
  "response_json NoBody = None"
| "response_json (ErrorBody e) = Some (JvObj [(''error'', JvStr e)])"
| "response_json (LookupBody i) = Some (JvObj [(''lookup_id'', JvStr i)])"
| "response_json PendingBody = Some (JvObj [(''status'', JvStr ''pending'')])"
| "response_json (DoneBody name price url) = map_option (\<lambda>q. JvObj [(''status'', JvStr ''done''),
     (''name'', JvStr name), (''price'', q), (''url'', JvStr url)]) (jv_float price)"
| "response_json (FailedBody e) = Some (JvObj [(''status'', JvStr ''failed''), (''error'', JvStr e)])"
| "response_json (CreatedBody s p) = Some (JvObj [(''subscription_id'', JvStr s), (''product_id'', JvStr p)])"
| "response_json (SubscriptionsBody ss) = map_option JvArr (all_some (map subscription_json ss))"
| "response_json (PointsBody ps) = map_option JvArr (all_some (map point_json ps))"
| "response_json ScheduledBody = Some (JvObj [(''status'', JvStr ''scheduled'')])"

text \<open>
  The routes of \<open>Register\<close> by method and path. Segments are letters, digits, \<open>-\<close> and \<open>_\<close>; what
  other paths are (the router and \<open>net/url\<close> decide) is the parameter \<open>other\<close>.
\<close>

definition plain_char :: "char \<Rightarrow> bool" where
  "plain_char c \<longleftrightarrow> (let b = of_char c :: nat in is_digit c \<or> 65 \<le> b \<and> b \<le> 90 \<or> 97 \<le> b \<and> b \<le> 122 \<or> b = 45 \<or> b = 95)"

definition plain :: "string \<Rightarrow> bool" where
  "plain s \<longleftrightarrow> s \<noteq> [] \<and> list_all plain_char s"

fun split_on :: "char \<Rightarrow> string \<Rightarrow> string list" where
  "split_on c [] = [[]]"
| "split_on c (x # xs) = (if x = c then [] # split_on c xs
     else (case split_on c xs of s # ss \<Rightarrow> (x # s) # ss | [] \<Rightarrow> [[x]]))"

definition route :: "(string \<Rightarrow> string \<Rightarrow> jv option \<Rightarrow> request option) \<Rightarrow> string \<Rightarrow> string \<Rightarrow> jv option \<Rightarrow> request option" where
  "route other verb path body =
     (case split_on (CHR ''?'') path of
        [p] \<Rightarrow> (case split_on (CHR ''/'') p of
            [[], a] \<Rightarrow>
              if verb = ''POST'' \<and> a = ''lookup'' then Some (PostLookup (Option.bind body bind_lookup))
              else if verb = ''POST'' \<and> a = ''subscriptions'' then Some (PostSubscription (Option.bind body bind_subscription))
              else other verb path body
          | [[], a, i] \<Rightarrow>
              if \<not> plain i then other verb path body
              else if verb = ''GET'' \<and> a = ''lookup'' then Some (GetLookupById i)
              else if verb = ''PATCH'' \<and> a = ''subscriptions'' then Some (PatchSubscription i (Option.bind body bind_patch))
              else if verb = ''DELETE'' \<and> a = ''subscriptions'' then Some (DeleteSubscriptionById i (Option.bind body bind_chat))
              else other verb path body
          | [[], a, i, b] \<Rightarrow>
              if plain i \<and> verb = ''POST'' \<and> a = ''subscriptions'' \<and> b = ''check''
              then Some (PostCheck i (Option.bind body bind_chat)) else other verb path body
          | _ \<Rightarrow> other verb path body)
      | [p, query] \<Rightarrow>
          if \<not> has_prefix query ''chat_id='' then other verb path body
          else let chat = trim_prefix query ''chat_id='' in
            if \<not> plain chat then other verb path body else
            (case split_on (CHR ''/'') p of
              [[], a] \<Rightarrow> if verb = ''GET'' \<and> a = ''subscriptions'' then Some (ListSubscriptions chat)
                else other verb path body
            | [[], a, i, b] \<Rightarrow> if plain i \<and> verb = ''GET'' \<and> a = ''subscriptions'' \<and> b = ''history''
                then Some (GetHistory i chat) else other verb path body
            | _ \<Rightarrow> other verb path body)
      | _ \<Rightarrow> other verb path body)"

section \<open>The client\<close>

text \<open>
  The wire: the gateway's services and token, its environment for the \<open>k\<close>-th request, whether the
  request and its response arrive, how long it takes, whether its body is over the limit of
  \<open>BodyLimit\<close>, and the choice of \<open>select\<close> between a tick and \<open>ctx.Done()\<close> that are both ready.
\<close>

datatype delivery = Delivered | NotDelivered | ResponseLost

record wire =
  wi_services :: services
  wi_token :: string
  wi_henv :: "nat \<Rightarrow> henv"
  wi_delivery :: "nat \<Rightarrow> delivery"
  wi_duration :: "nat \<Rightarrow> nat"
  wi_too_large :: "jv \<Rightarrow> bool"
  wi_other :: "string \<Rightarrow> string \<Rightarrow> jv option \<Rightarrow> request option"
  wi_tick_first :: "nat \<Rightarrow> bool"

record net =
  nt_db :: gw_db
  nt_k :: nat

definition clientTimeout :: duration where "clientTimeout = 15 * second"
definition pollPeriod :: duration where "pollPeriod = 2 * second"

text \<open>
  \<open>do\<close>: \<open>body\<close> is \<open>None\<close> for nil and \<open>Some None\<close> when it cannot be marshalled; \<open>out\<close> decodes a
  response body, with the zero value that a 204 leaves.
\<close>

definition gateway_answer :: "wire \<Rightarrow> string \<Rightarrow> string \<Rightarrow> string \<Rightarrow> jv option \<Rightarrow> net \<Rightarrow> gw_db \<times> response" where
  "gateway_answer W token verb path body net =
     (case route (wi_other W) verb path (case body of Some j \<Rightarrow> if wi_too_large W j then None else Some j | None \<Rightarrow> None) of
        None \<Rightarrow> (nt_db net, reply (if token \<noteq> wi_token W then 401 else 404) NoBody)
      | Some req \<Rightarrow> serve (wi_services W) (wi_token W) (wi_henv W (nt_k net)) token req (nt_db net))"

definition do_request :: "wire \<Rightarrow> string \<Rightarrow> string \<Rightarrow> string \<Rightarrow> jv option option \<Rightarrow> 'a \<times> (jv option \<Rightarrow> 'a option) \<Rightarrow> net \<Rightarrow> net \<times> 'a option" where
  "do_request W token verb path body out net =
     (if body = Some None then (net, None)
      else let k = nt_k net
      in if wi_delivery W k = NotDelivered then (net\<lparr>nt_k := Suc k\<rparr>, None)
      else case gateway_answer W token verb path (Option.bind body id) net of
        (db', r) \<Rightarrow>
          (\<lparr>nt_db = db', nt_k = Suc k\<rparr>,
           if wi_delivery W k = ResponseLost \<or> clientTimeout \<le> int (wi_duration W k) then None
           else if rs_status r \<ge> 400 then None
           else if rs_status r = 204 then Some (fst out)
           else snd out (response_json (rs_body r))))"

text \<open>An empty body does not decode.\<close>

definition decode_with :: "(jv \<Rightarrow> 'a option) \<Rightarrow> jv option \<Rightarrow> 'a option" where
  "decode_with f j = Option.bind j f"

text \<open>A call without \<open>out\<close> ignores the body of a success.\<close>

definition do_plain :: "wire \<Rightarrow> string \<Rightarrow> string \<Rightarrow> string \<Rightarrow> jv option \<Rightarrow> net \<Rightarrow> net \<times> unit option" where
  "do_plain W token verb path body net = do_request W token verb path (Some body) ((), \<lambda>_. Some ()) net"

definition StartLookup_c :: "wire \<Rightarrow> string \<Rightarrow> string \<Rightarrow> net \<Rightarrow> net \<times> string option" where
  "StartLookup_c W token rawURL net =
     do_request W token ''POST'' ''/lookup'' (Some (Some (JvObj [(''url'', JvStr rawURL)])))
       ([], decode_with (\<lambda>j. get_string j ''lookup_id'')) net"

definition zero_result :: LookupResult_c where
  "zero_result = \<lparr>lk_Status = [], lk_Name = [], lk_Price = f_zero, lk_URL = [], lk_Error = []\<rparr>"

definition decode_result :: "jv \<Rightarrow> LookupResult_c option" where
  "decode_result j =
     (case (get_string j ''status'', get_string j ''name'', get_float j ''price'', get_string j ''url'', get_string j ''error'') of
        (Some s, Some n, Some p, Some u, Some e) \<Rightarrow>
          Some \<lparr>lk_Status = s, lk_Name = n, lk_Price = p, lk_URL = u, lk_Error = e\<rparr>
      | _ \<Rightarrow> None)"

definition get_lookup :: "wire \<Rightarrow> string \<Rightarrow> string \<Rightarrow> net \<Rightarrow> net \<times> LookupResult_c option" where
  "get_lookup W token lookupID net =
     do_request W token ''GET'' (''/lookup/'' @ lookupID) None (zero_result, decode_with decode_result) net"

lemma next_tick_later: "(t div pollPeriod + 1) * pollPeriod > t"
proof -
  have "t mod pollPeriod < pollPeriod" by (simp add: pollPeriod_def second_def)
  moreover have "t div pollPeriod * pollPeriod + t mod pollPeriod = t" by simp
  ultimately show ?thesis unfolding distrib_right by linarith
qed

text \<open>
  \<open>PollLookup\<close>. Times count from the start of the ticker. \<open>now\<close> is when the loop reaches its
  \<open>select\<close>, \<open>next_tick\<close> when the next tick is or was delivered (the ticker keeps one and drops the
  others), \<open>done_at\<close> when the context ends. The result comes with the time of the return.
\<close>

function poll_loop :: "wire \<Rightarrow> string \<Rightarrow> string \<Rightarrow> time \<Rightarrow> time \<Rightarrow> time \<Rightarrow> net \<Rightarrow> net \<times> LookupResult_c option \<times> time" where
  "poll_loop W token lookupID done_at now next_tick net =
     (let tick = max now next_tick; ended = max now done_at
      in if ended < tick \<or> ended = tick \<and> \<not> wi_tick_first W (nt_k net) then (net, None, ended)
         else let fin = tick + min (int (wi_duration W (nt_k net))) clientTimeout
         in case get_lookup W token lookupID net of
              (net', res) \<Rightarrow>
                if done_at \<le> fin then (net', None, max tick done_at)
                else case res of
                  None \<Rightarrow> (net', None, fin)
                | Some r \<Rightarrow>
                    if lk_Status r = ''done'' \<or> lk_Status r = ''failed'' then (net', Some r, fin)
                    else poll_loop W token lookupID done_at fin ((tick div pollPeriod + 1) * pollPeriod) net')"
  by pat_completeness auto

termination
proof (relation "measure (\<lambda>(W, token, i, done_at, now, next_tick, net). nat (done_at - next_tick))", goal_cases)
  case (2 W token lookupID done_at now next_tick net tick ended fin x net' res)
  have "tick \<le> fin" using 2 by (simp add: clientTimeout_def second_def)
  moreover have "next_tick \<le> tick" using 2 by simp
  ultimately show ?case using next_tick_later [of tick] 2 by auto
qed simp

declare poll_loop.simps [simp del]

definition PollLookup :: "wire \<Rightarrow> string \<Rightarrow> string \<Rightarrow> time \<Rightarrow> net \<Rightarrow> net \<times> LookupResult_c option \<times> time" where
  "PollLookup W token lookupID done_at net = poll_loop W token lookupID done_at 0 pollPeriod net"

section \<open>Subscriptions\<close>

definition CreateSubscription_c ::
  "wire \<Rightarrow> string \<Rightarrow> CreateSubscriptionRequest \<Rightarrow> net \<Rightarrow> net \<times> CreateSubscriptionResponse option" where
  "CreateSubscription_c W token req net =
     do_request W token ''POST'' ''/subscriptions''
       (Some (case (jv_float (cr_MinPrice req), jv_float (cr_MaxPrice req)) of
          (Some mn, Some mx) \<Rightarrow> Some (JvObj [(''chat_id'', jv_int (cr_ChatID req)), (''lookup_id'', JvStr (cr_LookupID req)),
             (''min_price'', mn), (''max_price'', mx)])
        | _ \<Rightarrow> None))
       (\<lparr>cs_SubscriptionID = [], cs_ProductID = []\<rparr>,
        decode_with (\<lambda>j. case (get_string j ''subscription_id'', get_string j ''product_id'') of
          (Some s, Some p) \<Rightarrow> Some \<lparr>cs_SubscriptionID = s, cs_ProductID = p\<rparr> | _ \<Rightarrow> None)) net"

fun jv_list :: "jv \<Rightarrow> jv list option" where
  "jv_list (JvArr js) = Some js"
| "jv_list JvNull = Some []"
| "jv_list _ = None"

definition decode_list :: "(jv \<Rightarrow> 'a option) \<Rightarrow> jv \<Rightarrow> 'a list option" where
  "decode_list f j = Option.bind (jv_list j) (\<lambda>js. all_some (map f js))"

definition decode_subscription :: "jv \<Rightarrow> Subscription_c option" where
  "decode_subscription j =
     (case (get_string j ''ID'', get_string j ''ProductID'', get_string j ''ProductName'', get_string j ''ProductURL'',
         get_floatp j ''MinPrice'', get_floatp j ''MaxPrice'', get_bool j ''Paused'') of
        (Some i, Some p, Some n, Some u, Some mn, Some mx, Some b) \<Rightarrow>
          Some \<lparr>gs_ID = i, gs_ProductID = p, gs_ProductName = n, gs_ProductURL = u, gs_MinPrice = mn,
             gs_MaxPrice = mx, gs_Paused = b\<rparr>
      | _ \<Rightarrow> None)"

definition decode_point :: "jv \<Rightarrow> PricePoint_c option" where
  "decode_point j =
     (case (get_float j ''Price'', get_string j ''Currency'', get_time j ''ScrapedAt'') of
        (Some p, Some c, Some t) \<Rightarrow> Some \<lparr>pt_Price = p, pt_Currency = c, pt_ScrapedAt = t\<rparr>
      | _ \<Rightarrow> None)"

definition ListSubscriptions_c :: "wire \<Rightarrow> string \<Rightarrow> int \<Rightarrow> net \<Rightarrow> net \<times> Subscription_c list option" where
  "ListSubscriptions_c W token chatID net =
     do_request W token ''GET'' (''/subscriptions?chat_id='' @ show_int chatID) None
       ([], decode_with (decode_list decode_subscription)) net"

definition patchAction ::
  "wire \<Rightarrow> string \<Rightarrow> int \<Rightarrow> string \<Rightarrow> string \<Rightarrow> float64 option \<Rightarrow> float64 option \<Rightarrow> net \<Rightarrow> net \<times> unit option" where
  "patchAction W token chatID subID action minPrice maxPrice net =
     do_plain W token ''PATCH'' (''/subscriptions/'' @ subID)
       (case (jv_floatp minPrice, jv_floatp maxPrice) of
          (Some mn, Some mx) \<Rightarrow> Some (JvObj ([(''chat_id'', jv_int chatID), (''action'', JvStr action)] @
             (if minPrice \<noteq> None then [(''min_price'', mn)] else []) @
             (if maxPrice \<noteq> None then [(''max_price'', mx)] else [])))
        | _ \<Rightarrow> None) net"

definition PauseSubscription_c :: "wire \<Rightarrow> string \<Rightarrow> int \<Rightarrow> string \<Rightarrow> net \<Rightarrow> net \<times> unit option" where
  "PauseSubscription_c W token chatID subID = patchAction W token chatID subID ''pause'' None None"

definition ResumeSubscription_c :: "wire \<Rightarrow> string \<Rightarrow> int \<Rightarrow> string \<Rightarrow> net \<Rightarrow> net \<times> unit option" where
  "ResumeSubscription_c W token chatID subID = patchAction W token chatID subID ''resume'' None None"

definition EditSubscription_c ::
  "wire \<Rightarrow> string \<Rightarrow> int \<Rightarrow> string \<Rightarrow> float64 \<Rightarrow> float64 \<Rightarrow> net \<Rightarrow> net \<times> unit option" where
  "EditSubscription_c W token chatID subID minPrice maxPrice =
     patchAction W token chatID subID ''edit'' (Some minPrice) (Some maxPrice)"

definition DeleteSubscription_c :: "wire \<Rightarrow> string \<Rightarrow> int \<Rightarrow> string \<Rightarrow> net \<Rightarrow> net \<times> unit option" where
  "DeleteSubscription_c W token chatID subID =
     do_plain W token ''DELETE'' (''/subscriptions/'' @ subID) (Some (JvObj [(''chat_id'', jv_int chatID)]))"

definition ForceCheck_c :: "wire \<Rightarrow> string \<Rightarrow> int \<Rightarrow> string \<Rightarrow> net \<Rightarrow> net \<times> unit option" where
  "ForceCheck_c W token chatID subID =
     do_plain W token ''POST'' (''/subscriptions/'' @ subID @ ''/check'') (Some (JvObj [(''chat_id'', jv_int chatID)]))"

definition GetHistory_c :: "wire \<Rightarrow> string \<Rightarrow> int \<Rightarrow> string \<Rightarrow> net \<Rightarrow> net \<times> PricePoint_c list option" where
  "GetHistory_c W token chatID subID net =
     do_request W token ''GET'' (''/subscriptions/'' @ subID @ ''/history?chat_id='' @ show_int chatID) None
       ([], decode_with (decode_list decode_point)) net"

text \<open>The client as the bot's \<open>Gateway\<close>; \<open>pollLookup\<close> ends its context after 90 seconds.\<close>

definition lookupTimeout :: duration where "lookupTimeout = 90 * second"

definition client :: "wire \<Rightarrow> string \<Rightarrow> net Gateway" where
  "client W token = \<lparr>gw_StartLookup = StartLookup_c W token,
     gw_PollLookup = (\<lambda>i net. case PollLookup W token i lookupTimeout net of (net', r, _) \<Rightarrow> (net', r)),
     gw_CreateSubscription = CreateSubscription_c W token, gw_ListSubscriptions = ListSubscriptions_c W token,
     gw_PauseSubscription = PauseSubscription_c W token, gw_ResumeSubscription = ResumeSubscription_c W token,
     gw_EditSubscription = EditSubscription_c W token, gw_DeleteSubscription = DeleteSubscription_c W token,
     gw_ForceCheck = ForceCheck_c W token, gw_GetHistory = GetHistory_c W token\<rparr>"

end
