(* ===== verification/ClientLaws.thy ===== *)
theory ClientLaws
  imports Client HandlerLaws
begin

text \<open>
  The proofs on the bot's client: how long \<open>PollLookup\<close> polls, and that each of its methods, sent to
  the gateway's router, reaches the handler it means with the fields it means.
\<close>

section \<open>Polling\<close>

lemma get_lookup_counts: "get_lookup W token i net = (net', r) \<Longrightarrow> nt_k net' = Suc (nt_k net)"
  by (auto simp: get_lookup_def do_request_def Let_def split: if_splits prod.splits)

lemma le_div: "0 < p \<Longrightarrow> m * p \<le> x \<Longrightarrow> m \<le> x div (p :: int)"
  using zdiv_mono1 [of "m * p" x p] by simp

lemma poll_loop_end:
  assumes "poll_loop W token i done_at now (int m * pollPeriod) net = (net', res, t)"
    and "0 \<le> now" and "now \<le> done_at"
  shows "0 \<le> t \<and> t \<le> done_at \<and>
    int (nt_k net') \<le> int (nt_k net) + max 0 (done_at div pollPeriod - int m + 1) \<and>
    (\<forall>r. res = Some r \<longrightarrow> (lk_Status r = ''done'' \<or> lk_Status r = ''failed'') \<and> t < done_at \<and>
       (\<exists>net. get_lookup W token i net = (net', Some r)))"
  using assms
proof (induction W token i done_at now "int m * pollPeriod" net arbitrary: m rule: poll_loop.induct)
  case (1 W token i done_at now net)
  define tick where "tick = max now (int m * pollPeriod)"
  define ended where "ended = max now done_at"
  have P: "0 < pollPeriod" by (simp add: pollPeriod_def second_def)
  have ended: "ended = done_at" using "1.prems"(3) by (simp add: ended_def)
  show ?case
  proof (cases "ended < tick \<or> ended = tick \<and> \<not> wi_tick_first W (nt_k net)")
    case True
    then show ?thesis using "1.prems" ended
      by (subst (asm) poll_loop.simps) (auto simp: Let_def tick_def ended_def)
  next
    case polls: False
    define fin where "fin = tick + min (int (wi_duration W (nt_k net))) clientTimeout"
    obtain net1 res1 where g: "get_lookup W token i net = (net1, res1)" by fastforce
    have k1: "nt_k net1 = Suc (nt_k net)" using get_lookup_counts [OF g] .
    have in_time: "tick \<le> done_at" using polls ended by auto
    have fin: "tick \<le> fin" by (simp add: fin_def clientTimeout_def second_def)
    have "int m * pollPeriod \<le> done_at" using in_time by (simp add: tick_def)
    then have m: "int m \<le> done_at div pollPeriod" by (rule le_div [OF P])
    have eq: "poll_loop W token i done_at now (int m * pollPeriod) net =
       (if done_at \<le> fin then (net1, None, max tick done_at)
        else case res1 of None \<Rightarrow> (net1, None, fin)
          | Some r \<Rightarrow> if lk_Status r = ''done'' \<or> lk_Status r = ''failed'' then (net1, Some r, fin)
              else poll_loop W token i done_at fin ((tick div pollPeriod + 1) * pollPeriod) net1)"
      by (subst poll_loop.simps) (simp only: Let_def tick_def [symmetric] ended_def [symmetric] fin_def [symmetric]
        g prod.case polls if_False)
    show ?thesis
    proof (cases "done_at \<le> fin")
      case True
      with "1.prems" eq in_time m k1 show ?thesis by auto
    next
      case early: False
      have nonneg: "0 \<le> fin" using "1.prems"(2) fin by (simp add: tick_def)
      show ?thesis
      proof (cases res1)
        case None
        with "1.prems" eq early m k1 nonneg show ?thesis by auto
      next
        case (Some r)
        show ?thesis
        proof (cases "lk_Status r = ''done'' \<or> lk_Status r = ''failed''")
          case True
          with "1.prems" eq early m k1 nonneg Some g show ?thesis by auto
        next
          case False
          define m' where "m' = nat (tick div pollPeriod + 1)"
          have "0 \<le> tick" using "1.prems"(2) by (simp add: tick_def)
          then have m': "int m' = tick div pollPeriod + 1" using P by (simp add: m'_def pos_imp_zdiv_nonneg_iff)
          have "int m \<le> tick div pollPeriod" by (rule le_div [OF P]) (simp add: tick_def)
          with m' have later: "int m < int m'" by simp
          have rec: "poll_loop W token i done_at fin (int m' * pollPeriod) net1 = (net', res, t)"
            using "1.prems"(1) eq early Some False by (simp add: m')
          have IH: "0 \<le> t \<and> t \<le> done_at \<and>
              int (nt_k net') \<le> int (nt_k net1) + max 0 (done_at div pollPeriod - int m' + 1) \<and>
              (\<forall>r. res = Some r \<longrightarrow> (lk_Status r = ''done'' \<or> lk_Status r = ''failed'') \<and> t < done_at \<and>
                 (\<exists>net. get_lookup W token i net = (net', Some r)))"
            using early False
            by (intro "1.hyps" [OF tick_def ended_def polls fin_def g [symmetric] early Some False _ rec nonneg])
              (simp_all add: m')
          with k1 later m show ?thesis by auto
        qed
      qed
    qed
  qed
qed

text \<open>
  C36: \<open>PollLookup\<close> always returns, by the end of its context, after at most one request for every two
  seconds of it (at most 45 in the 90 seconds the bot gives it), whatever the gateway, the network and the
  ticker do; if it returns a result, it came in time, it is final, and it is what the last request got.
\<close>

theorem poll_lookup_ends:
  assumes "0 \<le> done_at" and "PollLookup W token i done_at net = (net', res, t)"
  shows "t \<le> done_at \<and> int (nt_k net' - nt_k net) \<le> done_at div (2 * second) \<and>
    (done_at = lookupTimeout \<longrightarrow> nt_k net' - nt_k net \<le> 45) \<and>
    (\<forall>r. res = Some r \<longrightarrow> (lk_Status r = ''done'' \<or> lk_Status r = ''failed'') \<and> t < done_at \<and>
       (\<exists>net. get_lookup W token i net = (net', Some r)))"
proof -
  have "poll_loop W token i done_at 0 (int 1 * pollPeriod) net = (net', res, t)"
    using assms(2) by (simp add: PollLookup_def)
  from poll_loop_end [OF this order_refl assms(1)]
  have e: "t \<le> done_at" "int (nt_k net') \<le> int (nt_k net) + max 0 (done_at div pollPeriod)"
    "\<forall>r. res = Some r \<longrightarrow> (lk_Status r = ''done'' \<or> lk_Status r = ''failed'') \<and> t < done_at \<and>
       (\<exists>net. get_lookup W token i net = (net', Some r))" by auto
  have "0 \<le> done_at div pollPeriod" using assms(1) by (simp add: pollPeriod_def second_def pos_imp_zdiv_nonneg_iff)
  with e(2) have n: "int (nt_k net' - nt_k net) \<le> done_at div (2 * second)" by (simp add: pollPeriod_def)
  moreover have "lookupTimeout div (2 * second) = 45" by (simp add: lookupTimeout_def second_def)
  ultimately show ?thesis using e(1,3) by auto
qed

text \<open>A wire on which every request arrives at once, and one that loses every request.\<close>

definition demo_wire :: wire where
  "demo_wire = \<lparr>wi_services = demo, wi_token = ''tok'', wi_henv = (\<lambda>_. demo_henv), wi_delivery = (\<lambda>_. Delivered),
     wi_duration = (\<lambda>_. 0), wi_too_large = (\<lambda>_. False), wi_other = (\<lambda>_ _ _. None), wi_tick_first = (\<lambda>_. True)\<rparr>"

definition demo_net :: net where
  "demo_net = \<lparr>nt_db = demo_gw\<lparr>lookup_requests := [demo_done]\<rparr>, nt_k = 0\<rparr>"

theorem poll_lookup_ends_witness:
  "\<exists>net' t. PollLookup (demo_wire\<lparr>wi_delivery := \<lambda>_. NotDelivered\<rparr>) ''tok'' ''l'' lookupTimeout demo_net = (net', None, t) \<and>
     t \<le> lookupTimeout \<and> nt_k net' - nt_k demo_net \<le> 45"
proof -
  let ?W = "demo_wire\<lparr>wi_delivery := \<lambda>_. NotDelivered\<rparr>"
  obtain net' res t where p: "PollLookup ?W ''tok'' ''l'' lookupTimeout demo_net = (net', res, t)" by (cases "PollLookup ?W ''tok'' ''l'' lookupTimeout demo_net")
  have "get_lookup ?W ''tok'' ''l'' net = (net\<lparr>nt_k := Suc (nt_k net)\<rparr>, None)" for net
    by (simp add: get_lookup_def do_request_def)
  then have "res = None" using p
    by (subst (asm) PollLookup_def, subst (asm) poll_loop.simps) (auto simp: Let_def split: if_splits)
  moreover have "0 \<le> lookupTimeout" by (simp add: lookupTimeout_def second_def)
  ultimately show ?thesis using poll_lookup_ends [OF _ p] p by auto
qed

section \<open>Paths\<close>

lemma split_on_none: "c \<notin> set s \<Longrightarrow> split_on c s = [s]"
  by (induction s) auto

lemma split_on_append: "c \<notin> set s \<Longrightarrow> split_on c (s @ c # t) = s # split_on c t"
  by (induction s) auto

lemma plain_chars: "plain s \<Longrightarrow> CHR ''/'' \<notin> set s \<and> CHR ''?'' \<notin> set s"
  by (auto simp: plain_def list_all_iff plain_char_def is_digit_def Let_def)

lemma plain_show_int: "plain (show_int i)"
proof -
  have "list_all plain_char (show_nat n)" for n
    using show_nat_digits [of n] by (auto simp: list_all_iff plain_char_def)
  then show ?thesis by (auto simp: plain_def show_int_def show_nat_nonempty plain_char_def)
qed

text \<open>A path of the client, by its segments and its query.\<close>

lemma route_path:
  assumes "list_all (\<lambda>s. CHR ''/'' \<notin> set s \<and> CHR ''?'' \<notin> set s) [a, i, b]"
  shows "split_on (CHR ''?'') (CHR ''/'' # a) = [CHR ''/'' # a]"
    and "split_on (CHR ''/'') (CHR ''/'' # a) = [[], a]"
    and "split_on (CHR ''?'') (CHR ''/'' # a @ CHR ''/'' # i) = [CHR ''/'' # a @ CHR ''/'' # i]"
    and "split_on (CHR ''/'') (CHR ''/'' # a @ CHR ''/'' # i) = [[], a, i]"
    and "split_on (CHR ''?'') (CHR ''/'' # a @ CHR ''/'' # i @ CHR ''/'' # b) = [CHR ''/'' # a @ CHR ''/'' # i @ CHR ''/'' # b]"
    and "split_on (CHR ''/'') (CHR ''/'' # a @ CHR ''/'' # i @ CHR ''/'' # b) = [[], a, i, b]"
    and "CHR ''?'' \<notin> set q \<Longrightarrow> split_on (CHR ''?'') (CHR ''/'' # a @ CHR ''?'' # q) = [CHR ''/'' # a, q]"
    and "CHR ''?'' \<notin> set q \<Longrightarrow> split_on (CHR ''?'') (CHR ''/'' # a @ CHR ''/'' # i @ CHR ''/'' # b @ CHR ''?'' # q) =
      [CHR ''/'' # a @ CHR ''/'' # i @ CHR ''/'' # b, q]"
  using assms split_on_append [of "CHR ''?''" "CHR ''/'' # a" q]
    split_on_append [of "CHR ''?''" "CHR ''/'' # a @ CHR ''/'' # i @ CHR ''/'' # b" q]
  by (simp_all add: split_on_none split_on_append)

lemma routes:
  assumes i: "plain i" and q: "plain q"
  shows "route other ''POST'' ''/lookup'' body = Some (PostLookup (Option.bind body bind_lookup))"
    and "route other ''GET'' (''/lookup/'' @ i) body = Some (GetLookupById i)"
    and "route other ''POST'' ''/subscriptions'' body = Some (PostSubscription (Option.bind body bind_subscription))"
    and "route other ''GET'' (''/subscriptions?chat_id='' @ q) body = Some (ListSubscriptions q)"
    and "route other ''PATCH'' (''/subscriptions/'' @ i) body = Some (PatchSubscription i (Option.bind body bind_patch))"
    and "route other ''DELETE'' (''/subscriptions/'' @ i) body = Some (DeleteSubscriptionById i (Option.bind body bind_chat))"
    and "route other ''POST'' (''/subscriptions/'' @ i @ ''/check'') body = Some (PostCheck i (Option.bind body bind_chat))"
    and "route other ''GET'' (''/subscriptions/'' @ i @ ''/history?chat_id='' @ q) body = Some (GetHistory i q)"
  using plain_chars [OF i] plain_chars [OF q] i q
    trim_prefix_append [of "''chat_id=''" q] has_prefix_append [of "''chat_id=''" q]
    route_path [of "''lookup''" i "''x''"] route_path [of "''subscriptions''" i "''check''"]
    route_path(7) [of "''subscriptions''" i "''x''" "''chat_id='' @ q"]
    route_path(6) [of "''subscriptions''" i "''history''"]
    route_path(8) [of "''subscriptions''" i "''history''" "''chat_id='' @ q"]
  by (simp_all add: route_def)

section \<open>Requests that arrive\<close>

definition arrives :: "wire \<Rightarrow> net \<Rightarrow> bool" where
  "arrives W net \<longleftrightarrow> wi_delivery W (nt_k net) = Delivered \<and> int (wi_duration W (nt_k net)) < clientTimeout \<and>
     (\<forall>j. \<not> wi_too_large W j)"

text \<open>What the gateway makes of a request.\<close>

definition answer :: "wire \<Rightarrow> net \<Rightarrow> request \<Rightarrow> gw_db \<times> response" where
  "answer W net req = serve (wi_services W) (wi_token W) (wi_henv W (nt_k net)) (wi_token W) req (nt_db net)"

definition after :: "net \<Rightarrow> gw_db \<Rightarrow> net" where
  "after net db = \<lparr>nt_db = db, nt_k = Suc (nt_k net)\<rparr>"

lemma do_request_arrives:
  assumes "arrives W net" and "route (wi_other W) verb path (Option.bind body id) = Some req" and "body \<noteq> Some None"
  shows "do_request W (wi_token W) verb path body out net =
    (after net (fst (answer W net req)),
     let r = snd (answer W net req)
     in if rs_status r \<ge> 400 then None else if rs_status r = 204 then Some (fst out) else snd out (response_json (rs_body r)))"
proof -
  have b: "(case Option.bind body id of Some j \<Rightarrow> if wi_too_large W j then None else Some j | None \<Rightarrow> None) = Option.bind body id"
    using assms(1) by (simp add: arrives_def split: option.split)
  have "gateway_answer W (wi_token W) verb path (Option.bind body id) net = answer W net req"
    unfolding gateway_answer_def b assms(2) by (simp add: answer_def)
  with assms show ?thesis by (auto simp: do_request_def arrives_def after_def Let_def split: prod.split)
qed

lemma do_plain_arrives:
  assumes "arrives W net" and "route (wi_other W) verb path (Some j) = Some req"
  shows "do_plain W (wi_token W) verb path (Some j) net =
    (after net (fst (answer W net req)), if rs_status (snd (answer W net req)) \<ge> 400 then None else Some ())"
  using do_request_arrives [OF assms(1), of verb path "Some (Some j)" req "((), \<lambda>_. Some ())"] assms(2)
  by (simp add: do_plain_def Let_def)

lemmas get_field_defs = get_string_def get_float_def get_floatp_def get_bool_def get_time_def get_int_def get_field_def

lemma get_int_jv [simp]: "int64 i \<Longrightarrow> get_int (JvObj ((''chat_id'', jv_int i) # fs)) ''chat_id'' = Some i"
  by (simp add: get_field_defs jv_int_def)

lemma bind_simps:
  "bind_lookup (JvObj [(''url'', JvStr u)]) = Some \<lparr>plr_URL = u\<rparr>"
  "int64 c \<Longrightarrow> bind_chat (JvObj [(''chat_id'', jv_int c)]) = Some \<lparr>cb_ChatID = c\<rparr>"
  "int64 c \<Longrightarrow> bind_subscription (JvObj [(''chat_id'', jv_int c), (''lookup_id'', JvStr l), (''min_price'', JvNum p),
     (''max_price'', JvNum q)]) = Some \<lparr>psr_ChatID = c, psr_LookupID = l, psr_MinPrice = Fin p, psr_MaxPrice = Fin q\<rparr>"
  "int64 c \<Longrightarrow> bind_patch (JvObj [(''chat_id'', jv_int c), (''action'', JvStr a)]) =
     Some \<lparr>pat_ChatID = c, pat_Action = a, pat_MinPrice = None, pat_MaxPrice = None\<rparr>"
  "int64 c \<Longrightarrow> bind_patch (JvObj [(''chat_id'', jv_int c), (''action'', JvStr a), (''min_price'', JvNum p),
     (''max_price'', JvNum q)]) = Some \<lparr>pat_ChatID = c, pat_Action = a, pat_MinPrice = Some (Fin p), pat_MaxPrice = Some (Fin q)\<rparr>"
  by (simp_all add: bind_lookup_def bind_chat_def bind_subscription_def bind_patch_def get_string_def get_float_def
      get_floatp_def get_field_def)

text \<open>The subscriptions and points as the client has them.\<close>

definition to_client :: "Subscription \<Rightarrow> Subscription_c" where
  "to_client s = \<lparr>gs_ID = ss_ID s, gs_ProductID = ss_ProductID s, gs_ProductName = ss_ProductName s,
     gs_ProductURL = ss_ProductURL s, gs_MinPrice = ss_MinPrice s, gs_MaxPrice = ss_MaxPrice s, gs_Paused = ss_Paused s\<rparr>"

definition point_to_client :: "PricePoint \<Rightarrow> PricePoint_c" where
  "point_to_client p = \<lparr>pt_Price = pp_Price p, pt_Currency = pp_Currency p, pt_ScrapedAt = pp_ScrapedAt p\<rparr>"

definition finite_opt :: "float64 option \<Rightarrow> bool" where
  "finite_opt f \<longleftrightarrow> (case f of Some x \<Rightarrow> f_finite x | None \<Rightarrow> True)"

lemma finite_optE:
  assumes "finite_opt f"
  obtains "f = None" | q where "f = Some (Fin q)"
  using assms by (cases f) (auto simp: finite_opt_def elim: f_finite.elims)

lemma jv_floatp_field:
  "finite_opt f \<Longrightarrow> \<exists>v. jv_floatp f = Some v \<and> (if v = JvNull then f = None else \<exists>q. v = JvNum q \<and> f = Some (Fin q))"
  by (erule finite_optE) simp_all

lemma decode_subscription_json:
  assumes "finite_opt (ss_MinPrice s)" and "finite_opt (ss_MaxPrice s)"
  obtains j where "subscription_json s = Some j" and "decode_subscription j = Some (to_client s)"
proof -
  obtain v w where v: "jv_floatp (ss_MinPrice s) = Some v"
      "if v = JvNull then ss_MinPrice s = None else \<exists>q. v = JvNum q \<and> ss_MinPrice s = Some (Fin q)"
    and w: "jv_floatp (ss_MaxPrice s) = Some w"
      "if w = JvNull then ss_MaxPrice s = None else \<exists>q. w = JvNum q \<and> ss_MaxPrice s = Some (Fin q)"
    using assms jv_floatp_field by metis
  show thesis using v w that
    by (fastforce simp: subscription_json_def decode_subscription_def to_client_def get_field_defs split: if_splits)
qed

lemma decode_point_json:
  assumes "f_finite (pp_Price p)"
  obtains j where "point_json p = Some j" and "decode_point j = Some (point_to_client p)"
  using assms by (cases "pp_Price p") (auto simp: point_json_def decode_point_def point_to_client_def get_field_defs)

lemma decode_list_json:
  assumes "\<And>x. x \<in> set xs \<Longrightarrow> \<exists>j. f x = Some j \<and> g j = Some (h x)"
  shows "\<exists>js. all_some (map f xs) = Some js \<and> all_some (map g js) = Some (map h xs)"
  using assms
proof (induction xs)
  case (Cons x xs)
  then obtain j js where "f x = Some j" "g j = Some (h x)" "all_some (map f xs) = Some js"
    "all_some (map g js) = Some (map h xs)" by fastforce
  then show ?case by simp
qed simp

section \<open>The answers of the handlers\<close>

lemma answer_Register: "answer W net req = Register (wi_services W) (wi_henv W (nt_k net)) req (nt_db net)"
  by (simp add: answer_def serve_def Auth_def)

definition refused :: "response \<Rightarrow> bool" where
  "refused r \<longleftrightarrow> 400 \<le> rs_status r \<and> (\<exists>e. rs_body r = ErrorBody e)"

lemma refused_simps [simp]:
  "refused internal_error" "refused subscription_not_found" "refused (reply n (ErrorBody e)) \<longleftrightarrow> 400 \<le> n"
  by (simp_all add: refused_def internal_error_def subscription_not_found_def reply_def)

lemma reply_simps [simp]: "rs_status (reply n b) = n" "rs_body (reply n b) = b"
  by (simp_all add: reply_def)

lemma postLookup_answer:
  "refused (snd (answer W net (PostLookup b))) \<or> (\<exists>i. snd (answer W net (PostLookup b)) = reply 202 (LookupBody i))"
  by (auto simp: answer_Register postLookup_def Let_def split: option.splits sum.splits prod.splits)

lemma postSubscription_answer:
  "refused (snd (answer W net (PostSubscription b))) \<or>
   (\<exists>s p. snd (answer W net (PostSubscription b)) = reply 200 (CreatedBody s p))"
  by (auto simp: answer_Register postSubscription_def Let_def split: option.splits sum.splits prod.splits)

lemma getLookup_answer:
  "refused (snd (answer W net (GetLookupById i))) \<or> snd (answer W net (GetLookupById i)) = reply 202 PendingBody \<or>
   (\<exists>n p u. snd (answer W net (GetLookupById i)) = reply 200 (DoneBody n p u)) \<or>
   (\<exists>e. snd (answer W net (GetLookupById i)) = reply 200 (FailedBody e))"
  by (auto simp: answer_Register getLookup_def Let_def split: option.splits sum.splits prod.splits LookupStatus.splits)

lemma listSubscriptions_answer:
  "refused (snd (answer W net (ListSubscriptions q))) \<or>
   (\<exists>subs. snd (answer W net (ListSubscriptions q)) = reply 200 (SubscriptionsBody subs))"
  by (auto simp: answer_Register listSubscriptions_def Let_def split: option.splits sum.splits prod.splits)

lemma userIDOr404_refused: "userIDOr404 e c db = Inl r \<Longrightarrow> refused r"
  by (auto simp: userIDOr404_def split: sum.splits if_splits)

lemma getHistory_answer:
  "refused (snd (answer W net (GetHistory i q))) \<or>
   (\<exists>ps. snd (answer W net (GetHistory i q)) = reply 200 (PointsBody ps))"
  using userIDOr404_refused
  by (auto simp: answer_Register getHistory_def Let_def split: option.splits sum.splits prod.splits)

section \<open>The client's methods\<close>

lemma refused_none: "refused r \<Longrightarrow> 400 \<le> rs_status r \<and> rs_status r \<noteq> 204 \<and> (\<exists>e. rs_body r = ErrorBody e)"
  by (auto simp: refused_def)

lemma StartLookup_arrives:
  assumes "arrives W net"
  shows "StartLookup_c W (wi_token W) u net = (after net (fst (answer W net (PostLookup (Some \<lparr>plr_URL = u\<rparr>)))),
    case rs_body (snd (answer W net (PostLookup (Some \<lparr>plr_URL = u\<rparr>)))) of LookupBody i \<Rightarrow> Some i | _ \<Rightarrow> None)"
  using do_request_arrives [OF assms, of "''POST''" "''/lookup''" "Some (Some (JvObj [(''url'', JvStr u)]))"
      "PostLookup (Some \<lparr>plr_URL = u\<rparr>)" "([], decode_with (\<lambda>j. get_string j ''lookup_id''))"]
    routes(1) [OF plain_show_int plain_show_int] postLookup_answer [of W net "Some \<lparr>plr_URL = u\<rparr>"]
  by (auto simp: StartLookup_c_def bind_simps Let_def decode_with_def get_string_def get_field_def dest!: refused_none)

lemma CreateSubscription_arrives:
  assumes "arrives W net" and "int64 c"
  shows "CreateSubscription_c W (wi_token W) \<lparr>cr_ChatID = c, cr_LookupID = l, cr_MinPrice = Fin p, cr_MaxPrice = Fin q\<rparr> net =
    (let r = answer W net (PostSubscription (Some \<lparr>psr_ChatID = c, psr_LookupID = l, psr_MinPrice = Fin p, psr_MaxPrice = Fin q\<rparr>))
     in (after net (fst r), case rs_body (snd r) of
       CreatedBody s i \<Rightarrow> Some \<lparr>cs_SubscriptionID = s, cs_ProductID = i\<rparr> | _ \<Rightarrow> None))"
  using postSubscription_answer [of W net "Some \<lparr>psr_ChatID = c, psr_LookupID = l, psr_MinPrice = Fin p, psr_MaxPrice = Fin q\<rparr>"]
  by (auto simp: CreateSubscription_c_def do_request_arrives [OF assms(1) routes(3) [OF plain_show_int plain_show_int]]
      bind_simps assms Let_def decode_with_def get_string_def get_field_def dest!: refused_none)

lemma patch_arrives:
  assumes "arrives W net" and "int64 c" and "plain i"
  shows "PauseSubscription_c W (wi_token W) c i net = (let r = answer W net (PatchSubscription i
        (Some \<lparr>pat_ChatID = c, pat_Action = ''pause'', pat_MinPrice = None, pat_MaxPrice = None\<rparr>))
      in (after net (fst r), if rs_status (snd r) \<ge> 400 then None else Some ()))"
    and "ResumeSubscription_c W (wi_token W) c i net = (let r = answer W net (PatchSubscription i
        (Some \<lparr>pat_ChatID = c, pat_Action = ''resume'', pat_MinPrice = None, pat_MaxPrice = None\<rparr>))
      in (after net (fst r), if rs_status (snd r) \<ge> 400 then None else Some ()))"
    and "EditSubscription_c W (wi_token W) c i (Fin p) (Fin q) net = (let r = answer W net (PatchSubscription i
        (Some \<lparr>pat_ChatID = c, pat_Action = ''edit'', pat_MinPrice = Some (Fin p), pat_MaxPrice = Some (Fin q)\<rparr>))
      in (after net (fst r), if rs_status (snd r) \<ge> 400 then None else Some ()))"
  using assms
  by (simp_all add: PauseSubscription_c_def ResumeSubscription_c_def EditSubscription_c_def patchAction_def Let_def
      do_plain_arrives [OF assms(1) routes(5) [OF assms(3) plain_show_int]] bind_simps del: append.simps)
    (simp_all add: bind_simps)

lemma delete_arrives:
  assumes "arrives W net" and "int64 c" and "plain i"
  shows "DeleteSubscription_c W (wi_token W) c i net =
    (let r = answer W net (DeleteSubscriptionById i (Some \<lparr>cb_ChatID = c\<rparr>))
     in (after net (fst r), if rs_status (snd r) \<ge> 400 then None else Some ()))"
    and "ForceCheck_c W (wi_token W) c i net =
    (let r = answer W net (PostCheck i (Some \<lparr>cb_ChatID = c\<rparr>))
     in (after net (fst r), if rs_status (snd r) \<ge> 400 then None else Some ()))"
  by (simp_all only: DeleteSubscription_c_def ForceCheck_c_def Let_def
      do_plain_arrives [OF assms(1) routes(6) [OF assms(3) plain_show_int]]
      do_plain_arrives [OF assms(1) routes(7) [OF assms(3) plain_show_int]] bind_simps(2) [OF assms(2)] bind.bind_lunit
      Option.bind.simps)

lemma ListSubscriptions_arrives:
  assumes "arrives W net" and "snd (answer W net (ListSubscriptions (show_int c))) = reply 200 (SubscriptionsBody subs)"
    and "\<forall>s \<in> set subs. finite_opt (ss_MinPrice s) \<and> finite_opt (ss_MaxPrice s)"
  shows "ListSubscriptions_c W (wi_token W) c net =
    (after net (fst (answer W net (ListSubscriptions (show_int c)))), Some (map to_client subs))"
proof -
  obtain js where js: "all_some (map subscription_json subs) = Some js"
    "all_some (map decode_subscription js) = Some (map to_client subs)"
    using decode_list_json [of subs subscription_json decode_subscription to_client] assms(3) decode_subscription_json
    by metis
  then show ?thesis
    using do_request_arrives [OF assms(1), of "''GET''" "''/subscriptions?chat_id='' @ show_int c" None
        "ListSubscriptions (show_int c)" "([], decode_with (decode_list decode_subscription))"]
      routes(4) [OF plain_show_int plain_show_int] assms(2)
    by (simp add: ListSubscriptions_c_def decode_with_def decode_list_def)
qed

lemma GetHistory_arrives:
  assumes "arrives W net" and "plain i" and "snd (answer W net (GetHistory i (show_int c))) = reply 200 (PointsBody ps)"
    and "\<forall>p \<in> set ps. f_finite (pp_Price p)"
  shows "GetHistory_c W (wi_token W) c i net =
    (after net (fst (answer W net (GetHistory i (show_int c)))), Some (map point_to_client ps))"
proof -
  obtain js where js: "all_some (map point_json ps) = Some js"
    "all_some (map decode_point js) = Some (map point_to_client ps)"
    using decode_list_json [of ps point_json decode_point point_to_client] assms(4) decode_point_json by metis
  then show ?thesis
    using do_request_arrives [OF assms(1), of "''GET''" "''/subscriptions/'' @ i @ ''/history?chat_id='' @ show_int c" None
        "GetHistory i (show_int c)" "([], decode_with (decode_list decode_point))"]
      routes(8) [OF assms(2) plain_show_int] assms(3)
    by (simp add: GetHistory_c_def decode_with_def decode_list_def)
qed

lemma get_lookup_arrives:
  assumes "arrives W net" and "plain i"
  shows "get_lookup W (wi_token W) i net =
    (let r = answer W net (GetLookupById i)
     in (after net (fst r), case rs_body (snd r) of
       PendingBody \<Rightarrow> Some (zero_result\<lparr>lk_Status := ''pending''\<rparr>)
     | DoneBody n (Fin p) u \<Rightarrow> Some (zero_result\<lparr>lk_Status := ''done'', lk_Name := n, lk_Price := Fin p, lk_URL := u\<rparr>)
     | FailedBody e \<Rightarrow> Some (zero_result\<lparr>lk_Status := ''failed'', lk_Error := e\<rparr>)
     | _ \<Rightarrow> None))"
proof -
  have "get_lookup W (wi_token W) i net = (after net (fst (answer W net (GetLookupById i))),
      let r = snd (answer W net (GetLookupById i))
      in if rs_status r \<ge> 400 then None else if rs_status r = 204 then Some zero_result
         else decode_with decode_result (response_json (rs_body r)))"
    using do_request_arrives [OF assms(1), of "''GET''" "''/lookup/'' @ i" None "GetLookupById i"
        "(zero_result, decode_with decode_result)"] routes(2) [OF assms(2) plain_show_int]
    by (simp add: get_lookup_def Let_def)
  then show ?thesis using getLookup_answer [of W net i]
    by (auto simp: Let_def decode_with_def decode_result_def get_field_defs zero_result_def
        split: float64.splits dest!: refused_none)
qed

section \<open>Requests that may be lost\<close>

text \<open>
  A request may be lost on its way, and so may its response, or it comes after the client's timeout.
  \<open>sent\<close> is what is left of a request that the gateway would answer \<open>r\<close>, with the result \<open>v\<close> of an answer
  that comes in time.
\<close>

definition on_time :: "wire \<Rightarrow> net \<Rightarrow> bool" where
  "on_time W net \<longleftrightarrow> wi_delivery W (nt_k net) = Delivered \<and> int (wi_duration W (nt_k net)) < clientTimeout"

definition sent :: "wire \<Rightarrow> net \<Rightarrow> gw_db \<times> response \<Rightarrow> 'a option \<Rightarrow> net \<times> 'a option" where
  "sent W net r v =
     (if wi_delivery W (nt_k net) = NotDelivered then (after net (nt_db net), None)
      else (after net (fst r), if on_time W net then v else None))"

text \<open>No request of the bot is over the gateway's limit on bodies.\<close>

definition within_limit :: "wire \<Rightarrow> bool" where
  "within_limit W \<longleftrightarrow> (\<forall>j. \<not> wi_too_large W j)"

lemma do_request_sent:
  assumes "within_limit W" and "route (wi_other W) verb path (Option.bind body id) = Some req" and "body \<noteq> Some None"
  shows "do_request W (wi_token W) verb path body out net =
    (let r = snd (answer W net req)
     in sent W net (answer W net req) (if rs_status r \<ge> 400 then None else if rs_status r = 204 then Some (fst out)
          else snd out (response_json (rs_body r))))"
proof -
  have b: "(case Option.bind body id of Some j \<Rightarrow> if wi_too_large W j then None else Some j | None \<Rightarrow> None) = Option.bind body id"
    using assms(1) by (simp add: within_limit_def split: option.split)
  have g: "gateway_answer W (wi_token W) verb path (Option.bind body id) net = answer W net req"
    unfolding gateway_answer_def b assms(2) by (simp add: answer_def)
  obtain db r where a: "answer W net req = (db, r)" by fastforce
  show ?thesis using assms(3) g a
    by (cases net; cases "wi_delivery W (nt_k net)") (auto simp: do_request_def after_def sent_def on_time_def Let_def)
qed

lemma do_plain_sent:
  assumes "within_limit W" and "route (wi_other W) verb path (Some j) = Some req"
  shows "do_plain W (wi_token W) verb path (Some j) net =
    sent W net (answer W net req) (if rs_status (snd (answer W net req)) \<ge> 400 then None else Some ())"
  using do_request_sent [OF assms(1), of verb path "Some (Some j)" req "((), \<lambda>_. Some ())"] assms(2)
  by (simp add: do_plain_def Let_def)

lemma patch_sent:
  assumes "within_limit W" and "int64 c" and "plain i"
  shows "PauseSubscription_c W (wi_token W) c i net = (let r = answer W net (PatchSubscription i
        (Some \<lparr>pat_ChatID = c, pat_Action = ''pause'', pat_MinPrice = None, pat_MaxPrice = None\<rparr>))
      in sent W net r (if rs_status (snd r) \<ge> 400 then None else Some ()))"
    and "ResumeSubscription_c W (wi_token W) c i net = (let r = answer W net (PatchSubscription i
        (Some \<lparr>pat_ChatID = c, pat_Action = ''resume'', pat_MinPrice = None, pat_MaxPrice = None\<rparr>))
      in sent W net r (if rs_status (snd r) \<ge> 400 then None else Some ()))"
  using assms
  by (simp_all add: PauseSubscription_c_def ResumeSubscription_c_def patchAction_def Let_def
      do_plain_sent [OF assms(1) routes(5) [OF assms(3) plain_show_int]] bind_simps del: append.simps)

lemma delete_sent:
  assumes "within_limit W" and "int64 c" and "plain i"
  shows "DeleteSubscription_c W (wi_token W) c i net =
    (let r = answer W net (DeleteSubscriptionById i (Some \<lparr>cb_ChatID = c\<rparr>))
     in sent W net r (if rs_status (snd r) \<ge> 400 then None else Some ()))"
    and "ForceCheck_c W (wi_token W) c i net =
    (let r = answer W net (PostCheck i (Some \<lparr>cb_ChatID = c\<rparr>))
     in sent W net r (if rs_status (snd r) \<ge> 400 then None else Some ()))"
  by (simp_all only: DeleteSubscription_c_def ForceCheck_c_def Let_def
      do_plain_sent [OF assms(1) routes(6) [OF assms(3) plain_show_int]]
      do_plain_sent [OF assms(1) routes(7) [OF assms(3) plain_show_int]] bind_simps(2) [OF assms(2)] bind.bind_lunit
      Option.bind.simps)

lemma reads_sent:
  assumes "within_limit W"
  shows "\<exists>v. ListSubscriptions_c W (wi_token W) c net = sent W net (answer W net (ListSubscriptions (show_int c))) v"
    and "plain i \<Longrightarrow> \<exists>v. GetHistory_c W (wi_token W) c i net = sent W net (answer W net (GetHistory i (show_int c))) v"
  using do_request_sent [OF assms, of "''GET''" "''/subscriptions?chat_id='' @ show_int c" None
      "ListSubscriptions (show_int c)" "([], decode_with (decode_list decode_subscription))"]
    do_request_sent [OF assms, of "''GET''" "''/subscriptions/'' @ i @ ''/history?chat_id='' @ show_int c" None
      "GetHistory i (show_int c)" "([], decode_with (decode_list decode_point))"]
    routes(4) [OF plain_show_int plain_show_int] routes(8) [OF _ plain_show_int]
  by (auto simp: ListSubscriptions_c_def GetHistory_c_def Let_def)

lemma CreateSubscription_sent:
  assumes "within_limit W" and "int64 c"
    and "req = \<lparr>psr_ChatID = c, psr_LookupID = l, psr_MinPrice = p, psr_MaxPrice = q\<rparr>"
  shows "\<exists>v. CreateSubscription_c W (wi_token W) \<lparr>cr_ChatID = c, cr_LookupID = l, cr_MinPrice = p, cr_MaxPrice = q\<rparr> net =
      (if f_finite p \<and> f_finite q then sent W net (answer W net (PostSubscription (Some req))) v else (net, None)) \<and>
    (v = None \<longleftrightarrow> rs_status (snd (answer W net (PostSubscription (Some req)))) \<noteq> 200)"
proof (cases "\<exists>x y. p = Fin x \<and> q = Fin y")
  case True
  then obtain x y where pq: "p = Fin x" "q = Fin y" by blast
  define r where "r = answer W net (PostSubscription (Some req))"
  have "CreateSubscription_c W (wi_token W) \<lparr>cr_ChatID = c, cr_LookupID = l, cr_MinPrice = p, cr_MaxPrice = q\<rparr> net =
      sent W net r (case rs_body (snd r) of CreatedBody s i \<Rightarrow> Some \<lparr>cs_SubscriptionID = s, cs_ProductID = i\<rparr> | _ \<Rightarrow> None)"
    using postSubscription_answer [of W net "Some req"] unfolding r_def
    by (auto simp: CreateSubscription_c_def do_request_sent [OF assms(1) routes(3) [OF plain_show_int plain_show_int]]
        bind_simps assms pq Let_def decode_with_def get_string_def get_field_def dest!: refused_none)
  moreover have "(case rs_body (snd r) of CreatedBody s i \<Rightarrow> Some \<lparr>cs_SubscriptionID = s, cs_ProductID = i\<rparr> | _ \<Rightarrow> None) = None
      \<longleftrightarrow> rs_status (snd r) \<noteq> 200"
    using postSubscription_answer [of W net "Some req"] unfolding r_def by (auto dest!: refused_none)
  ultimately show ?thesis unfolding r_def pq by auto
next
  case False
  then have "\<not> (f_finite p \<and> f_finite q)" "jv_float p = None \<or> jv_float q = None" by (cases p; cases q; simp)+
  then show ?thesis
    by (auto simp: CreateSubscription_c_def do_request_def split: option.split)
qed

text \<open>The state and the result after a request whose success has no value.\<close>

definition outcome :: "net \<Rightarrow> gw_db \<times> response \<Rightarrow> net \<times> unit option" where
  "outcome net r = (after net (fst r), if 400 \<le> rs_status (snd r) then None else Some ())"

text \<open>
  C35: A request of the bot's client that arrives is the request the handlers mean: each method of the client,
  through its path, its JSON fields and the router, runs exactly one handler of the gateway with exactly
  the caller's values, changes the database as that handler does, and returns what that handler
  answered.
\<close>

theorem client_reaches_handlers:
  assumes "arrives W net" and "plain i" and "int64 c"
  shows "(StartLookup_c W (wi_token W) u net = (after net (fst (answer W net (PostLookup (Some \<lparr>plr_URL = u\<rparr>)))),
      case rs_body (snd (answer W net (PostLookup (Some \<lparr>plr_URL = u\<rparr>)))) of LookupBody j \<Rightarrow> Some j | _ \<Rightarrow> None)) \<and>
    (get_lookup W (wi_token W) i net = (after net (fst (answer W net (GetLookupById i))),
      case rs_body (snd (answer W net (GetLookupById i))) of
        PendingBody \<Rightarrow> Some (zero_result\<lparr>lk_Status := ''pending''\<rparr>)
      | DoneBody n (Fin p) url \<Rightarrow> Some (zero_result\<lparr>lk_Status := ''done'', lk_Name := n, lk_Price := Fin p, lk_URL := url\<rparr>)
      | FailedBody e \<Rightarrow> Some (zero_result\<lparr>lk_Status := ''failed'', lk_Error := e\<rparr>)
      | _ \<Rightarrow> None)) \<and>
    (CreateSubscription_c W (wi_token W) \<lparr>cr_ChatID = c, cr_LookupID = l, cr_MinPrice = Fin p, cr_MaxPrice = Fin q\<rparr> net =
      (let r = answer W net (PostSubscription (Some \<lparr>psr_ChatID = c, psr_LookupID = l, psr_MinPrice = Fin p, psr_MaxPrice = Fin q\<rparr>))
       in (after net (fst r), case rs_body (snd r) of
         CreatedBody s j \<Rightarrow> Some \<lparr>cs_SubscriptionID = s, cs_ProductID = j\<rparr> | _ \<Rightarrow> None))) \<and>
    (PauseSubscription_c W (wi_token W) c i net = outcome net (answer W net (PatchSubscription i
      (Some \<lparr>pat_ChatID = c, pat_Action = ''pause'', pat_MinPrice = None, pat_MaxPrice = None\<rparr>)))) \<and>
    (ResumeSubscription_c W (wi_token W) c i net = outcome net (answer W net (PatchSubscription i
      (Some \<lparr>pat_ChatID = c, pat_Action = ''resume'', pat_MinPrice = None, pat_MaxPrice = None\<rparr>)))) \<and>
    (EditSubscription_c W (wi_token W) c i (Fin p) (Fin q) net = outcome net (answer W net (PatchSubscription i
      (Some \<lparr>pat_ChatID = c, pat_Action = ''edit'', pat_MinPrice = Some (Fin p), pat_MaxPrice = Some (Fin q)\<rparr>)))) \<and>
    (DeleteSubscription_c W (wi_token W) c i net = outcome net (answer W net (DeleteSubscriptionById i (Some \<lparr>cb_ChatID = c\<rparr>)))) \<and>
    (ForceCheck_c W (wi_token W) c i net = outcome net (answer W net (PostCheck i (Some \<lparr>cb_ChatID = c\<rparr>)))) \<and>
    (snd (answer W net (ListSubscriptions (show_int c))) = \<lparr>rs_status = 200, rs_body = SubscriptionsBody subs\<rparr> \<longrightarrow>
      (\<forall>s \<in> set subs. finite_opt (ss_MinPrice s) \<and> finite_opt (ss_MaxPrice s)) \<longrightarrow>
      ListSubscriptions_c W (wi_token W) c net =
        (after net (fst (answer W net (ListSubscriptions (show_int c)))), Some (map to_client subs))) \<and>
    (snd (answer W net (GetHistory i (show_int c))) = \<lparr>rs_status = 200, rs_body = PointsBody ps\<rparr> \<longrightarrow>
      (\<forall>p \<in> set ps. f_finite (pp_Price p)) \<longrightarrow>
      GetHistory_c W (wi_token W) c i net =
        (after net (fst (answer W net (GetHistory i (show_int c)))), Some (map point_to_client ps)))"
  using StartLookup_arrives [OF assms(1), of u] get_lookup_arrives [OF assms(1,2)] CreateSubscription_arrives [OF assms(1,3), of l p q]
    patch_arrives [OF assms(1,3,2)] delete_arrives [OF assms(1,3,2)] ListSubscriptions_arrives [OF assms(1), of c subs]
    GetHistory_arrives [OF assms(1,2), of c ps]
  by (simp add: Let_def reply_def outcome_def)

lemma demo_wire_arrives [simp]: "arrives demo_wire net" "wi_token demo_wire = ''tok''" "wi_services demo_wire = demo"
    "wi_henv demo_wire k = demo_henv"
  by (simp_all add: arrives_def demo_wire_def clientTimeout_def second_def)

theorem client_reaches_handlers_witness:
  "ForceCheck_c demo_wire ''tok'' 8 ''s'' demo_net = (demo_net\<lparr>nt_k := 1\<rparr>, None)"
proof -
  have "answer demo_wire demo_net (PostCheck ''s'' (Some \<lparr>cb_ChatID = 8\<rparr>))
      = (nt_db demo_net, \<lparr>rs_status = 404, rs_body = ErrorBody ''subscription not found''\<rparr>)"
    using foreign_subscription [of demo_henv demo "''s''" 8 "nt_db demo_net" "PostCheck ''s'' (Some \<lparr>cb_ChatID = 8\<rparr>)"]
    by (simp add: answer_Register demo_net_def demo_gw_def demo_sub_def demo_genv_def demo_uuid_def reply_def
        subscription_not_found_def alone_def not_owner_def has_account_def after_account_def unowned_def)
  moreover have "plain ''s''" "int64 8" by code_simp+
  ultimately show ?thesis using client_reaches_handlers [of demo_wire demo_net "''s''" 8]
    by (simp add: outcome_def after_def demo_net_def)
qed

end
