(* ===== verification/Dialogue.thy ===== *)
theory Dialogue
  imports BotLaws ClientLaws
begin

text \<open>
  The bot, its client, the wire and the gateway together: the client is a \<open>Gateway\<close> that keeps the
  database's invariant, so every run of the bot keeps it; and the end of the dialogue about a new
  subscription is a subscription in the database.
\<close>

section \<open>The client keeps the database\<close>

text \<open>The other clients of the gateway only run its transactions, at most \<open>B\<close> with each request.\<close>

definition wire_ok :: "wire \<Rightarrow> nat \<Rightarrow> bool" where
  "wire_ok W B \<longleftrightarrow> (\<forall>k. others_ok (wi_henv W k) \<and> budget (wi_henv W k) \<le> B)"

definition db_ok :: "wire \<Rightarrow> int \<Rightarrow> nat \<Rightarrow> net \<Rightarrow> bool" where
  "db_ok W n B net \<longleftrightarrow> (wire_ok W B \<and> 0 \<le> n \<and> n + int (B * nt_k net) < 2 ^ 63 \<longrightarrow>
     gw_wf (n + int (B * nt_k net)) (nt_db net))"

lemma gateway_answer_wf:
  assumes "wire_ok W B" and "0 \<le> n" and "n + int (B * Suc (nt_k net)) < 2 ^ 63"
    and "gw_wf (n + int (B * nt_k net)) (nt_db net)"
  shows "gw_wf (n + int (B * Suc (nt_k net))) (fst (gateway_answer W token m path body net))"
proof -
  let ?h = "wi_henv W (nt_k net)" and ?m = "n + int (B * nt_k net)"
  have h: "others_ok ?h" "budget ?h \<le> B" using assms(1) by (simp_all add: wire_ok_def)
  have m: "0 \<le> ?m" "?m + int (budget ?h) \<le> n + int (B * Suc (nt_k net))" using assms(2) h(2) by simp_all
  show ?thesis
  proof (cases "route (wi_other W) m path (case body of Some j \<Rightarrow> if wi_too_large W j then None else Some j | None \<Rightarrow> None)")
    case None
    then show ?thesis using gw_wf_mono [OF assms(4)] m by (simp add: gateway_answer_def)
  next
    case (Some req)
    have "via (wi_services W) (budget ?h) (nt_db net) (fst (serve (wi_services W) (wi_token W) ?h token req (nt_db net)))"
      using m assms(3) by (intro serve_via [OF h(1) assms(4)]) simp_all
    from via_wf [OF this assms(4) m(1)] m assms(3)
    have "gw_wf (?m + int (budget ?h)) (fst (serve (wi_services W) (wi_token W) ?h token req (nt_db net)))" by simp
    with gw_wf_mono m(2) Some show ?thesis by (fastforce simp: gateway_answer_def)
  qed
qed

lemma do_request_keeps:
  assumes "db_ok W n B net"
  shows "db_ok W n B (fst (do_request W token m path body out net))"
proof (cases "body = Some None")
  case True
  with assms show ?thesis by (simp add: do_request_def)
next
  case False
  obtain db r where a: "gateway_answer W token m path (Option.bind body id) net = (db, r)" by fastforce
  have net': "fst (do_request W token m path body out net) =
      \<lparr>nt_db = (if wi_delivery W (nt_k net) = NotDelivered then nt_db net else db), nt_k = Suc (nt_k net)\<rparr>"
    using False a by (cases net) (simp add: do_request_def Let_def)
  have "gw_wf (n + int (B * Suc (nt_k net))) (if wi_delivery W (nt_k net) = NotDelivered then nt_db net else db)"
    if "wire_ok W B" "0 \<le> n" "n + int (B * Suc (nt_k net)) < 2 ^ 63"
  proof -
    have "gw_wf (n + int (B * nt_k net)) (nt_db net)" using assms that by (simp add: db_ok_def)
    with gateway_answer_wf [OF that this, of token m path "Option.bind body id"] a gw_wf_mono [OF this]
    show ?thesis by simp
  qed
  then show ?thesis unfolding net' by (simp add: db_ok_def)
qed

lemma poll_loop_keeps: "db_ok W n B net \<Longrightarrow> db_ok W n B (fst (poll_loop W token i done_at now next_tick net))"
proof (induction W token i done_at now next_tick net rule: poll_loop.induct)
  case (1 W token i done_at now next_tick net)
  obtain net1 r where g: "get_lookup W token i net = (net1, r)" by fastforce
  with do_request_keeps [OF "1.prems"] have n1: "db_ok W n B net1" unfolding get_lookup_def by (metis fst_conv)
  show ?case
    using "1.prems" n1 g "1.IH" by (subst poll_loop.simps) (simp add: Let_def split: option.split)
qed

lemma PollLookup_keeps: "db_ok W n B net \<Longrightarrow> db_ok W n B (fst (PollLookup W token i done_at net))"
  by (simp add: PollLookup_def poll_loop_keeps)

interpretation bot_client: gateway_contract "client W token" "db_ok W n B" for W token n B
proof
  fix g i assume "db_ok W n B g"
  then show "db_ok W n B (fst (gw_PollLookup (client W token) i g))"
    using PollLookup_keeps [of W n B g token i lookupTimeout] by (auto simp: client_def split: prod.split)
qed (simp_all add: client_def StartLookup_c_def CreateSubscription_c_def ListSubscriptions_c_def
    PauseSubscription_c_def ResumeSubscription_c_def EditSubscription_c_def DeleteSubscription_c_def
    ForceCheck_c_def GetHistory_c_def patchAction_def do_plain_def do_request_keeps)

section \<open>Properties\<close>

text \<open>
  The bot and the gateway together: whatever users, Telegram, the network and the gateway's other
  clients do, in every run of the bot over the client the gateway's tables keep their invariant, with
  version numbers that grow by at most \<open>B\<close> with each of the bot's requests.
\<close>

theorem bot_keeps_database:
  assumes "bot_run (client W token) \<lparr>nt_db = db, nt_k = 0\<rparr> b" and "gw_wf n db" and "0 \<le> n"
    and "\<forall>k. (\<forall>j < 4. \<forall>x \<in> set (he_other (wi_henv W k) j). step_ok x) \<and> budget (wi_henv W k) \<le> B"
    and "n + int (B * nt_k (bo_gateway b)) < 2 ^ 63"
  shows "gw_wf (n + int (B * nt_k (bo_gateway b))) (nt_db (bo_gateway b))"
proof -
  have W: "wire_ok W B" using assms(4) by (simp add: wire_ok_def others_ok_def)
  have "db_ok W n B \<lparr>nt_db = db, nt_k = 0\<rparr>" using assms(2) by (simp add: db_ok_def)
  from bot_client.run_keeps [OF assms(1) this] W assms(3,5) show ?thesis by (simp add: db_ok_def)
qed

lemma postSubscription_no_price_error:
  assumes "\<not> bad_range (psr_MinPrice req) (psr_MaxPrice req)"
  shows "rs_body (snd (answer W net (PostSubscription (Some req)))) \<noteq> ErrorBody price_message"
  using assms
  by (auto simp: answer_Register postSubscription_def Let_def internal_error_def reply_def price_message_def
      split: sum.splits prod.splits)

lemma handleMessage_max:
  assumes "msg \<notin> {''/start'', ''/cancel'', ''/mylist'', txt_my_products}"
    and "se_Step (Get c (bo_sessions b)) = StepWaitingMaxPrice"
  shows "handleMessage E c msg b = handleMaxPrice E c (Get c (bo_sessions b)) msg b"
  using assms by (simp add: handleMessage_def Let_def)

text \<open>
  C8: The end of the dialogue about a new subscription, when the gateway serves nobody else in
  between. To a chat that gave a lowest price, a highest price not above it is asked for again, without
  a request; a pair of prices with an infinity or NaN sends no request either and leaves the chat where
  it is. Any other highest price sends exactly one request. Lost on its way, it changes nothing.
  If it arrives, the gateway does not reject it for its prices, and either accepts it, and then the chat
  has a running subscription with the two prices as the database stores them on the product of its
  lookup, or changes neither subscriptions nor events. The chat is idle again exactly when the request
  was accepted and the answer came in time; otherwise its dialogue is where it was, and it may try again.
\<close>

theorem subscription_dialogue:
  assumes "be_gateway E = client W (wi_token W)" and "\<forall>j. \<not> wi_too_large W j" and "int64 c"
    and "\<forall>k. he_other (wi_henv W (nt_k (bo_gateway b))) k = []"
    and "gw_wf n (nt_db (bo_gateway b))" and "0 \<le> n" and "n < 2 ^ 63 - 1"
    and "Get c (bo_sessions b) = s" and "se_Step s = StepWaitingMaxPrice" and "\<not> f_le (se_MinPrice s) f_zero"
    and "msg \<notin> {''/start'', ''/cancel'', ''/mylist'', txt_my_products}"
    and "parsePrice (be_floats E) msg = Some q"
  shows "let b' = handleMessage E c msg b; net = bo_gateway b; net' = bo_gateway b'; p = se_MinPrice s;
      req = \<lparr>psr_ChatID = c, psr_LookupID = se_LookupID s, psr_MinPrice = p, psr_MaxPrice = q\<rparr>;
      r = answer W net (PostSubscription (Some req))
    in if f_le q p \<or> \<not> f_finite p \<or> \<not> f_finite q then bo_sessions b' = bo_sessions b \<and> net' = net
       else nt_k net' = Suc (nt_k net) \<and>
         (if wi_delivery W (nt_k net) = NotDelivered then bo_sessions b' = bo_sessions b \<and> nt_db net' = nt_db net
          else nt_db net' = fst r \<and> rs_body (snd r) \<noteq> ErrorBody price_message \<and>
            (if rs_status (snd r) = 200
             then \<exists>sub pid. subscribed (wi_services W) req sub pid (nt_db net) (nt_db net')
             else subscriptions (nt_db net') = subscriptions (nt_db net) \<and>
               gateway_outbox (nt_db net') = gateway_outbox (nt_db net)) \<and>
            (if rs_status (snd r) = 200 \<and> on_time W net
             then Get c (bo_sessions b') = idle\<lparr>se_Page := se_Page s\<rparr> \<and> (\<forall>d. d \<noteq> c \<longrightarrow> Get d (bo_sessions b') = Get d (bo_sessions b))
             else bo_sessions b' = bo_sessions b))"
proof -
  define p where "p = se_MinPrice s"
  define req where "req = \<lparr>psr_ChatID = c, psr_LookupID = se_LookupID s, psr_MinPrice = p, psr_MaxPrice = q\<rparr>"
  define net where "net = bo_gateway b"
  define r where "r = answer W net (PostSubscription (Some req))"
  define b' where "b' = handleMessage E c msg b"
  note goal = Let_def p_def [symmetric] req_def [symmetric] net_def [symmetric] r_def [symmetric] b'_def [symmetric]
  have h: "b' = handleMaxPrice E c s msg b"
    using handleMessage_max [OF assms(11), of c b E] assms(8,9) by (simp add: b'_def)
  have limit: "within_limit W" using assms(2) by (simp add: within_limit_def)
  have gw: "gw_CreateSubscription (be_gateway E) = CreateSubscription_c W (wi_token W)" by (simp add: assms(1) client_def)
  obtain v where v: "gw_CreateSubscription (be_gateway E) \<lparr>cr_ChatID = c, cr_LookupID = se_LookupID s,
        cr_MinPrice = p, cr_MaxPrice = q\<rparr> net = (if f_finite p \<and> f_finite q then sent W net r v else (net, None))"
      "v = None \<longleftrightarrow> rs_status (snd r) \<noteq> 200"
    using CreateSubscription_sent [OF limit assms(3) req_def, of net] unfolding r_def gw by blast
  show ?thesis
  proof (cases "f_le q p \<or> \<not> f_finite p \<or> \<not> f_finite q")
    case True
    then have "bo_sessions b' = bo_sessions b \<and> bo_gateway b' = net"
      using v(1) assms(12) by (auto simp: h handleMaxPrice_def call_def p_def net_def split: prod.splits option.splits)
    with True show ?thesis unfolding goal by simp
  next
    case False
    define g where "g = (if wi_delivery W (nt_k net) = NotDelivered then after net (nt_db net) else after net (fst r))"
    define done_now where "done_now \<longleftrightarrow> wi_delivery W (nt_k net) \<noteq> NotDelivered \<and> on_time W net \<and> v \<noteq> None"
    have call: "gw_CreateSubscription (be_gateway E) \<lparr>cr_ChatID = c, cr_LookupID = se_LookupID s,
        cr_MinPrice = p, cr_MaxPrice = q\<rparr> net = (g, if done_now then v else None)"
      using v(1) False by (auto simp: sent_def g_def done_now_def)
    have gate: "bo_gateway b' = g"
      using call False assms(12) by (auto simp: h handleMaxPrice_def call_def p_def net_def split: option.splits)
    have sess: "bo_sessions b' = (if done_now then Set c (Some (idle\<lparr>se_Page := se_Page s\<rparr>)) (bo_sessions b) else bo_sessions b)"
      using call False assms(12) by (auto simp: h handleMaxPrice_def call_def p_def net_def done_now_def split: option.splits)
    have range: "\<not> bad_range p q"
      using False assms(10) by (cases p; cases q) (auto simp: bad_range_def p_def [symmetric] f_le_def)
    have price: "rs_body (snd r) \<noteq> ErrorBody price_message"
      unfolding r_def using range by (intro postSubscription_no_price_error) (simp add: req_def)
    have "alone (wi_henv W (nt_k net))" using assms(4) by (simp add: alone_def net_def)
    from postSubscription_effect [OF assms(5-7) this, of "wi_services W" req "fst r" "snd r"]
    have effect: "if rs_status (snd r) = 200 then \<exists>sub pid. subscribed (wi_services W) req sub pid (nt_db net) (fst r)
        else subscriptions (fst r) = subscriptions (nt_db net) \<and> gateway_outbox (fst r) = gateway_outbox (nt_db net)"
      by (auto simp: r_def answer_Register net_def split: if_splits)
    have late: "wi_delivery W (nt_k net) = NotDelivered \<Longrightarrow> \<not> done_now" by (simp add: done_now_def)
    show ?thesis
      using False price effect late v(2) unfolding goal gate sess
      by (auto simp: g_def after_def done_now_def Get_Set split: if_splits)
  qed
qed

section \<open>Witnesses\<close>

text \<open>A chat that gave the lowest price 100 for a product it looked up, and then sends 300.\<close>

definition demo_session :: Session where
  "demo_session = idle\<lparr>se_Step := StepWaitingMaxPrice, se_LookupID := ''l'', se_MinPrice := Fin 100\<rparr>"

definition demo_env :: "net benv" where
  "demo_env = \<lparr>be_gateway = client demo_wire ''tok'', be_api = (\<lambda>_. True), be_wait = (\<lambda>_. True), be_floats = demo_floats,
     be_local = (\<lambda>_. ''01.01 12:00''), be_quote = (\<lambda>c. [c])\<rparr>"

definition demo_chat :: "net bot" where
  "demo_chat = (new_bot demo_net)\<lparr>bo_sessions := [7 \<mapsto> demo_session]\<rparr>"

lemma demo_net_wf: "gw_wf 1 (nt_db demo_net)"
  using demo_done_wf by (simp add: demo_net_def)

lemma demo_price: "parsePrice demo_floats ''300'' = Some (Fin 300)"
proof -
  have a: "replace_all (replace_all ''300'' '' '' []) '','' ''.'' = ''300''" by code_simp
  have n: "digits_val ''300'' = 300" by code_simp
  have "ParseFloat demo_floats ''300'' = Some (Fin 300)"
    by (simp add: ParseFloat_def Let_def is_digit_def n)
  then show ?thesis by (simp add: parsePrice_def a)
qed

text \<open>
  \<open>strconv.ParseFloat\<close> reads the word NaN, and no comparison rejects it: the dialogue takes it for a
  price, and the client then cannot marshal the request.
\<close>

lemma nan_is_a_price:
  assumes "fl_other F ''NaN'' = Some NaN"
  shows "parsePrice F ''NaN'' = Some NaN"
proof -
  have a: "replace_all (replace_all ''NaN'' '' '' []) '','' ''.'' = ''NaN''" by code_simp
  have "ParseFloat F ''NaN'' = Some NaN" using assms by (simp add: ParseFloat_def Let_def is_digit_def)
  moreover have "\<not> f_le NaN f_zero" by (simp add: f_le_def)
  ultimately show ?thesis by (simp add: parsePrice_def a)
qed

text \<open>The request is accepted, the chat is idle again, and the subscription is there.\<close>

theorem subscription_dialogue_witness:
  "let b' = handleMessage demo_env 7 ''300'' demo_chat
   in nt_k (bo_gateway b') = 1 \<and> Get 7 (bo_sessions b') = idle \<and>
      (\<exists>sub pid. subscribed demo demo_req sub pid (nt_db demo_net) (nt_db (bo_gateway b')))"
proof -
  have price: "parsePrice (be_floats demo_env) ''300'' = Some (Fin 300)" using demo_price by (simp add: demo_env_def)
  have session: "Get 7 (bo_sessions demo_chat) = demo_session" by (simp add: demo_chat_def Get_def)
  have msg: "''300'' \<notin> {''/start'', ''/cancel'', ''/mylist'', txt_my_products}" by (subst my_products_start) simp
  obtain db' where db': "answer demo_wire demo_net (PostSubscription (Some demo_req))
      = (db', \<lparr>rs_status = 200, rs_body = CreatedBody ''s'' ''p''\<rparr>)"
    using demo_subscribes by (auto simp: answer_def demo_net_def)
  have net: "bo_gateway demo_chat = demo_net" by (simp add: demo_chat_def new_bot_def)
  have facts: "be_gateway demo_env = client demo_wire (wi_token demo_wire)" "\<forall>j. \<not> wi_too_large demo_wire j" "int64 7"
    "\<forall>k. he_other (wi_henv demo_wire (nt_k (bo_gateway demo_chat))) k = []" "gw_wf 1 (nt_db (bo_gateway demo_chat))"
    "se_Step demo_session = StepWaitingMaxPrice" "\<not> f_le (se_MinPrice demo_session) f_zero"
    by (simp_all add: demo_env_def demo_net_wf net int64_def demo_session_def f_le_def) (simp add: demo_wire_def)
  have req: "\<lparr>psr_ChatID = 7, psr_LookupID = se_LookupID demo_session, psr_MinPrice = se_MinPrice demo_session,
      psr_MaxPrice = Fin 300\<rparr> = demo_req" by (simp add: demo_session_def demo_req_def)
  have prices: "\<not> (f_le (Fin 300) (se_MinPrice demo_session) \<or> \<not> f_finite (se_MinPrice demo_session) \<or> \<not> f_finite (Fin 300))"
    by (simp add: demo_session_def f_le_def)
  have wire: "wi_delivery demo_wire k = Delivered" "on_time demo_wire demo_net" for k
    by (simp_all add: demo_wire_def on_time_def clientTimeout_def second_def)
  show ?thesis
    using subscription_dialogue [OF facts(1-5) _ _ session facts(6,7) msg price] prices wire
    unfolding Let_def req net db' by (auto simp: demo_session_def demo_net_def)
qed

end
