(* ===== verification/Buttons.thy ===== *)
theory Buttons
  imports Dialogue
begin

text \<open>
  The buttons of the product list, from the bot's \<open>handleCallback\<close> through its client and the wire to the
  gateway's handlers and tables: what a button does to the database, and that it only ever touches what
  belongs to the chat that pressed it.
\<close>

section \<open>A change of one's own subscription\<close>

text \<open>
  The operation on the chat's active subscription \<open>j\<close>, exactly this row changed, and the snapshot of its
  product announced.
\<close>

definition own_change :: "services \<Rightarrow> int \<Rightarrow> uuid \<Rightarrow> operation \<Rightarrow> gw_db \<Rightarrow> gw_db \<Rightarrow> bool" where
  "own_change S c j op db db' \<longleftrightarrow>
     (\<exists>u \<in> set (users db). us_chat_id u = c \<and>
       (\<exists>r \<in> set (subscriptions db). sb_id r = j \<and> sb_user_id r = us_id u \<and> sb_active r \<and>
          subscriptions db' = map (\<lambda>s. if sb_id s = j then op_effect S op s else s) (subscriptions db) \<and>
          (\<exists>p \<in> set (products db). pd_id p = sb_product_id r \<and> next_snapshot db db' p)))"

text \<open>Nothing stands in the way of it: no statement of the request fails, the row is there.\<close>

definition can_change :: "henv \<Rightarrow> int \<Rightarrow> uuid \<Rightarrow> gw_db \<Rightarrow> bool" where
  "can_change h c j db \<longleftrightarrow> c \<noteq> 0 \<and> (\<forall>k i. \<not> ge_flt (he_call h k) i) \<and> he_seen h 1 = Some \<and>
     (\<forall>x \<in> set (gateway_outbox db). ob_id x \<noteq> ge_uuid (he_call h 1) 1) \<and>
     (\<exists>u \<in> set (users db). us_chat_id u = c \<and>
       (\<exists>r \<in> set (subscriptions db). sb_id r = j \<and> sb_user_id r = us_id u \<and> sb_active r))"

text \<open>The request of a button.\<close>

fun op_request :: "operation \<Rightarrow> string \<Rightarrow> int \<Rightarrow> request" where
  "op_request OpPause i c = PatchSubscription i (Some \<lparr>pat_ChatID = c, pat_Action = ''pause'', pat_MinPrice = None, pat_MaxPrice = None\<rparr>)"
| "op_request OpResume i c = PatchSubscription i (Some \<lparr>pat_ChatID = c, pat_Action = ''resume'', pat_MinPrice = None, pat_MaxPrice = None\<rparr>)"
| "op_request (OpThresholds mn mx) i c =
     PatchSubscription i (Some \<lparr>pat_ChatID = c, pat_Action = ''edit'', pat_MinPrice = Some mn, pat_MaxPrice = Some mx\<rparr>)"
| "op_request OpDelete i c = DeleteSubscriptionById i (Some \<lparr>cb_ChatID = c\<rparr>)"

lemma older_Some: "older Some t = t"
  by (induction t) (simp_all add: older_def map_filter_simps)

lemma op_request_served:
  assumes "alone h" and op: "op \<in> {OpPause, OpResume, OpDelete}"
  shows "Register S h (op_request op i c) db = (if c = 0 then (db, reply 400 (ErrorBody
        (if op = OpDelete then ''chat_id is required'' else ''chat_id and action are required'')))
      else case userIDOr404 (he_call h 0) c db of Inl r \<Rightarrow> (db, r)
        | Inr u \<Rightarrow> finish (mutateSubscription S (he_call h 1) (older (he_seen h 1) (subscriptions db)) i u op db) (reply 204 NoBody))"
  using op by (auto simp: patchSubscription_def deleteSubscription_def Let_def alone_others [OF assms(1)] subscription_calls
      split: sum.splits)

lemma op_request_effect:
  assumes wf: "gw_wf n db" and n: "n < 2 ^ 63 - 1" and "alone h" and op: "op \<in> {OpPause, OpResume, OpDelete}"
  shows "fst (Register S h (op_request op i c) db) = db \<or>
    (\<exists>j. pg_uuid S i = Some j \<and> own_change S c j op db (fst (Register S h (op_request op i c) db)))"
    and "pg_uuid S i = Some j \<Longrightarrow> can_change h c j db \<Longrightarrow> own_change S c j op db (fst (Register S h (op_request op i c) db))"
proof -
  let ?R = "Register S h (op_request op i c) db"
  note served = op_request_served [OF assms(3) op, of S i c db]
  have user: "\<exists>x \<in> set (users db). us_id x = u \<and> us_chat_id x = c" if "userIDOr404 e c db = Inr u" for e u
    using that find_SomeD [of "\<lambda>u. us_chat_id u = c" "users db"]
    by (auto simp: userIDOr404_def UserIDByChatID_def split: if_splits option.splits sum.splits)
  have change: "db' = db \<or> (\<exists>j. pg_uuid S i = Some j \<and> own_change S c j op db db')"
    if u: "userIDOr404 (he_call h 0) c db = Inr u"
      and m: "mutateSubscription S (he_call h 1) (older (he_seen h 1) (subscriptions db)) i u op db = (db', res)" for u db' res
  proof (cases "pg_uuid S i")
    case None
    with m show ?thesis by (auto simp: mutateSubscription_def split: if_splits)
  next
    case (Some j)
    note effect = mutate_effect [OF wf n Some m]
    show ?thesis
    proof (cases res)
      case (Inl a)
      with effect show ?thesis by simp
    next
      case (Inr y)
      obtain r where r: "r \<in> set (subscriptions db)" "sb_id r = j" "sb_user_id r = u"
        "if op = OpDelete \<and> \<not> sb_active r then db' = db
         else sb_active r \<and> subscriptions db' = map (\<lambda>s. if sb_id s = j then op_effect S op s else s) (subscriptions db)
          \<and> (\<exists>p \<in> set (products db). pd_id p = sb_product_id r \<and> next_snapshot db db' p)"
        using effect unfolding Inr sum.case by blast
      obtain x where x: "x \<in> set (users db)" "us_id x = u" "us_chat_id x = c" using user [OF u] by blast
      show ?thesis
      proof (cases "op = OpDelete \<and> \<not> sb_active r")
        case True
        with r(4) show ?thesis by simp
      next
        case False
        with r(4) have "sb_active r" "subscriptions db' = map (\<lambda>s. if sb_id s = j then op_effect S op s else s) (subscriptions db)"
          "\<exists>p \<in> set (products db). pd_id p = sb_product_id r \<and> next_snapshot db db' p" by simp_all
        then have "own_change S c j op db db'" unfolding own_change_def using x r(1-3) by blast
        then show ?thesis using Some by blast
      qed
    qed
  qed
  show "fst ?R = db \<or> (\<exists>j. pg_uuid S i = Some j \<and> own_change S c j op db (fst ?R))"
    using change [OF _ prod.collapse [symmetric]] unfolding served by (auto simp: finish_fst split: sum.split)
  assume j: "pg_uuid S i = Some j" and can: "can_change h c j db"
  then obtain x r where x: "x \<in> set (users db)" "us_chat_id x = c" and r: "r \<in> set (subscriptions db)" "sb_id r = j"
      "sb_user_id r = us_id x" "sb_active r" by (auto simp: can_change_def)
  have ids: "distinct (map us_chat_id (users db))" "distinct (map sb_id (subscriptions db))"
    using gw_wfD(4) [OF wf] by (simp_all add: subs_wf_def)
  have f: "\<And>k i. \<not> ge_flt (he_call h k) i" using can by (simp add: can_change_def)
  have u: "userIDOr404 (he_call h 0) c db = Inr (us_id x)"
    using find_key [OF ids(1) x(1)] x(2) f by (simp add: userIDOr404_def UserIDByChatID_def)
  have seen: "find (is_sub j (us_id x)) (older (he_seen h 1) (subscriptions db)) = Some r"
  proof -
    obtain r' where r': "find (is_sub j (us_id x)) (subscriptions db) = Some r'"
      using r by (cases "find (is_sub j (us_id x)) (subscriptions db)") (auto simp: find_None_iff is_sub_def)
    then have "r' \<in> set (subscriptions db)" "sb_id r' = sb_id r" using find_SomeD [OF r'] r(2) by (auto simp: is_sub_def)
    from distinct_key_eq [OF ids(2) this(1) r(1) this(2)] r' can show ?thesis by (simp add: can_change_def older_Some)
  qed
  obtain db' res where m: "mutateSubscription S (he_call h 1) (older (he_seen h 1) (subscriptions db)) i (us_id x) op db = (db', res)"
    by fastforce
  have "snd (mutateSubscription S (he_call h 1) (older (he_seen h 1) (subscriptions db)) i (us_id x) op db) = Inr ()"
    by (rule mutate_succeeds [OF wf j f seen _ _ r(1-3)]) (use r op can in \<open>auto simp: can_change_def\<close>)
  then have res: "res = Inr ()" using m by simp
  have "own_change S c j op db db'"
  proof -
    from mutate_effect [OF wf n j m] res obtain r1 where r1: "r1 \<in> set (subscriptions db)" "sb_id r1 = j" "sb_user_id r1 = us_id x"
      "if op = OpDelete \<and> \<not> sb_active r1 then db' = db
         else sb_active r1 \<and> subscriptions db' = map (\<lambda>s. if sb_id s = j then op_effect S op s else s) (subscriptions db)
          \<and> (\<exists>p \<in> set (products db). pd_id p = sb_product_id r1 \<and> next_snapshot db db' p)" by auto
    have "r1 = r" using distinct_key_eq [OF ids(2) r1(1) r(1)] r1(2) r(2) by simp
    with r1 x r show ?thesis unfolding own_change_def by auto
  qed
  moreover have "fst ?R = db'" unfolding served using u m can by (simp add: can_change_def)
  ultimately show "own_change S c j op db (fst ?R)" by simp
qed

section \<open>The other requests of the buttons\<close>

lemma reads_nothing:
  assumes "alone (wi_henv W (nt_k net))"
  shows "fst (answer W net (ListSubscriptions q)) = nt_db net" and "fst (answer W net (GetHistory i q)) = nt_db net"
  by (auto simp: answer_Register listSubscriptions_def getHistory_def Let_def alone_others [OF assms]
      split: option.splits sum.splits)

lemma QueueForce_effect:
  assumes "QueueForce S e i u c db = (db', res)"
  shows "subscriptions db' = subscriptions db \<and> products db' = products db \<and> users db' = users db \<and>
    (\<forall>f \<in> set (force_requests db') - set (force_requests db).
       fr_chat_id f = c \<and> fr_user_id f = u \<and>
       (\<exists>r \<in> set (subscriptions db). pg_uuid S i = Some (sb_id r) \<and> sb_user_id r = u \<and> sb_active r \<and> sb_product_id r = fr_product_id f))"
proof (cases "db' = db")
  case False
  with assms obtain j r p ob where j: "pg_uuid S i = Some j"
    and r: "find (\<lambda>r. is_sub j u r \<and> sb_active r) (subscriptions db) = Some r"
    and p: "find (\<lambda>p. pd_id p = sb_product_id r) (products db) = Some p"
    and db': "db' = db\<lparr>force_requests := force_requests db @ [\<lparr>fr_task_id = ge_uuid e 0, fr_product_id = pd_id p,
      fr_user_id = u, fr_chat_id = c\<rparr>], gateway_outbox := ob\<rparr>"
    by (auto simp: QueueForce_def Let_def split: if_splits option.splits)
  have "r \<in> set (subscriptions db)" "sb_id r = j" "sb_user_id r = u" "sb_active r" "pd_id p = sb_product_id r"
    using find_SomeD [OF r] find_SomeD [OF p] by (auto simp: is_sub_def)
  then show ?thesis unfolding db' using j by auto
qed simp

text \<open>The force requests that a check adds are for this chat and one of its active subscriptions.\<close>

definition own_check :: "services \<Rightarrow> int \<Rightarrow> string \<Rightarrow> gw_db \<Rightarrow> gw_db \<Rightarrow> bool" where
  "own_check S c i db db' \<longleftrightarrow> subscriptions db' = subscriptions db \<and> products db' = products db \<and>
     (\<forall>f \<in> set (force_requests db') - set (force_requests db).
        fr_chat_id f = c \<and> (\<exists>u \<in> set (users db). us_chat_id u = c \<and> fr_user_id f = us_id u \<and>
          (\<exists>r \<in> set (subscriptions db). pg_uuid S i = Some (sb_id r) \<and> sb_user_id r = us_id u \<and> sb_active r \<and>
             sb_product_id r = fr_product_id f)))"

lemma check_effect:
  assumes "alone (wi_henv W (nt_k net))"
  shows "own_check (wi_services W) c i (nt_db net) (fst (answer W net (PostCheck i (Some \<lparr>cb_ChatID = c\<rparr>))))"
proof -
  let ?S = "wi_services W" and ?h = "wi_henv W (nt_k net)" and ?db = "nt_db net"
  have ans: "fst (answer W net (PostCheck i (Some \<lparr>cb_ChatID = c\<rparr>))) = (if c = 0 then ?db
      else case userIDOr404 (he_call ?h 0) c ?db of Inl r \<Rightarrow> ?db | Inr u \<Rightarrow> fst (QueueForce ?S (he_call ?h 1) i u c ?db))"
    by (auto simp: answer_Register postCheck_def Let_def alone_others [OF assms] split: sum.splits)
  show ?thesis
  proof (cases "c = 0 \<or> (\<exists>r. userIDOr404 (he_call ?h 0) c ?db = Inl r)")
    case True
    then show ?thesis unfolding ans by (auto simp: own_check_def)
  next
    case False
    then obtain u where u: "userIDOr404 (he_call ?h 0) c ?db = Inr u" by (cases "userIDOr404 (he_call ?h 0) c ?db") auto
    then obtain x where x: "x \<in> set (users ?db)" "us_id x = u" "us_chat_id x = c"
      using find_SomeD [of "\<lambda>u. us_chat_id u = c" "users ?db"]
      by (auto simp: userIDOr404_def UserIDByChatID_def split: if_splits option.splits sum.splits)
    obtain db' res where q: "QueueForce ?S (he_call ?h 1) i u c ?db = (db', res)" by fastforce
    from QueueForce_effect [OF q] x show ?thesis
      unfolding ans own_check_def using False u q by auto
  qed
qed

section \<open>The buttons\<close>

text \<open>
  What one of the buttons pause, resume and delete did: nothing, or the change; and certainly the change
  when its request arrives and nothing stands in the way.
\<close>

definition button_effect :: "wire \<Rightarrow> net \<Rightarrow> int \<Rightarrow> string \<Rightarrow> operation \<Rightarrow> gw_db \<Rightarrow> bool" where
  "button_effect W net c i op db' \<longleftrightarrow>
     (db' = nt_db net \<or> (\<exists>j. pg_uuid (wi_services W) i = Some j \<and> own_change (wi_services W) c j op (nt_db net) db')) \<and>
     (\<forall>j. wi_delivery W (nt_k net) \<noteq> NotDelivered \<and> pg_uuid (wi_services W) i = Some j \<and>
        can_change (wi_henv W (nt_k net)) c j (nt_db net) \<longrightarrow> own_change (wi_services W) c j op (nt_db net) db')"

lemma op_sent:
  assumes "within_limit W" and "int64 c" and "plain i"
  shows "\<exists>v. PauseSubscription_c W (wi_token W) c i net = sent W net (answer W net (op_request OpPause i c)) v"
    and "\<exists>v. ResumeSubscription_c W (wi_token W) c i net = sent W net (answer W net (op_request OpResume i c)) v"
    and "\<exists>v. DeleteSubscription_c W (wi_token W) c i net = sent W net (answer W net (op_request OpDelete i c)) v"
    and "\<exists>v. ForceCheck_c W (wi_token W) c i net = sent W net (answer W net (PostCheck i (Some \<lparr>cb_ChatID = c\<rparr>))) v"
  using patch_sent [OF assms] delete_sent [OF assms] by (auto simp: Let_def)

lemma sent_net: "fst (sent W net r v) = after net (if wi_delivery W (nt_k net) = NotDelivered then nt_db net else fst r)"
  by (simp add: sent_def)

lemma after_simps [simp]: "nt_db (after net db) = db" "nt_k (after net db) = Suc (nt_k net)"
  by (simp_all add: after_def)

lemma sent_effect:
  assumes "alone (wi_henv W (nt_k net))" and "gw_wf n (nt_db net)" "n < 2 ^ 63 - 1" and "op \<in> {OpPause, OpResume, OpDelete}"
  shows "button_effect W net c i op (nt_db (fst (sent W net (answer W net (op_request op i c)) v)))"
  using op_request_effect [OF assms(2,3,1,4)] unfolding button_effect_def sent_net by (auto simp: answer_Register)

lemma list_call:
  assumes "be_gateway E = client W (wi_token W)" and "within_limit W" and "alone (wi_henv W (nt_k net))"
  shows "\<exists>v. gw_ListSubscriptions (be_gateway E) c net = (after net (nt_db net), v)"
    and "plain i \<Longrightarrow> \<exists>v. gw_GetHistory (be_gateway E) c i net = (after net (nt_db net), v)"
proof -
  have read: "\<exists>w. sent W net (answer W net (ListSubscriptions q)) v = (after net (nt_db net), w)"
    "\<exists>w. sent W net (answer W net (GetHistory i q)) v' = (after net (nt_db net), w)" for q v v'
    by (simp_all add: sent_def reads_nothing [OF assms(3)])
  show "\<exists>v. gw_ListSubscriptions (be_gateway E) c net = (after net (nt_db net), v)"
    using reads_sent(1) [OF assms(2), of c net] read(1) by (auto simp: assms(1) client_def)
  show "\<exists>v. gw_GetHistory (be_gateway E) c i net = (after net (nt_db net), v)" if "plain i"
    using reads_sent(2) [OF assms(2) that, of c net] read(2) by (auto simp: assms(1) client_def)
qed

lemma Get_Update_other: "d \<noteq> c \<Longrightarrow> Get d (Update c f s) = Get d s"
  by (auto simp: Get_def Update_def Let_def)

text \<open>What the rest of a handler leaves: the tables and the sessions of other chats; at most \<open>k\<close> requests.\<close>

definition only_reads :: "nat \<Rightarrow> int \<Rightarrow> net bot \<Rightarrow> net bot \<Rightarrow> bool" where
  "only_reads k c b b' \<longleftrightarrow> nt_db (bo_gateway b') = nt_db (bo_gateway b) \<and> nt_k (bo_gateway b') \<le> nt_k (bo_gateway b) + k \<and>
     (\<forall>d. d \<noteq> c \<longrightarrow> Get d (bo_sessions b') = Get d (bo_sessions b))"

lemma refresh_reads:
  assumes "be_gateway E = client W (wi_token W)" and "within_limit W" and "alone (wi_henv W (nt_k (bo_gateway b)))"
  shows "only_reads 1 c b (refreshMyList E c m b)"
proof -
  obtain v where "gw_ListSubscriptions (be_gateway E) c (bo_gateway b) = (after (bo_gateway b) (nt_db (bo_gateway b)), v)"
    using list_call(1) [OF assms] by blast
  then show ?thesis
    by (auto simp: refreshMyList_def call_def only_reads_def Get_Update_other sessions_do_def split: option.splits prod.splits)
qed

lemma find_reads:
  assumes "be_gateway E = client W (wi_token W)" and "within_limit W" and "alone (wi_henv W (nt_k (bo_gateway b)))"
    and "findSubscription E c i b = (b', r)"
  shows "bo_gateway b' = after (bo_gateway b) (nt_db (bo_gateway b)) \<and> bo_sessions b' = bo_sessions b"
proof -
  obtain v where "gw_ListSubscriptions (be_gateway E) c (bo_gateway b) = (after (bo_gateway b) (nt_db (bo_gateway b)), v)"
    using list_call(1) [OF assms(1-3)] by blast
  then show ?thesis using assms(4) by (auto simp: findSubscription_def call_def split: option.splits)
qed

lemma startEdit_reads:
  assumes "be_gateway E = client W (wi_token W)" and "within_limit W" and "alone (wi_henv W (nt_k (bo_gateway b)))"
  shows "only_reads 1 c b (startEditSubscription E c i b)"
proof -
  obtain b1 r where f: "findSubscription E c i b = (b1, r)" by fastforce
  from find_reads [OF assms f] f show ?thesis
    by (auto simp: startEditSubscription_def only_reads_def Let_def Get_Set split: option.splits)
qed

lemma history_reads:
  assumes "be_gateway E = client W (wi_token W)" and "within_limit W" and "alone (wi_henv W (nt_k (bo_gateway b)))"
    and "alone (wi_henv W (Suc (nt_k (bo_gateway b))))" and "plain i"
  shows "only_reads 2 c b (handleHistory E c i b)"
proof -
  obtain b1 r where f: "findSubscription E c i b = (b1, r)" by fastforce
  note b1 = find_reads [OF assms(1-3) f]
  have "alone (wi_henv W (nt_k (bo_gateway b1)))" using b1 assms(4) by simp
  then obtain v where "gw_GetHistory (be_gateway E) c i (bo_gateway b1) = (after (bo_gateway b1) (nt_db (bo_gateway b1)), v)"
    using list_call(2) [OF assms(1,2) _ assms(5)] by blast
  with b1 f show ?thesis
    by (auto simp: handleHistory_def only_reads_def call_def split: option.splits)
qed

lemma action_effect:
  assumes "be_gateway E = client W (wi_token W)" and "within_limit W" and "alone (wi_henv W (nt_k (bo_gateway b)))"
    and "alone (wi_henv W (Suc (nt_k (bo_gateway b))))" and "gw_wf n (nt_db (bo_gateway b))" "n < 2 ^ 63 - 1"
    and op: "op \<in> {OpPause, OpResume, OpDelete}"
    and f: "f (bo_gateway b) = sent W (bo_gateway b) (answer W (bo_gateway b) (op_request op i c)) v"
    and b': "b' = (case call f b of (b, None) \<Rightarrow> send E c t b | (b, Some _) \<Rightarrow> refreshMyList E c m b)"
  shows "button_effect W (bo_gateway b) c i op (nt_db (bo_gateway b')) \<and> nt_k (bo_gateway b') \<le> nt_k (bo_gateway b) + 2 \<and>
    (\<forall>d. d \<noteq> c \<longrightarrow> Get d (bo_sessions b') = Get d (bo_sessions b))"
proof -
  let ?net = "bo_gateway b"
  obtain g w where g: "sent W ?net (answer W ?net (op_request op i c)) v = (g, w)" by fastforce
  define b1 where "b1 = b\<lparr>bo_gateway := g\<rparr>"
  have k: "nt_k g = Suc (nt_k ?net)" using g sent_net [of W ?net "answer W ?net (op_request op i c)" v] by simp
  have "button_effect W ?net c i op (nt_db g)" using sent_effect [OF assms(3,5-7), of c i v] g by simp
  moreover have "b' = send E c t b1 \<or> b' = refreshMyList E c m b1"
    using b' f g by (auto simp: call_def b1_def split: option.splits)
  moreover have "only_reads 1 c b1 (refreshMyList E c m b1)"
    by (rule refresh_reads [OF assms(1,2)]) (simp add: b1_def k assms(4))
  ultimately show ?thesis using k by (auto simp: only_reads_def b1_def)
qed

lemma only_reads_mono: "only_reads k c b b' \<Longrightarrow> k \<le> k' \<Longrightarrow> only_reads k' c b b'"
  by (simp add: only_reads_def)

lemma only_reads_api: "only_reads k c (api_log E t b) b' \<Longrightarrow> only_reads k c b b'"
  by (simp add: only_reads_def)

text \<open>
  C7: What a button of the product list does to the database, through the bot, its client, the wire and
  the gateway's handlers, when the gateway serves nobody else in between, whatever is lost on the wire and
  fails in the store. Pause, resume and delete change at most the chat's own active subscription with
  the button's id, exactly that row as the operation says, and announce it; they do it for certain when
  the request arrives and nothing stands in the way. A check leaves subscriptions and products as they are and
  asks at most for a check of the product of the chat's own active subscription, for this chat. The
  other buttons change nothing. No button sends more than two requests or touches another chat's
  session.
\<close>

theorem buttons_act_on_own:
  assumes "be_gateway E = client W (wi_token W)" and "\<forall>j. \<not> wi_too_large W j" and "int64 c"
    and "\<forall>k. he_other (wi_henv W (nt_k (bo_gateway b))) k = [] \<and> he_other (wi_henv W (Suc (nt_k (bo_gateway b)))) k = []"
    and "gw_wf n (nt_db (bo_gateway b))" "n < 2 ^ 63 - 1"
    and "\<forall>i. callback_of data \<in> {PauseSub i, ResumeSub i, DeleteSub i, HistorySub i, CheckSub i} \<longrightarrow> plain i"
  shows "let b' = handleCallback E cb (Some (c, m)) data b; net = bo_gateway b; db' = nt_db (bo_gateway b')
    in nt_k (bo_gateway b') \<le> nt_k net + 2 \<and> (\<forall>d. d \<noteq> c \<longrightarrow> Get d (bo_sessions b') = Get d (bo_sessions b)) \<and>
      (case callback_of data of
         PauseSub i \<Rightarrow> button_effect W net c i OpPause db'
       | ResumeSub i \<Rightarrow> button_effect W net c i OpResume db'
       | DeleteSub i \<Rightarrow> button_effect W net c i OpDelete db'
       | CheckSub i \<Rightarrow> own_check (wi_services W) c i (nt_db net) db'
       | _ \<Rightarrow> db' = nt_db net)"
proof -
  have limit: "within_limit W" using assms(2) by (simp add: within_limit_def)
  have alone: "alone (wi_henv W (nt_k (bo_gateway b)))" "alone (wi_henv W (Suc (nt_k (bo_gateway b))))"
    using assms(4) by (simp_all add: alone_def)
  define b0 where "b0 = api_log E (AnswerCallback cb) b"
  have same: "bo_gateway b0 = bo_gateway b" "bo_sessions b0 = bo_sessions b" by (simp_all add: b0_def)
  note alone0 = alone [folded same(1)] and wf0 = assms(5,6) [folded same(1)]
  have op: "\<exists>v. gw_PauseSubscription (be_gateway E) c i net = sent W net (answer W net (op_request OpPause i c)) v"
    "\<exists>v. gw_ResumeSubscription (be_gateway E) c i net = sent W net (answer W net (op_request OpResume i c)) v"
    "\<exists>v. gw_DeleteSubscription (be_gateway E) c i net = sent W net (answer W net (op_request OpDelete i c)) v"
    "\<exists>v. gw_ForceCheck (be_gateway E) c i net = sent W net (answer W net (PostCheck i (Some \<lparr>cb_ChatID = c\<rparr>))) v"
    if "plain i" for i net
    using op_sent [OF limit assms(3) that, of net] by (simp_all add: assms(1) client_def)
  note effect = action_effect [OF assms(1) limit alone0 wf0]
  have h: "handleCallback E cb (Some (c, m)) data b = (case callback_of data of
      ShowPage page \<Rightarrow> refreshMyList E c m (sessions_do (Update c (\<lambda>s. s\<lparr>se_Page := page\<rparr>)) b0)
    | EditSub i \<Rightarrow> startEditSubscription E c i (api_log E (DeleteMessage c m) b0)
    | PauseSub i \<Rightarrow> pauseSubscription E c m i b0 | ResumeSub i \<Rightarrow> resumeSubscription E c m i b0
    | DeleteSub i \<Rightarrow> deleteSubscription_b E c m i b0 | HistorySub i \<Rightarrow> handleHistory E c i b0
    | CheckSub i \<Rightarrow> handleForceCheck E c i b0 | NoAction \<Rightarrow> b0)"
    unfolding handleCallback_def b0_def Let_def option.case prod.case ..
  show ?thesis
  proof (cases "callback_of data")
    case (ShowPage page)
    let ?b = "sessions_do (Update c (\<lambda>s. s\<lparr>se_Page := page\<rparr>)) b0"
    have "only_reads 1 c ?b (refreshMyList E c m ?b)"
      by (rule refresh_reads [OF assms(1) limit]) (simp add: same sessions_do_def alone)
    then show ?thesis unfolding h ShowPage Let_def
      by (auto simp: only_reads_def same sessions_do_def Get_Update_other)
  next
    case (EditSub i)
    let ?b = "api_log E (DeleteMessage c m) b0"
    have "only_reads 1 c ?b (startEditSubscription E c i ?b)"
      by (rule startEdit_reads [OF assms(1) limit]) (simp add: same alone)
    then show ?thesis unfolding h EditSub Let_def by (auto simp: only_reads_def same)
  next
    case (PauseSub i)
    then obtain v where v: "gw_PauseSubscription (be_gateway E) c i (bo_gateway b0)
        = sent W (bo_gateway b0) (answer W (bo_gateway b0) (op_request OpPause i c)) v" using op(1) assms(7) by blast
    from effect [OF _ v pauseSubscription_def [of E c m i b0]] show ?thesis
      unfolding h PauseSub Let_def by (simp add: same)
  next
    case (ResumeSub i)
    then obtain v where v: "gw_ResumeSubscription (be_gateway E) c i (bo_gateway b0)
        = sent W (bo_gateway b0) (answer W (bo_gateway b0) (op_request OpResume i c)) v" using op(2) assms(7) by blast
    from effect [OF _ v resumeSubscription_def [of E c m i b0]] show ?thesis
      unfolding h ResumeSub Let_def by (simp add: same)
  next
    case (DeleteSub i)
    then obtain v where v: "gw_DeleteSubscription (be_gateway E) c i (bo_gateway b0)
        = sent W (bo_gateway b0) (answer W (bo_gateway b0) (op_request OpDelete i c)) v" using op(3) assms(7) by blast
    from effect [OF _ v deleteSubscription_b_def [of E c m i b0]] show ?thesis
      unfolding h DeleteSub Let_def by (simp add: same)
  next
    case (HistorySub i)
    then have "only_reads 2 c b0 (handleHistory E c i b0)"
      using history_reads [OF assms(1) limit alone0] assms(7) by blast
    then show ?thesis unfolding h HistorySub Let_def by (auto simp: only_reads_def same)
  next
    case (CheckSub i)
    then obtain v where v: "gw_ForceCheck (be_gateway E) c i (bo_gateway b0)
        = sent W (bo_gateway b0) (answer W (bo_gateway b0) (PostCheck i (Some \<lparr>cb_ChatID = c\<rparr>))) v" using op(4) assms(7) by blast
    have g: "bo_gateway (handleForceCheck E c i b0) = fst (sent W (bo_gateway b0) (answer W (bo_gateway b0) (PostCheck i (Some \<lparr>cb_ChatID = c\<rparr>))) v)"
      "bo_sessions (handleForceCheck E c i b0) = bo_sessions b"
      using v by (auto simp: handleForceCheck_def call_def same split: prod.splits option.splits)
    have "own_check S c i db db" for S db by (simp add: own_check_def)
    with check_effect [OF alone(1), of c i] show ?thesis
      unfolding h CheckSub Let_def by (simp add: g sent_net same)
  next
    case NoAction
    then show ?thesis unfolding h Let_def by (simp add: same)
  qed
qed

text \<open>The owner of the demo subscription presses its pause button.\<close>

theorem buttons_act_on_own_witness:
  "let b' = handleCallback demo_env ''q'' (Some (7, 1)) ''pause_sub:s'' demo_chat; db' = nt_db (bo_gateway b')
   in subscriptions db' = [demo_sub\<lparr>sb_paused := True\<rparr>] \<and> length (gateway_outbox db') = 2 \<and> nt_k (bo_gateway b') \<le> 2"
proof -
  have net: "bo_gateway demo_chat = demo_net" by (simp add: demo_chat_def new_bot_def)
  have data: "callback_of ''pause_sub:s'' = PauseSub ''s''"
    by (simp add: callback_of_def has_prefix_def trim_prefix_def)
  have wire: "wi_delivery demo_wire k = Delivered" "\<not> wi_too_large demo_wire j" for k j by (simp_all add: demo_wire_def)
  have "plain ''s''" by code_simp
  then have plain: "\<forall>i. callback_of ''pause_sub:s'' \<in> {PauseSub i, ResumeSub i, DeleteSub i, HistorySub i, CheckSub i} \<longrightarrow> plain i"
    unfolding data by simp
  have "can_change demo_henv 7 ''s'' (nt_db demo_net)"
    by (auto simp: can_change_def demo_net_def demo_gw_def demo_sub_def demo_event_def demo_genv_def demo_henv_def)
  moreover have "button_effect demo_wire demo_net 7 ''s'' OpPause
      (nt_db (bo_gateway (handleCallback demo_env ''q'' (Some (7, 1)) ''pause_sub:s'' demo_chat)))"
    and le: "nt_k (bo_gateway (handleCallback demo_env ''q'' (Some (7, 1)) ''pause_sub:s'' demo_chat)) \<le> 2"
    using buttons_act_on_own [of demo_env demo_wire 7 demo_chat 1 "''pause_sub:s''" "''q''" 1, OF _ _ _ _ _ _ plain] wire demo_net_wf
    unfolding Let_def data net by (simp_all add: demo_env_def int64_def) (simp add: demo_net_def)
  ultimately have "own_change demo 7 ''s'' OpPause (nt_db demo_net)
      (nt_db (bo_gateway (handleCallback demo_env ''q'' (Some (7, 1)) ''pause_sub:s'' demo_chat)))"
    by (simp add: button_effect_def wire demo_uuid_def)
  then show ?thesis using le
    by (auto simp: own_change_def next_snapshot_def Let_def demo_net_def demo_gw_def demo_sub_def op_effect_def)
qed

end
