(* ===== verification/EndToEnd.thy ===== *)
theory EndToEnd
  imports SchedulerLaws GatewayProps
begin

text \<open>
  The two services together: what the gateway's subscriptions say is what the scheduler ends
  up doing. The gateway's outbox keeps its events for ever, so every track request that was
  ever published is a row of it; the broker may repeat and reorder them at will.
\<close>

lemma outbox_snapshots_upto:
  assumes wf: "gw_wf n gdb" and p: "p \<in> set (products gdb)"
    and r: "r \<in> set (gateway_outbox gdb)" "announces gdb p r m"
    and uuids: "\<forall>q \<in> set (products gdb). uuid_parse S (pd_id q) = Some (pd_id q)"
    and r': "r' \<in> set (gateway_outbox gdb)" "ob_payload r' = JTrack m'" and same: "same_product S (pd_id p) m m'"
  shows "tr_URL m' = tr_URL m" and "uuid_parse S (tr_ProductID m') = Some (pd_id p)" and "not_newer m (snap_state m')"
proof -
  note d = gw_wfD(1) [OF wf]
  have rows: "rows_ok (products gdb) (gateway_outbox gdb)" and ids: "distinct (map pd_id (products gdb))"
    and urls: "distinct (map pd_url (products gdb))"
    using d by (auto simp: mon_wf_def)
  have act: "tr_Action m' = ''set_state''" using same by (simp add: same_product_def)
  from snapshot_key [OF rows r' act] obtain q where q: "q \<in> set (products gdb)" "pd_id q = tr_ProductID m'"
    "pd_url q = tr_URL m'" by (auto simp: snap_ok_def)
  have m: "tr_URL m = pd_url p" "tr_ProductID m = pd_id p" using r(2) by (auto simp: announces_def)
  have uq: "uuid_parse S (tr_ProductID m') = Some (pd_id q)" using uuids q(1) unfolding q(2) [symmetric] by blast
  have "q = p"
  proof (cases "tr_URL m' = tr_URL m")
    case True
    then show ?thesis using distinct_key_eq [OF urls q(1) p] q(3) m(1) by simp
  next
    case False
    then have "pd_id q = pd_id p" using same uq by (simp add: same_product_def)
    then show ?thesis by (rule distinct_key_eq [OF ids q(1) p])
  qed
  then show "tr_URL m' = tr_URL m" "uuid_parse S (tr_ProductID m') = Some (pd_id p)" using q(3) m(1) uq by simp_all
  show "not_newer m (snap_state m')"
  proof (cases "r' = r")
    case True
    then have "m' = m" using r(2) r'(2) by (simp add: announces_def)
    then show ?thesis by (simp add: not_newer_def snap_state_def)
  next
    case False
    have "tr_Version m' < tr_Version m"
      using others_older [OF wf p r r' act _ False] q(2) \<open>q = p\<close> by simp
    then show ?thesis by (simp add: not_newer_def snap_state_def)
  qed
qed

text \<open>
  C2: end to end: let the gateway have announced a product, and let the scheduler have
  received any of the gateway's track requests in any order, repeated and failing at will, but
  the newest snapshot once without a fault. Then the scheduler monitors the product's URL in
  the newest version, and its schedule is on exactly when some subscription of the product is
  active and not paused.
\<close>

theorem scheduler_follows_gateway:
  assumes wf: "gw_wf n gdb" and p: "p \<in> set (products gdb)"
    and r: "r \<in> set (gateway_outbox gdb)" "announces gdb p r m"
    and uuids: "\<forall>q \<in> set (products gdb). uuid_parse S (pd_id q) = Some (pd_id q)"
      "uuid_parse S (tr_TaskID m) \<noteq> None"
    and sent: "\<forall>e m'. Deliver e m' \<in> set (xs @ ys) \<longrightarrow> (\<exists>r' \<in> set (gateway_outbox gdb). ob_payload r' = JTrack m')"
    and ok: "\<forall>k. \<not> se_flt e k"
    and fresh: "se_uuid e 0 \<notin> su_id ` set (scheduled_urls (sched_run S xs empty_sched))"
  shows "\<exists>row. find (\<lambda>x. su_url x = pd_url p) (scheduled_urls (sched_run S (xs @ Deliver e m # ys) empty_sched)) = Some row
    \<and> su_product_id row = pd_id p \<and> su_monitor_version row = pd_monitor_version p \<and> su_platform row = ''wb''
    \<and> su_check_interval_hours row = 1
    \<and> su_active row = (\<exists>s \<in> set (subscriptions gdb). sb_product_id s = pd_id p \<and> sb_active s \<and> \<not> sb_paused s)"
proof -
  have a: "tr_Action m = ''set_state''" "tr_ProductID m = pd_id p" "tr_Version m = pd_monitor_version p"
    "tr_URL m = pd_url p" "tr_Platform m = ''wb''" "canonical (tr_URL m)" "tr_IntervalHours m = 1"
    "tr_Active m = monitored (pd_id p) (subscriptions gdb)" "ob_payload r = JTrack m"
    using r(2) by (auto simp: announces_def)
  have "rows_ok (products gdb) (gateway_outbox gdb)" using gw_wfD(1) [OF wf] by (simp add: mon_wf_def)
  from snapshot_key [OF this r(1) a(9,1)] have "0 < tr_Version m" by (simp add: snap_ok_def)
  then have v: "valid_snapshot S (pd_id p) m"
    using a uuids p by (simp add: valid_snapshot_def validWBIdentity_iff)
  have up: "product_upto (pd_id p) m empty_sched" by (simp add: product_upto_def empty_sched_def)
  have others: "\<forall>e m'. Deliver e m' \<in> set (xs @ ys) \<and> same_product S (pd_id p) m m' \<longrightarrow>
      tr_URL m' = tr_URL m \<and> uuid_parse S (tr_ProductID m') = Some (pd_id p) \<and> not_newer m (snap_state m')"
    using outbox_snapshots_upto [OF wf p r uuids(1)] sent by blast
  from product_upto_converges [OF v up others ok fresh]
  obtain row where "find (\<lambda>x. su_url x = tr_URL m) (scheduled_urls (sched_run S (xs @ Deliver e m # ys) empty_sched)) = Some row"
    "su_product_id row = pd_id p" "row_state row = snap_state m" by blast
  then show ?thesis
    using a by (auto simp: row_state_def snap_state_def monitored_def exists_where_iff)
qed

theorem scheduler_follows_gateway_witness:
  "\<exists>row. find (\<lambda>x. su_url x = canonical_url ''42'') (scheduled_urls (sched_run demo
      [Deliver (demo_senv 5 ''a'') (case ob_payload demo_event of JTrack m \<Rightarrow> m)] empty_sched)) = Some row \<and> su_active row"
proof -
  obtain m where m: "ob_payload demo_event = JTrack m" by (simp add: demo_event_def new_outbox_row_def)
  have "announces demo_gw demo_product demo_event m"
    using m by (auto simp: announces_def demo_event_def new_outbox_row_def demo_product_def canonical_42 demo_gw_def
        demo_sub_def monitored_def exists_where_def)
  moreover have "uuid_parse demo (tr_TaskID m) \<noteq> None"
    using m by (auto simp: demo_event_def new_outbox_row_def demo_uuid_def)
  ultimately have "\<exists>row. find (\<lambda>x. su_url x = pd_url demo_product) (scheduled_urls (sched_run demo
      ([] @ Deliver (demo_senv 5 ''a'') m # []) empty_sched)) = Some row
    \<and> su_product_id row = pd_id demo_product \<and> su_monitor_version row = pd_monitor_version demo_product \<and> su_platform row = ''wb''
    \<and> su_check_interval_hours row = 1
    \<and> su_active row = (\<exists>s \<in> set (subscriptions demo_gw). sb_product_id s = pd_id demo_product \<and> sb_active s \<and> \<not> sb_paused s)"
    by (intro scheduler_follows_gateway [OF demo_gw_wf, where r = demo_event])
      (simp_all add: demo_gw_def demo_product_def demo_uuid_def demo_senv_def sched_run_def empty_sched_def)
  then show ?thesis by (auto simp: m demo_product_def demo_gw_def demo_sub_def)
qed

end
