(* ===== verification/MyListLaws.thy ===== *)
theory MyListLaws
  imports MyList
begin

text \<open>
  The proofs on the product list: the size of a truncated text and of an entry, the loop that
  fills the pages, and the reading of the callback data.
\<close>

section \<open>The texts\<close>

lemma txt_header1_runes:
  "decode (bytes txt_header1 @ bs) = [128203, 32, 1058, 1074, 1086, 1080, 32, 1090, 1086, 1074, 1072, 
       1088, 1099, 32, 40] @ decode bs"
  by (simp add: txt_header1_def decode_eval)

lemma txt_header2_runes:
  "decode (bytes txt_header2 @ bs) = [41, 32, 8212, 32, 1089, 1090, 1088, 1072, 1085, 1080, 1094, 1072, 32] @ decode bs"
  by (simp add: txt_header2_def decode_eval)

lemma txt_paused_runes:
  "decode (bytes txt_paused @ bs) = [32, 9208] @ decode bs"
  by (simp add: txt_paused_def decode_eval)

lemma txt_dash_runes:
  "decode (bytes txt_dash @ bs) = [32, 8212, 32] @ decode bs"
  by (simp add: txt_dash_def decode_eval)

lemma txt_rouble_runes:
  "decode (bytes txt_rouble @ bs) = [32, 8381, 10] @ decode bs"
  by (simp add: txt_rouble_def decode_eval)

lemma txt_bullet_runes:
  "decode (bytes txt_bullet @ bs) = [32, 32, 32, 8226, 32] @ decode bs"
  by (simp add: txt_bullet_def decode_eval)

lemma txt_ellipsis_runes:
  "decode (bytes txt_ellipsis @ bs) = [8230] @ decode bs"
  by (simp add: txt_ellipsis_def decode_eval)

lemma literals [simp]:
  "complete txt_header1" "utf16Units txt_header1 = 16"
  "complete txt_header2" "utf16Units txt_header2 = 13"
  "complete txt_paused" "utf16Units txt_paused = 2"
  "complete txt_dash" "utf16Units txt_dash = 3"
  "complete txt_rouble" "utf16Units txt_rouble = 3"
  "complete txt_bullet" "utf16Units txt_bullet = 5"
  "complete txt_ellipsis" "utf16Units txt_ellipsis = 1"
  using literalI [OF txt_header1_runes] literalI [OF txt_header2_runes] literalI [OF txt_paused_runes] literalI [OF txt_dash_runes] literalI [OF txt_rouble_runes] literalI [OF txt_bullet_runes] literalI [OF txt_ellipsis_runes]
  by (simp_all add: utf16_encode_def utf16_rune_def)

section \<open>Numbers\<close>

abbreviation ascii :: "string \<Rightarrow> bool" where
  "ascii s \<equiv> (\<forall>c \<in> set s. (of_char c :: nat) < 0x80)"

lemma ascii_show_nat: "ascii (show_nat n)"
  using show_nat_digits [of n] unfolding list_all_iff is_digit_def by fastforce

lemma ascii_show_int: "ascii (show_int i)"
  using ascii_show_nat [of "nat i"] ascii_show_nat [of "nat (- i)"] by (simp add: show_int_def)

lemma ascii_fmt_f0: "ascii (fmt_f0 f)"
  using ascii_show_int by (cases f) auto

lemma length_show_nat_le: "n < 10 ^ k \<Longrightarrow> 0 < k \<Longrightarrow> length (show_nat n) \<le> k"
proof (induction n arbitrary: k rule: show_nat.induct)
  case (1 n)
  show ?case
  proof (cases "n < 10")
    case True
    with 1 show ?thesis by (subst show_nat.simps) simp
  next
    case False
    then obtain j where k: "k = Suc j" using 1 by (cases k) auto
    with False "1.prems" have "0 < j" by (cases j) auto
    moreover have "n div 10 < 10 ^ j" using "1.prems" k by (simp add: less_mult_imp_div_less mult.commute)
    ultimately have "length (show_nat (n div 10)) \<le> j" using "1.IH" False by blast
    with False k show ?thesis by (subst show_nat.simps) simp
  qed
qed

lemma length_show_nat_mono: "m \<le> n \<Longrightarrow> length (show_nat m) \<le> length (show_nat n)"
proof (induction n arbitrary: m rule: show_nat.induct)
  case (1 n)
  show ?case
  proof (cases "m < 10")
    case True
    then have "length (show_nat m) = 1" by (subst show_nat.simps) simp
    then show ?thesis using show_nat_nonempty [of n] by (cases "show_nat n") auto
  next
    case False
    with 1 have "length (show_nat (m div 10)) \<le> length (show_nat (n div 10))" by (simp add: div_le_mono)
    with False "1.prems" show ?thesis by (subst (1 2) show_nat.simps) simp
  qed
qed

lemma length_show_int_mono: "0 \<le> i \<Longrightarrow> i \<le> j \<Longrightarrow> length (show_int i) \<le> length (show_int j)"
  by (simp add: show_int_def length_show_nat_mono nat_mono)

text \<open>Every \<open>float64\<close> is below \<open>2 ^ 1024\<close>: at most 309 digits and a sign.\<close>

fun in_range :: "float64 \<Rightarrow> bool" where
  "in_range (Fin q) = (\<bar>q\<bar> < 2 ^ 1024)"
| "in_range _ = True"

lemma round_half_even_le: "0 \<le> q \<Longrightarrow> 0 \<le> round_half_even q \<and> of_int (round_half_even q) \<le> q + 1"
proof -
  assume "0 \<le> q"
  then have "0 \<le> \<lfloor>q\<rfloor>" "of_int \<lfloor>q\<rfloor> \<le> q" "of_int \<lfloor>q\<rfloor> \<le> q + 1" by linarith+
  then show ?thesis by (simp add: round_half_even_def Let_def)
qed

lemma length_fmt_f0: "in_range f \<Longrightarrow> length (fmt_f0 f) \<le> 310"
proof (cases f)
  case (Fin q)
  assume r: "in_range f"
  have *: "length (show_int (round_half_even p)) \<le> 309" if "0 \<le> p" "p < 2 ^ 1024" for p
  proof -
    note r = round_half_even_le [OF that(1)]
    have "of_int (round_half_even p) < (of_int (2 ^ 1024 + 1) :: rat)" using r that(2) by simp
    then have "round_half_even p < 2 ^ 1024 + 1" by (simp only: of_int_less_iff)
    moreover have "(2 :: int) ^ 1024 + 1 < 10 ^ 309" by simp
    ultimately have "nat (round_half_even p) < 10 ^ 309" using r by (simp add: nat_less_iff)
    then show ?thesis using r by (simp add: show_int_def length_show_nat_le)
  qed
  show ?thesis
  proof (cases "q < 0")
    case True
    with r Fin have "0 \<le> - q" "- q < 2 ^ 1024" by auto
    from * [OF this] True Fin show ?thesis by simp
  next
    case False
    with r Fin have "0 \<le> q" "q < 2 ^ 1024" by auto
    from * [OF this] False Fin show ?thesis by simp
  qed
qed simp_all

section \<open>Truncated texts\<close>

lemma units_rune: "valid_rune r \<Longrightarrow> int (length (utf16_rune r)) = rune_units r"
  by (auto simp: valid_rune_def utf16_rune_def rune_units_def)

lemma utf16Units_runes: "utf16Units s = (\<Sum>r\<leftarrow>runes s. rune_units r)"
proof -
  have "int (length (utf16_encode rs)) = (\<Sum>r\<leftarrow>rs. rune_units r)" if "\<forall>r \<in> set rs. valid_rune r" for rs
    using that by (induction rs) (simp_all add: utf16_encode_def units_rune)
  then show ?thesis using runes_valid by (simp add: utf16Units_def runes_def)
qed

lemma take_units_le: "units \<le> limit \<Longrightarrow> units + (\<Sum>r\<leftarrow>take_units limit units rs. rune_units r) \<le> limit"
  by (induction limit units rs rule: take_units.induct) auto

lemma take_units_set: "set (take_units limit units rs) \<subseteq> set rs"
  by (induction limit units rs rule: take_units.induct) auto

lemma truncateUTF16_units: "utf16Units (truncateUTF16 s n) \<le> max 0 n"
proof (cases "n \<le> 0 \<or> (\<Sum>r\<leftarrow>runes s. rune_units r) \<le> n")
  case True
  then show ?thesis by (auto simp: truncateUTF16_def utf16Units_runes runes_def bytes_def)
next
  case False
  define rs where "rs = take_units (n - 1) 0 (runes s)"
  have v: "\<forall>r \<in> set rs. valid_rune r" using take_units_set runes_valid unfolding rs_def runes_def by blast
  from False have "truncateUTF16 s n = encode rs @ txt_ellipsis" by (simp add: truncateUTF16_def rs_def)
  then have "utf16Units (truncateUTF16 s n) = utf16Units (encode rs) + 1"
    using complete_encode [OF v] by (simp add: utf16Units_append)
  also have "utf16Units (encode rs) = (\<Sum>r\<leftarrow>rs. rune_units r)" by (simp add: utf16Units_runes runes_encode [OF v])
  also have "\<dots> \<le> n - 1" using take_units_le [of 0 "n - 1" "runes s"] False by (simp add: rs_def)
  finally show ?thesis by simp
qed

section \<open>Entries\<close>

lemmas units_append = utf16Units_append complete_ascii ascii_show_int ascii_fmt_f0 ascii_start_def

lemma units_ascii_append: "ascii s \<Longrightarrow> utf16Units (s @ t) = int (length s) + utf16Units t"
  by (simp add: utf16Units_append complete_ascii utf16Units_ascii)

lemma header_units:
  "utf16Units (myListHeader n p) = 31 + int (length (show_int n)) + int (length (show_int p))"
  "complete (myListHeader n p)"
  by (auto simp: myListHeader_def utf16Units_append complete_ascii utf16Units_ascii ascii_show_int
      units_ascii_append intro!: complete_append)

definition fits :: "float64 option \<Rightarrow> bool" where
  "fits f \<longleftrightarrow> (case f of Some x \<Rightarrow> in_range x | None \<Rightarrow> True)"

definition price_line :: "Subscription_c \<Rightarrow> string" where
  "price_line s = (case (gs_MinPrice s, gs_MaxPrice s) of
     (Some mn, Some mx) \<Rightarrow> ''   '' @ fmt_f0 mn @ txt_dash @ fmt_f0 mx @ txt_rouble | _ \<Rightarrow> [])"

lemma price_line_units:
  assumes "fits (gs_MinPrice s)" and "fits (gs_MaxPrice s)"
  shows "utf16Units (price_line s) \<le> 629" "complete (price_line s)" "ascii_start (price_line s)"
proof -
  have "utf16Units (price_line s) \<le> 629 \<and> complete (price_line s) \<and> ascii_start (price_line s)"
  proof (cases "gs_MinPrice s")
    case (Some mn)
    note mn = this
    show ?thesis
    proof (cases "gs_MaxPrice s")
      case (Some mx)
      with mn assms have l: "length (fmt_f0 mn) \<le> 310" "length (fmt_f0 mx) \<le> 310"
        by (simp_all add: fits_def length_fmt_f0)
      have e: "price_line s = ''   '' @ fmt_f0 mn @ txt_dash @ fmt_f0 mx @ txt_rouble"
        using mn Some by (simp add: price_line_def)
      have "utf16Units (price_line s) = 3 + (int (length (fmt_f0 mn)) + (3 + (int (length (fmt_f0 mx)) + 3)))"
        unfolding e by (subst units_ascii_append, simp, subst units_ascii_append, rule ascii_fmt_f0,
          subst utf16Units_append, simp, subst units_ascii_append, rule ascii_fmt_f0, simp)
      moreover have "complete (price_line s)" unfolding e
        by (intro complete_append) (simp_all add: complete_ascii ascii_fmt_f0)
      moreover have "ascii_start (price_line s)" unfolding e by (simp add: ascii_start_def)
      ultimately show ?thesis using l by simp
    qed (simp add: price_line_def mn ascii_start_def)
  qed (simp add: price_line_def ascii_start_def)
  then show "utf16Units (price_line s) \<le> 629" "complete (price_line s)" "ascii_start (price_line s)" by blast+
qed

definition entry_head :: "Subscription_c \<Rightarrow> int \<Rightarrow> string" where
  "entry_head s index = [CHR 0x0A] @ show_int index @ ''. '' @ truncateUTF16 (gs_ProductName s) 200 @
     (if gs_Paused s then txt_paused else []) @ [CHR 0x0A] @ price_line s"

lemma myListEntry_head:
  "myListEntry s index maxUnits =
     (if gs_ProductURL s = [] then entry_head s index
      else entry_head s index @ txt_bullet @
        truncateUTF16 (gs_ProductURL s) (maxUnits - utf16Units (entry_head s index) - utf16Units txt_bullet - 1) @
        [CHR 0x0A])"
  by (simp add: myListEntry_def entry_head_def price_line_def Let_def)

lemma txt_paused_ascii_start: "ascii_start (txt_paused @ t)"
  by (simp add: ascii_start_def txt_paused_def utf8_def)

lemma entry_head_units:
  assumes "fits (gs_MinPrice s)" and "fits (gs_MaxPrice s)" and "0 \<le> index" and "index < 10 ^ 19"
  shows "utf16Units (entry_head s index) \<le> 900"
proof -
  define name status where "name = truncateUTF16 (gs_ProductName s) 200"
    and "status = (if gs_Paused s then txt_paused else [])"
  have st: "complete status" "utf16Units status \<le> 2" "ascii_start (status @ [CHR 0x0A] @ price_line s)"
    by (simp_all add: status_def txt_paused_ascii_start[simplified]) (simp add: ascii_start_def)
  have "utf16Units (entry_head s index) =
      1 + (int (length (show_int index)) + (2 + (utf16Units name + (utf16Units status + (1 + utf16Units (price_line s))))))"
    unfolding entry_head_def name_def[symmetric] status_def[symmetric]
    by (subst units_ascii_append, simp, subst units_ascii_append, rule ascii_show_int,
        subst units_ascii_append, simp, subst utf16Units_append, simp add: st[simplified],
        subst utf16Units_append, simp add: st, subst units_ascii_append, simp, simp)
  moreover have "length (show_int index) \<le> 19"
    using assms(3,4) by (simp add: show_int_def length_show_nat_le nat_less_iff)
  moreover have "utf16Units name \<le> 200" using truncateUTF16_units [of "gs_ProductName s" 200] by (simp add: name_def)
  ultimately show ?thesis using st(2) price_line_units(1) [OF assms(1,2)] by linarith
qed

lemma entry_units:
  assumes "fits (gs_MinPrice s)" and "fits (gs_MaxPrice s)" and "0 \<le> index" and "index < 10 ^ 19"
    and "906 \<le> maxUnits"
  shows "utf16Units (myListEntry s index maxUnits) \<le> maxUnits"
proof (cases "gs_ProductURL s = []")
  case True
  with entry_head_units [OF assms(1-4)] assms(5) show ?thesis by (simp add: myListEntry_head)
next
  case False
  define h u where "h = entry_head s index"
    and "u = truncateUTF16 (gs_ProductURL s) (maxUnits - utf16Units h - 5 - 1)"
  have "utf16Units h \<le> 900" using entry_head_units [OF assms(1-4)] by (simp add: h_def)
  moreover have "utf16Units u \<le> maxUnits - utf16Units h - 6"
    using truncateUTF16_units [of "gs_ProductURL s" "maxUnits - utf16Units h - 5 - 1"] assms(5) calculation
    by (simp add: u_def)
  moreover have "ascii_start (txt_bullet @ u @ [CHR 0x0A])"
    by (simp add: ascii_start_def txt_bullet_def utf8_def)
  then have "utf16Units (h @ txt_bullet @ u @ [CHR 0x0A]) = utf16Units h + (5 + (utf16Units u + 1))"
    by (simp add: utf16Units_append ascii_start_def utf16Units_ascii)
  ultimately show ?thesis using False by (simp add: myListEntry_head h_def u_def)
qed

lemma entry_start: "ascii_start (myListEntry s index maxUnits)" "myListEntry s index maxUnits \<noteq> []"
  by (simp_all add: myListEntry_head entry_head_def ascii_start_def)

section \<open>Pages\<close>

text \<open>The page with index \<open>k\<close>: it is full neither of entries nor of text.\<close>

definition page_ok :: "string list \<Rightarrow> nat \<Rightarrow> nat list \<Rightarrow> bool" where
  "page_ok es k pg \<longleftrightarrow> pg \<noteq> [] \<and> length pg \<le> myListPageItems \<and>
     utf16Units (myListHeader (int (length es)) (int k + 1)) + (\<Sum>i\<leftarrow>pg. utf16Units (es ! i)) \<le> telegramTextLimit"

text \<open>The loop's invariant before entry \<open>i\<close>.\<close>

definition loop_ok :: "string list \<Rightarrow> nat \<Rightarrow> nat list list \<Rightarrow> nat list \<Rightarrow> int \<Rightarrow> bool" where
  "loop_ok es i pages current units \<longleftrightarrow>
     i \<le> length es \<and> concat pages @ current = [0..<i] \<and> (\<forall>k < length pages. page_ok es k (pages ! k)) \<and>
     (current = [] \<or> page_ok es (length pages) current) \<and>
     length pages + (if current = [] then 0 else 1) \<le> i \<and> (0 < i \<longrightarrow> current \<noteq> []) \<and>
     units = utf16Units (myListHeader (int (length es)) (int (length pages) + 1)) + (\<Sum>i\<leftarrow>current. utf16Units (es ! i))"

definition entry_fits :: "string list \<Rightarrow> bool" where
  "entry_fits es \<longleftrightarrow> (\<forall>i < length es. \<forall>p \<in> {1..length es}.
     utf16Units (myListHeader (int (length es)) (int p)) + utf16Units (es ! i) \<le> telegramTextLimit)"

lemma loop_ok_new_page:
  assumes "loop_ok es i pages current units" and "i < length es" and "entry_fits es" and "current \<noteq> []"
  shows "loop_ok es (Suc i) (pages @ [current]) [i]
    (utf16Units (myListHeader (int (length es)) (int (length (pages @ [current])) + 1)) + utf16Units (es ! i))"
proof -
  have "\<forall>k < length (pages @ [current]). page_ok es k ((pages @ [current]) ! k)"
    using assms(1,4) by (auto simp: loop_ok_def nth_append less_Suc_eq)
  moreover have "page_ok es (length (pages @ [current])) [i]"
  proof -
    have "Suc (Suc (length pages)) \<in> {1..length es}" using assms by (auto simp: loop_ok_def)
    then have "utf16Units (myListHeader (int (length es)) (int (Suc (Suc (length pages))))) + utf16Units (es ! i)
        \<le> telegramTextLimit" using assms(2,3) unfolding entry_fits_def by blast
    then show ?thesis by (simp add: page_ok_def myListPageItems_def add.commute)
  qed
  ultimately show ?thesis using assms(1,2,4) by (simp add: loop_ok_def flip: append_assoc)
qed

lemma loop_ok_same_page:
  assumes "loop_ok es i pages current units" and "i < length es" and "entry_fits es"
    and "current = [] \<or> length current \<noteq> myListPageItems \<and> units + utf16Units (es ! i) \<le> telegramTextLimit"
  shows "loop_ok es (Suc i) pages (current @ [i]) (units + utf16Units (es ! i))"
proof -
  have "page_ok es (length pages) (current @ [i])"
  proof (cases "current = []")
    case True
    with assms(1) have "length pages \<le> i" by (auto simp: loop_ok_def)
    with assms(2) have "Suc (length pages) \<in> {1..length es}" by simp
    then have "utf16Units (myListHeader (int (length es)) (int (Suc (length pages)))) + utf16Units (es ! i)
        \<le> telegramTextLimit" using assms(2,3) unfolding entry_fits_def by blast
    with True show ?thesis by (simp add: page_ok_def myListPageItems_def add.commute)
  next
    case False
    with assms(1,4) show ?thesis by (auto simp: page_ok_def loop_ok_def)
  qed
  then show ?thesis using assms(1,2) by (auto simp: loop_ok_def split: if_splits)
qed

lemma page_loop_ok:
  assumes "loop_ok es i pages current units" and "entry_fits es"
    and "page_loop (int (length es)) i (drop i es) pages current units = (pages', current')"
  shows "\<exists>units'. loop_ok es (length es) pages' current' units'"
  using assms
proof (induction "length es - i" arbitrary: i pages current units)
  case 0
  then have "i = length es" by (auto simp: loop_ok_def)
  with 0 show ?case by auto
next
  case (Suc n)
  then have i: "i < length es" by simp
  define entry where "entry = es ! i"
  have d: "drop i es = entry # drop (Suc i) es" using i by (simp add: entry_def Cons_nth_drop_Suc)
  have n: "n = length es - Suc i" using Suc.hyps(2) by simp
  show ?case
  proof (cases "0 < length current \<and> (length current = myListPageItems \<or> units + utf16Units entry > telegramTextLimit)")
    case True
    then have "current \<noteq> []" by auto
    from loop_ok_new_page [OF Suc.prems(1) i Suc.prems(2) this] Suc.prems(3) True
    show ?thesis by (intro Suc.hyps(1) [OF n _ Suc.prems(2)]) (auto simp: d Let_def entry_def)
  next
    case False
    then have "current = [] \<or> length current \<noteq> myListPageItems \<and> units + utf16Units (es ! i) \<le> telegramTextLimit"
      by (auto simp: entry_def)
    from loop_ok_same_page [OF Suc.prems(1) i Suc.prems(2) this] Suc.prems(3) False
    show ?thesis by (intro Suc.hyps(1) [OF n _ Suc.prems(2)]) (auto simp: d Let_def entry_def)
  qed
qed

lemma entries_fit:
  assumes "\<forall>s \<in> set subs. fits (gs_MinPrice s) \<and> fits (gs_MaxPrice s)" and "length subs < 2 ^ 63"
  shows "entry_fits (entries subs)"
proof -
  define n where "n = int (length subs)"
  have l: "length (show_int n) \<le> 19"
    using assms(2) by (auto simp: show_int_def n_def intro!: length_show_nat_le)
  have "utf16Units (myListHeader n (int p)) + utf16Units (entries subs ! i) \<le> telegramTextLimit"
    if "i < length subs" "p \<in> {1..length subs}" for i p
  proof -
    define m where "m = telegramTextLimit - utf16Units (myListHeader n n)"
    have "1 \<le> n" using that by (cases subs) (simp_all add: n_def)
    then have "maxInt 1 n = n" by (simp add: maxInt_def)
    then have e: "entries subs ! i = myListEntry (subs ! i) (int i + 1) m"
      using that by (simp add: entries_def Let_def m_def n_def[symmetric])
    have "length (show_int (int p)) \<le> length (show_int n)" using that by (intro length_show_int_mono) (auto simp: n_def)
    then have "utf16Units (myListHeader n (int p)) \<le> utf16Units (myListHeader n n)" by (simp add: header_units)
    moreover have "utf16Units (entries subs ! i) \<le> m"
      unfolding e using assms that l
      by (intro entry_units) (auto simp: m_def header_units telegramTextLimit_def)
    ultimately show ?thesis by (simp add: m_def)
  qed
  moreover have "length (entries subs) = length subs" by (simp add: entries_def Let_def)
  ultimately show ?thesis by (simp add: entry_fits_def n_def)
qed

lemma length_entries [simp]: "length (entries subs) = length subs"
  by (simp add: entries_def Let_def)

lemma list_pages_ok:
  assumes "\<forall>s \<in> set subs. fits (gs_MinPrice s) \<and> fits (gs_MaxPrice s)" and "length subs < 2 ^ 63" and "subs \<noteq> []"
  shows "concat (list_pages subs) = [0..<length subs]"
    and "k < length (list_pages subs) \<Longrightarrow> page_ok (entries subs) k (list_pages subs ! k)"
    and "list_pages subs \<noteq> []"
proof -
  obtain pages current where l: "page_loop (int (length (entries subs))) 0 (drop 0 (entries subs)) [] []
      (utf16Units (myListHeader (int (length subs)) 1)) = (pages, current)" by fastforce
  have "loop_ok (entries subs) 0 [] [] (utf16Units (myListHeader (int (length subs)) 1))"
    by (simp add: loop_ok_def)
  from page_loop_ok [OF this entries_fit [OF assms(1,2)] l]
  obtain units where u: "loop_ok (entries subs) (length subs) pages current units" by auto
  then have c: "current \<noteq> []" using assms(3) by (auto simp: loop_ok_def)
  with l have p: "list_pages subs = pages @ [current]" by (simp add: list_pages_def)
  from u c show "concat (list_pages subs) = [0..<length subs]" "list_pages subs \<noteq> []"
    "k < length (list_pages subs) \<Longrightarrow> page_ok (entries subs) k (list_pages subs ! k)"
    by (auto simp: p loop_ok_def nth_append less_Suc_eq)
qed

lemma length_concat_ge: "\<forall>x \<in> set xs. x \<noteq> [] \<Longrightarrow> length xs \<le> length (concat xs)"
proof (induction xs)
  case (Cons x xs)
  then show ?case by (cases x) auto
qed simp

lemma actual_page_range:
  assumes "list_pages subs \<noteq> []"
  shows "1 \<le> actual_page subs page" and "nat (actual_page subs page - 1) < length (list_pages subs)"
    and "1 \<le> page \<Longrightarrow> page \<le> int (length (list_pages subs)) \<Longrightarrow> actual_page subs page = page"
proof -
  have "1 \<le> int (length (list_pages subs))" using assms by (cases "list_pages subs") simp_all
  then show "1 \<le> actual_page subs page" "nat (actual_page subs page - 1) < length (list_pages subs)"
    "1 \<le> page \<Longrightarrow> page \<le> int (length (list_pages subs)) \<Longrightarrow> actual_page subs page = page"
    by (auto simp: actual_page_def Let_def)
qed

lemma page_text_units:
  assumes "\<forall>i \<in> set pg. i < length subs"
  shows "utf16Units (myListHeader n p @ concat (map (\<lambda>i. entries subs ! i) pg)) =
    utf16Units (myListHeader n p) + (\<Sum>i\<leftarrow>pg. utf16Units (entries subs ! i))"
proof -
  have start: "ascii_start (concat (map (\<lambda>i. entries subs ! i) pg))" if "\<forall>i \<in> set pg. i < length subs" for pg
  proof (cases pg)
    case (Cons i pg')
    with that have e: "ascii_start (entries subs ! i)" "entries subs ! i \<noteq> []"
      by (simp_all add: entries_def Let_def entry_start)
    with Cons show ?thesis by (simp add: ascii_start_def)
  qed (simp add: ascii_start_def)
  have "utf16Units (concat (map (\<lambda>i. entries subs ! i) pg)) = (\<Sum>i\<leftarrow>pg. utf16Units (entries subs ! i))"
    using assms
  proof (induction pg)
    case (Cons i pg)
    then show ?case using start [of pg] by (simp add: utf16Units_append)
  qed simp
  with header_units(2) show ?thesis by (simp add: utf16Units_append)
qed

text \<open>
  C33: The pages of the product list show every subscription exactly once, in order, at most ten
  to a page, each page no longer than the 4096 UTF-16 units Telegram accepts, for every
  subscription text and every pair of \<open>float64\<close> prices; a page number out of range shows the
  nearest page.
\<close>

theorem my_list_pages:
  assumes "subs \<noteq> []" and "length subs < 2 ^ 63"
    and "\<forall>s \<in> set subs. fits (gs_MinPrice s) \<and> fits (gs_MaxPrice s)"
  shows "\<exists>pages. concat pages = [0..<length subs] \<and>
    (\<forall>page. \<exists>shown text rows actual. buildMyListPage subs page = (text, rows, actual) \<and>
       actual = min (max page 1) (int (length pages)) \<and> shown = pages ! nat (actual - 1) \<and>
       1 \<le> length shown \<and> length shown \<le> 10 \<and>
       text = myListHeader (int (length subs)) actual @ concat (map ((!) (entries subs)) shown) \<and>
       utf16Units text \<le> 4096)"
proof -
  let ?ps = "list_pages subs"
  note ok = list_pages_ok [OF assms(3,2,1)]
  have "\<exists>shown text rows actual. buildMyListPage subs page = (text, rows, actual) \<and>
       actual = min (max page 1) (int (length ?ps)) \<and> shown = ?ps ! nat (actual - 1) \<and>
       1 \<le> length shown \<and> length shown \<le> 10 \<and>
       text = myListHeader (int (length subs)) actual @ concat (map ((!) (entries subs)) shown) \<and>
       utf16Units text \<le> 4096" for page
  proof -
    define a where "a = actual_page subs page"
    note r = actual_page_range [OF ok(3), of page, folded a_def]
    have pg: "page_ok (entries subs) (nat (a - 1)) (?ps ! nat (a - 1))" using ok(2) [OF r(2)] .
    have "\<forall>i \<in> set (?ps ! nat (a - 1)). i < length subs"
      using ok(1) nth_mem [OF r(2)] by (metis UN_I atLeastLessThan_iff set_concat set_upt)
    from page_text_units [OF this, of "int (length subs)" a] pg r(1)
    have "utf16Units (myListHeader (int (length subs)) a @ concat (map ((!) (entries subs)) (?ps ! nat (a - 1)))) \<le> 4096"
      by (simp add: page_ok_def telegramTextLimit_def)
    moreover have "a = min (max page 1) (int (length ?ps))" using r(1) ok(3)
      by (cases "?ps") (auto simp: a_def actual_page_def Let_def)
    moreover have "1 \<le> length (?ps ! nat (a - 1))" "length (?ps ! nat (a - 1)) \<le> 10"
      using pg by (auto simp: page_ok_def myListPageItems_def Suc_le_eq)
    moreover obtain rows where "buildMyListPage subs page =
        (myListHeader (int (length subs)) a @ concat (map ((!) (entries subs)) (?ps ! nat (a - 1))), rows, a)"
      unfolding buildMyListPage_def Let_def a_def by blast
    ultimately show ?thesis by blast
  qed
  with ok(1) show ?thesis by blast
qed

section \<open>Buttons\<close>

definition sub_actions :: "Subscription_c \<Rightarrow> callback list list" where
  "sub_actions s = [[EditSub (gs_ID s), if gs_Paused s then ResumeSub (gs_ID s) else PauseSub (gs_ID s)],
     [HistorySub (gs_ID s), CheckSub (gs_ID s)], [DeleteSub (gs_ID s)]]"

lemma callback_of_simps [simp]:
  "callback_of (''edit_sub:'' @ i) = EditSub i" "callback_of (''pause_sub:'' @ i) = PauseSub i"
  "callback_of (''resume_sub:'' @ i) = ResumeSub i" "callback_of (''del_sub:'' @ i) = DeleteSub i"
  "callback_of (''history_sub:'' @ i) = HistorySub i" "callback_of (''check_sub:'' @ i) = CheckSub i"
  by (simp_all add: callback_of_def has_prefix_def trim_prefix_def)

lemma callback_of_page: "1 \<le> p \<Longrightarrow> int64 p \<Longrightarrow> callback_of (''page:'' @ show_int p) = ShowPage p"
  using trim_prefix_append [of "''page:''" "show_int p"]
  by (simp add: callback_of_def has_prefix_def parse_show_int)

lemma sub_rows_actions: "map (map (\<lambda>b. callback_of (snd b))) (sub_rows s) = sub_actions s"
  using callback_of_simps [of "gs_ID s"] by (simp add: sub_rows_def sub_actions_def Let_def)

text \<open>
  Every button of the list comes back as the operation on the subscription it stands under:
  what \<open>handleCallback\<close> reads from the callback data of a page, row by row, is edit, pause or
  resume, history, check and delete of the shown subscriptions in order, and then the neighbouring
  pages, which \<open>buildMyListPage\<close> shows under exactly those numbers.
\<close>

theorem my_list_buttons:
  assumes "subs \<noteq> []" and "length subs < 2 ^ 63"
    and "\<forall>s \<in> set subs. fits (gs_MinPrice s) \<and> fits (gs_MaxPrice s)"
    and "buildMyListPage subs page = (text, rows, actual)"
  shows "\<exists>nav. map (map (\<lambda>b. callback_of (snd b))) rows =
      concat (map (\<lambda>i. sub_actions (subs ! i)) (list_pages subs ! nat (actual - 1))) @ nav \<and>
    (\<forall>c \<in> set (concat nav). \<exists>p. c = ShowPage p \<and> (p = actual - 1 \<or> p = actual + 1) \<and>
       snd (snd (buildMyListPage subs p)) = p) \<and>
    (1 < actual \<longrightarrow> ShowPage (actual - 1) \<in> set (concat nav)) \<and>
    (actual < int (length (list_pages subs)) \<longrightarrow> ShowPage (actual + 1) \<in> set (concat nav))"
proof -
  let ?n = "int (length (list_pages subs))"
  note ok = list_pages_ok [OF assms(3,2,1)]
  note r = actual_page_range [OF ok(3)]
  have a: "actual = actual_page subs page" using assms(4) by (simp add: buildMyListPage_def Let_def)
  define nav where "nav = (if actual > 1 \<or> actual < ?n then [nav_row actual ?n] else [])"
  have rows: "rows = concat (map (\<lambda>i. sub_rows (subs ! i)) (list_pages subs ! nat (actual - 1))) @ nav"
    using assms(4) by (auto simp: buildMyListPage_def Let_def nav_def)
  have "int (length (list_pages subs)) \<le> int (length subs)"
  proof -
    have "length (list_pages subs) \<le> length (concat (list_pages subs))"
      using ok(2) by (intro length_concat_ge) (auto simp: page_ok_def in_set_conv_nth)
    with ok(1) show ?thesis by simp
  qed
  moreover have "int (length subs) < int (2 ^ 63)" using assms(2) by (simp only: of_nat_less_iff)
  then have "int (length subs) < 2 ^ 63" by simp
  ultimately have n: "?n < 2 ^ 63" by linarith
  have range: "1 \<le> actual" "actual \<le> ?n" using r(1,2) [of page] by (auto simp: a)
  have cb: "callback_of (''page:'' @ show_int p) = ShowPage p" "snd (snd (buildMyListPage subs p)) = p"
    if "1 \<le> p" "p \<le> ?n" for p
  proof -
    have "int64 p" unfolding int64_def using that n by linarith
    with that(1) show "callback_of (''page:'' @ show_int p) = ShowPage p" by (rule callback_of_page)
    show "snd (snd (buildMyListPage subs p)) = p" using r(3) [OF that]
      unfolding buildMyListPage_def Let_def by (simp only: snd_conv)
  qed
  have "map (map (\<lambda>b. callback_of (snd b))) rows =
      concat (map (\<lambda>i. sub_actions (subs ! i)) (list_pages subs ! nat (actual - 1))) @
      map (map (\<lambda>b. callback_of (snd b))) nav"
    by (simp add: rows map_concat comp_def sub_rows_actions)
  moreover have "\<forall>c \<in> set (concat (map (map (\<lambda>b. callback_of (snd b))) nav)). \<exists>p. c = ShowPage p \<and>
      (p = actual - 1 \<or> p = actual + 1) \<and> snd (snd (buildMyListPage subs p)) = p"
    using range cb(1) [of "actual - 1", simplified] cb(1) [of "actual + 1", simplified] cb(2)
    by (auto simp: nav_def nav_row_def)
  moreover have "1 < actual \<longrightarrow> ShowPage (actual - 1) \<in> set (concat (map (map (\<lambda>b. callback_of (snd b))) nav))"
    "actual < ?n \<longrightarrow> ShowPage (actual + 1) \<in> set (concat (map (map (\<lambda>b. callback_of (snd b))) nav))"
    using range cb(1) [of "actual - 1", simplified] cb(1) [of "actual + 1", simplified]
    by (auto simp: nav_def nav_row_def)
  ultimately show ?thesis by blast
qed

section \<open>Witnesses\<close>

definition demo_sub :: Subscription_c where
  "demo_sub = \<lparr>gs_ID = ''s1'', gs_ProductID = ''p1'', gs_ProductName = ''Lamp'', gs_ProductURL = ''https://wb'',
     gs_MinPrice = Some (Fin 100), gs_MaxPrice = Some PosInf, gs_Paused = True\<rparr>"

lemma demo_sub_fits: "\<forall>s \<in> set [demo_sub]. fits (gs_MinPrice s) \<and> fits (gs_MaxPrice s)"
  by (simp add: demo_sub_def fits_def)

theorem my_list_pages_witness:
  "\<exists>text rows actual. buildMyListPage [demo_sub] 7 = (text, rows, actual) \<and> actual \<le> 7 \<and> utf16Units text \<le> 4096"
proof -
  from my_list_pages [OF _ _ demo_sub_fits] obtain pages where p: "\<forall>page. \<exists>shown text rows actual.
      buildMyListPage [demo_sub] page = (text, rows, actual) \<and>
      actual = min (max page 1) (int (length pages)) \<and> shown = pages ! nat (actual - 1) \<and>
      1 \<le> length shown \<and> length shown \<le> 10 \<and>
      text = myListHeader (int (length [demo_sub])) actual @ concat (map ((!) (entries [demo_sub])) shown) \<and>
      utf16Units text \<le> 4096"
    by auto
  then obtain tx rows actual where "buildMyListPage [demo_sub] 7 = (tx, rows, actual)"
    "actual = min (max 7 1) (int (length pages))" "utf16Units tx \<le> 4096" by blast
  then show ?thesis by auto
qed

theorem my_list_buttons_witness:
  "\<exists>text rows actual nav. buildMyListPage [demo_sub] 1 = (text, rows, actual) \<and>
     map (map (\<lambda>b. callback_of (snd b))) rows =
       concat (map (\<lambda>i. sub_actions ([demo_sub] ! i)) (list_pages [demo_sub] ! nat (actual - 1))) @ nav"
proof -
  obtain tx rows actual where b: "buildMyListPage [demo_sub] 1 = (tx, rows, actual)" by (metis surj_pair)
  from my_list_buttons [OF _ _ demo_sub_fits b] have "\<exists>nav. map (map (\<lambda>b. callback_of (snd b))) rows =
      concat (map (\<lambda>i. sub_actions ([demo_sub] ! i)) (list_pages [demo_sub] ! nat (actual - 1))) @ nav"
    by auto
  with b show ?thesis by blast
qed

end
