(* ===== verification/Dispatcher.thy ===== *)
theory Dispatcher
  imports BotState
begin

text \<open>
  The bot's dispatcher, \<open>services/bot/internal/bot/dispatch.go\<close>: eight workers, each with a
  bounded queue; an update goes to the queue its chat hashes to. The goroutines are a step
  relation: the receiving loop, the workers, and the cancellation of the context interleave
  in any order. The theorem is what the design is for: the updates of one chat are handled
  one at a time and in the order they arrived.
\<close>

section \<open>The hash\<close>

text \<open>\<open>hash/fnv.New32a\<close> on the decimal digits of the chat id.\<close>

definition fnv_step :: "32 word \<Rightarrow> char \<Rightarrow> 32 word" where
  "fnv_step h c = (xor h (of_nat (of_char c))) * 16777619"

definition fnv32a :: "string \<Rightarrow> 32 word" where
  "fnv32a s = foldl fnv_step 2166136261 s"

definition dispatcherWorkers :: nat where "dispatcherWorkers = 8"
definition queueSize :: nat where "queueSize = 32"

definition queue_of :: "int \<Rightarrow> nat" where
  "queue_of chatID = unat (fnv32a (show_int chatID) mod of_nat dispatcherWorkers)"

lemma queue_of_less: "queue_of chatID < dispatcherWorkers"
proof -
  have "fnv32a (show_int chatID) mod 8 < 8" by (rule word_mod_less_divisor) simp
  then show ?thesis by (simp add: queue_of_def dispatcherWorkers_def word_less_nat_alt unat_mod)
qed

section \<open>Updates\<close>

text \<open>
  An update of the Telegram library, as far as the dispatcher looks: the chat of its message
  if it has one, else that of its callback query, and what it is (its identity).
\<close>

record update =
  up_id :: nat
  up_message :: "int option option"   \<comment> \<open>the message, and its chat's id\<close>
  up_callback :: "int option option"  \<comment> \<open>the callback query, and the id of its message's chat\<close>

definition updateChatID :: "update \<Rightarrow> int option" where
  "updateChatID u =
     (case up_message u of
        Some (Some c) \<Rightarrow> Some c
      | _ \<Rightarrow> (case up_callback u of Some (Some c) \<Rightarrow> Some c | _ \<Rightarrow> None))"

section \<open>The state machine\<close>

datatype worker = Waiting | Handling update | Returned

record dispatcher =
  ds_updates :: "update list"             \<comment> \<open>the updates still to be received\<close>
  ds_queues :: "nat \<Rightarrow> update list"
  ds_workers :: "nat \<Rightarrow> worker"
  ds_handled :: "update list"             \<comment> \<open>calls of the handler, in the order they began\<close>
  ds_cancelled :: bool
  ds_closed :: bool                       \<comment> \<open>the receiving loop returned: the queues are closed\<close>

definition start :: "update list \<Rightarrow> dispatcher" where
  "start us = \<lparr>ds_updates = us, ds_queues = (\<lambda>_. []), ds_workers = (\<lambda>_. Waiting), ds_handled = [],
     ds_cancelled = False, ds_closed = False\<rparr>"

text \<open>
  The receiving loop stops when the context has ended or when the channel of the updates is closed,
  which is the case of \<open>close\<close> without a cancellation. \<open>Bot.Run\<close> closes that channel only after its
  context ended, so there this case does not arise; the tests of \<open>dispatcher.Run\<close> are what closes it
  on its own.
\<close>

inductive dstep :: "dispatcher \<Rightarrow> dispatcher \<Rightarrow> bool" where
  skip: "\<not> ds_closed s \<Longrightarrow> ds_updates s = u # us \<Longrightarrow> updateChatID u = None \<Longrightarrow>
    dstep s (s\<lparr>ds_updates := us\<rparr>)"
| enqueue: "\<not> ds_closed s \<Longrightarrow> ds_updates s = u # us \<Longrightarrow> updateChatID u = Some c \<Longrightarrow>
    length (ds_queues s (queue_of c)) < queueSize \<Longrightarrow>
    dstep s (s\<lparr>ds_updates := us, ds_queues := (ds_queues s)(queue_of c := ds_queues s (queue_of c) @ [u])\<rparr>)"
| cancel: "dstep s (s\<lparr>ds_cancelled := True\<rparr>)"
| close: "\<not> ds_closed s \<Longrightarrow> ds_cancelled s \<or> ds_updates s = [] \<Longrightarrow> dstep s (s\<lparr>ds_closed := True\<rparr>)"
| handle: "w < dispatcherWorkers \<Longrightarrow> ds_workers s w = Waiting \<Longrightarrow> ds_queues s w = u # q \<Longrightarrow> \<not> ds_cancelled s \<Longrightarrow>
    dstep s (s\<lparr>ds_queues := (ds_queues s)(w := q), ds_workers := (ds_workers s)(w := Handling u),
               ds_handled := ds_handled s @ [u]\<rparr>)"
| drop: "w < dispatcherWorkers \<Longrightarrow> ds_workers s w = Waiting \<Longrightarrow> ds_queues s w = u # q \<Longrightarrow> ds_cancelled s \<Longrightarrow>
    dstep s (s\<lparr>ds_queues := (ds_queues s)(w := q), ds_workers := (ds_workers s)(w := Returned)\<rparr>)"
| finish: "w < dispatcherWorkers \<Longrightarrow> ds_workers s w = Handling u \<Longrightarrow>
    dstep s (s\<lparr>ds_workers := (ds_workers s)(w := Waiting)\<rparr>)"
| return_cancelled: "w < dispatcherWorkers \<Longrightarrow> ds_workers s w = Waiting \<Longrightarrow> ds_cancelled s \<Longrightarrow>
    dstep s (s\<lparr>ds_workers := (ds_workers s)(w := Returned)\<rparr>)"
| return_closed: "w < dispatcherWorkers \<Longrightarrow> ds_workers s w = Waiting \<Longrightarrow> ds_closed s \<Longrightarrow> ds_queues s w = [] \<Longrightarrow>
    dstep s (s\<lparr>ds_workers := (ds_workers s)(w := Returned)\<rparr>)"

inductive reachable :: "update list \<Rightarrow> dispatcher \<Rightarrow> bool" for us where
  initial: "reachable us (start us)"
| step: "reachable us s \<Longrightarrow> dstep s s' \<Longrightarrow> reachable us s'"

section \<open>Order\<close>

definition of_chat :: "int \<Rightarrow> update list \<Rightarrow> update list" where
  "of_chat c us = filter (\<lambda>u. updateChatID u = Some c) us"

lemma of_chat_simps [simp]:
  "of_chat c [] = []" "of_chat c (u # us) = (if updateChatID u = Some c then u # of_chat c us else of_chat c us)"
  "of_chat c (us @ vs) = of_chat c us @ of_chat c vs"
  by (simp_all add: of_chat_def)

text \<open>
  What was received of a chat is what was handled of it and what waits in its queue; after
  the cancellation only the handled part counts. Every queue and every busy worker has only
  updates of its own chats.
\<close>

definition dispatch_inv :: "update list \<Rightarrow> dispatcher \<Rightarrow> bool" where
  "dispatch_inv us s \<longleftrightarrow>
     (\<forall>w. \<forall>u \<in> set (ds_queues s w). \<exists>c. updateChatID u = Some c \<and> queue_of c = w) \<and>
     (\<forall>w u. ds_workers s w = Handling u \<longrightarrow> (\<exists>c. updateChatID u = Some c \<and> queue_of c = w)) \<and>
     (\<forall>w. length (ds_queues s w) \<le> queueSize) \<and>
     (\<forall>c. if ds_cancelled s
          then \<exists>rest. of_chat c us = of_chat c (ds_handled s) @ rest
          else of_chat c us = of_chat c (ds_handled s) @ of_chat c (ds_queues s (queue_of c)) @ of_chat c (ds_updates s)) \<and>
     (\<not> ds_cancelled s \<longrightarrow> (\<forall>w. ds_workers s w = Returned \<longrightarrow> ds_closed s \<and> ds_queues s w = [])) \<and>
     (ds_closed s \<longrightarrow> ds_cancelled s \<or> ds_updates s = [])"

lemma dispatch_inv_start: "dispatch_inv us (start us)"
  by (simp add: dispatch_inv_def start_def)

lemma of_chat_empty:
  "\<forall>u \<in> set q. \<exists>c. updateChatID u = Some c \<and> queue_of c = w \<Longrightarrow> queue_of c \<noteq> w \<Longrightarrow> of_chat c q = []"
  by (induction q) auto


lemma dispatch_inv_step:
  assumes inv: "dispatch_inv us s" and "dstep s s'"
  shows "dispatch_inv us s'"
  using assms(2)
proof (cases rule: dstep.cases)
  case (skip u vs)
  with inv show ?thesis unfolding dispatch_inv_def by auto
next
  case (enqueue u vs c)
  have q: "\<forall>x \<in> set (ds_queues s w). \<exists>d. updateChatID x = Some d \<and> queue_of d = w" for w
    using inv by (simp add: dispatch_inv_def)
  have "of_chat d us = of_chat d (ds_handled s') @ of_chat d (ds_queues s' (queue_of d)) @ of_chat d (ds_updates s')"
    if "\<not> ds_cancelled s" for d
  proof -
    have old: "of_chat d us = of_chat d (ds_handled s) @ of_chat d (ds_queues s (queue_of d)) @ of_chat d (ds_updates s)"
      using inv that by (simp add: dispatch_inv_def)
    show ?thesis
    proof (cases "d = c")
      case False
      then show ?thesis using old enqueue by simp
    qed (use old enqueue in simp)
  qed
  moreover have "length (ds_queues s' w) \<le> queueSize" for w
    using inv enqueue by (cases "w = queue_of c") (simp_all add: dispatch_inv_def)
  ultimately show ?thesis using inv enqueue unfolding dispatch_inv_def by (auto split: if_splits)
next
  case cancel
  have "\<exists>rest. of_chat c us = of_chat c (ds_handled s) @ rest" for c
    using inv by (cases "ds_cancelled s") (auto simp: dispatch_inv_def)
  with inv cancel show ?thesis unfolding dispatch_inv_def by simp
next
  case close
  with inv show ?thesis unfolding dispatch_inv_def by auto
next
  case (handle w u q)
  have chat: "\<exists>c. updateChatID x = Some c \<and> queue_of c = v" if "x \<in> set (ds_queues s v)" for x v
    using inv that by (simp add: dispatch_inv_def)
  obtain c where c: "updateChatID u = Some c" "queue_of c = w" using chat [of u w] handle by auto
  have "of_chat d us = of_chat d (ds_handled s') @ of_chat d (ds_queues s' (queue_of d)) @ of_chat d (ds_updates s')" for d
  proof -
    have "of_chat d us = of_chat d (ds_handled s) @ of_chat d (ds_queues s (queue_of d)) @ of_chat d (ds_updates s)"
      using inv handle by (simp add: dispatch_inv_def)
    then show ?thesis using handle c by (cases "queue_of d = w") auto
  qed
  moreover have "length (ds_queues s' v) \<le> queueSize" for v
  proof (cases "v = w")
    case True
    have "length (ds_queues s w) \<le> queueSize" using inv by (simp add: dispatch_inv_def)
    then show ?thesis using handle True by simp
  qed (use inv handle in \<open>simp add: dispatch_inv_def\<close>)
  ultimately show ?thesis using inv handle c unfolding dispatch_inv_def by (auto split: if_splits)
next
  case (drop w u q)
  have len: "length (ds_queues s v) \<le> queueSize" for v using inv by (simp add: dispatch_inv_def)
  have "length (ds_queues s' v) \<le> queueSize" for v
    using len [of v] len [of w] drop by (cases "v = w") simp_all
  then show ?thesis using inv drop unfolding dispatch_inv_def by (auto split: if_splits)
next
  case (finish w u)
  with inv show ?thesis unfolding dispatch_inv_def by (auto split: if_splits)
next
  case (return_cancelled w)
  with inv show ?thesis unfolding dispatch_inv_def by (auto split: if_splits)
next
  case (return_closed w)
  with inv show ?thesis unfolding dispatch_inv_def by (auto split: if_splits)
qed

lemma reachable_inv: "reachable us s \<Longrightarrow> dispatch_inv us s"
  by (induction rule: reachable.induct) (simp_all add: dispatch_inv_start dispatch_inv_step)

section \<open>Properties\<close>

text \<open>
  C29: the bot handles the updates of a chat one after another, in the order they arrived: in
  every reachable state the handled updates of a chat are the first of those received for it,
  none skipped or repeated, and no two workers are ever busy with the same chat. No queue
  exceeds its bound.
\<close>

theorem updates_in_order:
  assumes "reachable us s"
  shows "(\<exists>rest. filter (\<lambda>u. updateChatID u = Some c) us = filter (\<lambda>u. updateChatID u = Some c) (ds_handled s) @ rest) \<and>
    (\<forall>w v u x. ds_workers s w = Handling u \<and> ds_workers s v = Handling x \<and>
       updateChatID u = Some c \<and> updateChatID x = Some c \<longrightarrow> w = v) \<and>
    (\<forall>w. length (ds_queues s w) \<le> queueSize)"
proof (intro conjI)
  note inv = reachable_inv [OF assms]
  show "\<exists>rest. filter (\<lambda>u. updateChatID u = Some c) us = filter (\<lambda>u. updateChatID u = Some c) (ds_handled s) @ rest"
    using inv unfolding dispatch_inv_def of_chat_def by (metis (no_types, lifting))
  show "\<forall>w v u x. ds_workers s w = Handling u \<and> ds_workers s v = Handling x \<and>
       updateChatID u = Some c \<and> updateChatID x = Some c \<longrightarrow> w = v"
    using inv unfolding dispatch_inv_def by (metis option.inject)
  show "\<forall>w. length (ds_queues s w) \<le> queueSize" using inv by (simp add: dispatch_inv_def)
qed

definition demo_update :: "nat \<Rightarrow> int \<Rightarrow> update" where
  "demo_update i c = \<lparr>up_id = i, up_message = Some (Some c), up_callback = None\<rparr>"

lemma demo_reachable:
  "\<exists>s. reachable [demo_update 1 7] s \<and> ds_handled s = [demo_update 1 7]"
proof -
  let ?u = "demo_update 1 7"
  have c: "updateChatID ?u = Some 7" by (simp add: demo_update_def updateChatID_def)
  let ?s1 = "(start [?u])\<lparr>ds_updates := [], ds_queues := (\<lambda>_. [])(queue_of 7 := [?u])\<rparr>"
  have 1: "reachable [?u] ?s1"
    by (rule reachable.step [OF reachable.initial], use dstep.enqueue [of "start [?u]" ?u "[]" 7] c in
        \<open>simp add: start_def queueSize_def\<close>)
  have "reachable [?u] (?s1\<lparr>ds_queues := (ds_queues ?s1)(queue_of 7 := []),
      ds_workers := (ds_workers ?s1)(queue_of 7 := Handling ?u), ds_handled := ds_handled ?s1 @ [?u]\<rparr>)"
    by (rule reachable.step [OF 1], rule dstep.handle) (simp_all add: start_def queue_of_less)
  then show ?thesis by (intro exI conjI, assumption) (simp add: start_def)
qed

theorem updates_in_order_witness:
  "\<exists>s. reachable [demo_update 1 7] s \<and> ds_handled s = [demo_update 1 7] \<and>
     (\<exists>rest. filter (\<lambda>u. updateChatID u = Some 7) [demo_update 1 7] = filter (\<lambda>u. updateChatID u = Some 7) (ds_handled s) @ rest)"
  using demo_reachable updates_in_order [of "[demo_update 1 7]" _ 7] by blast

section \<open>Termination\<close>

text \<open>The steps other than the cancellation, from a state that is not cancelled.\<close>

definition progress :: "dispatcher \<Rightarrow> dispatcher \<Rightarrow> bool" where
  "progress s s' \<longleftrightarrow> dstep s s' \<and> \<not> ds_cancelled s'"

fun worker_weight :: "worker \<Rightarrow> nat" where
  "worker_weight Waiting = 1"
| "worker_weight (Handling u) = 2"
| "worker_weight Returned = 0"

definition remaining :: "dispatcher \<Rightarrow> nat" where
  "remaining s = 4 * length (ds_updates s) + (if ds_closed s then 0 else 1) +
     (\<Sum>w<dispatcherWorkers. 3 * length (ds_queues s w) + worker_weight (ds_workers s w))"

lemma sum_change:
  fixes f g :: "nat \<Rightarrow> nat"
  assumes "w < n" and "\<And>v. v \<noteq> w \<Longrightarrow> g v = f v"
  shows "sum g {..<n} + f w = sum f {..<n} + g w"
proof -
  have "sum g {..<n} = g w + sum g ({..<n} - {w})" "sum f {..<n} = f w + sum f ({..<n} - {w})"
    using assms(1) by (simp_all add: sum.remove)
  moreover have "sum g ({..<n} - {w}) = sum f ({..<n} - {w})" using assms(2) by (intro sum.cong) auto
  ultimately show ?thesis by simp
qed

lemma remaining_worker:
  assumes "w < dispatcherWorkers" and "ds_updates s' = ds_updates s" and "ds_closed s' = ds_closed s"
    and "\<And>v. v \<noteq> w \<Longrightarrow> ds_queues s' v = ds_queues s v \<and> ds_workers s' v = ds_workers s v"
    and "3 * length (ds_queues s' w) + worker_weight (ds_workers s' w) <
      3 * length (ds_queues s w) + worker_weight (ds_workers s w)"
  shows "remaining s' < remaining s"
proof -
  let ?f = "\<lambda>s w. 3 * length (ds_queues s w) + worker_weight (ds_workers s w)"
  have "sum (?f s') {..<dispatcherWorkers} + ?f s w = sum (?f s) {..<dispatcherWorkers} + ?f s' w"
    by (rule sum_change [OF assms(1)]) (simp add: assms(4))
  with assms(2,3,5) show ?thesis by (simp add: remaining_def)
qed

lemma remaining_step: "dstep s s' \<Longrightarrow> remaining s' < remaining s \<or> s' = s\<lparr>ds_cancelled := True\<rparr>"
proof (induction rule: dstep.induct)
  case (enqueue s u us c)
  let ?s' = "s\<lparr>ds_updates := us, ds_queues := (ds_queues s)(queue_of c := ds_queues s (queue_of c) @ [u])\<rparr>"
  let ?f = "\<lambda>s w. 3 * length (ds_queues s w) + worker_weight (ds_workers s w)"
  have "sum (?f ?s') {..<dispatcherWorkers} + ?f s (queue_of c) =
      sum (?f s) {..<dispatcherWorkers} + ?f ?s' (queue_of c)"
    by (rule sum_change [OF queue_of_less]) simp
  with enqueue have "remaining ?s' < remaining s" by (simp add: remaining_def)
  then show ?case ..
next
  case (handle w s u q)
  then show ?case by (intro disjI1 remaining_worker [of w]) simp_all
next
  case (drop w s u q)
  then show ?case by (intro disjI1 remaining_worker [of w]) simp_all
next
  case (finish w s u)
  then show ?case by (intro disjI1 remaining_worker [of w]) simp_all
next
  case (return_cancelled w s)
  then show ?case by (intro disjI1 remaining_worker [of w]) simp_all
next
  case (return_closed w s)
  then show ?case by (intro disjI1 remaining_worker [of w]) simp_all
qed (auto simp: remaining_def)

lemma remaining_reachable: "reachable us s \<Longrightarrow> remaining s \<le> 4 * length us + 9"
proof (induction rule: reachable.induct)
  case initial
  then show ?case by (simp add: remaining_def start_def dispatcherWorkers_def)
next
  case (step s s')
  from remaining_step [OF step(2)] step(3) show ?case by (auto simp: remaining_def)
qed

lemma progress_steps:
  assumes "(progress ^^ n) s s'" and "reachable us s" and "\<not> ds_cancelled s"
  shows "n + remaining s' \<le> remaining s \<and> reachable us s' \<and> \<not> ds_cancelled s'"
  using assms(1)
proof (induction n arbitrary: s')
  case 0
  with assms show ?case by simp
next
  case (Suc n)
  then obtain t where t: "(progress ^^ n) s t" "progress t s'" by auto
  with Suc.IH have "n + remaining t \<le> remaining s" "reachable us t" by blast+
  moreover have "remaining s' < remaining t"
    using remaining_step [of t s'] t(2) by (auto simp: progress_def)
  ultimately show ?case using t(2) reachable.step [of us t s'] by (simp add: progress_def)
qed

lemma stuck_completed:
  assumes "reachable us s" and "\<not> ds_cancelled s"
    and stuck: "\<nexists>s'. progress s s'"
  shows "ds_updates s = [] \<and> (\<forall>w < dispatcherWorkers. ds_workers s w = Returned) \<and>
    (\<forall>c. filter (\<lambda>u. updateChatID u = Some c) (ds_handled s) = filter (\<lambda>u. updateChatID u = Some c) us)"
proof -
  note inv = reachable_inv [OF assms(1)]
  have no: "\<not> dstep s s'" if "ds_cancelled s' = ds_cancelled s" for s'
    using stuck that assms(2) by (auto simp: progress_def)
  have idle: "ds_workers s w \<noteq> Handling u" if "w < dispatcherWorkers" for w u
    using no [OF _, of "s\<lparr>ds_workers := (ds_workers s)(w := Waiting)\<rparr>"] dstep.finish [of w s u] that by auto
  have empty: "ds_queues s w = []" if "w < dispatcherWorkers" for w
  proof (cases "ds_workers s w")
    case Waiting
    then show ?thesis
      using no dstep.handle [OF that Waiting _ assms(2)] by (cases "ds_queues s w") auto
  next
    case (Handling u)
    then show ?thesis using idle [OF that] by blast
  next
    case Returned
    then show ?thesis using inv assms(2) by (simp add: dispatch_inv_def)
  qed
  have received: "ds_closed s"
  proof (rule ccontr)
    assume opened: "\<not> ds_closed s"
    show False
    proof (cases "ds_updates s")
      case Nil
      then show False using no dstep.close [OF opened] by auto
    next
      case (Cons u vs)
      show False
      proof (cases "updateChatID u")
        case None
        then show False using no dstep.skip [OF opened Cons] by auto
      next
        case (Some c)
        have "length (ds_queues s (queue_of c)) < queueSize"
          using empty [OF queue_of_less] by (simp add: queueSize_def)
        then show False using no dstep.enqueue [OF opened Cons Some] by auto
      qed
    qed
  qed
  then have drained: "ds_updates s = []" using inv assms(2) by (simp add: dispatch_inv_def)
  have "ds_workers s w = Returned" if "w < dispatcherWorkers" for w
    using idle [OF that] no dstep.return_closed [OF that _ received empty [OF that]]
    by (cases "ds_workers s w") auto
  moreover have "of_chat c (ds_handled s) = of_chat c us" for c
    using inv assms(2) empty [OF queue_of_less] drained by (auto simp: dispatch_inv_def)
  ultimately show ?thesis using drained by (simp add: of_chat_def)
qed

lemma completed_run: "\<exists>n s'. (progress ^^ n) s s' \<and> \<not> (\<exists>s''. progress s' s'')"
proof (induction "remaining s" arbitrary: s rule: less_induct)
  case less
  show ?case
  proof (cases "\<exists>t. progress s t")
    case True
    then obtain t where t: "progress s t" by blast
    then have "remaining t < remaining s" using remaining_step [of s t] by (auto simp: progress_def)
    from less [OF this] obtain n s' where "(progress ^^ n) t s'" "\<not> (\<exists>s''. progress s' s'')" by blast
    with t show ?thesis by (intro exI [of _ "Suc n"] exI [of _ s']) (auto intro: relpowp_Suc_I2 simp del: relpowp.simps)
  next
    case False
    then show ?thesis by (intro exI [of _ 0] exI [of _ s]) simp
  qed
qed

text \<open>
  C30: the dispatcher always comes to an end and loses nothing: as long as the context is not
  cancelled, at most four steps for every update and nine more are possible, and when
  none is possible any more, every update was received, every update that names a chat was
  handled, in the order of its chat, and all eight workers have returned.
\<close>

theorem dispatcher_completes:
  assumes "reachable us s" and "\<not> ds_cancelled s" and "(progress ^^ n) s s'"
  shows "n \<le> 4 * length us + 9 \<and>
    ((\<exists>s''. progress s' s'') \<or>
     ds_updates s' = [] \<and> (\<forall>w < dispatcherWorkers. ds_workers s' w = Returned) \<and>
     (\<forall>c. filter (\<lambda>u. updateChatID u = Some c) (ds_handled s') = filter (\<lambda>u. updateChatID u = Some c) us))"
proof -
  from progress_steps [OF assms(3,1,2)]
  have "n + remaining s' \<le> remaining s" "reachable us s'" "\<not> ds_cancelled s'" by blast+
  with remaining_reachable [OF assms(1)] stuck_completed [of us s'] show ?thesis by fastforce
qed

theorem dispatcher_completes_witness:
  "\<exists>n s. (progress ^^ n) (start [demo_update 1 7]) s \<and> n \<le> 13 \<and> (\<forall>w < 8. ds_workers s w = Returned) \<and>
     filter (\<lambda>u. updateChatID u = Some 7) (ds_handled s) = [demo_update 1 7]"
proof -
  obtain n s where run: "(progress ^^ n) (start [demo_update 1 7]) s" and "\<not> (\<exists>s''. progress s s'')"
    using completed_run [of "start [demo_update 1 7]"] by blast
  with dispatcher_completes [OF reachable.initial _ run] show ?thesis
    by (intro exI [of _ n] exI [of _ s]) (simp add: start_def dispatcherWorkers_def demo_update_def updateChatID_def)
qed

end
