(* ===== verification/Spec2Isabelle.thy ===== *)
theory Spec2Isabelle
  imports BrokerLaws SetupLaws StartupLaws LifecycleLaws Telegram PageLaws TestHelper Buttons EndToEnd ExtractorLaws NotifierLaws MyListLaws Dispatcher
begin

text \<open>
  A verification library of the price monitor: five services, of which the Telegram bot takes a
  product link and two prices from a user, the gateway keeps users, products and subscriptions, the
  scheduler says when a product is checked, the extractor reads its page, and the notifier sends the
  alerts. They share PostgreSQL tables (one schema per service) and RabbitMQ queues.

  \<^bold>\<open>How the parts interact.\<close> The bot calls the gateway over HTTP. Every change of a subscription writes,
  in one transaction, a numbered snapshot of its product to the gateway's outbox; the outbox worker
  publishes it to \<open>track.requests\<close>; the scheduler stores the newest snapshot of each product, puts due
  checks and forced ones in its own outbox, from where they reach \<open>scraper.tasks\<close>; the extractor answers
  them, and lookups from \<open>lookup.tasks\<close>, on \<open>price.results\<close>; the gateway records the prices and puts
  the alerts in its outbox for \<open>notify.tasks\<close>, which the notifier sends, retries or moves to
  \<open>notify.dead\<close>.

  \<^bold>\<open>The theories\<close>, in the order they build on each other; a theory named \<open>XLaws\<close> or \<open>XProps\<close> holds the
  proofs on the definitions of \<open>X\<close>.
  \<^item> \<open>Prelude\<close>, \<open>GoStrings\<close>, \<open>Utf8\<close>: Go's integers, floats, strings, \<open>strconv\<close>, \<open>fmt\<close>, runes, and the SQL
    statements on row lists (\<open>update_where\<close>, \<open>exists_where\<close>, ...), with the \<open>named_theorems\<close> the proofs use.
  \<^item> \<open>Contracts\<close> (\<open>shared/pkg/contracts\<close>), \<open>Platform\<close> (\<open>shared/pkg/platform\<close>): messages and URLs.
  \<^item> \<open>Outbox\<close>: the outbox table, the three operations of each store on it, and the worker of
    \<open>shared/pkg/outbox/worker.go\<close>; the locale \<open>outbox_store\<close> is the worker's \<open>Store\<close> interface,
    interpreted for both stores.
  \<^item> \<open>Broker\<close> (\<open>shared/pkg/broker/rabbitmq.go\<close>): publishing with confirms as processes that share the
    connection's fields, and the setup of connections and queues. \<open>Setup\<close>: one \<open>openPublisher\<close> with the
    callbacks that may close its socket, and the guard of a write.
  \<^item> \<open>Consumer\<close>: the loop all consumers share and the locale \<open>at_least_once\<close> of redelivery.
  \<^item> \<open>GatewayStore\<close> with \<open>GatewayLaws\<close>, \<open>GatewayResults\<close>, \<open>GatewayProps\<close>
    (\<open>services/gateway/internal/store\<close>, \<open>consumer\<close>, \<open>cleaner\<close>): one definition per transaction.
  \<^item> \<open>Handler\<close> (\<open>services/gateway/internal/handler\<close>): one definition per HTTP handler.
  \<^item> \<open>Scheduler\<close> (\<open>services/scheduler\<close>), \<open>EndToEnd\<close>: the scheduler, and that it follows the gateway.
  \<^item> \<open>Marketplace\<close>, \<open>PageScript\<close>, \<open>PageLaws\<close> (\<open>shared/pkg/marketplace\<close>): the script that reads a page and
    what becomes of its answer. \<open>Extractor\<close> (\<open>services/extractor\<close>), \<open>Notifier\<close> (\<open>services/notifier\<close>).
  \<^item> \<open>BotState\<close>, \<open>BotGateway\<close>, \<open>BotTexts\<close>, \<open>MyList\<close>, \<open>Bot\<close>, \<open>Dispatcher\<close> (\<open>services/bot/internal/bot\<close> and
    \<open>state\<close>): sessions, dialogues, background lookups, the pages of the product list, and the queues
    that keep the updates of a chat in order.
  \<^item> \<open>Client\<close> (\<open>services/bot/internal/gateway\<close>), \<open>Dialogue\<close>: the bot's HTTP client over the gateway's
    router, and the bot, the client and the gateway together: the end of the dialogue about a new
    subscription. \<open>Buttons\<close>: the buttons of the product list, down to the rows they change.
  \<^item> \<open>Startup\<close> (\<open>internal/config\<close> and \<open>main.go\<close> of each service): configuration, the queues each
    service declares, and the polling of Telegram.
  \<^item> \<open>Telegram\<close>: how the bot is made, how it reports errors, and its HTTP client.
  \<^item> \<open>Lifecycle\<close> (the same \<open>main.go\<close>): the constructors and hooks given to \<open>fx\<close>, as scripts, and the
    process that runs them with the goroutines they start, from the first \<open>OnStart\<close> to the last \<open>OnStop\<close>.
  \<^item> \<open>TestHelper\<close> (\<open>shared/cmd/testhelper\<close>): the two commands of the integration tests.

  \<^bold>\<open>How state and effects are modelled.\<close> A table is a list of row records, a database a record of
  tables. A store call is one function on it, with an environment that holds the server's clock, the
  UUIDs it draws, the statements that fail (\<open>faults\<close>, by number), and what other transactions did in
  between where the isolation level lets it show; it returns the database, unchanged after an error,
  with a value of a sum type. A service is a run of such calls in any order (\<open>gw_run\<close>, \<open>sched_run\<close>),
  so that what holds of every run holds of every interleaving of transactions. Messages may be
  delivered again and in any order. Times and durations are integers of nanoseconds, 64-bit where the
  code's arithmetic can overflow; prices are \<open>float64\<close> values, exact rationals with NaN and the
  infinities. Strings are byte strings; literals outside ASCII are written as their bytes.
  The bot's handlers are steps of a state machine (\<open>bot_run\<close>): a handler of one chat is one step,
  since it only shares the session store and the table of lookups with the others, under mutexes it
  takes once per access to its own chat, and what a background lookup does between its calls is a
  step of its own (\<open>lookup_step\<close>). The dispatcher and the publisher, where the interleaving matters
  inside a function, are step relations with one rule per critical section or blocking operation.

  \<^bold>\<open>What the lemmas show.\<close> For each store: the invariant of its tables under every transaction
  (\<open>gw_wf\<close>, \<open>sched_wf\<close>), and the outcome of each operation on every branch. For the outbox: an event is
  marked only after it was published, a lease is exclusive whatever the store does while it lasts,
  every event is published eventually if the broker recovers. For the handlers: what each request
  does to the tables, and that a chat learns nothing of other chats' subscriptions. Between gateway and scheduler: after the newest snapshot was delivered the scheduler
  checks exactly the products with a running subscription. For the publisher: its confirmations are
  those of its own message, a cancelled call is never blocked, and its setup leaves nothing behind that
  could close it. For the bot: the invariant of sessions and lookups, the ends of the waiting, order of
  updates, and the correspondence of each of its client's methods with one handler of the gateway. For
  the extractor: the price a page shows is the price it reports. For the processes: nothing is closed
  under a goroutine or a request that uses it.

  \<^bold>\<open>Bounds and termination.\<close> There is no fuel: loops are structural recursions, or functions with a
  measure (\<open>poll_loop\<close>, \<open>connect_loop\<close>, the scanners), and the loops that may run for ever (consumers,
  workers, polling) are functions of the finite part of their events that has happened, so that a
  property of all of them is one of every moment of an infinite run. A background lookup has five kinds of
  steps, one per access to shared state, the return of its slot and the removal of its entry being two.

  \<^bold>\<open>Parameters\<close> are what the sources only call: PostgreSQL's parsing of UUIDs and its rounding of
  numbers and times (\<open>services\<close>), the browser and the page it loads (\<open>Marketplace\<close>, \<open>PageScript\<close>), the
  HTTP transports of Telegram and of the bot's client, the order in which \<open>fx\<close> calls constructors, what
  \<open>strconv.ParseFloat\<close> does to texts that are not plain decimals, formatting of times. Hypotheses on
  them are in the statements that need them: that a request of the notifier ends within the client's
  timeout, or that a request of the bot reaches the gateway. Two documented behaviours are built into
  definitions: \<open>life_step\<close> runs the hooks of \<open>fx\<close> in order and stops them in reverse, and a transaction
  whose \<open>Commit\<close> reports an error has changed nothing.

  \<^bold>\<open>Not modelled.\<close> A \<open>Commit\<close> that PostgreSQL applied although the connection broke before its answer;
  logging; gin's routing of requests other than the client's, \<open>BodyLimit\<close> and
  \<open>RequestLogger\<close>; starting the browser; opening the database pool. The SQL text itself is not parsed:
  each statement is translated by hand into the operation on rows that the map of the manifest places
  beside its lines.
\<close>

end
